(* ===== verification/Rom_Prelude.thy ===== *)
theory Rom_Prelude
  imports Main "HOL-Library.Word" "HOL-Library.AList" "HOL-Library.List_Lexorder"
begin

text \<open>
  Shared vocabulary of the ROM development.

  \<^item> Names for the machine types of the C++ sources: \<^verbatim>\<open>uint8_t\<close> to \<^verbatim>\<open>uint64_t\<close> are words of that width,
    a byte buffer (\<^verbatim>\<open>std::vector<uint8_t>\<close>, or a pointer with its length) is a list of bytes, and a
    pointer \<^verbatim>\<open>data + off\<close> into a buffer is the suffix \<open>drop off data\<close>.
  \<^item> \<open>put_bytes\<close> is \<^verbatim>\<open>memcpy(buf + off, bs, len)\<close> into a buffer of fixed size.
  \<^item> \<^verbatim>\<open>std::unordered_map\<close> is an association list with distinct keys whose order is the container's
    iteration order (which C++ leaves open; a new key goes to the end here); its operations
    are \<^verbatim>\<open>AList.update\<close> and \<^verbatim>\<open>AList.delete\<close> of the library. \<^verbatim>\<open>std::set\<close> and \<^verbatim>\<open>std::map\<close>, whose
    iteration order is the key order, are sorted lists.
  \<^item> The locale \<open>keyed_store\<close> is the contract of both kinds of map; it is interpreted below on
    the association list and on the ordered map.
\<close>

unbundle bit_operations_syntax

type_synonym u8 = "8 word"
type_synonym u16 = "16 word"
type_synonym u32 = "32 word"
type_synonym u64 = "64 word"
type_synonym bytes = "u8 list"

named_theorems wire_simps \<open>byte-level encoding and decoding\<close>
named_theorems buf_simps \<open>fixed-size buffers written in place\<close>
named_theorems store_simps \<open>lookup after update in keyed containers\<close>

definition put_bytes :: "bytes \<Rightarrow> nat \<Rightarrow> bytes \<Rightarrow> bytes" where
  "put_bytes buf off bs = take off buf @ bs @ drop (off + length bs) buf"

text \<open>Unordered maps: the library's association lists with distinct keys.\<close>

type_synonym ('k, 'v) umap = "('k \<times> 'v) list"

abbreviation um_put :: "'k \<Rightarrow> 'v \<Rightarrow> ('k, 'v) umap \<Rightarrow> ('k, 'v) umap" where
  "um_put \<equiv> AList.update"

abbreviation um_erase :: "'k \<Rightarrow> ('k, 'v) umap \<Rightarrow> ('k, 'v) umap" where
  "um_erase \<equiv> AList.delete"

abbreviation um_find :: "('k, 'v) umap \<Rightarrow> 'k \<Rightarrow> 'v option" where
  "um_find \<equiv> map_of"

abbreviation um_ok :: "('k, 'v) umap \<Rightarrow> bool" where
  "um_ok m \<equiv> distinct (map fst m)"

text \<open>Ordered maps: association lists sorted by key.\<close>

fun om_put :: "'k::linorder \<Rightarrow> 'v \<Rightarrow> ('k \<times> 'v) list \<Rightarrow> ('k \<times> 'v) list" where
  "om_put k v [] = [(k, v)]"
| "om_put k v (e # es) =
     (if k < fst e then (k, v) # e # es
      else if k = fst e then (k, v) # es
      else e # om_put k v es)"

definition om_erase :: "'k::linorder \<Rightarrow> ('k \<times> 'v) list \<Rightarrow> ('k \<times> 'v) list" where
  "om_erase k m = filter (\<lambda>e. fst e \<noteq> k) m"

definition om_ok :: "('k::linorder \<times> 'v) list \<Rightarrow> bool" where
  "om_ok m \<longleftrightarrow> sorted_wrt (<) (map fst m)"

text \<open>Ordered sets: strictly sorted lists.\<close>

abbreviation os_insert :: "'a::linorder \<Rightarrow> 'a list \<Rightarrow> 'a list" where
  "os_insert \<equiv> insort_insert"

definition os_erase :: "'a::linorder \<Rightarrow> 'a list \<Rightarrow> 'a list" where
  "os_erase x xs = filter (\<lambda>y. y \<noteq> x) xs"

definition os_ok :: "'a::linorder list \<Rightarrow> bool" where
  "os_ok xs \<longleftrightarrow> sorted_wrt (<) xs"

text \<open>The contract of a keyed container, used for both kinds of map.\<close>

locale keyed_store =
  fixes find :: "'m \<Rightarrow> 'k \<Rightarrow> 'v option"
    and put :: "'k \<Rightarrow> 'v \<Rightarrow> 'm \<Rightarrow> 'm"
    and erase :: "'k \<Rightarrow> 'm \<Rightarrow> 'm"
    and ok :: "'m \<Rightarrow> bool"
  assumes find_put: "ok m \<Longrightarrow> find (put k v m) k' = (if k' = k then Some v else find m k')"
    and find_erase: "ok m \<Longrightarrow> find (erase k m) k' = (if k' = k then None else find m k')"
    and ok_put: "ok m \<Longrightarrow> ok (put k v m)"
    and ok_erase: "ok m \<Longrightarrow> ok (erase k m)"
begin

lemma put_put_find: "ok m \<Longrightarrow> find (put k v (put k w m)) k' = find (put k v m) k'"
  by (simp add: find_put ok_put)

lemma erase_put_find: "ok m \<Longrightarrow> find (erase k (put k v m)) k' = find (erase k m) k'"
  by (simp add: find_put find_erase ok_put)

lemma put_other_commute:
  "ok m \<Longrightarrow> k \<noteq> l \<Longrightarrow> find (put k v (put l w m)) x = find (put l w (put k v m)) x"
  by (simp add: find_put ok_put)

lemma fold_put_frame:
  "ok m \<Longrightarrow> k \<notin> fst ` set kvs \<Longrightarrow> find (fold (\<lambda>(a, b). put a b) kvs m) k = find m k"
  by (induction kvs arbitrary: m) (auto simp: find_put ok_put)

lemma fold_put_ok: "ok m \<Longrightarrow> ok (fold (\<lambda>(a, b). put a b) kvs m)"
  by (induction kvs arbitrary: m) (auto simp: ok_put)

end

text \<open>Buffers.\<close>

lemma length_put_bytes [simp]:
  "off + length bs \<le> length buf \<Longrightarrow> length (put_bytes buf off bs) = length buf"
  by (simp add: put_bytes_def)

lemma put_bytes_0 [buf_simps]: "put_bytes buf 0 bs = bs @ drop (length bs) buf"
  by (simp add: put_bytes_def)

lemma put_bytes_append [buf_simps]:
  "length xs \<le> off \<Longrightarrow> put_bytes (xs @ ys) off bs = xs @ put_bytes ys (off - length xs) bs"
  by (simp add: put_bytes_def)

lemma put_bytes_Cons [buf_simps]:
  "0 < off \<Longrightarrow> put_bytes (x # ys) off bs = x # put_bytes ys (off - 1) bs"
  by (simp add: put_bytes_def take_Cons' drop_Cons')

lemma list_update_put_bytes: "off < length buf \<Longrightarrow> buf[off := v] = put_bytes buf off [v]"
  by (simp add: put_bytes_def upd_conv_take_nth_drop)

lemma take_put_bytes:
  "n \<le> off \<Longrightarrow> off \<le> length buf \<Longrightarrow> take n (put_bytes buf off bs) = take n buf"
  by (simp add: put_bytes_def)

lemma drop_put_bytes:
  "off + length bs \<le> n \<Longrightarrow> off \<le> length buf \<Longrightarrow> drop n (put_bytes buf off bs) = drop n buf"
  by (simp add: put_bytes_def)

lemma take_put_bytes_end:
  "off \<le> length buf \<Longrightarrow> take (off + length bs) (put_bytes buf off bs) = take off buf @ bs"
  by (simp add: put_bytes_def)

lemma drop_zeros:
  assumes "drop n xs = replicate (length xs - n) z"
  shows "drop (n + k) xs = replicate (length xs - (n + k)) z"
proof -
  have "drop (n + k) xs = drop k (drop n xs)" by (simp add: add.commute)
  with assms show ?thesis by simp
qed

text \<open>Association lists.\<close>

lemma um_ok_put [simp]: "um_ok m \<Longrightarrow> um_ok (um_put k v m)"
  by (rule distinct_update)

lemma um_ok_erase [simp]: "um_ok m \<Longrightarrow> um_ok (um_erase k m)"
  by (rule distinct_delete)

lemmas um_lookups [store_simps] = update_conv' delete_conv'

interpretation umap_store: keyed_store um_find um_put um_erase um_ok
  by unfold_locales (simp_all add: store_simps)

lemma um_keys_put: "fst ` set (um_put k v m) = insert k (fst ` set m)"
  by (induction m) auto

lemma um_put_new: "um_find m k = None \<Longrightarrow> um_put k v m = m @ [(k, v)]"
  by (induction m) (auto split: if_splits)

lemma um_erase_conv_filter: "um_erase k m = filter (\<lambda>e. fst e \<noteq> k) m"
  by (induction m) auto

lemma um_erase_absent: "um_find m k = None \<Longrightarrow> um_erase k m = m"
  by (simp add: map_of_eq_None_iff)

text \<open>Ordered sets and maps.\<close>

lemma os_ok_iff: "os_ok xs \<longleftrightarrow> sorted xs \<and> distinct xs"
  by (auto simp: os_ok_def strict_sorted_iff)

lemma os_ok_Nil [simp]: "os_ok []"
  by (simp add: os_ok_def)

lemma os_ok_insert [simp]: "os_ok xs \<Longrightarrow> os_ok (os_insert x xs)"
  by (simp add: os_ok_iff sorted_insort_insert distinct_insort_insert)

lemma os_ok_erase [simp]: "os_ok xs \<Longrightarrow> os_ok (os_erase x xs)"
  by (simp add: os_ok_def os_erase_def sorted_wrt_filter)

lemma set_os_insert [simp]: "set (os_insert x xs) = insert x (set xs)"
  by (rule set_insort_insert)

lemma set_os_erase [simp]: "set (os_erase x xs) = set xs - {x}"
  by (auto simp: os_erase_def)

lemma os_ok_eqI: "os_ok xs \<Longrightarrow> os_ok ys \<Longrightarrow> set xs = set ys \<Longrightarrow> xs = ys"
  by (simp add: os_ok_iff sorted_distinct_set_unique)

lemma om_ok_Nil [simp]: "om_ok []"
  by (simp add: om_ok_def)

lemma om_keys_put: "fst ` set (om_put k v m) = insert k (fst ` set m)"
  by (induction m) auto

lemma om_put_keys_sorted: "sorted_wrt (<) (map fst m) \<Longrightarrow> sorted_wrt (<) (map fst (om_put k v m))"
proof (induction m)
  case Nil
  then show ?case by simp
next
  case (Cons e es)
  show ?case
  proof (cases "k < fst e \<or> k = fst e")
    case True
    with Cons.prems show ?thesis by (auto intro: less_trans)
  next
    case False
    then have lt: "fst e < k" by auto
    have "\<forall>y \<in> fst ` set (om_put k v es). fst e < y"
      using Cons.prems lt by (auto simp: om_keys_put)
    with False Cons show ?thesis by auto
  qed
qed

lemma om_ok_put [simp]: "om_ok m \<Longrightarrow> om_ok (om_put k v m)"
  by (simp add: om_ok_def om_put_keys_sorted)

lemma om_ok_erase [simp]: "om_ok m \<Longrightarrow> om_ok (om_erase k m)"
proof -
  have "map fst (om_erase k m) = filter (\<lambda>x. x \<noteq> k) (map fst m)"
    by (simp add: om_erase_def filter_map o_def)
  then show "om_ok m \<Longrightarrow> om_ok (om_erase k m)"
    by (simp add: om_ok_def sorted_wrt_filter)
qed

lemma om_ok_distinct: "om_ok m \<Longrightarrow> distinct (map fst m)"
  by (simp add: om_ok_def strict_sorted_iff)

lemma map_of_om_put: "om_ok m \<Longrightarrow> map_of (om_put k v m) = (map_of m)(k \<mapsto> v)"
proof (induction m)
  case Nil
  then show ?case by simp
next
  case (Cons e es)
  then have "om_ok es" by (simp add: om_ok_def)
  with Cons show ?case by (cases e) (auto simp: fun_eq_iff)
qed

lemma map_of_om_erase: "map_of (om_erase k m) = (map_of m)(k := None)"
  by (induction m) (auto simp: om_erase_def fun_eq_iff)

lemmas om_lookups [store_simps] = map_of_om_put map_of_om_erase

interpretation omap_store: keyed_store map_of om_put om_erase om_ok
  by unfold_locales (simp_all add: store_simps)

text \<open>Two ordered maps with the same bindings are the same list.\<close>

lemma alist_as_keys:
  assumes "distinct (map fst m)"
  shows "m = map (\<lambda>k. (k, the (map_of m k))) (map fst m)"
proof -
  have "map (\<lambda>e. (fst e, the (map_of m (fst e)))) m = map (\<lambda>e. e) m"
    using assms by (intro map_cong) auto
  then show ?thesis by (simp add: o_def)
qed

lemma om_ok_eqI:
  assumes "om_ok m" "om_ok m'" "map_of m = map_of m'"
  shows "m = m'"
proof -
  have d: "distinct (map fst m)" "distinct (map fst m')"
    using assms by (auto dest: om_ok_distinct)
  have "set m = set m'"
    using map_of_inject_set [OF d] assms(3) by blast
  then have keys: "map fst m = map fst m'"
    using assms(1,2) by (intro sorted_distinct_set_unique) (auto simp: om_ok_def strict_sorted_iff)
  have "m = map (\<lambda>k. (k, the (map_of m k))) (map fst m)"
    using d(1) by (rule alist_as_keys)
  also have "\<dots> = m'"
    using alist_as_keys [OF d(2)] keys assms(3) by simp
  finally show ?thesis .
qed

end
