(* ===== verification/Bytes.thy ===== *)
theory Bytes
  imports Rom_Prelude
begin

text \<open>
  The byte-order helpers of \<^verbatim>\<open>include/protocoll/util/platform.h\<close>. The source reads and writes
  integers through \<^verbatim>\<open>memcpy\<close> on a little-endian host and swaps the bytes; \<open>load_le\<close> and \<open>store_le\<close>
  are those copies, \<open>bswap16\<close> and \<open>bswap32\<close> the swaps. The lemmas show that the
  composition is big-endian encoding (\<open>be16\<close>, \<open>be32\<close>), in both directions.

  The locale \<open>fixed_codec\<close> is the contract every fixed-size wire structure of the program
  meets: an encoder that refuses a short buffer and otherwise overwrites exactly the first
  \<open>sz\<close> bytes, and a decoder that refuses a short buffer and otherwise reads exactly
  those bytes back.
\<close>

definition load_le16 :: "bytes \<Rightarrow> u16" where
  "load_le16 p = ucast (p ! 0) OR push_bit 8 (ucast (p ! 1))"

definition load_le32 :: "bytes \<Rightarrow> u32" where
  "load_le32 p = ucast (p ! 0) OR push_bit 8 (ucast (p ! 1)) OR
     push_bit 16 (ucast (p ! 2)) OR push_bit 24 (ucast (p ! 3))"

definition store_le16 :: "u16 \<Rightarrow> bytes" where
  "store_le16 v = [ucast v, ucast (drop_bit 8 v)]"

definition store_le32 :: "u32 \<Rightarrow> bytes" where
  "store_le32 v = [ucast v, ucast (drop_bit 8 v), ucast (drop_bit 16 v), ucast (drop_bit 24 v)]"

text \<open>\<^verbatim>\<open>__builtin_bswap16\<close> and \<^verbatim>\<open>__builtin_bswap32\<close> reverse the bytes of the value.\<close>

definition bswap16 :: "u16 \<Rightarrow> u16" where
  "bswap16 v = load_le16 (rev (store_le16 v))"

definition bswap32 :: "u32 \<Rightarrow> u32" where
  "bswap32 v = load_le32 (rev (store_le32 v))"

definition read_u16 :: "bytes \<Rightarrow> u16" where
  "read_u16 p = bswap16 (load_le16 p)"

definition read_u32 :: "bytes \<Rightarrow> u32" where
  "read_u32 p = bswap32 (load_le32 p)"

definition write_u16 :: "bytes \<Rightarrow> nat \<Rightarrow> u16 \<Rightarrow> bytes" where
  "write_u16 buf off v = put_bytes buf off (store_le16 (bswap16 v))"

definition write_u32 :: "bytes \<Rightarrow> nat \<Rightarrow> u32 \<Rightarrow> bytes" where
  "write_u32 buf off v = put_bytes buf off (store_le32 (bswap32 v))"

text \<open>The reference: big-endian encoding, most significant byte first.\<close>

definition be16 :: "u16 \<Rightarrow> bytes" where
  "be16 v = [ucast (drop_bit 8 v), ucast v]"

definition be32 :: "u32 \<Rightarrow> bytes" where
  "be32 v = [ucast (drop_bit 24 v), ucast (drop_bit 16 v), ucast (drop_bit 8 v), ucast v]"

text \<open>The contract of a fixed-size wire structure. \<open>wire\<close> is the bytes it occupies.\<close>

locale fixed_codec =
  fixes enc :: "'a \<Rightarrow> bytes \<Rightarrow> bytes option"
    and dec :: "bytes \<Rightarrow> 'a option"
    and wire :: "'a \<Rightarrow> bytes"
    and wf :: "'a \<Rightarrow> bool"
    and sz :: nat
  assumes enc_short: "length buf < sz \<Longrightarrow> enc x buf = None"
    and enc_ok: "sz \<le> length buf \<Longrightarrow> enc x buf = Some (wire x @ drop sz buf)"
    and wire_len: "length (wire x) = sz"
    and dec_short: "length b < sz \<Longrightarrow> dec b = None"
    and dec_wire: "wf x \<Longrightarrow> dec (wire x @ rest) = Some x"
    and dec_total: "sz \<le> length b \<Longrightarrow> \<exists>x. wf x \<and> dec b = Some x \<and> wire x = take sz b"
begin

lemma roundtrip: "wf x \<Longrightarrow> enc x buf = Some buf' \<Longrightarrow> dec buf' = Some x"
  by (metis dec_wire enc_ok enc_short not_le option.distinct(1) option.inject)

lemma dec_iff: "(\<exists>x. dec b = Some x) \<longleftrightarrow> sz \<le> length b"
  by (metis dec_short dec_total not_le option.distinct(1))

lemma reencode:
  assumes "dec b = Some x"
  shows "enc x b = Some b"
proof -
  have le: "sz \<le> length b" using assms dec_iff by blast
  then have "wire x = take sz b" using assms dec_total by fastforce
  with enc_ok [OF le, of x] show ?thesis by (simp only: append_take_drop_id)
qed

lemma dec_local:
  assumes "sz \<le> length b"
  shows "dec (take sz b @ rest) = dec b"
  using dec_total [OF assms] dec_wire by metis

lemma wire_inj: "wf x \<Longrightarrow> wf y \<Longrightarrow> wire x = wire y \<Longrightarrow> x = y"
  by (metis dec_wire option.inject)

lemma enc_length: "enc x buf = Some buf' \<Longrightarrow> length buf' = length buf"
  using enc_ok [of buf x] enc_short [of buf x] wire_len [of x]
  by (cases "sz \<le> length buf") auto

end

lemma length_be [simp]: "length (be16 v) = 2" "length (be32 w) = 4"
  by (simp_all add: be16_def be32_def)

lemma u8_bit_high [simp]: "8 \<le> n \<Longrightarrow> \<not> bit (w :: u8) n"
  using bit_imp_le_length [of w n] by auto

lemma load_store_le16: "load_le16 (store_le16 v) = v"
proof (rule bit_word_eqI)
  fix n :: nat
  assume "n < LENGTH(16)"
  then consider "n < 8" | "8 \<le> n" "n < 16" by force
  then show "bit (load_le16 (store_le16 v)) n = bit v n"
    by cases (simp_all add: load_le16_def store_le16_def bit_simps less_diff_conv2)
qed

lemma load_store_le32: "load_le32 (store_le32 v) = v"
proof (rule bit_word_eqI)
  fix n :: nat
  assume "n < LENGTH(32)"
  then consider "n < 8" | "8 \<le> n" "n < 16" | "16 \<le> n" "n < 24" | "24 \<le> n" "n < 32" by force
  then show "bit (load_le32 (store_le32 v)) n = bit v n"
    by cases (simp_all add: load_le32_def store_le32_def bit_simps less_diff_conv2)
qed

lemma store_load_le16: "store_le16 (load_le16 (a # b # r)) = [a, b]"
  by (auto simp: load_le16_def store_le16_def bit_simps intro!: bit_word_eqI)

lemma store_load_le32: "store_le32 (load_le32 (a # b # c # d # r)) = [a, b, c, d]"
  by (auto simp: load_le32_def store_le32_def bit_simps intro!: bit_word_eqI)

lemma store_bswap16: "store_le16 (bswap16 v) = be16 v"
  by (simp add: bswap16_def store_le16_def [of v] be16_def store_load_le16)

lemma store_bswap32: "store_le32 (bswap32 v) = be32 v"
  by (simp add: bswap32_def store_le32_def [of v] be32_def store_load_le32)

lemma write_u16_be [buf_simps]: "write_u16 buf off v = put_bytes buf off (be16 v)"
  by (simp add: write_u16_def store_bswap16)

lemma write_u32_be [buf_simps]: "write_u32 buf off v = put_bytes buf off (be32 v)"
  by (simp add: write_u32_def store_bswap32)

lemma read_u16_Cons: "read_u16 (a # b # r) = load_le16 [b, a]"
  by (simp add: read_u16_def bswap16_def store_load_le16)

lemma read_u32_Cons: "read_u32 (a # b # c # d # r) = load_le32 [d, c, b, a]"
  by (simp add: read_u32_def bswap32_def store_load_le32)

lemma be16_read [wire_simps]: "be16 (read_u16 (a # b # r)) = [a, b]"
  by (simp add: read_u16_def store_bswap16 [symmetric] bswap16_def store_load_le16)

lemma be32_read [wire_simps]: "be32 (read_u32 (a # b # c # d # r)) = [a, b, c, d]"
  by (simp add: read_u32_def store_bswap32 [symmetric] bswap32_def store_load_le32)

lemma rev_be: "rev (be16 v) = store_le16 v" "rev (be32 w) = store_le32 w"
  by (simp_all add: be16_def be32_def store_le16_def store_le32_def)

lemma read_be16 [wire_simps]: "read_u16 (be16 v @ r) = v"
proof -
  have "read_u16 (be16 v @ r) = load_le16 (rev (be16 v))"
    by (simp add: be16_def read_u16_Cons)
  then show ?thesis by (simp add: rev_be load_store_le16)
qed

lemma read_be32 [wire_simps]: "read_u32 (be32 v @ r) = v"
proof -
  have "read_u32 (be32 v @ r) = load_le32 (rev (be32 v))"
    by (simp add: be32_def read_u32_Cons)
  then show ?thesis by (simp add: rev_be load_store_le32)
qed

end
