(* ===== verification/Frame_Types.thy ===== *)
theory Frame_Types
  imports Bytes
begin

text \<open>
  The enumerations and size constants of \<^verbatim>\<open>include/protocoll/wire/frame_types.h\<close>, with the tier
  enumeration of \<^verbatim>\<open>include/protocoll/state/resolution.h\<close>. A C++ \<^verbatim>\<open>enum class : uint8_t\<close> holds every
  byte: \<^verbatim>\<open>static_cast<FrameType>(b)\<close> of a byte that names no enumerator keeps the byte. Each
  datatype therefore has one constructor per enumerator and one \<open>_other\<close> constructor for such a byte.
  \<open>X_code\<close> is the cast to \<^verbatim>\<open>uint8_t\<close>, \<open>X_of\<close> the cast from it, and \<open>X_wf\<close> says that an
  \<open>_other\<close> value does not hide an enumerator. Casting a byte and back is the identity.
\<close>

datatype frame_type =
    FT_STATE_DECLARE
  | FT_STATE_SNAPSHOT
  | FT_STATE_DELTA
  | FT_STATE_SUBSCRIBE
  | FT_STATE_UNSUBSCRIBE
  | FT_CREDIT
  | FT_ACK
  | FT_NACK
  | FT_CAPABILITY_GRANT
  | FT_CAPABILITY_REVOKE
  | FT_CLOCK_SYNC
  | FT_PING
  | FT_PONG
  | FT_CONNECT
  | FT_ACCEPT
  | FT_CLOSE
  | FT_ROUTE_ANNOUNCE
  | FT_other u8

fun frame_type_code :: "frame_type \<Rightarrow> u8" where
  "frame_type_code FT_STATE_DECLARE = 1"
| "frame_type_code FT_STATE_SNAPSHOT = 2"
| "frame_type_code FT_STATE_DELTA = 3"
| "frame_type_code FT_STATE_SUBSCRIBE = 4"
| "frame_type_code FT_STATE_UNSUBSCRIBE = 5"
| "frame_type_code FT_CREDIT = 6"
| "frame_type_code FT_ACK = 7"
| "frame_type_code FT_NACK = 8"
| "frame_type_code FT_CAPABILITY_GRANT = 9"
| "frame_type_code FT_CAPABILITY_REVOKE = 10"
| "frame_type_code FT_CLOCK_SYNC = 11"
| "frame_type_code FT_PING = 12"
| "frame_type_code FT_PONG = 13"
| "frame_type_code FT_CONNECT = 14"
| "frame_type_code FT_ACCEPT = 15"
| "frame_type_code FT_CLOSE = 16"
| "frame_type_code FT_ROUTE_ANNOUNCE = 17"
| "frame_type_code (FT_other b) = b"

definition frame_type_of :: "u8 \<Rightarrow> frame_type" where
  "frame_type_of b =
    (if b = 1 then FT_STATE_DECLARE
     else if b = 2 then FT_STATE_SNAPSHOT
     else if b = 3 then FT_STATE_DELTA
     else if b = 4 then FT_STATE_SUBSCRIBE
     else if b = 5 then FT_STATE_UNSUBSCRIBE
     else if b = 6 then FT_CREDIT
     else if b = 7 then FT_ACK
     else if b = 8 then FT_NACK
     else if b = 9 then FT_CAPABILITY_GRANT
     else if b = 10 then FT_CAPABILITY_REVOKE
     else if b = 11 then FT_CLOCK_SYNC
     else if b = 12 then FT_PING
     else if b = 13 then FT_PONG
     else if b = 14 then FT_CONNECT
     else if b = 15 then FT_ACCEPT
     else if b = 16 then FT_CLOSE
     else if b = 17 then FT_ROUTE_ANNOUNCE
     else FT_other b)"

definition frame_type_wf :: "frame_type \<Rightarrow> bool" where
  "frame_type_wf t \<longleftrightarrow> frame_type_of (frame_type_code t) = t"

datatype packet_type =
    PT_DATA
  | PT_CONTROL
  | PT_HANDSHAKE
  | PT_other u8

fun packet_type_code :: "packet_type \<Rightarrow> u8" where
  "packet_type_code PT_DATA = 1"
| "packet_type_code PT_CONTROL = 2"
| "packet_type_code PT_HANDSHAKE = 3"
| "packet_type_code (PT_other b) = b"

definition packet_type_of :: "u8 \<Rightarrow> packet_type" where
  "packet_type_of b =
    (if b = 1 then PT_DATA
     else if b = 2 then PT_CONTROL
     else if b = 3 then PT_HANDSHAKE
     else PT_other b)"

definition packet_type_wf :: "packet_type \<Rightarrow> bool" where
  "packet_type_wf t \<longleftrightarrow> packet_type_of (packet_type_code t) = t"

datatype reliability =
    REL_UNRELIABLE
  | REL_BEST_EFFORT
  | REL_RELIABLE
  | REL_other u8

fun reliability_code :: "reliability \<Rightarrow> u8" where
  "reliability_code REL_UNRELIABLE = 0"
| "reliability_code REL_BEST_EFFORT = 1"
| "reliability_code REL_RELIABLE = 2"
| "reliability_code (REL_other b) = b"

definition reliability_of :: "u8 \<Rightarrow> reliability" where
  "reliability_of b =
    (if b = 0 then REL_UNRELIABLE
     else if b = 1 then REL_BEST_EFFORT
     else if b = 2 then REL_RELIABLE
     else REL_other b)"

definition reliability_wf :: "reliability \<Rightarrow> bool" where
  "reliability_wf t \<longleftrightarrow> reliability_of (reliability_code t) = t"

datatype crdt_type =
    CRDT_NONE
  | CRDT_LWW_REGISTER
  | CRDT_G_COUNTER
  | CRDT_PN_COUNTER
  | CRDT_OR_SET
  | CRDT_MV_REGISTER
  | CRDT_RGA
  | CRDT_other u8

fun crdt_type_code :: "crdt_type \<Rightarrow> u8" where
  "crdt_type_code CRDT_NONE = 0"
| "crdt_type_code CRDT_LWW_REGISTER = 1"
| "crdt_type_code CRDT_G_COUNTER = 2"
| "crdt_type_code CRDT_PN_COUNTER = 3"
| "crdt_type_code CRDT_OR_SET = 4"
| "crdt_type_code CRDT_MV_REGISTER = 5"
| "crdt_type_code CRDT_RGA = 6"
| "crdt_type_code (CRDT_other b) = b"

definition crdt_type_of :: "u8 \<Rightarrow> crdt_type" where
  "crdt_type_of b =
    (if b = 0 then CRDT_NONE
     else if b = 1 then CRDT_LWW_REGISTER
     else if b = 2 then CRDT_G_COUNTER
     else if b = 3 then CRDT_PN_COUNTER
     else if b = 4 then CRDT_OR_SET
     else if b = 5 then CRDT_MV_REGISTER
     else if b = 6 then CRDT_RGA
     else CRDT_other b)"

definition crdt_type_wf :: "crdt_type \<Rightarrow> bool" where
  "crdt_type_wf t \<longleftrightarrow> crdt_type_of (crdt_type_code t) = t"

datatype close_reason =
    CR_NORMAL
  | CR_TIMEOUT
  | CR_PROTOCOL_ERROR
  | CR_AUTH_FAILURE
  | CR_GOING_AWAY
  | CR_other u8

fun close_reason_code :: "close_reason \<Rightarrow> u8" where
  "close_reason_code CR_NORMAL = 0"
| "close_reason_code CR_TIMEOUT = 1"
| "close_reason_code CR_PROTOCOL_ERROR = 2"
| "close_reason_code CR_AUTH_FAILURE = 3"
| "close_reason_code CR_GOING_AWAY = 4"
| "close_reason_code (CR_other b) = b"

definition close_reason_of :: "u8 \<Rightarrow> close_reason" where
  "close_reason_of b =
    (if b = 0 then CR_NORMAL
     else if b = 1 then CR_TIMEOUT
     else if b = 2 then CR_PROTOCOL_ERROR
     else if b = 3 then CR_AUTH_FAILURE
     else if b = 4 then CR_GOING_AWAY
     else CR_other b)"

definition close_reason_wf :: "close_reason \<Rightarrow> bool" where
  "close_reason_wf t \<longleftrightarrow> close_reason_of (close_reason_code t) = t"

datatype resolution_tier =
    TIER_FULL
  | TIER_NORMAL
  | TIER_COARSE
  | TIER_METADATA
  | TIER_other u8

fun resolution_tier_code :: "resolution_tier \<Rightarrow> u8" where
  "resolution_tier_code TIER_FULL = 0"
| "resolution_tier_code TIER_NORMAL = 1"
| "resolution_tier_code TIER_COARSE = 2"
| "resolution_tier_code TIER_METADATA = 3"
| "resolution_tier_code (TIER_other b) = b"

definition resolution_tier_of :: "u8 \<Rightarrow> resolution_tier" where
  "resolution_tier_of b =
    (if b = 0 then TIER_FULL
     else if b = 1 then TIER_NORMAL
     else if b = 2 then TIER_COARSE
     else if b = 3 then TIER_METADATA
     else TIER_other b)"

definition resolution_tier_wf :: "resolution_tier \<Rightarrow> bool" where
  "resolution_tier_wf t \<longleftrightarrow> resolution_tier_of (resolution_tier_code t) = t"

definition PROTOCOL_VERSION :: u8 where "PROTOCOL_VERSION = 1"
definition FLAG_CHECKSUM :: u8 where "FLAG_CHECKSUM = 0x08"
definition CONNECT_MAGIC :: u32 where "CONNECT_MAGIC = 0x50524F43"
definition PACKET_HEADER_SIZE :: nat where "PACKET_HEADER_SIZE = 16"
definition FRAME_HEADER_SIZE :: nat where "FRAME_HEADER_SIZE = 3"
definition MAX_PACKET_SIZE :: nat where "MAX_PACKET_SIZE = 1452"
definition MAX_PAYLOAD_SIZE :: nat where "MAX_PAYLOAD_SIZE = MAX_PACKET_SIZE - PACKET_HEADER_SIZE"

lemmas size_defs = PACKET_HEADER_SIZE_def FRAME_HEADER_SIZE_def MAX_PACKET_SIZE_def MAX_PAYLOAD_SIZE_def

lemma frame_type_code_of [simp]: "frame_type_code (frame_type_of b) = b"
  by (simp add: frame_type_of_def)

lemma frame_type_wf_of [simp]: "frame_type_wf (frame_type_of b)"
  by (simp add: frame_type_wf_def)

lemma frame_type_of_code [simp]: "frame_type_wf t \<Longrightarrow> frame_type_of (frame_type_code t) = t"
  by (simp add: frame_type_wf_def)

lemma frame_type_wf_named [simp]:
  "frame_type_wf FT_STATE_DECLARE"
  "frame_type_wf FT_STATE_SNAPSHOT"
  "frame_type_wf FT_STATE_DELTA"
  "frame_type_wf FT_STATE_SUBSCRIBE"
  "frame_type_wf FT_STATE_UNSUBSCRIBE"
  "frame_type_wf FT_CREDIT"
  "frame_type_wf FT_ACK"
  "frame_type_wf FT_NACK"
  "frame_type_wf FT_CAPABILITY_GRANT"
  "frame_type_wf FT_CAPABILITY_REVOKE"
  "frame_type_wf FT_CLOCK_SYNC"
  "frame_type_wf FT_PING"
  "frame_type_wf FT_PONG"
  "frame_type_wf FT_CONNECT"
  "frame_type_wf FT_ACCEPT"
  "frame_type_wf FT_CLOSE"
  "frame_type_wf FT_ROUTE_ANNOUNCE"
  by (simp_all add: frame_type_wf_def frame_type_of_def)

lemma packet_type_code_of [simp]: "packet_type_code (packet_type_of b) = b"
  by (simp add: packet_type_of_def)

lemma packet_type_wf_of [simp]: "packet_type_wf (packet_type_of b)"
  by (simp add: packet_type_wf_def)

lemma packet_type_of_code [simp]: "packet_type_wf t \<Longrightarrow> packet_type_of (packet_type_code t) = t"
  by (simp add: packet_type_wf_def)

lemma packet_type_wf_named [simp]:
  "packet_type_wf PT_DATA"
  "packet_type_wf PT_CONTROL"
  "packet_type_wf PT_HANDSHAKE"
  by (simp_all add: packet_type_wf_def packet_type_of_def)

lemma reliability_code_of [simp]: "reliability_code (reliability_of b) = b"
  by (simp add: reliability_of_def)

lemma reliability_wf_of [simp]: "reliability_wf (reliability_of b)"
  by (simp add: reliability_wf_def)

lemma reliability_of_code [simp]: "reliability_wf t \<Longrightarrow> reliability_of (reliability_code t) = t"
  by (simp add: reliability_wf_def)

lemma reliability_wf_named [simp]:
  "reliability_wf REL_UNRELIABLE"
  "reliability_wf REL_BEST_EFFORT"
  "reliability_wf REL_RELIABLE"
  by (simp_all add: reliability_wf_def reliability_of_def)

lemma crdt_type_code_of [simp]: "crdt_type_code (crdt_type_of b) = b"
  by (simp add: crdt_type_of_def)

lemma crdt_type_wf_of [simp]: "crdt_type_wf (crdt_type_of b)"
  by (simp add: crdt_type_wf_def)

lemma crdt_type_of_code [simp]: "crdt_type_wf t \<Longrightarrow> crdt_type_of (crdt_type_code t) = t"
  by (simp add: crdt_type_wf_def)

lemma crdt_type_wf_named [simp]:
  "crdt_type_wf CRDT_NONE"
  "crdt_type_wf CRDT_LWW_REGISTER"
  "crdt_type_wf CRDT_G_COUNTER"
  "crdt_type_wf CRDT_PN_COUNTER"
  "crdt_type_wf CRDT_OR_SET"
  "crdt_type_wf CRDT_MV_REGISTER"
  "crdt_type_wf CRDT_RGA"
  by (simp_all add: crdt_type_wf_def crdt_type_of_def)

lemma close_reason_code_of [simp]: "close_reason_code (close_reason_of b) = b"
  by (simp add: close_reason_of_def)

lemma close_reason_wf_of [simp]: "close_reason_wf (close_reason_of b)"
  by (simp add: close_reason_wf_def)

lemma close_reason_of_code [simp]: "close_reason_wf t \<Longrightarrow> close_reason_of (close_reason_code t) = t"
  by (simp add: close_reason_wf_def)

lemma close_reason_wf_named [simp]:
  "close_reason_wf CR_NORMAL"
  "close_reason_wf CR_TIMEOUT"
  "close_reason_wf CR_PROTOCOL_ERROR"
  "close_reason_wf CR_AUTH_FAILURE"
  "close_reason_wf CR_GOING_AWAY"
  by (simp_all add: close_reason_wf_def close_reason_of_def)

lemma resolution_tier_code_of [simp]: "resolution_tier_code (resolution_tier_of b) = b"
  by (simp add: resolution_tier_of_def)

lemma resolution_tier_wf_of [simp]: "resolution_tier_wf (resolution_tier_of b)"
  by (simp add: resolution_tier_wf_def)

lemma resolution_tier_of_code [simp]: "resolution_tier_wf t \<Longrightarrow> resolution_tier_of (resolution_tier_code t) = t"
  by (simp add: resolution_tier_wf_def)

lemma resolution_tier_wf_named [simp]:
  "resolution_tier_wf TIER_FULL"
  "resolution_tier_wf TIER_NORMAL"
  "resolution_tier_wf TIER_COARSE"
  "resolution_tier_wf TIER_METADATA"
  by (simp_all add: resolution_tier_wf_def resolution_tier_of_def)

end
