(* ===== verification/Frames.thy ===== *)
theory Frames
  imports Frame_Types
begin

text \<open>
  The frame header and the frame payload structures of \<^verbatim>\<open>include/protocoll/wire/frame.h\<close> with their
  \<^verbatim>\<open>encode\<close> and \<^verbatim>\<open>decode\<close> members (\<^verbatim>\<open>src/wire/frame.cpp\<close>). An encoder takes the buffer it writes into
  and returns \<open>None\<close> where the source returns false; a decoder takes the buffer it reads.
  \<open>X_wire\<close> is the layout the header documents. Every structure is an interpretation of
  \<open>fixed_codec\<close>, which gives its round trip, its exact size and that it never reads or
  writes past its own bytes.
\<close>

record frame_header =
  fh_type :: frame_type
  fh_length :: u16

definition frame_header_encode :: "frame_header \<Rightarrow> bytes \<Rightarrow> bytes option" where
  "frame_header_encode f buf =
    (if length buf < FRAME_HEADER_SIZE then None
     else Some (let b1 = buf[0 := frame_type_code (fh_type f)]
         in write_u16 b1 1 (fh_length f)))"

definition frame_header_decode :: "bytes \<Rightarrow> frame_header option" where
  "frame_header_decode buf =
    (if length buf < FRAME_HEADER_SIZE then None
     else Some \<lparr>fh_type = frame_type_of (buf ! 0),
                fh_length = read_u16 (drop 1 buf)\<rparr>)"

definition frame_header_wire :: "frame_header \<Rightarrow> bytes" where
  "frame_header_wire f = [frame_type_code (fh_type f)] @ be16 (fh_length f)"

definition frame_header_wf :: "frame_header \<Rightarrow> bool" where
  "frame_header_wf f \<longleftrightarrow> frame_type_wf (fh_type f)"

record connect_frame =
  cf_magic :: u32
  cf_version :: u8
  cf_max_frame_size :: u16

definition CONNECT_WIRE_SIZE :: nat where "CONNECT_WIRE_SIZE = 7"

definition connect_encode :: "connect_frame \<Rightarrow> bytes \<Rightarrow> bytes option" where
  "connect_encode f buf =
    (if length buf < CONNECT_WIRE_SIZE then None
     else Some (let b1 = write_u32 buf 0 (cf_magic f);
             b2 = b1[4 := cf_version f]
         in write_u16 b2 5 (cf_max_frame_size f)))"

definition connect_decode :: "bytes \<Rightarrow> connect_frame option" where
  "connect_decode buf =
    (if length buf < CONNECT_WIRE_SIZE then None
     else Some \<lparr>cf_magic = read_u32 buf,
                cf_version = buf ! 4,
                cf_max_frame_size = read_u16 (drop 5 buf)\<rparr>)"

definition connect_wire :: "connect_frame \<Rightarrow> bytes" where
  "connect_wire f = be32 (cf_magic f) @ [cf_version f] @ be16 (cf_max_frame_size f)"

record accept_frame =
  af_assigned_conn_id :: u16
  af_server_timestamp_us :: u32

definition ACCEPT_WIRE_SIZE :: nat where "ACCEPT_WIRE_SIZE = 6"

definition accept_encode :: "accept_frame \<Rightarrow> bytes \<Rightarrow> bytes option" where
  "accept_encode f buf =
    (if length buf < ACCEPT_WIRE_SIZE then None
     else Some (let b1 = write_u16 buf 0 (af_assigned_conn_id f)
         in write_u32 b1 2 (af_server_timestamp_us f)))"

definition accept_decode :: "bytes \<Rightarrow> accept_frame option" where
  "accept_decode buf =
    (if length buf < ACCEPT_WIRE_SIZE then None
     else Some \<lparr>af_assigned_conn_id = read_u16 buf,
                af_server_timestamp_us = read_u32 (drop 2 buf)\<rparr>)"

definition accept_wire :: "accept_frame \<Rightarrow> bytes" where
  "accept_wire f = be16 (af_assigned_conn_id f) @ be32 (af_server_timestamp_us f)"

record close_frame =
  clf_reason :: close_reason

definition CLOSE_WIRE_SIZE :: nat where "CLOSE_WIRE_SIZE = 1"

definition close_encode :: "close_frame \<Rightarrow> bytes \<Rightarrow> bytes option" where
  "close_encode f buf =
    (if length buf < CLOSE_WIRE_SIZE then None
     else Some (buf[0 := close_reason_code (clf_reason f)]))"

definition close_decode :: "bytes \<Rightarrow> close_frame option" where
  "close_decode buf =
    (if length buf < CLOSE_WIRE_SIZE then None
     else Some \<lparr>clf_reason = close_reason_of (buf ! 0)\<rparr>)"

definition close_wire :: "close_frame \<Rightarrow> bytes" where
  "close_wire f = [close_reason_code (clf_reason f)]"

definition close_wf :: "close_frame \<Rightarrow> bool" where
  "close_wf f \<longleftrightarrow> close_reason_wf (clf_reason f)"

record ping_frame =
  pf_ping_id :: u32
  pf_timestamp_us :: u32

definition PING_WIRE_SIZE :: nat where "PING_WIRE_SIZE = 8"

definition ping_encode :: "ping_frame \<Rightarrow> bytes \<Rightarrow> bytes option" where
  "ping_encode f buf =
    (if length buf < PING_WIRE_SIZE then None
     else Some (let b1 = write_u32 buf 0 (pf_ping_id f)
         in write_u32 b1 4 (pf_timestamp_us f)))"

definition ping_decode :: "bytes \<Rightarrow> ping_frame option" where
  "ping_decode buf =
    (if length buf < PING_WIRE_SIZE then None
     else Some \<lparr>pf_ping_id = read_u32 buf,
                pf_timestamp_us = read_u32 (drop 4 buf)\<rparr>)"

definition ping_wire :: "ping_frame \<Rightarrow> bytes" where
  "ping_wire f = be32 (pf_ping_id f) @ be32 (pf_timestamp_us f)"

record ack_frame =
  ackf_largest_acked :: u32
  ackf_ack_delay_us :: u16
  ackf_sack_range_count :: u8

definition ACK_BASE_WIRE_SIZE :: nat where "ACK_BASE_WIRE_SIZE = 7"

definition ack_encode :: "ack_frame \<Rightarrow> bytes \<Rightarrow> bytes option" where
  "ack_encode f buf =
    (if length buf < ACK_BASE_WIRE_SIZE then None
     else Some (let b1 = write_u32 buf 0 (ackf_largest_acked f);
             b2 = write_u16 b1 4 (ackf_ack_delay_us f)
         in b2[6 := ackf_sack_range_count f]))"

definition ack_decode :: "bytes \<Rightarrow> ack_frame option" where
  "ack_decode buf =
    (if length buf < ACK_BASE_WIRE_SIZE then None
     else Some \<lparr>ackf_largest_acked = read_u32 buf,
                ackf_ack_delay_us = read_u16 (drop 4 buf),
                ackf_sack_range_count = buf ! 6\<rparr>)"

definition ack_wire :: "ack_frame \<Rightarrow> bytes" where
  "ack_wire f = be32 (ackf_largest_acked f) @ be16 (ackf_ack_delay_us f) @ [ackf_sack_range_count f]"

record state_declare_frame =
  sdecl_path_hash :: u32
  sdecl_crdt_type :: crdt_type
  sdecl_reliability :: reliability

definition STATE_DECLARE_BASE_WIRE_SIZE :: nat where "STATE_DECLARE_BASE_WIRE_SIZE = 6"

definition state_declare_encode :: "state_declare_frame \<Rightarrow> bytes \<Rightarrow> bytes option" where
  "state_declare_encode f buf =
    (if length buf < STATE_DECLARE_BASE_WIRE_SIZE then None
     else Some (let b1 = write_u32 buf 0 (sdecl_path_hash f);
             b2 = b1[4 := crdt_type_code (sdecl_crdt_type f)]
         in b2[5 := reliability_code (sdecl_reliability f)]))"

definition state_declare_decode :: "bytes \<Rightarrow> state_declare_frame option" where
  "state_declare_decode buf =
    (if length buf < STATE_DECLARE_BASE_WIRE_SIZE then None
     else Some \<lparr>sdecl_path_hash = read_u32 buf,
                sdecl_crdt_type = crdt_type_of (buf ! 4),
                sdecl_reliability = reliability_of (buf ! 5)\<rparr>)"

definition state_declare_wire :: "state_declare_frame \<Rightarrow> bytes" where
  "state_declare_wire f = be32 (sdecl_path_hash f) @ [crdt_type_code (sdecl_crdt_type f)] @ [reliability_code (sdecl_reliability f)]"

definition state_declare_wf :: "state_declare_frame \<Rightarrow> bool" where
  "state_declare_wf f \<longleftrightarrow> crdt_type_wf (sdecl_crdt_type f) \<and> reliability_wf (sdecl_reliability f)"

record state_delta_frame =
  sdf_path_hash :: u32
  sdf_crdt_type :: crdt_type
  sdf_reliability :: reliability
  sdf_author_node_id :: u16

definition STATE_DELTA_BASE_WIRE_SIZE :: nat where "STATE_DELTA_BASE_WIRE_SIZE = 8"

definition state_delta_encode :: "state_delta_frame \<Rightarrow> bytes \<Rightarrow> bytes option" where
  "state_delta_encode f buf =
    (if length buf < STATE_DELTA_BASE_WIRE_SIZE then None
     else Some (let b1 = write_u32 buf 0 (sdf_path_hash f);
             b2 = b1[4 := crdt_type_code (sdf_crdt_type f)];
             b3 = b2[5 := reliability_code (sdf_reliability f)]
         in write_u16 b3 6 (sdf_author_node_id f)))"

definition state_delta_decode :: "bytes \<Rightarrow> state_delta_frame option" where
  "state_delta_decode buf =
    (if length buf < STATE_DELTA_BASE_WIRE_SIZE then None
     else Some \<lparr>sdf_path_hash = read_u32 buf,
                sdf_crdt_type = crdt_type_of (buf ! 4),
                sdf_reliability = reliability_of (buf ! 5),
                sdf_author_node_id = read_u16 (drop 6 buf)\<rparr>)"

definition state_delta_wire :: "state_delta_frame \<Rightarrow> bytes" where
  "state_delta_wire f = be32 (sdf_path_hash f) @ [crdt_type_code (sdf_crdt_type f)] @ [reliability_code (sdf_reliability f)] @ be16 (sdf_author_node_id f)"

definition state_delta_wf :: "state_delta_frame \<Rightarrow> bool" where
  "state_delta_wf f \<longleftrightarrow> crdt_type_wf (sdf_crdt_type f) \<and> reliability_wf (sdf_reliability f)"

record state_snapshot_frame =
  ssf_path_hash :: u32
  ssf_crdt_type :: crdt_type
  ssf_author_node_id :: u16

definition STATE_SNAPSHOT_BASE_WIRE_SIZE :: nat where "STATE_SNAPSHOT_BASE_WIRE_SIZE = 7"

definition state_snapshot_encode :: "state_snapshot_frame \<Rightarrow> bytes \<Rightarrow> bytes option" where
  "state_snapshot_encode f buf =
    (if length buf < STATE_SNAPSHOT_BASE_WIRE_SIZE then None
     else Some (let b1 = write_u32 buf 0 (ssf_path_hash f);
             b2 = b1[4 := crdt_type_code (ssf_crdt_type f)]
         in write_u16 b2 5 (ssf_author_node_id f)))"

definition state_snapshot_decode :: "bytes \<Rightarrow> state_snapshot_frame option" where
  "state_snapshot_decode buf =
    (if length buf < STATE_SNAPSHOT_BASE_WIRE_SIZE then None
     else Some \<lparr>ssf_path_hash = read_u32 buf,
                ssf_crdt_type = crdt_type_of (buf ! 4),
                ssf_author_node_id = read_u16 (drop 5 buf)\<rparr>)"

definition state_snapshot_wire :: "state_snapshot_frame \<Rightarrow> bytes" where
  "state_snapshot_wire f = be32 (ssf_path_hash f) @ [crdt_type_code (ssf_crdt_type f)] @ be16 (ssf_author_node_id f)"

definition state_snapshot_wf :: "state_snapshot_frame \<Rightarrow> bool" where
  "state_snapshot_wf f \<longleftrightarrow> crdt_type_wf (ssf_crdt_type f)"

definition SIGNATURE_SIZE :: nat where "SIGNATURE_SIZE = 64"

definition STATE_DELTA_MIN_WIRE_SIZE :: nat where
  "STATE_DELTA_MIN_WIRE_SIZE = STATE_DELTA_BASE_WIRE_SIZE + SIGNATURE_SIZE"

definition STATE_SNAPSHOT_MIN_WIRE_SIZE :: nat where
  "STATE_SNAPSHOT_MIN_WIRE_SIZE = STATE_SNAPSHOT_BASE_WIRE_SIZE + SIGNATURE_SIZE"

record capability_revoke_frame =
  crf_token_id :: u32
  crf_issuer_node_id :: u16

definition CAPABILITY_REVOKE_WIRE_SIZE :: nat where "CAPABILITY_REVOKE_WIRE_SIZE = 6"

definition capability_revoke_encode :: "capability_revoke_frame \<Rightarrow> bytes \<Rightarrow> bytes option" where
  "capability_revoke_encode f buf =
    (if length buf < CAPABILITY_REVOKE_WIRE_SIZE then None
     else Some (let b1 = write_u32 buf 0 (crf_token_id f)
         in write_u16 b1 4 (crf_issuer_node_id f)))"

definition capability_revoke_decode :: "bytes \<Rightarrow> capability_revoke_frame option" where
  "capability_revoke_decode buf =
    (if length buf < CAPABILITY_REVOKE_WIRE_SIZE then None
     else Some \<lparr>crf_token_id = read_u32 buf,
                crf_issuer_node_id = read_u16 (drop 4 buf)\<rparr>)"

definition capability_revoke_wire :: "capability_revoke_frame \<Rightarrow> bytes" where
  "capability_revoke_wire f = be32 (crf_token_id f) @ be16 (crf_issuer_node_id f)"

record route_announce_frame =
  raf_path_hash :: u32
  raf_announcing_node_id :: u16

definition ROUTE_ANNOUNCE_WIRE_SIZE :: nat where "ROUTE_ANNOUNCE_WIRE_SIZE = 6"

definition route_announce_encode :: "route_announce_frame \<Rightarrow> bytes \<Rightarrow> bytes option" where
  "route_announce_encode f buf =
    (if length buf < ROUTE_ANNOUNCE_WIRE_SIZE then None
     else Some (let b1 = write_u32 buf 0 (raf_path_hash f)
         in write_u16 b1 4 (raf_announcing_node_id f)))"

definition route_announce_decode :: "bytes \<Rightarrow> route_announce_frame option" where
  "route_announce_decode buf =
    (if length buf < ROUTE_ANNOUNCE_WIRE_SIZE then None
     else Some \<lparr>raf_path_hash = read_u32 buf,
                raf_announcing_node_id = read_u16 (drop 4 buf)\<rparr>)"

definition route_announce_wire :: "route_announce_frame \<Rightarrow> bytes" where
  "route_announce_wire f = be32 (raf_path_hash f) @ be16 (raf_announcing_node_id f)"

lemma list_update_drop [buf_simps]: "n < length buf \<Longrightarrow> (drop n buf)[0 := v] = v # drop (Suc n) buf"
  by (simp add: Cons_nth_drop_Suc [symmetric])

lemma list_update_head [buf_simps]:
  "numeral k \<le> length buf \<Longrightarrow> buf[0 := v] = v # drop 1 buf"
  "Suc 0 \<le> length buf \<Longrightarrow> buf[0 := v] = v # drop 1 buf"
  by (cases buf; simp)+

lemmas list_update_append_simps [buf_simps] = list_update_append
lemmas nth_append_simps [wire_simps] = nth_append nth_Cons'

lemmas long_list = Suc_le_length_iff numeral_eq_Suc

lemmas frame_header_defs = frame_header_encode_def frame_header_decode_def frame_header_wire_def FRAME_HEADER_SIZE_def frame_header_wf_def

interpretation frame_header_codec: fixed_codec frame_header_encode frame_header_decode frame_header_wire "frame_header_wf" FRAME_HEADER_SIZE
proof (unfold_locales, goal_cases)
  case (6 b)
  then have "3 \<le> length b" by (simp add: FRAME_HEADER_SIZE_def)
  then show ?case by (auto simp: long_list frame_header_defs wire_simps)
qed (auto simp: frame_header_defs buf_simps wire_simps)

lemmas connect_defs = connect_encode_def connect_decode_def connect_wire_def CONNECT_WIRE_SIZE_def

interpretation connect_codec: fixed_codec connect_encode connect_decode connect_wire "(\<lambda>_. True)" CONNECT_WIRE_SIZE
proof (unfold_locales, goal_cases)
  case (6 b)
  then have "7 \<le> length b" by (simp add: CONNECT_WIRE_SIZE_def)
  then show ?case by (auto simp: long_list connect_defs wire_simps)
qed (auto simp: connect_defs buf_simps wire_simps)

lemmas accept_defs = accept_encode_def accept_decode_def accept_wire_def ACCEPT_WIRE_SIZE_def

interpretation accept_codec: fixed_codec accept_encode accept_decode accept_wire "(\<lambda>_. True)" ACCEPT_WIRE_SIZE
proof (unfold_locales, goal_cases)
  case (6 b)
  then have "6 \<le> length b" by (simp add: ACCEPT_WIRE_SIZE_def)
  then show ?case by (auto simp: long_list accept_defs wire_simps)
qed (auto simp: accept_defs buf_simps wire_simps)

lemmas close_defs = close_encode_def close_decode_def close_wire_def CLOSE_WIRE_SIZE_def close_wf_def

interpretation close_codec: fixed_codec close_encode close_decode close_wire "close_wf" CLOSE_WIRE_SIZE
proof (unfold_locales, goal_cases)
  case (6 b)
  then have "1 \<le> length b" by (simp add: CLOSE_WIRE_SIZE_def)
  then show ?case by (auto simp: long_list close_defs wire_simps)
qed (auto simp: close_defs buf_simps wire_simps)

lemmas ping_defs = ping_encode_def ping_decode_def ping_wire_def PING_WIRE_SIZE_def

interpretation ping_codec: fixed_codec ping_encode ping_decode ping_wire "(\<lambda>_. True)" PING_WIRE_SIZE
proof (unfold_locales, goal_cases)
  case (6 b)
  then have "8 \<le> length b" by (simp add: PING_WIRE_SIZE_def)
  then show ?case by (auto simp: long_list ping_defs wire_simps)
qed (auto simp: ping_defs buf_simps wire_simps)

lemmas ack_defs = ack_encode_def ack_decode_def ack_wire_def ACK_BASE_WIRE_SIZE_def

interpretation ack_codec: fixed_codec ack_encode ack_decode ack_wire "(\<lambda>_. True)" ACK_BASE_WIRE_SIZE
proof (unfold_locales, goal_cases)
  case (6 b)
  then have "7 \<le> length b" by (simp add: ACK_BASE_WIRE_SIZE_def)
  then show ?case by (auto simp: long_list ack_defs wire_simps)
qed (auto simp: ack_defs buf_simps wire_simps)

lemmas state_declare_defs = state_declare_encode_def state_declare_decode_def state_declare_wire_def STATE_DECLARE_BASE_WIRE_SIZE_def state_declare_wf_def

interpretation state_declare_codec: fixed_codec state_declare_encode state_declare_decode state_declare_wire "state_declare_wf" STATE_DECLARE_BASE_WIRE_SIZE
proof (unfold_locales, goal_cases)
  case (6 b)
  then have "6 \<le> length b" by (simp add: STATE_DECLARE_BASE_WIRE_SIZE_def)
  then show ?case by (auto simp: long_list state_declare_defs wire_simps)
qed (auto simp: state_declare_defs buf_simps wire_simps)

lemmas state_delta_defs = state_delta_encode_def state_delta_decode_def state_delta_wire_def STATE_DELTA_BASE_WIRE_SIZE_def state_delta_wf_def

interpretation state_delta_codec: fixed_codec state_delta_encode state_delta_decode state_delta_wire "state_delta_wf" STATE_DELTA_BASE_WIRE_SIZE
proof (unfold_locales, goal_cases)
  case (6 b)
  then have "8 \<le> length b" by (simp add: STATE_DELTA_BASE_WIRE_SIZE_def)
  then show ?case by (auto simp: long_list state_delta_defs wire_simps)
qed (auto simp: state_delta_defs buf_simps wire_simps)

lemmas state_snapshot_defs = state_snapshot_encode_def state_snapshot_decode_def state_snapshot_wire_def STATE_SNAPSHOT_BASE_WIRE_SIZE_def state_snapshot_wf_def

interpretation state_snapshot_codec: fixed_codec state_snapshot_encode state_snapshot_decode state_snapshot_wire "state_snapshot_wf" STATE_SNAPSHOT_BASE_WIRE_SIZE
proof (unfold_locales, goal_cases)
  case (6 b)
  then have "7 \<le> length b" by (simp add: STATE_SNAPSHOT_BASE_WIRE_SIZE_def)
  then show ?case by (auto simp: long_list state_snapshot_defs wire_simps)
qed (auto simp: state_snapshot_defs buf_simps wire_simps)

lemmas capability_revoke_defs = capability_revoke_encode_def capability_revoke_decode_def capability_revoke_wire_def CAPABILITY_REVOKE_WIRE_SIZE_def

interpretation capability_revoke_codec: fixed_codec capability_revoke_encode capability_revoke_decode capability_revoke_wire "(\<lambda>_. True)" CAPABILITY_REVOKE_WIRE_SIZE
proof (unfold_locales, goal_cases)
  case (6 b)
  then have "6 \<le> length b" by (simp add: CAPABILITY_REVOKE_WIRE_SIZE_def)
  then show ?case by (auto simp: long_list capability_revoke_defs wire_simps)
qed (auto simp: capability_revoke_defs buf_simps wire_simps)

lemmas route_announce_defs = route_announce_encode_def route_announce_decode_def route_announce_wire_def ROUTE_ANNOUNCE_WIRE_SIZE_def

interpretation route_announce_codec: fixed_codec route_announce_encode route_announce_decode route_announce_wire "(\<lambda>_. True)" ROUTE_ANNOUNCE_WIRE_SIZE
proof (unfold_locales, goal_cases)
  case (6 b)
  then have "6 \<le> length b" by (simp add: ROUTE_ANNOUNCE_WIRE_SIZE_def)
  then show ?case by (auto simp: long_list route_announce_defs wire_simps)
qed (auto simp: route_announce_defs buf_simps wire_simps)

end
