(* ===== verification/Packet.thy ===== *)
theory Packet
  imports Frames
begin

text \<open>
  Packets: the 16-byte header (\<^verbatim>\<open>packet.h\<close>, \<^verbatim>\<open>packet.cpp\<close>), the hash wrappers (\<^verbatim>\<open>util/hash.cpp\<close>) and the
  packet encoder and decoder (\<^verbatim>\<open>codec.h\<close>, \<^verbatim>\<open>codec.cpp\<close>). \<open>XXH32\<close> with seed 0 is third-party code and
  is the parameter \<open>xxh\<close>. The encoder keeps its 1452-byte buffer and cursor; the decoder keeps the
  parsed header, the buffer it was given and the frame cursor. \<open>all_frames\<close> is the loop
  \<^verbatim>\<open>while (dec.next_frame(frame))\<close> of every caller; \<open>frames_of\<close> is its reference: the frames of
  a payload, read front to back.

  The lemmas show that the header is a \<open>fixed_codec\<close>, that the encoder never writes past its
  buffer and keeps everything after the cursor zero, that a finalized packet verifies and yields
  exactly the frames that were added, and that the decoder never returns a frame that leaves the
  payload.
\<close>

subsection \<open>Hashing\<close>

definition xxhash16 :: "(bytes \<Rightarrow> u32) \<Rightarrow> bytes \<Rightarrow> u16" where
  "xxhash16 xxh data = ucast (xxh data AND 0xFFFF)"

definition xxhash32 :: "(bytes \<Rightarrow> u32) \<Rightarrow> bytes \<Rightarrow> u32" where
  "xxhash32 xxh data = xxh data"

subsection \<open>Packet header\<close>

record packet_header =
  ph_version :: u8
  ph_flags :: u8
  ph_packet_type :: packet_type
  ph_connection_id :: u16
  ph_packet_number :: u32
  ph_timestamp_us :: u32
  ph_payload_length :: u16
  ph_checksum :: u16

definition make_version_flags :: "u8 \<Rightarrow> u8 \<Rightarrow> u8" where
  "make_version_flags version flags = push_bit 4 version OR (flags AND 0x0F)"

definition packet_header_encode :: "packet_header \<Rightarrow> bytes \<Rightarrow> bytes option" where
  "packet_header_encode h buf =
    (if length buf < PACKET_HEADER_SIZE then None
     else Some (let b1 = buf[0 := make_version_flags (ph_version h) (ph_flags h)];
                    b2 = b1[1 := packet_type_code (ph_packet_type h)];
                    b3 = write_u16 b2 2 (ph_connection_id h);
                    b4 = write_u32 b3 4 (ph_packet_number h);
                    b5 = write_u32 b4 8 (ph_timestamp_us h);
                    b6 = write_u16 b5 12 (ph_payload_length h)
                in write_u16 b6 14 (ph_checksum h)))"

definition packet_header_decode :: "bytes \<Rightarrow> packet_header option" where
  "packet_header_decode buf =
    (if length buf < PACKET_HEADER_SIZE then None
     else let vf = buf ! 0 in
       Some \<lparr>ph_version = drop_bit 4 vf AND 0x0F,
             ph_flags = vf AND 0x0F,
             ph_packet_type = packet_type_of (buf ! 1),
             ph_connection_id = read_u16 (drop 2 buf),
             ph_packet_number = read_u32 (drop 4 buf),
             ph_timestamp_us = read_u32 (drop 8 buf),
             ph_payload_length = read_u16 (drop 12 buf),
             ph_checksum = read_u16 (drop 14 buf)\<rparr>)"

definition packet_header_wire :: "packet_header \<Rightarrow> bytes" where
  "packet_header_wire h =
     [make_version_flags (ph_version h) (ph_flags h), packet_type_code (ph_packet_type h)] @
     be16 (ph_connection_id h) @ be32 (ph_packet_number h) @ be32 (ph_timestamp_us h) @
     be16 (ph_payload_length h) @ be16 (ph_checksum h)"

definition packet_header_wf :: "packet_header \<Rightarrow> bool" where
  "packet_header_wf h \<longleftrightarrow> ph_version h AND 0x0F = ph_version h \<and> ph_flags h AND 0x0F = ph_flags h \<and>
     packet_type_wf (ph_packet_type h)"

definition compute_checksum :: "(bytes \<Rightarrow> u32) \<Rightarrow> bytes \<Rightarrow> u16" where
  "compute_checksum xxh packet =
    (if length packet < PACKET_HEADER_SIZE then 0
     else let tmp = (take PACKET_HEADER_SIZE packet)[14 := 0, 15 := 0];
              h1 = xxhash16 xxh tmp
          in if length packet > PACKET_HEADER_SIZE
             then h1 XOR xxhash16 xxh (drop PACKET_HEADER_SIZE packet)
             else h1)"

subsection \<open>Packet encoder\<close>

record packet_encoder =
  pe_buf :: bytes
  pe_cursor :: nat
  pe_packet_type :: packet_type
  pe_connection_id :: u16
  pe_packet_number :: u32
  pe_timestamp_us :: u32
  pe_flags :: u8

definition packet_encoder_new :: packet_encoder where
  "packet_encoder_new = \<lparr>pe_buf = replicate MAX_PACKET_SIZE 0, pe_cursor = PACKET_HEADER_SIZE,
     pe_packet_type = PT_DATA, pe_connection_id = 0, pe_packet_number = 0, pe_timestamp_us = 0,
     pe_flags = FLAG_CHECKSUM\<rparr>"

definition set_packet_type :: "packet_type \<Rightarrow> packet_encoder \<Rightarrow> packet_encoder" where
  "set_packet_type t e = e\<lparr>pe_packet_type := t\<rparr>"

definition set_connection_id :: "u16 \<Rightarrow> packet_encoder \<Rightarrow> packet_encoder" where
  "set_connection_id c e = e\<lparr>pe_connection_id := c\<rparr>"

definition set_packet_number :: "u32 \<Rightarrow> packet_encoder \<Rightarrow> packet_encoder" where
  "set_packet_number n e = e\<lparr>pe_packet_number := n\<rparr>"

definition set_timestamp :: "u32 \<Rightarrow> packet_encoder \<Rightarrow> packet_encoder" where
  "set_timestamp t e = e\<lparr>pe_timestamp_us := t\<rparr>"

text \<open>\<open>payload = None\<close> is a null pointer; the payload bytes are then what the buffer holds.\<close>

definition add_frame ::
  "frame_type \<Rightarrow> bytes option \<Rightarrow> u16 \<Rightarrow> packet_encoder \<Rightarrow> packet_encoder \<times> bool" where
  "add_frame type payload payload_len e =
    (let needed = FRAME_HEADER_SIZE + unat payload_len in
     if pe_cursor e + needed > MAX_PACKET_SIZE then (e, False)
     else
       let b1 = (pe_buf e)[pe_cursor e := frame_type_code type];
           b2 = write_u16 b1 (pe_cursor e + 1) payload_len;
           cur = pe_cursor e + FRAME_HEADER_SIZE;
           b3 = (case payload of
                   Some p \<Rightarrow> if unat payload_len > 0 then put_bytes b2 cur (take (unat payload_len) p) else b2
                 | None \<Rightarrow> b2)
       in (e\<lparr>pe_buf := b3, pe_cursor := cur + unat payload_len\<rparr>, True))"

text \<open>\<^verbatim>\<open>add_typed_frame\<close>: encode into a 256-byte stack buffer, then append \<^verbatim>\<open>WIRE_SIZE\<close> bytes of it.\<close>

definition add_typed_frame ::
  "('f \<Rightarrow> bytes \<Rightarrow> bytes option) \<Rightarrow> nat \<Rightarrow> frame_type \<Rightarrow> 'f \<Rightarrow> packet_encoder \<Rightarrow> packet_encoder \<times> bool" where
  "add_typed_frame encode wire_size type frame e =
    (case encode frame (replicate 256 0) of
       None \<Rightarrow> (e, False)
     | Some buf \<Rightarrow> add_frame type (Some buf) (of_nat wire_size) e)"

definition finalize :: "(bytes \<Rightarrow> u32) \<Rightarrow> packet_encoder \<Rightarrow> packet_encoder \<times> bytes" where
  "finalize xxh e =
    (let payload_len = of_nat (pe_cursor e - PACKET_HEADER_SIZE);
         hdr = \<lparr>ph_version = PROTOCOL_VERSION, ph_flags = pe_flags e,
                ph_packet_type = pe_packet_type e, ph_connection_id = pe_connection_id e,
                ph_packet_number = pe_packet_number e, ph_timestamp_us = pe_timestamp_us e,
                ph_payload_length = payload_len, ph_checksum = 0\<rparr>;
         b1 = (case packet_header_encode hdr (take PACKET_HEADER_SIZE (pe_buf e)) of
                 Some h \<Rightarrow> h @ drop PACKET_HEADER_SIZE (pe_buf e)
               | None \<Rightarrow> pe_buf e);
         cksum = compute_checksum xxh (take (pe_cursor e) b1);
         b2 = write_u16 b1 14 cksum;
         result = take (pe_cursor e) b2
     in (e\<lparr>pe_cursor := PACKET_HEADER_SIZE, pe_buf := replicate MAX_PACKET_SIZE 0\<rparr>, result))"

definition payload_size :: "packet_encoder \<Rightarrow> nat" where
  "payload_size e = pe_cursor e - PACKET_HEADER_SIZE"

definition remaining_space :: "packet_encoder \<Rightarrow> nat" where
  "remaining_space e = MAX_PACKET_SIZE - pe_cursor e"

subsection \<open>Packet decoder\<close>

record frame =
  fr_header :: frame_header
  fr_payload :: bytes

definition frame_wire_size :: "frame \<Rightarrow> nat" where
  "frame_wire_size f = FRAME_HEADER_SIZE + unat (fh_length (fr_header f))"

record packet_decoder =
  pd_header :: packet_header
  pd_data :: "bytes option"
  pd_data_len :: nat
  pd_frame_cursor :: nat

text \<open>A fresh decoder: no data; the source leaves the header uninitialised, zeros here.\<close>

definition packet_decoder_new :: packet_decoder where
  "packet_decoder_new = \<lparr>pd_header = \<lparr>ph_version = 0, ph_flags = 0, ph_packet_type = PT_DATA,
       ph_connection_id = 0, ph_packet_number = 0, ph_timestamp_us = 0, ph_payload_length = 0, ph_checksum = 0\<rparr>,
     pd_data = None, pd_data_len = 0, pd_frame_cursor = 0\<rparr>"

definition packet_decoder_parse :: "bytes \<Rightarrow> packet_decoder \<Rightarrow> packet_decoder \<times> bool" where
  "packet_decoder_parse data d =
    (if length data < PACKET_HEADER_SIZE then (d, False)
     else case packet_header_decode data of
       None \<Rightarrow> (d, False)
     | Some h \<Rightarrow>
         (let d1 = d\<lparr>pd_header := h\<rparr>; expected = PACKET_HEADER_SIZE + unat (ph_payload_length h) in
          if length data < expected then (d1, False)
          else (d1\<lparr>pd_data := Some data, pd_data_len := expected, pd_frame_cursor := 0\<rparr>, True)))"

definition next_frame :: "packet_decoder \<Rightarrow> packet_decoder \<times> frame option" where
  "next_frame d =
    (case pd_data d of None \<Rightarrow> (d, None) | Some data \<Rightarrow>
     (let payload_start = PACKET_HEADER_SIZE;
          payload_end = payload_start + unat (ph_payload_length (pd_header d));
          abs_pos = payload_start + pd_frame_cursor d
      in if abs_pos + FRAME_HEADER_SIZE > payload_end then (d, None)
         else case frame_header_decode (take (payload_end - abs_pos) (drop abs_pos data)) of
           None \<Rightarrow> (d, None)
         | Some fh \<Rightarrow>
             if abs_pos + FRAME_HEADER_SIZE + unat (fh_length fh) > payload_end then (d, None)
             else (d\<lparr>pd_frame_cursor := pd_frame_cursor d + FRAME_HEADER_SIZE + unat (fh_length fh)\<rparr>,
                   Some \<lparr>fr_header = fh,
                         fr_payload = take (unat (fh_length fh)) (drop (abs_pos + FRAME_HEADER_SIZE) data)\<rparr>)))"

definition reset_frame_cursor :: "packet_decoder \<Rightarrow> packet_decoder" where
  "reset_frame_cursor d = d\<lparr>pd_frame_cursor := 0\<rparr>"

definition verify_checksum :: "(bytes \<Rightarrow> u32) \<Rightarrow> packet_decoder \<Rightarrow> bool" where
  "verify_checksum xxh d =
    (case pd_data d of None \<Rightarrow> False
     | Some data \<Rightarrow> compute_checksum xxh (take (pd_data_len d) data) = ph_checksum (pd_header d))"

text \<open>The measure of the frame loop: the payload bytes behind the cursor.\<close>

definition frame_bytes_left :: "packet_decoder \<Rightarrow> nat" where
  "frame_bytes_left d = unat (ph_payload_length (pd_header d)) - pd_frame_cursor d"

lemma next_frame_decreases:
  "next_frame d = (d', Some f) \<Longrightarrow> frame_bytes_left d' < frame_bytes_left d"
  by (auto simp: next_frame_def frame_bytes_left_def FRAME_HEADER_SIZE_def Let_def
      split: option.splits if_splits)

function all_frames :: "packet_decoder \<Rightarrow> frame list" where
  "all_frames d = (case next_frame d of (d', None) \<Rightarrow> [] | (d', Some f) \<Rightarrow> f # all_frames d')"
  by pat_completeness auto
termination
  by (relation "measure frame_bytes_left") (auto intro: next_frame_decreases [OF sym])

declare all_frames.simps [simp del]

text \<open>Reference: the frames of a payload, read front to back until the rest is not a frame.\<close>

function frames_of :: "bytes \<Rightarrow> frame list" where
  "frames_of bs =
    (case frame_header_decode bs of
       None \<Rightarrow> []
     | Some fh \<Rightarrow>
         if length bs < FRAME_HEADER_SIZE + unat (fh_length fh) then []
         else \<lparr>fr_header = fh, fr_payload = take (unat (fh_length fh)) (drop FRAME_HEADER_SIZE bs)\<rparr> #
              frames_of (drop (FRAME_HEADER_SIZE + unat (fh_length fh)) bs))"
  by pat_completeness auto
termination
  by (relation "measure length") (auto simp: FRAME_HEADER_SIZE_def frame_header_decode_def split: if_splits)

declare frames_of.simps [simp del]

text \<open>The bytes of a frame as the encoder appends it, and a frame as a caller builds it.\<close>

definition frame_bytes :: "frame_type \<times> bytes \<Rightarrow> bytes" where
  "frame_bytes f = frame_type_code (fst f) # be16 (of_nat (length (snd f))) @ snd f"

definition mk_frame :: "frame_type \<times> bytes \<Rightarrow> frame" where
  "mk_frame f = \<lparr>fr_header = \<lparr>fh_type = fst f, fh_length = of_nat (length (snd f))\<rparr>, fr_payload = snd f\<rparr>"

definition sendable :: "frame_type \<times> bytes \<Rightarrow> bool" where
  "sendable f \<longleftrightarrow> frame_type_wf (fst f) \<and> length (snd f) < 2 ^ 16"

fun add_frames :: "(frame_type \<times> bytes) list \<Rightarrow> packet_encoder \<Rightarrow> packet_encoder \<times> bool" where
  "add_frames [] e = (e, True)"
| "add_frames (f # fs) e =
     (let (e1, ok1) = add_frame (fst f) (Some (snd f)) (of_nat (length (snd f))) e;
          (e2, ok2) = add_frames fs e1
      in (e2, ok1 \<and> ok2))"

text \<open>The encoder's invariant: the buffer holds the payload behind 16 header bytes, zeros after it.\<close>

definition enc_holds :: "packet_encoder \<Rightarrow> bytes \<Rightarrow> bool" where
  "enc_holds e payload \<longleftrightarrow>
     pe_cursor e = PACKET_HEADER_SIZE + length payload \<and> pe_cursor e \<le> MAX_PACKET_SIZE \<and>
     length (pe_buf e) = MAX_PACKET_SIZE \<and>
     take (pe_cursor e) (pe_buf e) = replicate PACKET_HEADER_SIZE 0 @ payload \<and>
     drop (pe_cursor e) (pe_buf e) = replicate (MAX_PACKET_SIZE - pe_cursor e) 0"

subsection \<open>Header\<close>

lemma mask4_u8: "(0x0F :: u8) = mask 4"
  by (simp add: mask_eq_exp_minus_1)

lemma version_of_flags [wire_simps]:
  "v AND 0x0F = v \<Longrightarrow> drop_bit 4 (make_version_flags v f) AND 0x0F = v"
  by (simp only: mask4_u8 make_version_flags_def bit_eq_iff [of "_ AND _"])
    (auto simp: bit_simps mask4_u8 bit_eq_iff)

lemma flags_of_flags [wire_simps]: "make_version_flags v f AND 0x0F = f AND 0x0F"
  by (simp only: mask4_u8 make_version_flags_def) (auto simp: bit_simps bit_eq_iff)

lemma make_split [wire_simps]: "make_version_flags (drop_bit 4 b AND 0x0F) (b AND 0x0F) = b"
  by (simp only: mask4_u8 make_version_flags_def) (auto simp: bit_simps bit_eq_iff)

lemma make_split_Suc [wire_simps]:
  "make_version_flags (drop_bit (Suc (Suc (Suc (Suc 0)))) b AND 0x0F) (b AND 0x0F) = b"
  using make_split [of b] by (simp add: numeral_eq_Suc)

lemma nibble_idem [wire_simps]: "(b AND 0x0F) AND 0x0F = (b AND 0x0F :: u8)"
  by (simp add: and.assoc)

lemmas packet_header_defs = packet_header_encode_def packet_header_decode_def packet_header_wire_def
  packet_header_wf_def size_defs Let_def

interpretation packet_header_codec:
  fixed_codec packet_header_encode packet_header_decode packet_header_wire packet_header_wf
    PACKET_HEADER_SIZE
proof (unfold_locales, goal_cases)
  case (6 b)
  then have "16 \<le> length b" by (simp add: size_defs)
  then show ?case by (auto simp: long_list packet_header_defs wire_simps)
qed (auto simp: packet_header_defs buf_simps wire_simps)

subsection \<open>Encoder\<close>

lemma enc_holds_new: "enc_holds packet_encoder_new []"
  by (simp add: enc_holds_def packet_encoder_new_def size_defs)

lemma enc_holds_set [simp]:
  "enc_holds (set_packet_type t e) p = enc_holds e p"
  "enc_holds (set_connection_id c e) p = enc_holds e p"
  "enc_holds (set_packet_number n e) p = enc_holds e p"
  "enc_holds (set_timestamp ts e) p = enc_holds e p"
  by (simp_all add: enc_holds_def set_packet_type_def set_connection_id_def set_packet_number_def
      set_timestamp_def)

lemma put_bytes_seq:
  "off + length xs \<le> length buf \<Longrightarrow>
   put_bytes (put_bytes buf off xs) (off + length xs) ys = put_bytes buf off (xs @ ys)"
  by (simp add: put_bytes_def add.commute add.left_commute)

text \<open>Appending is one write of the frame's bytes at the cursor.\<close>

lemma add_frame_bytes:
  assumes fits: "pe_cursor e + 3 + length p \<le> MAX_PACKET_SIZE" and small: "length p < 2 ^ 16"
    and buf: "length (pe_buf e) = MAX_PACKET_SIZE"
  shows "add_frame t (Some p) (of_nat (length p)) e =
    (e\<lparr>pe_buf := put_bytes (pe_buf e) (pe_cursor e) (frame_bytes (t, p)),
       pe_cursor := pe_cursor e + length (frame_bytes (t, p))\<rparr>, True)"
proof -
  let ?c = "pe_cursor e"
  have u: "unat (of_nat (length p) :: u16) = length p"
    using small by (simp add: unat_of_nat take_bit_nat_eq_self)
  have "put_bytes (put_bytes (put_bytes (pe_buf e) ?c [frame_type_code t]) (?c + 1)
      (be16 (of_nat (length p)))) (?c + 3) p = put_bytes (pe_buf e) ?c (frame_bytes (t, p))"
    using fits buf put_bytes_seq [of ?c "[frame_type_code t]" "pe_buf e" "be16 (of_nat (length p))"]
      put_bytes_seq [of ?c "frame_type_code t # be16 (of_nat (length p))" "pe_buf e" p]
    by (simp add: frame_bytes_def)
  moreover have "(pe_buf e)[?c := frame_type_code t] = put_bytes (pe_buf e) ?c [frame_type_code t]"
    using fits buf by (simp add: list_update_put_bytes)
  moreover have "put_bytes b k [] = b" for b k by (simp add: put_bytes_def)
  ultimately show ?thesis
    using fits u by (cases "p = []")
      (simp_all add: add_frame_def FRAME_HEADER_SIZE_def write_u16_be frame_bytes_def)
qed

lemma add_frame_full:
  "pe_cursor e + 3 + unat len > MAX_PACKET_SIZE \<Longrightarrow> add_frame t p len e = (e, False)"
  by (simp add: add_frame_def FRAME_HEADER_SIZE_def)

lemma length_frame_bytes [simp]: "length (frame_bytes f) = 3 + length (snd f)"
  by (simp add: frame_bytes_def)

lemma enc_holds_add_frame:
  assumes "enc_holds e q" and "pe_cursor e + 3 + length p \<le> MAX_PACKET_SIZE" and "length p < 2 ^ 16"
  shows "\<exists>e'. add_frame t (Some p) (of_nat (length p)) e = (e', True) \<and> enc_holds e' (q @ frame_bytes (t, p)) \<and>
    e'\<lparr>pe_buf := [], pe_cursor := 0\<rparr> = e\<lparr>pe_buf := [], pe_cursor := 0\<rparr>"
proof -
  have len: "length (pe_buf e) = MAX_PACKET_SIZE" using assms(1) by (simp add: enc_holds_def)
  have "drop (pe_cursor e) (pe_buf e) = replicate (length (pe_buf e) - pe_cursor e) 0"
    using assms(1) by (auto simp only: enc_holds_def)
  from drop_zeros [OF this, of "length (frame_bytes (t, p))"]
  have "drop (pe_cursor e + length (frame_bytes (t, p)))
      (put_bytes (pe_buf e) (pe_cursor e) (frame_bytes (t, p))) =
      replicate (MAX_PACKET_SIZE - (pe_cursor e + length (frame_bytes (t, p)))) 0"
    using assms(2) len by (simp add: drop_put_bytes)
  then have "enc_holds (e\<lparr>pe_buf := put_bytes (pe_buf e) (pe_cursor e) (frame_bytes (t, p)),
       pe_cursor := pe_cursor e + length (frame_bytes (t, p))\<rparr>) (q @ frame_bytes (t, p))"
    using assms take_put_bytes_end [of "pe_cursor e" "pe_buf e" "frame_bytes (t, p)"]
    by (auto simp: enc_holds_def)
  then show ?thesis
    using add_frame_bytes [OF assms(2,3) len, of t] by auto
qed

lemma enc_holds_add_frames:
  assumes "enc_holds e q" and "list_all sendable fs"
    and "pe_cursor e + length (concat (map frame_bytes fs)) \<le> MAX_PACKET_SIZE"
  shows "\<exists>e'. add_frames fs e = (e', True) \<and> enc_holds e' (q @ concat (map frame_bytes fs)) \<and>
    e'\<lparr>pe_buf := [], pe_cursor := 0\<rparr> = e\<lparr>pe_buf := [], pe_cursor := 0\<rparr>"
  using assms
proof (induction fs arbitrary: e q)
  case Nil
  then show ?case by simp
next
  case (Cons f fs)
  obtain e1 where e1: "add_frame (fst f) (Some (snd f)) (of_nat (length (snd f))) e = (e1, True)"
    "enc_holds e1 (q @ frame_bytes f)"
    "e1\<lparr>pe_buf := [], pe_cursor := 0\<rparr> = e\<lparr>pe_buf := [], pe_cursor := 0\<rparr>"
    using enc_holds_add_frame [of e q "snd f" "fst f"] Cons.prems by (auto simp: sendable_def)
  have "pe_cursor e1 + length (concat (map frame_bytes fs)) \<le> MAX_PACKET_SIZE"
    using e1(2) Cons.prems(1,3) by (simp add: enc_holds_def)
  from Cons.IH [OF e1(2) _ this] Cons.prems(2) e1 show ?case
    by (auto simp: add.assoc)
qed

text \<open>\<open>finalize\<close> writes the header and the checksum in front of the payload and starts afresh.\<close>

definition final_header :: "packet_encoder \<Rightarrow> nat \<Rightarrow> packet_header" where
  "final_header e n = \<lparr>ph_version = PROTOCOL_VERSION, ph_flags = pe_flags e,
     ph_packet_type = pe_packet_type e, ph_connection_id = pe_connection_id e,
     ph_packet_number = pe_packet_number e, ph_timestamp_us = pe_timestamp_us e,
     ph_payload_length = of_nat n, ph_checksum = 0\<rparr>"

lemma header_wire_checksum:
  "write_u16 (packet_header_wire h @ r) 14 c = packet_header_wire (h\<lparr>ph_checksum := c\<rparr>) @ r"
  by (simp add: packet_header_wire_def buf_simps)

lemma checksum_ignores_field:
  "compute_checksum xxh (packet_header_wire (h\<lparr>ph_checksum := c\<rparr>) @ r) =
   compute_checksum xxh (packet_header_wire h @ r)"
  by (simp add: compute_checksum_def packet_header_wire_def size_defs be16_def be32_def
      Let_def)

lemma finalize_bytes:
  assumes "enc_holds e q"
  shows "finalize xxh e = (e\<lparr>pe_cursor := PACKET_HEADER_SIZE, pe_buf := replicate MAX_PACKET_SIZE 0\<rparr>,
    let h = final_header e (length q) in
    packet_header_wire (h\<lparr>ph_checksum := compute_checksum xxh (packet_header_wire h @ q)\<rparr>) @ q)"
proof -
  define h where "h = final_header e (length q)"
  have len: "length (pe_buf e) = MAX_PACKET_SIZE" and cur: "pe_cursor e = PACKET_HEADER_SIZE + length q"
    and hold: "take (pe_cursor e) (pe_buf e) = replicate PACKET_HEADER_SIZE 0 @ q"
    and le: "pe_cursor e \<le> MAX_PACKET_SIZE"
    using assms by (auto simp only: enc_holds_def)
  have enc: "packet_header_encode h (take PACKET_HEADER_SIZE (pe_buf e)) = Some (packet_header_wire h)"
    using packet_header_codec.enc_ok [of "take PACKET_HEADER_SIZE (pe_buf e)" h] len
    by (simp add: size_defs)
  have body: "take (length q) (drop PACKET_HEADER_SIZE (pe_buf e)) = q"
  proof -
    have "take (length q) (drop PACKET_HEADER_SIZE (pe_buf e)) =
        drop PACKET_HEADER_SIZE (take (pe_cursor e) (pe_buf e))"
      by (simp add: cur drop_take)
    then show ?thesis by (simp add: hold)
  qed
  have tk: "take (pe_cursor e) (packet_header_wire g @ drop PACKET_HEADER_SIZE (pe_buf e)) =
      packet_header_wire g @ q" for g
    by (simp add: cur body packet_header_codec.wire_len)
  have hd: "\<lparr>ph_version = PROTOCOL_VERSION, ph_flags = pe_flags e,
                ph_packet_type = pe_packet_type e, ph_connection_id = pe_connection_id e,
                ph_packet_number = pe_packet_number e, ph_timestamp_us = pe_timestamp_us e,
                ph_payload_length = of_nat (pe_cursor e - PACKET_HEADER_SIZE), ph_checksum = 0\<rparr> = h"
    by (simp add: h_def final_header_def cur)
  show ?thesis
    by (simp add: finalize_def Let_def hd enc header_wire_checksum tk del: take_append flip: h_def)
qed

subsection \<open>Decoder\<close>

text \<open>The payload behind the frame cursor.\<close>

definition frames_rest :: "packet_decoder \<Rightarrow> bytes" where
  "frames_rest d = (case pd_data d of None \<Rightarrow> []
     | Some data \<Rightarrow> drop (pd_frame_cursor d)
         (take (unat (ph_payload_length (pd_header d))) (drop PACKET_HEADER_SIZE data)))"

definition decoder_ok :: "packet_decoder \<Rightarrow> bool" where
  "decoder_ok d \<longleftrightarrow> (\<exists>data. pd_data d = Some data \<and>
     pd_data_len d = PACKET_HEADER_SIZE + unat (ph_payload_length (pd_header d)) \<and>
     pd_data_len d \<le> length data \<and> pd_frame_cursor d \<le> unat (ph_payload_length (pd_header d)))"

lemma frame_header_local:
  "3 \<le> n \<Longrightarrow> 3 \<le> length b \<Longrightarrow> frame_header_decode (take n b) = frame_header_decode b"
  using frame_header_codec.dec_local [of b "drop 3 (take n b)"] append_take_drop_id [of 3 "take n b"]
  by (simp add: FRAME_HEADER_SIZE_def)

lemma next_frame_rest:
  assumes "decoder_ok d"
  shows "case next_frame d of
      (d', None) \<Rightarrow> d' = d \<and> frames_of (frames_rest d) = []
    | (d', Some f) \<Rightarrow> decoder_ok d' \<and> pd_header d' = pd_header d \<and> pd_data d' = pd_data d \<and>
        frames_of (frames_rest d) = f # frames_of (frames_rest d')"
proof -
  obtain data where data: "pd_data d = Some data" using assms by (auto simp: decoder_ok_def)
  define n where "n = unat (ph_payload_length (pd_header d))"
  define c where "c = pd_frame_cursor d"
  have le: "PACKET_HEADER_SIZE + n \<le> length data" "c \<le> n"
    using assms data by (auto simp: decoder_ok_def n_def c_def)
  define rest where "rest = take (n - c) (drop (PACKET_HEADER_SIZE + c) data)"
  have rest: "frames_rest d = rest"
    by (simp add: frames_rest_def data rest_def n_def c_def drop_take add.commute)
  have lenr: "length rest = n - c" using le by (simp add: rest_def)
  show ?thesis
  proof (cases "n - c < 3")
    case True
    then have "frame_header_decode rest = None"
      using frame_header_codec.dec_short [of rest] by (simp add: lenr FRAME_HEADER_SIZE_def)
    moreover have "next_frame d = (d, None)"
      using True le by (auto simp: next_frame_def data FRAME_HEADER_SIZE_def Let_def simp flip: n_def c_def)
    ultimately show ?thesis by (simp add: rest frames_of.simps [of rest])
  next
    case False
    then obtain fh where fh: "frame_header_decode rest = Some fh"
      using frame_header_codec.dec_iff [of rest] by (auto simp: lenr FRAME_HEADER_SIZE_def)
    let ?k = "3 + unat (fh_length fh)"
    have nf: "next_frame d = (if n - c < ?k then (d, None)
       else (d\<lparr>pd_frame_cursor := c + ?k\<rparr>, Some \<lparr>fr_header = fh,
             fr_payload = take (unat (fh_length fh)) (drop (PACKET_HEADER_SIZE + c + 3) data)\<rparr>))"
      using False le fh
      by (auto simp: next_frame_def data FRAME_HEADER_SIZE_def rest_def Let_def simp flip: n_def c_def)
    show ?thesis
    proof (cases "n - c < ?k")
      case True
      then show ?thesis
        by (simp add: nf rest frames_of.simps [of rest] fh lenr FRAME_HEADER_SIZE_def)
    next
      case k: False
      have r': "frames_rest (d\<lparr>pd_frame_cursor := c + ?k\<rparr>) = drop ?k rest"
        by (simp add: frames_rest_def data rest_def drop_take ac_simps flip: n_def)
      have pay: "take (unat (fh_length fh)) (drop 3 rest) =
          take (unat (fh_length fh)) (drop (PACKET_HEADER_SIZE + c + 3) data)"
        using k by (simp add: rest_def drop_take ac_simps min_def)
      have "decoder_ok (d\<lparr>pd_frame_cursor := c + ?k\<rparr>)"
        using assms k le by (auto simp: decoder_ok_def data c_def n_def)
      with k show ?thesis
        by (simp add: nf rest r' frames_of.simps [of rest] fh lenr pay FRAME_HEADER_SIZE_def)
    qed
  qed
qed

text \<open>The frame loop of the callers reads exactly the reference frames.\<close>

lemma all_frames_eq: "decoder_ok d \<Longrightarrow> all_frames d = frames_of (frames_rest d)"
proof (induction d rule: all_frames.induct)
  case (1 d)
  obtain d' r where nf: "next_frame d = (d', r)" by (cases "next_frame d")
  have step: "all_frames d = (case r of None \<Rightarrow> [] | Some f \<Rightarrow> f # all_frames d')"
    by (subst all_frames.simps) (simp add: nf)
  show ?case
    using next_frame_rest [OF 1(2)] 1(1) [OF nf [symmetric]] unfolding step by (cases r) (simp_all add: nf)
qed

lemma parse_ok:
  assumes "packet_decoder_parse data d0 = (d, True)"
  shows "decoder_ok d \<and> packet_header_decode data = Some (pd_header d) \<and>
    all_frames d = frames_of (take (unat (ph_payload_length (pd_header d))) (drop PACKET_HEADER_SIZE data))"
proof -
  have "decoder_ok d" "packet_header_decode data = Some (pd_header d)" "pd_data d = Some data"
    "pd_frame_cursor d = 0"
    using assms by (auto simp: packet_decoder_parse_def decoder_ok_def Let_def split: if_splits option.splits)
  then show ?thesis by (simp add: all_frames_eq frames_rest_def)
qed

lemma frames_of_bytes:
  assumes "sendable f"
  shows "frames_of (frame_bytes f @ bs) = mk_frame f # frames_of bs"
proof -
  have u: "unat (of_nat (length (snd f)) :: u16) = length (snd f)"
    using assms by (simp add: sendable_def unat_of_nat take_bit_nat_eq_self)
  have "frame_bytes f @ bs = frame_header_wire \<lparr>fh_type = fst f, fh_length = of_nat (length (snd f))\<rparr> @ snd f @ bs"
    by (simp add: frame_bytes_def frame_header_wire_def)
  then have "frame_header_decode (frame_bytes f @ bs) = Some \<lparr>fh_type = fst f, fh_length = of_nat (length (snd f))\<rparr>"
    using assms by (simp add: frame_header_codec.dec_wire frame_header_wf_def sendable_def)
  moreover have "drop 3 (frame_bytes f) = snd f"
    by (simp add: frame_bytes_def be16_def)
  ultimately show ?thesis
    by (subst frames_of.simps) (simp add: u FRAME_HEADER_SIZE_def mk_frame_def)
qed

lemma frames_of_Nil: "frames_of [] = []"
  by (subst frames_of.simps) (simp add: frame_header_decode_def FRAME_HEADER_SIZE_def)

lemma frames_of_concat: "list_all sendable fs \<Longrightarrow> frames_of (concat (map frame_bytes fs)) = map mk_frame fs"
  by (induction fs) (simp_all add: frames_of_bytes frames_of_Nil)

lemma frames_of_split:
  "\<exists>rest. bs = concat (map (\<lambda>f. frame_header_wire (fr_header f) @ fr_payload f) (frames_of bs)) @ rest \<and>
     frames_of rest = [] \<and> list_all (\<lambda>f. length (fr_payload f) = unat (fh_length (fr_header f))) (frames_of bs)"
proof (induction bs rule: frames_of.induct)
  case (1 bs)
  show ?case
  proof (cases "frames_of bs = []")
    case True
    then show ?thesis by simp
  next
    case False
    then obtain fh where fh: "frame_header_decode bs = Some fh"
      and ge: "\<not> length bs < FRAME_HEADER_SIZE + unat (fh_length fh)"
      by (subst (asm) frames_of.simps) (auto split: option.splits if_splits)
    let ?k = "unat (fh_length fh)" and ?p = "take (unat (fh_length fh)) (drop FRAME_HEADER_SIZE bs)"
    have step: "frames_of bs = \<lparr>fr_header = fh, fr_payload = ?p\<rparr> # frames_of (drop (FRAME_HEADER_SIZE + ?k) bs)"
      by (subst frames_of.simps) (use fh ge in simp)
    have "frame_header_wire fh = take FRAME_HEADER_SIZE bs"
      using frame_header_codec.dec_total [of bs] frame_header_codec.dec_short [of bs] fh
      by (cases "FRAME_HEADER_SIZE \<le> length bs") auto
    then have hd: "bs = frame_header_wire fh @ ?p @ drop (FRAME_HEADER_SIZE + ?k) bs"
      by (metis add.commute append_take_drop_id drop_drop)
    obtain rest where rest: "drop (FRAME_HEADER_SIZE + ?k) bs = concat (map (\<lambda>f. frame_header_wire (fr_header f) @
        fr_payload f) (frames_of (drop (FRAME_HEADER_SIZE + ?k) bs))) @ rest" "frames_of rest = []"
      "list_all (\<lambda>f. length (fr_payload f) = unat (fh_length (fr_header f)))
        (frames_of (drop (FRAME_HEADER_SIZE + ?k) bs))"
      using 1 [OF fh ge] by blast
    have "bs = concat (map (\<lambda>f. frame_header_wire (fr_header f) @ fr_payload f) (frames_of bs)) @ rest"
      unfolding step by (simp flip: rest(1)) (rule hd [simplified])
    with rest(2,3) ge show ?thesis by (auto simp: step)
  qed
qed

text \<open>A finalized packet parses, passes its checksum and yields the frames that were added.\<close>

lemma finalize_decodes:
  assumes holds: "enc_holds e (concat (map frame_bytes fs))" and fs: "list_all sendable fs"
    and wf: "packet_type_wf (pe_packet_type e)" "pe_flags e AND 0x0F = pe_flags e"
  shows "\<exists>d. packet_decoder_parse (snd (finalize xxh e)) d0 = (d, True) \<and> verify_checksum xxh d \<and>
    all_frames d = map mk_frame fs \<and> ph_version (pd_header d) = PROTOCOL_VERSION \<and>
    ph_packet_type (pd_header d) = pe_packet_type e \<and> ph_connection_id (pd_header d) = pe_connection_id e \<and>
    ph_packet_number (pd_header d) = pe_packet_number e \<and> ph_timestamp_us (pd_header d) = pe_timestamp_us e"
proof -
  define q where "q = concat (map frame_bytes fs)"
  have lq: "length q \<le> 1436" using holds by (simp add: enc_holds_def q_def size_defs)
  then have u: "unat (of_nat (length q) :: u16) = length q"
    by (simp add: unat_of_nat take_bit_nat_eq_self)
  define h where "h = final_header e (length q)"
  define hc where "hc = h\<lparr>ph_checksum := compute_checksum xxh (packet_header_wire h @ q)\<rparr>"
  have pkt: "snd (finalize xxh e) = packet_header_wire hc @ q"
    using finalize_bytes [OF holds, of xxh] by (simp add: h_def hc_def q_def Let_def)
  have "packet_header_wf hc"
    using wf by (simp add: packet_header_wf_def hc_def h_def final_header_def PROTOCOL_VERSION_def)
  then have dec: "packet_header_decode (packet_header_wire hc @ q) = Some hc"
    by (rule packet_header_codec.dec_wire)
  have plen: "unat (ph_payload_length hc) = length q" by (simp add: hc_def h_def final_header_def u)
  obtain d where d: "packet_decoder_parse (packet_header_wire hc @ q) d0 = (d, True)"
    "pd_header d = hc" "pd_data d = Some (packet_header_wire hc @ q)" "pd_data_len d = PACKET_HEADER_SIZE + length q"
    by (simp add: packet_decoder_parse_def dec plen packet_header_codec.wire_len Let_def)
  have "all_frames d = frames_of q"
    using parse_ok [OF d(1)] by (simp add: d(2) plen packet_header_codec.wire_len)
  moreover have "compute_checksum xxh (packet_header_wire hc @ q) = ph_checksum hc"
    by (simp add: hc_def checksum_ignores_field)
  ultimately have "packet_decoder_parse (snd (finalize xxh e)) d0 = (d, True)" "verify_checksum xxh d"
    "all_frames d = map mk_frame fs"
    using fs by (simp_all add: pkt d verify_checksum_def packet_header_codec.wire_len)
      (simp add: q_def frames_of_concat)
  then show ?thesis by (intro exI [of _ d]) (simp add: d(2) hc_def h_def final_header_def)
qed

subsection \<open>Properties of the packet layer\<close>

text \<open>
  C1. Packet round trip. For every header setting, every sequence of frames that fits into one
  packet and every hash function: all \<open>add_frame\<close> calls succeed, and parsing what \<open>finalize\<close>
  returns succeeds, passes the checksum, gives back the header fields and exactly the frames, in order.
  The encoder is then ready for the next packet.
\<close>

theorem packet_roundtrip:
  assumes "list_all sendable fs" and "packet_type_wf t"
    and "PACKET_HEADER_SIZE + length (concat (map frame_bytes fs)) \<le> MAX_PACKET_SIZE"
  shows "let e = set_packet_type t (set_connection_id c (set_packet_number n (set_timestamp ts packet_encoder_new)));
             (e1, added) = add_frames fs e;
             (e2, pkt) = finalize xxh e1;
             (d, parsed) = packet_decoder_parse pkt d0
         in added \<and> parsed \<and> verify_checksum xxh d \<and> all_frames d = map mk_frame fs \<and> e2 = e \<and>
            ph_version (pd_header d) = PROTOCOL_VERSION \<and> ph_packet_type (pd_header d) = t \<and>
            ph_connection_id (pd_header d) = c \<and> ph_packet_number (pd_header d) = n \<and>
            ph_timestamp_us (pd_header d) = ts"
proof -
  define e where "e = set_packet_type t (set_connection_id c (set_packet_number n (set_timestamp ts packet_encoder_new)))"
  define q where "q = concat (map frame_bytes fs)"
  have cur: "pe_cursor e = PACKET_HEADER_SIZE" and h0: "enc_holds e []"
    and flds: "pe_packet_type e = t" "pe_connection_id e = c" "pe_packet_number e = n" "pe_timestamp_us e = ts"
      "pe_flags e = FLAG_CHECKSUM" "pe_buf e = replicate MAX_PACKET_SIZE 0"
    by (simp_all add: e_def enc_holds_new packet_encoder_new_def set_packet_type_def set_connection_id_def
        set_packet_number_def set_timestamp_def del: enc_holds_set)
      (simp_all add: enc_holds_def size_defs)
  obtain e1 where e1: "add_frames fs e = (e1, True)" "enc_holds e1 q"
    "e1\<lparr>pe_buf := [], pe_cursor := 0\<rparr> = e\<lparr>pe_buf := [], pe_cursor := 0\<rparr>"
    using enc_holds_add_frames [OF h0 assms(1)] assms(3) by (auto simp: cur q_def)
  have flds1: "pe_packet_type e1 = t" "pe_connection_id e1 = c" "pe_packet_number e1 = n"
    "pe_timestamp_us e1 = ts" "pe_flags e1 = FLAG_CHECKSUM"
    using e1(3) flds by (cases e1; cases e; simp)+
  have e2: "fst (finalize xxh e1) = e"
    using finalize_bytes [OF e1(2), of xxh] e1(3) flds cur by (cases e1; cases e) (simp add: Let_def)
  have "\<exists>d. packet_decoder_parse (snd (finalize xxh e1)) d0 = (d, True) \<and> verify_checksum xxh d \<and>
      all_frames d = map mk_frame fs \<and> ph_version (pd_header d) = PROTOCOL_VERSION \<and>
      ph_packet_type (pd_header d) = t \<and> ph_connection_id (pd_header d) = c \<and>
      ph_packet_number (pd_header d) = n \<and> ph_timestamp_us (pd_header d) = ts"
    using finalize_decodes [OF e1(2) [unfolded q_def] assms(1), of xxh d0] assms(2)
    by (simp add: flds1 FLAG_CHECKSUM_def)
  then show ?thesis using e1(1) e2 by (auto simp: split_beta Let_def simp flip: e_def)
qed

theorem packet_roundtrip_witness:
  "let fs = [(FT_PING, [0, 0, 0, 1, 0, 0, 0, 2]), (FT_CLOSE, [0]), (FT_STATE_DELTA, [])];
       e = set_packet_type PT_CONTROL (set_connection_id 7 (set_packet_number 9 (set_timestamp 5 packet_encoder_new)));
       (e1, added) = add_frames fs e;
       (e2, pkt) = finalize (\<lambda>b. of_nat (length b)) e1;
       (d, parsed) = packet_decoder_parse pkt packet_decoder_new
   in added \<and> parsed \<and> verify_checksum (\<lambda>b. of_nat (length b)) d \<and> all_frames d = map mk_frame fs \<and> e2 = e \<and>
      ph_version (pd_header d) = PROTOCOL_VERSION \<and> ph_packet_type (pd_header d) = PT_CONTROL \<and>
      ph_connection_id (pd_header d) = 7 \<and> ph_packet_number (pd_header d) = 9 \<and>
      ph_timestamp_us (pd_header d) = 5"
  using packet_roundtrip [of "[(FT_PING, [0, 0, 0, 1, 0, 0, 0, 2]), (FT_CLOSE, [0]), (FT_STATE_DELTA, [])]"
      PT_CONTROL 7 9 5 "\<lambda>b. of_nat (length b)" packet_decoder_new]
  unfolding Let_def by (simp add: sendable_def size_defs)

text \<open>
  C9. Decoder safety. Whatever bytes arrive, the frames that the frame loop hands out are
  consecutive pieces of the payload: header and payload bytes of all frames, in order, are a prefix of
  the payload region announced by the header, every frame's payload has its announced length, and what
  is left over does not start with a complete frame.
\<close>

theorem decoder_frames_in_bounds:
  assumes "packet_decoder_parse data d0 = (d, True)"
  shows "\<exists>rest. take (unat (ph_payload_length (pd_header d))) (drop PACKET_HEADER_SIZE data) =
      concat (map (\<lambda>f. frame_header_wire (fr_header f) @ fr_payload f) (all_frames d)) @ rest \<and>
    frames_of rest = [] \<and>
    list_all (\<lambda>f. length (fr_payload f) = unat (fh_length (fr_header f))) (all_frames d) \<and>
    PACKET_HEADER_SIZE + unat (ph_payload_length (pd_header d)) \<le> length data"
proof -
  have "PACKET_HEADER_SIZE + unat (ph_payload_length (pd_header d)) \<le> length data"
    using assms by (auto simp: packet_decoder_parse_def Let_def split: if_splits option.splits)
  with parse_ok [OF assms]
    frames_of_split [of "take (unat (ph_payload_length (pd_header d))) (drop PACKET_HEADER_SIZE data)"]
  show ?thesis by auto
qed

theorem decoder_frames_in_bounds_witness:
  "let data = [0x11, 1, 0, 7, 0, 0, 0, 9, 0, 0, 0, 5, 0, 6, 0, 0, 0x03, 0, 1, 0, 0xFF, 0xFF, 0xAA];
       d = fst (packet_decoder_parse data packet_decoder_new)
   in snd (packet_decoder_parse data packet_decoder_new) \<and>
      (\<exists>rest. take (unat (ph_payload_length (pd_header d))) (drop PACKET_HEADER_SIZE data) =
         concat (map (\<lambda>f. frame_header_wire (fr_header f) @ fr_payload f) (all_frames d)) @ rest \<and>
       frames_of rest = [] \<and>
       list_all (\<lambda>f. length (fr_payload f) = unat (fh_length (fr_header f))) (all_frames d) \<and>
       PACKET_HEADER_SIZE + unat (ph_payload_length (pd_header d)) \<le> length data)"
proof -
  let ?data = "[0x11, 1, 0, 7, 0, 0, 0, 9, 0, 0, 0, 5, 0, 6, 0, 0, 0x03, 0, 1, 0, 0xFF, 0xFF, 0xAA] :: bytes"
  have ok: "snd (packet_decoder_parse ?data packet_decoder_new)" by code_simp
  then have "packet_decoder_parse ?data packet_decoder_new =
      (fst (packet_decoder_parse ?data packet_decoder_new), True)" by (simp add: prod_eq_iff)
  from decoder_frames_in_bounds [OF this] have "\<exists>rest.
      take (unat (ph_payload_length (pd_header (fst (packet_decoder_parse ?data packet_decoder_new)))))
        (drop PACKET_HEADER_SIZE ?data) =
      concat (map (\<lambda>f. frame_header_wire (fr_header f) @ fr_payload f)
        (all_frames (fst (packet_decoder_parse ?data packet_decoder_new)))) @ rest \<and>
      frames_of rest = [] \<and>
      list_all (\<lambda>f. length (fr_payload f) = unat (fh_length (fr_header f)))
        (all_frames (fst (packet_decoder_parse ?data packet_decoder_new))) \<and>
      PACKET_HEADER_SIZE + unat (ph_payload_length (pd_header (fst (packet_decoder_parse ?data packet_decoder_new))))
        \<le> length ?data" .
  then show ?thesis using ok unfolding Let_def by blast
qed

end
