(* ===== verification/Crdt_Base.thy ===== *)
theory Crdt_Base
  imports Packet
begin

text \<open>
  The interface of \<^verbatim>\<open>state/crdt/crdt.h\<close> as contracts. A replica receives byte messages; \<open>absf\<close> is
  the value it stands for and \<open>eff\<close> the value a message stands for. \<open>join_replica\<close> promises that
  receiving a message joins the two values; its lemmas are strong eventual consistency: the value of a
  replica depends on the set of messages received and on nothing else, neither order nor repetition.
  \<open>join_crdt\<close> adds snapshots, and gives anti-entropy: an exchange of snapshots makes two replicas
  agree. The interpretations are in the theories of the CRDTs.

  The theory also has the two halves in which the source reads and writes 64-bit counters.
\<close>

locale join_replica =
  fixes apply_msg :: "'m \<Rightarrow> 's \<Rightarrow> 's"
    and absf :: "'s \<Rightarrow> 'a"
    and eff :: "'m \<Rightarrow> 'a"
    and join :: "'a \<Rightarrow> 'a \<Rightarrow> 'a"
    and ok :: "'s \<Rightarrow> bool"
    and good :: "'m \<Rightarrow> bool"
  assumes join_assoc: "join (join a b) c = join a (join b c)"
    and join_commute: "join a b = join b a"
    and join_idem: "join a a = a"
    and ok_apply: "ok s \<Longrightarrow> good m \<Longrightarrow> ok (apply_msg m s)"
    and absf_apply: "ok s \<Longrightarrow> good m \<Longrightarrow> absf (apply_msg m s) = join (absf s) (eff m)"
begin

definition below :: "'a \<Rightarrow> 'a \<Rightarrow> bool" where
  "below a b \<longleftrightarrow> join a b = b"

lemma join_left_commute: "join a (join b c) = join b (join a c)"
  by (metis join_assoc join_commute)

lemma below_refl: "below a a"
  by (simp add: below_def join_idem)

lemma below_trans: "below a b \<Longrightarrow> below b c \<Longrightarrow> below a c"
  by (metis below_def join_assoc)

lemma below_antisym: "below a b \<Longrightarrow> below b a \<Longrightarrow> a = b"
  by (metis below_def join_commute)

lemma below_join: "below a (join a b)"
  by (metis below_def join_assoc join_idem)

lemma ok_fold: "ok s \<Longrightarrow> \<forall>m \<in> set ms. good m \<Longrightarrow> ok (fold apply_msg ms s)"
  by (induction ms arbitrary: s) (auto simp: ok_apply)

lemma absf_fold:
  "ok s \<Longrightarrow> \<forall>m \<in> set ms. good m \<Longrightarrow>
   absf (fold apply_msg ms s) = fold (\<lambda>m a. join a (eff m)) ms (absf s)"
  by (induction ms arbitrary: s) (auto simp: ok_apply absf_apply)

lemma join_eff_comp_fun_idem: "comp_fun_idem_on UNIV (\<lambda>m a. join a (eff m))"
  by unfold_locales (auto simp: fun_eq_iff join_assoc join_idem, metis join_commute)

lemma convergence:
  assumes "ok s" and "absf s = absf t" and "ok t" and "set ms = set ns" and "\<forall>m \<in> set ms. good m"
  shows "absf (fold apply_msg ms s) = absf (fold apply_msg ns t)"
proof -
  have "fold (\<lambda>m a. join a (eff m)) ms x = fold (\<lambda>m a. join a (eff m)) ns x" for x
    using comp_fun_idem_on.fold_set_fold [OF join_eff_comp_fun_idem, of ms x]
      comp_fun_idem_on.fold_set_fold [OF join_eff_comp_fun_idem, of ns x] assms(4) by simp
  with assms show ?thesis by (simp add: absf_fold)
qed

lemma redelivery:
  assumes "ok s" and "\<forall>m \<in> set ms. good m" and "m \<in> set ms"
  shows "absf (apply_msg m (fold apply_msg ms s)) = absf (fold apply_msg ms s)"
  using convergence [OF assms(1) refl assms(1), of "ms @ [m]" ms] assms(2,3) by auto

lemma monotone:
  assumes "ok s" and "\<forall>m \<in> set ms. good m"
  shows "below (absf s) (absf (fold apply_msg ms s))"
  using assms
proof (induction ms arbitrary: s)
  case Nil
  then show ?case by (simp add: below_refl)
next
  case (Cons m ms)
  then have "below (absf (apply_msg m s)) (absf (fold apply_msg ms (apply_msg m s)))"
    by (simp add: ok_apply)
  moreover have "below (absf s) (absf (apply_msg m s))"
    using Cons.prems by (simp add: absf_apply below_join)
  ultimately show ?case by (auto intro: below_trans)
qed

end

locale join_crdt = join_replica apply_msg absf eff join ok good
  for apply_msg :: "'m \<Rightarrow> 's \<Rightarrow> 's"
    and absf :: "'s \<Rightarrow> 'a"
    and eff :: "'m \<Rightarrow> 'a"
    and join :: "'a \<Rightarrow> 'a \<Rightarrow> 'a"
    and ok :: "'s \<Rightarrow> bool"
    and good :: "'m \<Rightarrow> bool" +
  fixes snap :: "'s \<Rightarrow> 'm"
    and small :: "'s \<Rightarrow> bool"
  assumes eff_snap: "ok s \<Longrightarrow> small s \<Longrightarrow> good (snap s) \<and> eff (snap s) = absf s"
begin

lemma absf_merge_snap: "ok s \<Longrightarrow> ok t \<Longrightarrow> small t \<Longrightarrow> absf (apply_msg (snap t) s) = join (absf s) (absf t)"
  by (simp add: eff_snap absf_apply)

lemma exchange:
  "ok s \<Longrightarrow> ok t \<Longrightarrow> small s \<Longrightarrow> small t \<Longrightarrow> absf (apply_msg (snap t) s) = absf (apply_msg (snap s) t)"
  by (simp add: absf_merge_snap join_commute)

lemma self_merge: "ok s \<Longrightarrow> small s \<Longrightarrow> absf (apply_msg (snap s) s) = absf s"
  by (simp add: absf_merge_snap join_idem)

end

text \<open>64-bit counters as two big-endian halves.\<close>

definition join_u64 :: "u32 \<Rightarrow> u32 \<Rightarrow> u64" where
  "join_u64 hi lo = push_bit 32 (ucast hi) OR ucast lo"

definition hi_u64 :: "u64 \<Rightarrow> u32" where
  "hi_u64 v = ucast (drop_bit 32 v)"

definition lo_u64 :: "u64 \<Rightarrow> u32" where
  "lo_u64 v = ucast (v AND 0xFFFFFFFF)"

lemma join_u64_split [wire_simps]: "join_u64 (hi_u64 v) (lo_u64 v) = v"
proof -
  have m: "(0xFFFFFFFF :: u64) = mask 32" by (simp add: mask_eq_exp_minus_1)
  show ?thesis
    unfolding join_u64_def hi_u64_def lo_u64_def m
    by (rule bit_word_eqI) (auto simp: bit_simps)
qed

end
