(* ===== verification/Crdt_Lww.thy ===== *)
theory Crdt_Lww
  imports Crdt_Base "HOL-Library.Product_Lexorder"
begin

text \<open>
  The last-writer-wins register (\<^verbatim>\<open>lww_register.h\<close>, \<^verbatim>\<open>lww_register.cpp\<close>): state, \<open>set\<close>, \<open>merge\<close>,
  \<open>snapshot\<close>, \<open>delta\<close>. The register keeps the greatest stamp (timestamp, then node) it has seen. It is an
  interpretation of \<open>join_crdt\<close> for messages of one history, in which a stamp determines the value
  written under it (\<open>W\<close>); without that hypothesis two registers can disagree for ever.
\<close>

record lww_register =
  lww_value :: bytes
  lww_timestamp :: u32
  lww_node_id :: u16
  lww_dirty :: bool

definition LWW_HEADER_SIZE :: nat where "LWW_HEADER_SIZE = 6"

definition lww_default :: lww_register where
  "lww_default = \<lparr>lww_value = [], lww_timestamp = 0, lww_node_id = 0, lww_dirty = False\<rparr>"

definition lww_new :: "u16 \<Rightarrow> lww_register" where
  "lww_new node_id = lww_default\<lparr>lww_node_id := node_id\<rparr>"

definition lww_set :: "bytes \<Rightarrow> u32 \<Rightarrow> lww_register \<Rightarrow> lww_register" where
  "lww_set data timestamp_us r = r\<lparr>lww_value := data, lww_timestamp := timestamp_us, lww_dirty := True\<rparr>"

definition lww_empty :: "lww_register \<Rightarrow> bool" where
  "lww_empty r \<longleftrightarrow> lww_value r = [] \<and> lww_timestamp r = 0"

definition lww_incoming_wins :: "u32 \<Rightarrow> u16 \<Rightarrow> lww_register \<Rightarrow> bool" where
  "lww_incoming_wins ts node r =
    (if ts > lww_timestamp r then True
     else if ts = lww_timestamp r \<and> node > lww_node_id r then True
     else False)"

definition lww_merge :: "bytes \<Rightarrow> lww_register \<Rightarrow> lww_register \<times> bool" where
  "lww_merge data r =
    (if length data < LWW_HEADER_SIZE then (r, False)
     else
       let ts = read_u32 data;
           node = read_u16 (drop 4 data)
       in if lww_incoming_wins ts node r
          then (r\<lparr>lww_timestamp := ts, lww_node_id := node, lww_value := drop LWW_HEADER_SIZE data\<rparr>, True)
          else (r, False))"

definition lww_encode_state :: "lww_register \<Rightarrow> bytes" where
  "lww_encode_state r =
    (let b0 = replicate (LWW_HEADER_SIZE + length (lww_value r)) 0;
         b1 = write_u32 b0 0 (lww_timestamp r);
         b2 = write_u16 b1 4 (lww_node_id r)
     in if lww_value r \<noteq> [] then put_bytes b2 LWW_HEADER_SIZE (lww_value r) else b2)"

definition lww_snapshot :: "lww_register \<Rightarrow> bytes" where
  "lww_snapshot r = lww_encode_state r"

definition lww_delta :: "lww_register \<Rightarrow> lww_register \<times> bytes" where
  "lww_delta r =
    (if \<not> lww_dirty r then (r, [])
     else (let r1 = r\<lparr>lww_dirty := False\<rparr> in (r1, lww_encode_state r1)))"

definition lww_has_pending_delta :: "lww_register \<Rightarrow> bool" where
  "lww_has_pending_delta r = lww_dirty r"

text \<open>Stamps and messages: what a register or message is stamped with, and a message's value.\<close>

type_synonym stamp = "u32 \<times> u16"

definition lww_stamp :: "lww_register \<Rightarrow> stamp" where
  "lww_stamp r = (lww_timestamp r, lww_node_id r)"

definition lww_msg_stamp :: "bytes \<Rightarrow> stamp" where
  "lww_msg_stamp m = (if length m < LWW_HEADER_SIZE then (0, 0) else (read_u32 m, read_u16 (drop 4 m)))"

text \<open>One history: the value written under a stamp is \<open>W stamp\<close>.\<close>

definition lww_of_history :: "(stamp \<Rightarrow> bytes) \<Rightarrow> lww_register \<Rightarrow> bool" where
  "lww_of_history W r \<longleftrightarrow> lww_value r = W (lww_stamp r)"

definition lww_msg_of_history :: "(stamp \<Rightarrow> bytes) \<Rightarrow> bytes \<Rightarrow> bool" where
  "lww_msg_of_history W m \<longleftrightarrow> length m < LWW_HEADER_SIZE \<or> drop LWW_HEADER_SIZE m = W (lww_msg_stamp m)"

lemma lww_encode_wire: "lww_encode_state r = be32 (lww_timestamp r) @ be16 (lww_node_id r) @ lww_value r"
  by (auto simp: lww_encode_state_def LWW_HEADER_SIZE_def buf_simps Let_def)

lemma lww_wins_iff: "lww_incoming_wins ts node r \<longleftrightarrow> lww_stamp r < (ts, node)"
  by (auto simp: lww_incoming_wins_def lww_stamp_def less_prod_def)

lemma stamp_zero_least: "((0, 0) :: stamp) \<le> s"
  by (cases s) (auto simp: less_eq_prod_def word_neq_0_conv word_less_nat_alt)

lemma lww_merge_stamp: "lww_stamp (fst (lww_merge m r)) = max (lww_stamp r) (lww_msg_stamp m)"
proof (cases "length m < LWW_HEADER_SIZE")
  case True
  then show ?thesis by (simp add: lww_merge_def lww_msg_stamp_def max_absorb1 stamp_zero_least)
next
  case False
  then show ?thesis
    by (auto simp: lww_merge_def Let_def lww_wins_iff lww_msg_stamp_def max_def not_le)
      (simp_all add: lww_stamp_def)
qed

lemma lww_merge_of_history:
  "lww_of_history W r \<Longrightarrow> lww_msg_of_history W m \<Longrightarrow> lww_of_history W (fst (lww_merge m r))"
  by (auto simp: lww_merge_def Let_def lww_of_history_def lww_msg_of_history_def lww_msg_stamp_def lww_stamp_def)

lemma lww_snapshot_stamp: "lww_msg_stamp (lww_snapshot r) = lww_stamp r"
  by (simp add: lww_snapshot_def lww_encode_wire lww_msg_stamp_def LWW_HEADER_SIZE_def lww_stamp_def wire_simps)

lemma lww_snapshot_of_history: "lww_of_history W r \<Longrightarrow> lww_msg_of_history W (lww_snapshot r)"
  by (simp add: lww_of_history_def lww_msg_of_history_def lww_snapshot_stamp)
    (simp add: lww_snapshot_def lww_encode_wire LWW_HEADER_SIZE_def)

interpretation lww: join_crdt "\<lambda>m r. fst (lww_merge m r)" lww_stamp lww_msg_stamp max
  "lww_of_history W" "lww_msg_of_history W" lww_snapshot "\<lambda>r. True" for W
  by unfold_locales
    (auto simp: ac_simps lww_merge_stamp lww_merge_of_history lww_snapshot_stamp
      lww_snapshot_of_history)

lemma lww_same:
  "lww_of_history W r \<Longrightarrow> lww_of_history W s \<Longrightarrow> lww_stamp r = lww_stamp s \<Longrightarrow> lww_value r = lww_value s"
  by (simp add: lww_of_history_def)

text \<open>
  C5. Strong eventual consistency of the register. Two registers of one history that start with the same
  stamp and receive the same set of byte messages, in any order and with any repetition, end with the same
  stamp and the same value. Messages too short to be registers are allowed, and ignored.
\<close>

theorem lww_convergence:
  assumes "lww_of_history W r" and "lww_of_history W s" and "lww_stamp r = lww_stamp s"
    and "set ms = set ns" and "\<forall>m \<in> set ms. lww_msg_of_history W m"
  shows "lww_stamp (fold (\<lambda>m r. fst (lww_merge m r)) ms r) = lww_stamp (fold (\<lambda>m r. fst (lww_merge m r)) ns s) \<and>
    lww_value (fold (\<lambda>m r. fst (lww_merge m r)) ms r) = lww_value (fold (\<lambda>m r. fst (lww_merge m r)) ns s)"
proof -
  have "lww_stamp (fold (\<lambda>m r. fst (lww_merge m r)) ms r) = lww_stamp (fold (\<lambda>m r. fst (lww_merge m r)) ns s)"
    by (rule lww.convergence [OF assms(1,3,2,4,5)])
  moreover have "lww_of_history W (fold (\<lambda>m r. fst (lww_merge m r)) ms r)"
    "lww_of_history W (fold (\<lambda>m r. fst (lww_merge m r)) ns s)"
    using lww.ok_fold [OF assms(1), of ms] lww.ok_fold [OF assms(2), of ns] assms(4,5) by auto
  ultimately show ?thesis using lww_same by blast
qed

theorem lww_convergence_witness:
  "let a = [0, 0, 0, 5, 0, 1, 65]; b = [0, 0, 0, 5, 0, 2, 66]; c = [9 :: u8]
   in lww_value (fold (\<lambda>m r. fst (lww_merge m r)) [a, b, c] (lww_new 0)) =
      lww_value (fold (\<lambda>m r. fst (lww_merge m r)) [b, c, b, a] (lww_new 0)) \<and>
      lww_value (fold (\<lambda>m r. fst (lww_merge m r)) [a, b, c] (lww_new 0)) = [66]"
proof -
  let ?W = "\<lambda>k. if k = (5, 1) then [65] else if k = (5, 2) then [66] else [] :: bytes"
  let ?a = "[0, 0, 0, 5, 0, 1, 65] :: bytes" and ?b = "[0, 0, 0, 5, 0, 2, 66] :: bytes" and ?c = "[9] :: bytes"
  have "lww_of_history ?W (lww_new 0)" by code_simp
  moreover have "\<forall>m \<in> set [?a, ?b, ?c]. lww_msg_of_history ?W m" by code_simp
  ultimately have "lww_value (fold (\<lambda>m r. fst (lww_merge m r)) [?a, ?b, ?c] (lww_new 0)) =
      lww_value (fold (\<lambda>m r. fst (lww_merge m r)) [?b, ?c, ?b, ?a] (lww_new 0))"
    using lww_convergence [of ?W "lww_new 0" "lww_new 0" "[?a, ?b, ?c]" "[?b, ?c, ?b, ?a]"] by auto
  moreover have "lww_value (fold (\<lambda>m r. fst (lww_merge m r)) [?a, ?b, ?c] (lww_new 0)) = [66]" by code_simp
  ultimately show ?thesis unfolding Let_def by blast
qed

text \<open>
  A merge takes over the sender's identity. After a register has accepted a snapshot of another node, its own
  writes carry that node's id. If both then write at the same time the stamps are equal, and neither ever
  accepts the other's value: the replicas stay different although each has merged the other's state.
\<close>

theorem lww_identity_takeover:
  assumes "(0, n1) < (t, n2)" and "a \<noteq> b"
  shows "let r2 = lww_set v t (lww_new n2);
             (r1, accepted) = lww_merge (lww_snapshot r2) (lww_new n1);
             x1 = lww_set a u r1; x2 = lww_set b u r2
         in accepted \<and> lww_node_id x1 = n2 \<and> lww_merge (lww_snapshot x2) x1 = (x1, False) \<and>
            lww_merge (lww_snapshot x1) x2 = (x2, False) \<and> lww_value x1 \<noteq> lww_value x2"
proof -
  let ?r2 = "lww_set v t (lww_new n2)"
  have m: "lww_merge (lww_snapshot s) r = (if lww_stamp r < lww_stamp s
      then (r\<lparr>lww_timestamp := lww_timestamp s, lww_node_id := lww_node_id s, lww_value := lww_value s\<rparr>, True)
      else (r, False))" for s r
    by (simp add: lww_merge_def lww_snapshot_def lww_encode_wire LWW_HEADER_SIZE_def wire_simps lww_wins_iff Let_def)
      (simp add: lww_stamp_def)
  show ?thesis
    using assms by (simp add: m lww_stamp_def lww_set_def lww_new_def lww_default_def)
qed

theorem lww_identity_takeover_witness:
  "let r2 = lww_set [1] 5 (lww_new 2);
       (r1, accepted) = lww_merge (lww_snapshot r2) (lww_new 1);
       x1 = lww_set [7] 6 r1; x2 = lww_set [8] 6 r2
   in accepted \<and> lww_node_id x1 = 2 \<and> lww_merge (lww_snapshot x2) x1 = (x1, False) \<and>
      lww_merge (lww_snapshot x1) x2 = (x2, False) \<and> lww_value x1 \<noteq> lww_value x2"
  using lww_identity_takeover [of 1 5 2 "[7]" "[8]" "[1]" 6] by (simp add: less_prod_def)

end
