(* ===== verification/Crdt_Counter.thy ===== *)
theory Crdt_Counter
  imports Crdt_Base
begin

text \<open>
  The grow-only counter (\<^verbatim>\<open>g_counter.h\<close>, \<^verbatim>\<open>g_counter.cpp\<close>) and the positive-negative counter
  (\<^verbatim>\<open>pn_counter.h\<close>, \<^verbatim>\<open>pn_counter.cpp\<close>). The vector of entries is an association list: \<open>find\<close> returns
  the first entry of a node, an update replaces it in place and a new node is appended. Counts are 64-bit
  and wrap. Both counters are interpretations of \<open>join_crdt\<close> for all byte messages whatever,
  with the pointwise maximum as join.
\<close>

type_synonym gcounter_entry = "u16 \<times> u64"

record g_counter =
  gc_node_id :: u16
  gc_entries :: "gcounter_entry list"
  gc_dirty :: bool

definition GC_ENTRY_WIRE_SIZE :: nat where "GC_ENTRY_WIRE_SIZE = 10"

definition gc_default :: g_counter where
  "gc_default = \<lparr>gc_node_id = 0, gc_entries = [], gc_dirty = False\<rparr>"

definition gc_new :: "u16 \<Rightarrow> g_counter" where
  "gc_new node_id = \<lparr>gc_node_id = node_id, gc_entries = [(node_id, 0)], gc_dirty = False\<rparr>"

fun gc_find :: "gcounter_entry list \<Rightarrow> u16 \<Rightarrow> gcounter_entry option" where
  "gc_find [] node_id = None"
| "gc_find (e # es) node_id = (if fst e = node_id then Some e else gc_find es node_id)"

text \<open>\<^verbatim>\<open>e->count = cnt\<close> through the pointer that \<open>find\<close> returned.\<close>

fun gc_store :: "u16 \<Rightarrow> u64 \<Rightarrow> gcounter_entry list \<Rightarrow> gcounter_entry list" where
  "gc_store node_id cnt [] = []"
| "gc_store node_id cnt (e # es) = (if fst e = node_id then (node_id, cnt) # es else e # gc_store node_id cnt es)"

definition gc_increment :: "u64 \<Rightarrow> g_counter \<Rightarrow> g_counter" where
  "gc_increment amount c =
    (case gc_find (gc_entries c) (gc_node_id c) of
       Some e \<Rightarrow> c\<lparr>gc_entries := gc_store (gc_node_id c) (snd e + amount) (gc_entries c), gc_dirty := True\<rparr>
     | None \<Rightarrow> c\<lparr>gc_entries := gc_entries c @ [(gc_node_id c, amount)], gc_dirty := True\<rparr>)"

definition gc_value :: "g_counter \<Rightarrow> u64" where
  "gc_value c = fold (\<lambda>e s. s + snd e) (gc_entries c) 0"

definition gc_local_count :: "g_counter \<Rightarrow> u64" where
  "gc_local_count c = (case gc_find (gc_entries c) (gc_node_id c) of Some e \<Rightarrow> snd e | None \<Rightarrow> 0)"

fun gc_merge_loop :: "nat \<Rightarrow> bytes \<Rightarrow> gcounter_entry list \<times> bool \<Rightarrow> gcounter_entry list \<times> bool" where
  "gc_merge_loop 0 p st = st"
| "gc_merge_loop (Suc i) p (es, changed) =
    (let nid = read_u16 p;
         cnt = join_u64 (read_u32 (drop 2 p)) (read_u32 (drop 6 p));
         st' = (case gc_find es nid of
                  Some e \<Rightarrow> if cnt > snd e then (gc_store nid cnt es, True) else (es, changed)
                | None \<Rightarrow> (es @ [(nid, cnt)], True))
     in gc_merge_loop i (drop GC_ENTRY_WIRE_SIZE p) st')"

definition gc_merge :: "bytes \<Rightarrow> g_counter \<Rightarrow> g_counter \<times> bool" where
  "gc_merge data c =
    (if length data < 1 then (c, False)
     else
       let count = unat (data ! 0) in
       if length data < 1 + count * GC_ENTRY_WIRE_SIZE then (c, False)
       else let (es, changed) = gc_merge_loop count (drop 1 data) (gc_entries c, False)
            in (c\<lparr>gc_entries := es\<rparr>, changed))"

fun gc_write_entries :: "gcounter_entry list \<Rightarrow> nat \<Rightarrow> bytes \<Rightarrow> bytes" where
  "gc_write_entries [] offset buf = buf"
| "gc_write_entries (e # es) offset buf =
    (let b1 = write_u16 buf offset (fst e);
         b2 = write_u32 b1 (offset + 2) (hi_u64 (snd e));
         b3 = write_u32 b2 (offset + 6) (lo_u64 (snd e))
     in gc_write_entries es (offset + GC_ENTRY_WIRE_SIZE) b3)"

definition gc_snapshot :: "g_counter \<Rightarrow> bytes" where
  "gc_snapshot c =
    (let buf = replicate (1 + length (gc_entries c) * GC_ENTRY_WIRE_SIZE) 0;
         b0 = buf[0 := of_nat (length (gc_entries c))]
     in gc_write_entries (gc_entries c) 1 b0)"

definition gc_delta :: "g_counter \<Rightarrow> g_counter \<times> bytes" where
  "gc_delta c =
    (if \<not> gc_dirty c then (c, [])
     else
       let c1 = c\<lparr>gc_dirty := False\<rparr> in
       case gc_find (gc_entries c1) (gc_node_id c1) of
         None \<Rightarrow> (c1, [])
       | Some e \<Rightarrow>
           (let b0 = (replicate (1 + GC_ENTRY_WIRE_SIZE) 0)[0 := 1];
                b1 = write_u16 b0 1 (fst e);
                b2 = write_u32 b1 3 (hi_u64 (snd e))
            in (c1, write_u32 b2 7 (lo_u64 (snd e)))))"

definition gc_has_pending_delta :: "g_counter \<Rightarrow> bool" where
  "gc_has_pending_delta c = gc_dirty c"

record pn_counter =
  pn_p :: g_counter
  pn_n :: g_counter

definition pn_default :: pn_counter where
  "pn_default = \<lparr>pn_p = gc_default, pn_n = gc_default\<rparr>"

definition pn_new :: "u16 \<Rightarrow> pn_counter" where
  "pn_new node_id = \<lparr>pn_p = gc_new node_id, pn_n = gc_new node_id\<rparr>"

definition pn_increment :: "u64 \<Rightarrow> pn_counter \<Rightarrow> pn_counter" where
  "pn_increment amount c = c\<lparr>pn_p := gc_increment amount (pn_p c)\<rparr>"

definition pn_decrement :: "u64 \<Rightarrow> pn_counter \<Rightarrow> pn_counter" where
  "pn_decrement amount c = c\<lparr>pn_n := gc_increment amount (pn_n c)\<rparr>"

text \<open>The difference of the two halves as \<^verbatim>\<open>int64_t\<close>; \<open>None\<close> is signed overflow.\<close>

definition pn_value :: "pn_counter \<Rightarrow> int option" where
  "pn_value c =
    (let v = sint (gc_value (pn_p c)) - sint (gc_value (pn_n c))
     in if - (2 ^ 63) \<le> v \<and> v < 2 ^ 63 then Some v else None)"

definition pn_has_pending_delta :: "pn_counter \<Rightarrow> bool" where
  "pn_has_pending_delta c = (gc_has_pending_delta (pn_p c) \<or> gc_has_pending_delta (pn_n c))"

definition pn_merge :: "bytes \<Rightarrow> pn_counter \<Rightarrow> pn_counter \<times> bool" where
  "pn_merge data c =
    (if length data < 2 then (c, False)
     else
       let p_count = unat (data ! 0);
           p_size = 1 + p_count * GC_ENTRY_WIRE_SIZE
       in if length data < p_size + 1 then (c, False)
          else
            let (p, changed_p) = gc_merge (take p_size data) (pn_p c);
                (n, changed_n) = gc_merge (drop p_size data) (pn_n c)
            in (\<lparr>pn_p = p, pn_n = n\<rparr>, changed_p \<or> changed_n))"

definition pn_snapshot :: "pn_counter \<Rightarrow> bytes" where
  "pn_snapshot c = gc_snapshot (pn_p c) @ gc_snapshot (pn_n c)"

definition pn_delta :: "pn_counter \<Rightarrow> pn_counter \<times> bytes" where
  "pn_delta c =
    (let (p, p_part) = (if gc_has_pending_delta (pn_p c) then gc_delta (pn_p c)
                        else (pn_p c, gc_snapshot (pn_p c)));
         (n, n_part) = (if gc_has_pending_delta (pn_n c) then gc_delta (pn_n c)
                        else (pn_n c, gc_snapshot (pn_n c)))
     in (\<lparr>pn_p = p, pn_n = n\<rparr>, p_part @ n_part))"

subsection \<open>What counters and messages stand for\<close>

definition join_max :: "(u16 \<rightharpoonup> u64) \<Rightarrow> (u16 \<rightharpoonup> u64) \<Rightarrow> (u16 \<rightharpoonup> u64)" where
  "join_max f g = (\<lambda>k. case f k of None \<Rightarrow> g k
     | Some a \<Rightarrow> (case g k of None \<Rightarrow> Some a | Some b \<Rightarrow> Some (max a b)))"

definition gc_counts :: "g_counter \<Rightarrow> u16 \<rightharpoonup> u64" where
  "gc_counts c = map_of (gc_entries c)"

definition gc_ok :: "g_counter \<Rightarrow> bool" where
  "gc_ok c \<longleftrightarrow> um_ok (gc_entries c)"

fun gc_parse :: "nat \<Rightarrow> bytes \<Rightarrow> gcounter_entry list" where
  "gc_parse 0 p = []"
| "gc_parse (Suc i) p =
    (read_u16 p, join_u64 (read_u32 (drop 2 p)) (read_u32 (drop 6 p))) # gc_parse i (drop GC_ENTRY_WIRE_SIZE p)"

definition joined :: "gcounter_entry list \<Rightarrow> (u16 \<rightharpoonup> u64) \<Rightarrow> (u16 \<rightharpoonup> u64)" where
  "joined es f = fold (\<lambda>e f. join_max f [fst e \<mapsto> snd e]) es f"

definition gc_msg_counts :: "bytes \<Rightarrow> u16 \<rightharpoonup> u64" where
  "gc_msg_counts m =
    (if length m < 1 \<or> length m < 1 + unat (m ! 0) * GC_ENTRY_WIRE_SIZE then Map.empty
     else joined (gc_parse (unat (m ! 0)) (drop 1 m)) Map.empty)"

definition gc_entry_wire :: "gcounter_entry \<Rightarrow> bytes" where
  "gc_entry_wire e = be16 (fst e) @ be32 (hi_u64 (snd e)) @ be32 (lo_u64 (snd e))"

definition gc_small :: "g_counter \<Rightarrow> bool" where
  "gc_small c \<longleftrightarrow> length (gc_entries c) < 256"

subsection \<open>The grow-only counter\<close>

lemma gc_find_map_of: "gc_find es n = map_option (Pair n) (map_of es n)"
  by (induction es) auto

lemma gc_store_put: "map_of es n \<noteq> None \<Longrightarrow> gc_store n v es = um_put n v es"
  by (induction es) auto

lemma um_put_absent: "map_of es n = None \<Longrightarrow> es @ [(n, v)] = um_put n v es"
  by (simp add: um_put_new)

lemma join_max_assoc: "join_max (join_max f g) h = join_max f (join_max g h)"
  by (auto simp: join_max_def fun_eq_iff max.assoc split: option.splits)

lemma join_max_commute: "join_max f g = join_max g f"
  by (auto simp: join_max_def fun_eq_iff max.commute split: option.splits)

lemma join_max_idem: "join_max f f = f"
  by (auto simp: join_max_def fun_eq_iff split: option.splits)

lemma join_max_empty [simp]: "join_max f Map.empty = f" "join_max Map.empty f = f"
  by (auto simp: join_max_def fun_eq_iff split: option.splits)

lemma join_max_at: "g i = h i \<Longrightarrow> join_max f g i = join_max f h i"
  by (simp add: join_max_def split: option.split)

lemma joined_join: "joined es f = join_max f (joined es Map.empty)"
proof (induction es arbitrary: f)
  case Nil
  then show ?case by (simp add: joined_def)
next
  case (Cons e es)
  have "joined (e # es) g = join_max (join_max g [fst e \<mapsto> snd e]) (joined es Map.empty)" for g
    using Cons [of "join_max g [fst e \<mapsto> snd e]"] by (simp add: joined_def)
  then show ?case by (simp add: join_max_assoc)
qed

lemma joined_map_of: "um_ok es \<Longrightarrow> joined es Map.empty = map_of es"
proof (induction es)
  case Nil
  then show ?case by (simp add: joined_def)
next
  case (Cons e es)
  have "joined (e # es) Map.empty = join_max [fst e \<mapsto> snd e] (joined es Map.empty)"
    using joined_join [of es "[fst e \<mapsto> snd e]"] by (simp add: joined_def)
  moreover have "map_of es (fst e) = None" "joined es Map.empty = map_of es"
    using Cons by (auto simp: map_of_eq_None_iff)
  then have "join_max [fst e \<mapsto> snd e] (joined es Map.empty) = map_of (e # es)"
    by (cases e) (auto simp: join_max_def fun_eq_iff split: option.splits)
  ultimately show ?case by simp
qed

text \<open>One entry of an incoming message.\<close>

lemma gc_merge_entry:
  "map_of (fst (case gc_find es nid of
       Some e \<Rightarrow> if cnt > snd e then (gc_store nid cnt es, True) else (es, ch)
     | None \<Rightarrow> (es @ [(nid, cnt)], True))) = join_max (map_of es) [nid \<mapsto> cnt] \<and>
   (um_ok es \<longrightarrow> um_ok (fst (case gc_find es nid of
       Some e \<Rightarrow> if cnt > snd e then (gc_store nid cnt es, True) else (es, ch)
     | None \<Rightarrow> (es @ [(nid, cnt)], True))))"
  by (cases "map_of es nid")
    (auto simp: gc_find_map_of gc_store_put um_put_absent update_conv' join_max_def fun_eq_iff max_def
      split: option.splits)

lemma gc_merge_loop_counts:
  "map_of (fst (gc_merge_loop n p (es, ch))) = joined (gc_parse n p) (map_of es) \<and>
   (um_ok es \<longrightarrow> um_ok (fst (gc_merge_loop n p (es, ch))))"
proof (induction n arbitrary: p es ch)
  case 0
  then show ?case by (simp add: joined_def)
next
  case (Suc n)
  let ?nid = "read_u16 p" and ?cnt = "join_u64 (read_u32 (drop 2 p)) (read_u32 (drop 6 p))"
  obtain es' ch' where st: "(case gc_find es ?nid of
       Some e \<Rightarrow> if ?cnt > snd e then (gc_store ?nid ?cnt es, True) else (es, ch)
     | None \<Rightarrow> (es @ [(?nid, ?cnt)], True)) = (es', ch')" by fastforce
  have "map_of es' = join_max (map_of es) [?nid \<mapsto> ?cnt]" "um_ok es \<longrightarrow> um_ok es'"
    using gc_merge_entry [of es ?nid ?cnt ch] unfolding st fst_conv by blast+
  with Suc [of "drop GC_ENTRY_WIRE_SIZE p" es' ch'] show ?case
    by (simp add: st joined_def)
qed

lemma gc_merge_counts:
  "gc_counts (fst (gc_merge m c)) = join_max (gc_counts c) (gc_msg_counts m)"
  "gc_ok c \<Longrightarrow> gc_ok (fst (gc_merge m c))"
  "gc_node_id (fst (gc_merge m c)) = gc_node_id c"
  using gc_merge_loop_counts [of "unat (m ! 0)" "drop 1 m" "gc_entries c" False]
    joined_join [of "gc_parse (unat (m ! 0)) (drop 1 m)" "gc_counts c"]
  by (auto simp: gc_merge_def gc_counts_def gc_msg_counts_def gc_ok_def Let_def split: prod.splits)

lemma gc_write_entries_wire:
  "length r = length es * 10 \<Longrightarrow> length q = off \<Longrightarrow>
   gc_write_entries es off (q @ r) = q @ concat (map gc_entry_wire es)"
proof (induction es arbitrary: q r off)
  case Nil
  then show ?case by simp
next
  case (Cons e es)
  have "gc_write_entries (e # es) off (q @ r) =
      gc_write_entries es (off + 10) ((q @ gc_entry_wire e) @ drop 10 r)"
    using Cons.prems by (simp add: buf_simps gc_entry_wire_def GC_ENTRY_WIRE_SIZE_def Let_def)
  with Cons.IH [of "drop 10 r" "q @ gc_entry_wire e" "off + 10"] Cons.prems show ?case
    by (simp add: gc_entry_wire_def)
qed

lemma gc_snapshot_wire:
  "gc_snapshot c = of_nat (length (gc_entries c)) # concat (map gc_entry_wire (gc_entries c))"
  using gc_write_entries_wire [of "replicate (length (gc_entries c) * 10) 0" "gc_entries c"
      "[of_nat (length (gc_entries c))]" 1]
  by (simp add: gc_snapshot_def Let_def GC_ENTRY_WIRE_SIZE_def)

lemma length_entries_wire: "length (concat (map gc_entry_wire es)) = length es * 10"
  by (induction es) (simp_all add: gc_entry_wire_def)

lemma gc_parse_wire: "gc_parse (length es) (concat (map gc_entry_wire es) @ r) = es"
  by (induction es) (simp_all add: gc_entry_wire_def GC_ENTRY_WIRE_SIZE_def wire_simps)

lemma unat_small_u8: "n < 256 \<Longrightarrow> unat (of_nat n :: u8) = n"
  by (simp add: unat_of_nat take_bit_nat_eq_self)

lemma gc_msg_counts_wire:
  "length es < 256 \<Longrightarrow> um_ok es \<Longrightarrow> gc_msg_counts (of_nat (length es) # concat (map gc_entry_wire es) @ r) = map_of es"
  using gc_parse_wire [of es r]
  by (simp add: gc_msg_counts_def unat_small_u8 GC_ENTRY_WIRE_SIZE_def length_entries_wire joined_map_of)

interpretation gcounter: join_crdt "\<lambda>m c. fst (gc_merge m c)" gc_counts gc_msg_counts join_max
  gc_ok "\<lambda>m. True" gc_snapshot gc_small
proof (unfold_locales, goal_cases)
  case (6 c)
  then show ?case
    using gc_msg_counts_wire [of "gc_entries c" "[]"]
    by (simp add: gc_snapshot_wire gc_small_def gc_ok_def gc_counts_def)
qed (rule join_max_assoc join_max_commute join_max_idem | simp add: gc_merge_counts)+

lemma gc_value_sum: "gc_value c = sum_list (map snd (gc_entries c))"
proof -
  have "fold (\<lambda>e s. s + snd e) es a = a + sum_list (map snd es)" for es :: "gcounter_entry list" and a
    by (induction es arbitrary: a) (simp_all add: add.assoc)
  then show ?thesis by (simp add: gc_value_def)
qed

lemma sum_alist_cong:
  assumes "um_ok es" "um_ok es'" "map_of es = map_of es'"
  shows "sum_list (map snd es) = (sum_list (map snd es') :: u64)"
proof -
  have "set es = set es'" using assms by (simp add: map_of_inject_set)
  moreover have "distinct es" "distinct es'" using assms by (simp_all add: distinct_map)
  ultimately show ?thesis by (simp add: sum_list_distinct_conv_sum_set)
qed

lemma gc_value_cong: "gc_ok c \<Longrightarrow> gc_ok d \<Longrightarrow> gc_counts c = gc_counts d \<Longrightarrow> gc_value c = gc_value d"
  unfolding gc_value_sum gc_ok_def gc_counts_def by (rule sum_alist_cong)

lemma gc_ok_new [simp]: "gc_ok (gc_new n)"
  by (simp add: gc_ok_def gc_new_def)

lemma gc_increment_put:
  "gc_increment a c = c\<lparr>gc_entries := um_put (gc_node_id c) (gc_local_count c + a) (gc_entries c), gc_dirty := True\<rparr>"
  by (cases "map_of (gc_entries c) (gc_node_id c)")
    (auto simp: gc_increment_def gc_local_count_def gc_find_map_of gc_store_put um_put_absent)

lemma gc_ok_increment [simp]: "gc_ok c \<Longrightarrow> gc_ok (gc_increment a c)"
  by (simp add: gc_ok_def gc_increment_put)

lemma sum_put:
  "um_ok es \<Longrightarrow> sum_list (map snd (um_put k v es)) =
     sum_list (map snd es) - (case map_of es k of None \<Rightarrow> 0 | Some x \<Rightarrow> x) + (v :: u64)"
  by (induction es) auto

lemma gc_local_count_map: "gc_local_count c = (case gc_counts c (gc_node_id c) of None \<Rightarrow> 0 | Some x \<Rightarrow> x)"
  by (auto simp: gc_local_count_def gc_find_map_of gc_counts_def split: option.splits)

lemma gc_increment_value: "gc_ok c \<Longrightarrow> gc_value (gc_increment a c) = gc_value c + a"
  by (simp add: gc_value_sum gc_increment_put gc_ok_def sum_put gc_local_count_map gc_counts_def)

lemma gc_delta_wire:
  "gc_delta c =
    (if \<not> gc_dirty c then (c, [])
     else (c\<lparr>gc_dirty := False\<rparr>, case gc_counts c (gc_node_id c) of None \<Rightarrow> []
       | Some v \<Rightarrow> 1 # gc_entry_wire (gc_node_id c, v)))"
  by (simp add: gc_delta_def gc_find_map_of gc_counts_def GC_ENTRY_WIRE_SIZE_def Let_def gc_entry_wire_def
      buf_simps split: option.splits)

lemma gc_delta_counts:
  "gc_dirty c \<Longrightarrow> gc_msg_counts (snd (gc_delta c)) =
     (case gc_counts c (gc_node_id c) of None \<Rightarrow> Map.empty | Some v \<Rightarrow> [gc_node_id c \<mapsto> v])"
  using gc_msg_counts_wire [of "[(gc_node_id c, the (gc_counts c (gc_node_id c)))]" "[]"]
  by (auto simp: gc_delta_wire gc_msg_counts_def [of "[]"] split: option.splits)

subsection \<open>The positive-negative counter\<close>

definition pn_counts :: "pn_counter \<Rightarrow> (u16 \<rightharpoonup> u64) \<times> (u16 \<rightharpoonup> u64)" where
  "pn_counts c = (gc_counts (pn_p c), gc_counts (pn_n c))"

definition pn_ok :: "pn_counter \<Rightarrow> bool" where
  "pn_ok c \<longleftrightarrow> gc_ok (pn_p c) \<and> gc_ok (pn_n c)"

definition pn_small :: "pn_counter \<Rightarrow> bool" where
  "pn_small c \<longleftrightarrow> gc_small (pn_p c) \<and> gc_small (pn_n c)"

definition pn_join :: "(u16 \<rightharpoonup> u64) \<times> (u16 \<rightharpoonup> u64) \<Rightarrow> (u16 \<rightharpoonup> u64) \<times> (u16 \<rightharpoonup> u64) \<Rightarrow>
    (u16 \<rightharpoonup> u64) \<times> (u16 \<rightharpoonup> u64)" where
  "pn_join a b = (join_max (fst a) (fst b), join_max (snd a) (snd b))"

definition pn_msg_counts :: "bytes \<Rightarrow> (u16 \<rightharpoonup> u64) \<times> (u16 \<rightharpoonup> u64)" where
  "pn_msg_counts m =
    (let p_size = 1 + unat (m ! 0) * GC_ENTRY_WIRE_SIZE in
     if length m < 2 \<or> length m < p_size + 1 then (Map.empty, Map.empty)
     else (gc_msg_counts (take p_size m), gc_msg_counts (drop p_size m)))"

lemma pn_merge_counts:
  "pn_counts (fst (pn_merge m c)) = pn_join (pn_counts c) (pn_msg_counts m)"
  "pn_ok c \<Longrightarrow> pn_ok (fst (pn_merge m c))"
  by (simp_all add: pn_merge_def pn_counts_def pn_msg_counts_def pn_join_def pn_ok_def Let_def gc_merge_counts
      split_beta)

lemma pn_msg_counts_append:
  assumes "p = of_nat (length es) # concat (map gc_entry_wire es)" and "length es < 256" and "q \<noteq> []"
  shows "pn_msg_counts (p @ q) = (gc_msg_counts p, gc_msg_counts q)"
  using assms
  by (cases q) (simp_all add: pn_msg_counts_def Let_def unat_small_u8 GC_ENTRY_WIRE_SIZE_def length_entries_wire)

interpretation pncounter: join_crdt "\<lambda>m c. fst (pn_merge m c)" pn_counts pn_msg_counts pn_join
  pn_ok "\<lambda>m. True" pn_snapshot pn_small
proof (unfold_locales, goal_cases)
  case (6 c)
  have "gc_msg_counts (gc_snapshot (pn_p c)) = gc_counts (pn_p c)"
    "gc_msg_counts (gc_snapshot (pn_n c)) = gc_counts (pn_n c)"
    using 6 gcounter.eff_snap by (auto simp: pn_ok_def pn_small_def)
  with 6 pn_msg_counts_append [OF gc_snapshot_wire [of "pn_p c"], of "gc_snapshot (pn_n c)"]
  show ?case by (simp add: pn_snapshot_def pn_counts_def pn_small_def gc_small_def)
    (simp add: gc_snapshot_wire)
qed (auto simp: pn_join_def join_max_assoc join_max_idem pn_merge_counts intro: join_max_commute)

text \<open>A dirty counter has an entry of its own node: what \<open>delta\<close> sends exists.\<close>

definition gc_inv :: "g_counter \<Rightarrow> bool" where
  "gc_inv c \<longleftrightarrow> gc_ok c \<and> (gc_dirty c \<longrightarrow> gc_counts c (gc_node_id c) \<noteq> None)"

lemma gc_inv_new: "gc_inv (gc_new n)" "gc_inv gc_default"
  by (simp_all add: gc_inv_def gc_new_def gc_default_def gc_ok_def)

lemma gc_inv_increment: "gc_inv c \<Longrightarrow> gc_inv (gc_increment a c)"
  by (simp add: gc_inv_def gc_counts_def gc_increment_put gc_ok_def update_conv')

lemma gc_merge_dirty: "gc_dirty (fst (gc_merge m c)) = gc_dirty c"
  by (simp add: gc_merge_def Let_def split_beta)

lemma gc_inv_merge: "gc_inv c \<Longrightarrow> gc_inv (fst (gc_merge m c))"
  by (auto simp: gc_inv_def gc_merge_counts gc_merge_dirty join_max_def split: option.splits)

lemma gc_inv_delta: "gc_inv c \<Longrightarrow> gc_inv (fst (gc_delta c))"
  by (simp add: gc_inv_def gc_delta_wire gc_ok_def gc_counts_def)

text \<open>What either half of a PN delta is: a well-formed counter message that carries the own entry.\<close>

lemma gc_part:
  assumes "gc_inv c" and "gc_small c"
  defines "part \<equiv> snd (if gc_has_pending_delta c then gc_delta c else (c, gc_snapshot c))"
  shows "\<exists>es. part = of_nat (length es) # concat (map gc_entry_wire es) \<and> length es < 256 \<and>
    gc_msg_counts part (gc_node_id c) = gc_counts c (gc_node_id c)"
proof (cases "gc_dirty c")
  case True
  then obtain v where v: "gc_counts c (gc_node_id c) = Some v" using assms(1) by (auto simp: gc_inv_def)
  then have "part = of_nat (length [(gc_node_id c, v)]) # concat (map gc_entry_wire [(gc_node_id c, v)])"
    using True by (simp add: part_def gc_has_pending_delta_def gc_delta_wire)
  moreover have "gc_msg_counts part (gc_node_id c) = gc_counts c (gc_node_id c)"
    using True v by (simp add: part_def gc_has_pending_delta_def gc_delta_counts)
  ultimately show ?thesis by (intro exI [of _ "[(gc_node_id c, v)]"]) simp
next
  case False
  with assms gcounter.eff_snap [of c] gc_snapshot_wire [of c] show ?thesis
    by (auto simp: gc_has_pending_delta_def gc_inv_def gc_small_def)
qed

subsection \<open>Properties of the counters\<close>

text \<open>
  C6. Strong eventual consistency of the grow-only counter. Two counters with the same counts that
  receive the same set of byte messages, in any order and with any repetition, well-formed or not, end with
  the same count for every node and report the same value.
\<close>

theorem gc_convergence:
  assumes "gc_ok c" and "gc_ok d" and "gc_counts c = gc_counts d" and "set ms = set ns"
  shows "gc_counts (fold (\<lambda>m c. fst (gc_merge m c)) ms c) = gc_counts (fold (\<lambda>m c. fst (gc_merge m c)) ns d) \<and>
    gc_value (fold (\<lambda>m c. fst (gc_merge m c)) ms c) = gc_value (fold (\<lambda>m c. fst (gc_merge m c)) ns d)"
proof -
  have "gc_counts (fold (\<lambda>m c. fst (gc_merge m c)) ms c) = gc_counts (fold (\<lambda>m c. fst (gc_merge m c)) ns d)"
    using gcounter.convergence [OF assms(1,3,2,4)] by simp
  moreover have "gc_ok (fold (\<lambda>m c. fst (gc_merge m c)) ms c)" "gc_ok (fold (\<lambda>m c. fst (gc_merge m c)) ns d)"
    using gcounter.ok_fold assms(1,2) by simp_all
  ultimately show ?thesis using gc_value_cong by blast
qed

theorem gc_convergence_witness:
  "let a = gc_snapshot (gc_increment 3 (gc_new 1)); b = gc_snapshot (gc_increment 4 (gc_new 2)); x = [2, 0 :: u8]
   in gc_value (fold (\<lambda>m c. fst (gc_merge m c)) [a, b, x] (gc_new 1)) =
      gc_value (fold (\<lambda>m c. fst (gc_merge m c)) [b, x, a, b] (gc_new 1)) \<and>
      gc_value (fold (\<lambda>m c. fst (gc_merge m c)) [a, b, x] (gc_new 1)) = 7"
proof -
  let ?a = "gc_snapshot (gc_increment 3 (gc_new 1))" and ?b = "gc_snapshot (gc_increment 4 (gc_new 2))"
    and ?x = "[2, 0] :: bytes"
  have "gc_value (fold (\<lambda>m c. fst (gc_merge m c)) [?a, ?b, ?x] (gc_new 1)) =
      gc_value (fold (\<lambda>m c. fst (gc_merge m c)) [?b, ?x, ?a, ?b] (gc_new 1))"
    using gc_convergence [of "gc_new 1" "gc_new 1" "[?a, ?b, ?x]" "[?b, ?x, ?a, ?b]"] by auto
  moreover have "gc_value (fold (\<lambda>m c. fst (gc_merge m c)) [?a, ?b, ?x] (gc_new 1)) = 7" by code_simp
  ultimately show ?thesis unfolding Let_def by blast
qed

text \<open>
  Anti-entropy. Two counters of fewer than 256 nodes that merge each other's snapshots agree: every
  node's count is the larger of the two, and the values are equal.
\<close>

theorem gc_exchange:
  assumes "gc_ok c" and "gc_ok d" and "gc_small c" and "gc_small d"
  shows "gc_counts (fst (gc_merge (gc_snapshot d) c)) = join_max (gc_counts c) (gc_counts d) \<and>
    gc_counts (fst (gc_merge (gc_snapshot c) d)) = gc_counts (fst (gc_merge (gc_snapshot d) c)) \<and>
    gc_value (fst (gc_merge (gc_snapshot c) d)) = gc_value (fst (gc_merge (gc_snapshot d) c))"
  using assms gcounter.absf_merge_snap [of c d] gcounter.exchange [of c d]
    gc_value_cong [of "fst (gc_merge (gc_snapshot c) d)" "fst (gc_merge (gc_snapshot d) c)"]
  by (simp add: gc_merge_counts)

theorem gc_exchange_witness:
  "let c = gc_increment 3 (gc_new 1); d = gc_increment 4 (gc_new 2)
   in gc_value (fst (gc_merge (gc_snapshot c) d)) = gc_value (fst (gc_merge (gc_snapshot d) c)) \<and>
      gc_value (fst (gc_merge (gc_snapshot c) d)) = 7"
proof -
  have "gc_small (gc_increment 3 (gc_new 1))" "gc_small (gc_increment 4 (gc_new 2))" by code_simp+
  then have "gc_value (fst (gc_merge (gc_snapshot (gc_increment 3 (gc_new 1))) (gc_increment 4 (gc_new 2)))) =
     gc_value (fst (gc_merge (gc_snapshot (gc_increment 4 (gc_new 2))) (gc_increment 3 (gc_new 1))))"
    using gc_exchange [of "gc_increment 3 (gc_new 1)" "gc_increment 4 (gc_new 2)"] by simp
  moreover have "gc_value (fst (gc_merge (gc_snapshot (gc_increment 3 (gc_new 1))) (gc_increment 4 (gc_new 2)))) = 7"
    by code_simp
  ultimately show ?thesis unfolding Let_def by blast
qed

text \<open>
  Snapshots of too many nodes are empty to their reader. The entry count is one byte, so when the number of
  entries is a positive multiple of 256 the snapshot announces no entries, and no receiver learns anything from it.
\<close>

theorem gc_snapshot_count_wraps:
  assumes "length (gc_entries c) mod 256 = 0"
  shows "gc_merge (gc_snapshot c) d = (d, False)"
proof -
  have "(of_nat (length (gc_entries c)) :: u8) = 0"
    using assms by (simp add: word_of_nat_eq_0_iff dvd_eq_mod_eq_0)
  then show ?thesis by (simp add: gc_merge_def gc_snapshot_wire Let_def split_beta)
qed

theorem gc_snapshot_count_wraps_witness:
  "let c = \<lparr>gc_node_id = 0, gc_entries = map (\<lambda>i. (of_nat i, 1)) [0..<256], gc_dirty = False\<rparr>
   in length (gc_entries c) = 256 \<and> gc_merge (gc_snapshot c) (gc_new 1) = (gc_new 1, False)"
  using gc_snapshot_count_wraps [of "\<lparr>gc_node_id = 0, gc_entries = map (\<lambda>i. (of_nat i, 1)) [0..<256], gc_dirty = False\<rparr>"
      "gc_new 1"] by (simp add: Let_def)

text \<open>
  C10. Strong eventual consistency of the positive-negative counter, for all byte messages: from equal counts, the same
  set of messages leads to equal counts in both halves and an equal value.
\<close>

theorem pn_convergence:
  assumes "pn_ok c" and "pn_ok d" and "pn_counts c = pn_counts d" and "set ms = set ns"
  shows "pn_counts (fold (\<lambda>m c. fst (pn_merge m c)) ms c) = pn_counts (fold (\<lambda>m c. fst (pn_merge m c)) ns d) \<and>
    pn_value (fold (\<lambda>m c. fst (pn_merge m c)) ms c) = pn_value (fold (\<lambda>m c. fst (pn_merge m c)) ns d)"
proof -
  let ?c = "fold (\<lambda>m c. fst (pn_merge m c)) ms c" and ?d = "fold (\<lambda>m c. fst (pn_merge m c)) ns d"
  have eq: "pn_counts ?c = pn_counts ?d"
    using pncounter.convergence [OF assms(1,3,2,4)] by simp
  have "pn_ok ?c" "pn_ok ?d" using pncounter.ok_fold assms(1,2) by simp_all
  with eq have "gc_value (pn_p ?c) = gc_value (pn_p ?d)" "gc_value (pn_n ?c) = gc_value (pn_n ?d)"
    using gc_value_cong by (auto simp: pn_counts_def pn_ok_def)
  with eq show ?thesis by (simp add: pn_value_def)
qed

theorem pn_convergence_witness:
  "let a = pn_snapshot (pn_increment 3 (pn_new 1)); b = pn_snapshot (pn_decrement 4 (pn_new 2))
   in pn_value (fold (\<lambda>m c. fst (pn_merge m c)) [a, b] (pn_new 1)) =
      pn_value (fold (\<lambda>m c. fst (pn_merge m c)) [b, a, b] (pn_new 1)) \<and>
      pn_value (fold (\<lambda>m c. fst (pn_merge m c)) [a, b] (pn_new 1)) = Some (- 1)"
proof -
  let ?a = "pn_snapshot (pn_increment 3 (pn_new 1))" and ?b = "pn_snapshot (pn_decrement 4 (pn_new 2))"
  have "pn_ok (pn_new 1)" by (simp add: pn_ok_def pn_new_def)
  then have "pn_value (fold (\<lambda>m c. fst (pn_merge m c)) [?a, ?b] (pn_new 1)) =
      pn_value (fold (\<lambda>m c. fst (pn_merge m c)) [?b, ?a, ?b] (pn_new 1))"
    using pn_convergence [of "pn_new 1" "pn_new 1" "[?a, ?b]" "[?b, ?a, ?b]"] by auto
  moreover have "pn_value (fold (\<lambda>m c. fst (pn_merge m c)) [?a, ?b] (pn_new 1)) = Some (- 1)" by code_simp
  ultimately show ?thesis unfolding Let_def by blast
qed

text \<open>
  A delta of the positive-negative counter carries the node's own work: merged into any replica, it
  raises that replica's count for the sender's node, in both halves, to at least the sender's.
\<close>

theorem pn_delta_carries_own_counts:
  assumes "gc_inv (pn_p c)" and "gc_inv (pn_n c)" and "pn_small c"
    and "gc_node_id (pn_p c) = i" and "gc_node_id (pn_n c) = i"
  shows "let d' = fst (pn_merge (snd (pn_delta c)) d)
    in gc_counts (pn_p d') i = join_max (gc_counts (pn_p d)) (gc_counts (pn_p c)) i \<and>
       gc_counts (pn_n d') i = join_max (gc_counts (pn_n d)) (gc_counts (pn_n c)) i"
proof -
  define part where "part c = snd (if gc_has_pending_delta c then gc_delta c else (c, gc_snapshot c))" for c
  have delta: "snd (pn_delta c) = part (pn_p c) @ part (pn_n c)"
    by (simp add: pn_delta_def part_def Let_def split_beta)
  obtain es where p: "part (pn_p c) = of_nat (length es) # concat (map gc_entry_wire es)" "length es < 256"
    "gc_msg_counts (part (pn_p c)) i = gc_counts (pn_p c) i"
    using gc_part [OF assms(1)] assms(3,4) unfolding pn_small_def part_def by blast
  obtain fs where n: "part (pn_n c) = of_nat (length fs) # concat (map gc_entry_wire fs)"
    "gc_msg_counts (part (pn_n c)) i = gc_counts (pn_n c) i"
    using gc_part [OF assms(2)] assms(3,5) unfolding pn_small_def part_def by blast
  have ne: "part (pn_n c) \<noteq> []" by (simp add: n(1))
  have "pn_msg_counts (snd (pn_delta c)) = (gc_msg_counts (part (pn_p c)), gc_msg_counts (part (pn_n c)))"
    unfolding delta by (rule pn_msg_counts_append [OF p(1,2) ne])
  with pn_merge_counts(1) [of "snd (pn_delta c)" d] show ?thesis
    by (simp add: pn_counts_def pn_join_def Let_def join_max_at [of "gc_msg_counts (part (pn_p c))" i "gc_counts (pn_p c)", OF p(3)]
        join_max_at [of "gc_msg_counts (part (pn_n c))" i "gc_counts (pn_n c)", OF n(2)])
qed

theorem pn_delta_carries_own_counts_witness:
  "let c = pn_decrement 2 (pn_increment 5 (pn_new 1)); d' = fst (pn_merge (snd (pn_delta c)) (pn_new 2))
   in gc_counts (pn_p d') 1 = join_max (gc_counts (pn_p (pn_new 2))) (gc_counts (pn_p c)) 1 \<and>
      gc_counts (pn_n d') 1 = join_max (gc_counts (pn_n (pn_new 2))) (gc_counts (pn_n c)) 1"
proof -
  let ?c = "pn_decrement 2 (pn_increment 5 (pn_new 1))"
  have "gc_inv (pn_p ?c)" "gc_inv (pn_n ?c)"
    by (simp_all add: pn_decrement_def pn_increment_def pn_new_def gc_inv_increment gc_inv_new)
  moreover have "pn_small ?c" "gc_node_id (pn_p ?c) = 1" "gc_node_id (pn_n ?c) = 1" by code_simp+
  ultimately show ?thesis
    using pn_delta_carries_own_counts [of ?c 1 "pn_new 2"] unfolding Let_def by blast
qed

end
