(* ===== verification/Crdt_OrSet.thy ===== *)
theory Crdt_OrSet
  imports Crdt_Base
begin

text \<open>
  The observed-remove set (\<^verbatim>\<open>or_set.h\<close>, \<^verbatim>\<open>or_set.cpp\<close>). \<^verbatim>\<open>std::map\<close> and \<^verbatim>\<open>std::set\<close> are strictly
  sorted lists; tags are ordered by node and then sequence, elements as byte vectors. The
  encoder appends to a growing buffer, the decoder reads the suffix behind its offset.

  \<open>or_tags\<close>, the set of (element, tag) pairs, is what a set stands for. The lemmas show what \<open>add\<close>,
  \<open>remove\<close> and \<open>merge\<close> do to it, that the wire format round-trips within its field widths, that
  tags are fresh, that messages without tombstones satisfy \<open>join_replica\<close>, and exactly when two
  messages commute.
\<close>

datatype or_tag = OrTag (tag_node_id: u16) (tag_sequence: u32)

instantiation or_tag :: linorder
begin

definition less_or_tag :: "or_tag \<Rightarrow> or_tag \<Rightarrow> bool" where
  "less_or_tag a o' =
    (if tag_node_id a \<noteq> tag_node_id o' then tag_node_id a < tag_node_id o'
     else tag_sequence a < tag_sequence o')"

definition less_eq_or_tag :: "or_tag \<Rightarrow> or_tag \<Rightarrow> bool" where
  "less_eq_or_tag a o' \<longleftrightarrow> a < o' \<or> a = o'"

instance
  by standard (auto simp: less_or_tag_def less_eq_or_tag_def split: if_splits,
      metis linorder_cases or_tag.expand)

end

type_synonym tag_map = "(bytes \<times> or_tag list) list"

record or_set =
  or_node_id :: u16
  or_seq :: u32
  or_entries :: tag_map
  or_dirty :: bool
  or_pending_adds :: tag_map
  or_pending_removes :: "or_tag list"

definition or_default :: or_set where
  "or_default = \<lparr>or_node_id = 0, or_seq = 0, or_entries = [], or_dirty = False, or_pending_adds = [],
     or_pending_removes = []\<rparr>"

definition or_new :: "u16 \<Rightarrow> or_set" where
  "or_new node_id = or_default\<lparr>or_node_id := node_id\<rparr>"

text \<open>\<^verbatim>\<open>m[key]\<close>: the tags of an element, created empty when absent.\<close>

definition tags_at :: "tag_map \<Rightarrow> bytes \<Rightarrow> or_tag list" where
  "tags_at m key = (case map_of m key of Some tags \<Rightarrow> tags | None \<Rightarrow> [])"

definition next_tag :: "or_set \<Rightarrow> or_set \<times> or_tag" where
  "next_tag s = (let s1 = s\<lparr>or_seq := or_seq s + 1\<rparr> in (s1, OrTag (or_node_id s1) (or_seq s1)))"

definition or_add :: "bytes \<Rightarrow> or_set \<Rightarrow> or_set \<times> bool" where
  "or_add key s =
    (let (s1, tag) = next_tag s
     in (s1\<lparr>or_entries := om_put key (os_insert tag (tags_at (or_entries s1) key)) (or_entries s1),
            or_pending_adds := om_put key (os_insert tag (tags_at (or_pending_adds s1) key)) (or_pending_adds s1),
            or_dirty := True\<rparr>, True))"

definition or_remove :: "bytes \<Rightarrow> or_set \<Rightarrow> or_set \<times> bool" where
  "or_remove key s =
    (case map_of (or_entries s) key of
       None \<Rightarrow> (s, False)
     | Some tags \<Rightarrow>
         if tags = [] then (s, False)
         else (s\<lparr>or_pending_removes := fold os_insert tags (or_pending_removes s),
                 or_entries := om_erase key (or_entries s), or_dirty := True\<rparr>, True))"

definition or_contains :: "bytes \<Rightarrow> or_set \<Rightarrow> bool" where
  "or_contains key s = (case map_of (or_entries s) key of Some tags \<Rightarrow> tags \<noteq> [] | None \<Rightarrow> False)"

definition or_elements :: "or_set \<Rightarrow> bytes list" where
  "or_elements s = map fst (filter (\<lambda>e. snd e \<noteq> []) (or_entries s))"

definition or_size :: "or_set \<Rightarrow> nat" where
  "or_size s = fold (\<lambda>e count. if snd e \<noteq> [] then count + 1 else count) (or_entries s) 0"

subsection \<open>Wire format\<close>

fun or_write_tags :: "or_tag list \<Rightarrow> nat \<Rightarrow> bytes \<Rightarrow> bytes" where
  "or_write_tags [] off buf = buf"
| "or_write_tags (tag # tags) off buf =
    (let b1 = write_u16 buf off (tag_node_id tag);
         b2 = write_u32 b1 (off + 2) (tag_sequence tag)
     in or_write_tags tags (off + 6) b2)"

definition or_encode_entry :: "bytes \<times> or_tag list \<Rightarrow> bytes \<Rightarrow> bytes" where
  "or_encode_entry e buf =
    (let key = fst e; tags = snd e in
     if tags = [] then buf
     else
       let epos = length buf;
           b1 = buf @ replicate (2 + length key) 0;
           b2 = write_u16 b1 epos (of_nat (length key));
           b3 = (if key \<noteq> [] then put_bytes b2 (epos + 2) key else b2);
           tpos = length b3;
           b4 = b3 @ replicate (1 + length tags * 6) 0;
           b5 = b4[tpos := of_nat (length tags)]
       in or_write_tags tags (tpos + 1) b5)"

definition or_encode_entries :: "tag_map \<Rightarrow> or_tag list \<Rightarrow> bytes \<Rightarrow> bytes" where
  "or_encode_entries entries tombstones buf =
    (let entry_count = fold (\<lambda>e n. if snd e \<noteq> [] then n + 1 else n) entries (0 :: u16);
         pos = length buf;
         b1 = write_u16 (buf @ replicate 2 0) pos entry_count;
         b2 = fold or_encode_entry entries b1;
         rpos = length b2;
         b3 = b2 @ replicate (2 + length tombstones * 6) 0;
         b4 = write_u16 b3 rpos (of_nat (length tombstones))
     in or_write_tags tombstones (rpos + 2) b4)"

fun or_read_tags :: "nat \<Rightarrow> bytes \<Rightarrow> or_tag list \<Rightarrow> or_tag list \<times> bytes" where
  "or_read_tags 0 p tags = (tags, p)"
| "or_read_tags (Suc t) p tags =
     or_read_tags t (drop 6 p) (os_insert (OrTag (read_u16 p) (read_u32 (drop 2 p))) tags)"

definition or_decode_entry :: "bytes \<Rightarrow> tag_map \<Rightarrow> (tag_map \<times> bytes) option" where
  "or_decode_entry p entries =
    (if length p < 2 then None
     else
       let elem_len = unat (read_u16 p); p1 = drop 2 p in
       if length p1 < elem_len then None
       else
         let key = take elem_len p1; p2 = drop elem_len p1 in
         if length p2 < 1 then None
         else
           let tag_count = unat (p2 ! 0); p3 = drop 1 p2 in
           if length p3 < tag_count * 6 then None
           else
             let (tags, p4) = or_read_tags tag_count p3 []
             in Some (om_put key (fold os_insert tags (tags_at entries key)) entries, p4))"

fun or_decode_loop :: "nat \<Rightarrow> bytes \<Rightarrow> tag_map \<Rightarrow> (tag_map \<times> bytes) option" where
  "or_decode_loop 0 p entries = Some (entries, p)"
| "or_decode_loop (Suc i) p entries =
    (case or_decode_entry p entries of
       None \<Rightarrow> None
     | Some (entries', p') \<Rightarrow> or_decode_loop i p' entries')"

definition or_decode_entries :: "bytes \<Rightarrow> (tag_map \<times> or_tag list) option" where
  "or_decode_entries data =
    (if length data < 2 then None
     else case or_decode_loop (unat (read_u16 data)) (drop 2 data) [] of
       None \<Rightarrow> None
     | Some (entries, p) \<Rightarrow>
         if length p < 2 then None
         else
           let tomb_count = unat (read_u16 p); p1 = drop 2 p in
           if length p1 < tomb_count * 6 then None
           else Some (entries, fst (or_read_tags tomb_count p1 [])))"

subsection \<open>Merge\<close>

definition or_apply_tombstones :: "or_tag list \<Rightarrow> tag_map \<Rightarrow> tag_map \<times> bool" where
  "or_apply_tombstones tombs m =
    (let m' = map (\<lambda>e. (fst e, fold os_erase tombs (snd e))) m
     in (m', \<exists>e \<in> set m. length (fold os_erase tombs (snd e)) \<noteq> length (snd e)))"

definition or_add_tag :: "or_tag list \<Rightarrow> or_tag \<Rightarrow> or_tag list \<times> bool \<Rightarrow> or_tag list \<times> bool" where
  "or_add_tag tombs tag st =
    (case st of (local_tags, changed) \<Rightarrow>
     if tag \<in> set tombs then (local_tags, changed)
     else if tag \<in> set local_tags then (local_tags, changed)
     else (os_insert tag local_tags, True))"

definition or_add_entry :: "or_tag list \<Rightarrow> bytes \<times> or_tag list \<Rightarrow> tag_map \<times> bool \<Rightarrow> tag_map \<times> bool" where
  "or_add_entry tombs e st =
    (case st of (m, changed) \<Rightarrow>
     let (local_tags, changed') = fold (or_add_tag tombs) (snd e) (tags_at m (fst e), changed)
     in (om_put (fst e) local_tags m, changed'))"

definition or_merge :: "bytes \<Rightarrow> or_set \<Rightarrow> or_set \<times> bool" where
  "or_merge data s =
    (case or_decode_entries data of
       None \<Rightarrow> (s, False)
     | Some (inc, tombs) \<Rightarrow>
         (let (m1, ch1) = or_apply_tombstones tombs (or_entries s);
              (m2, ch2) = fold (or_add_entry tombs) inc (m1, ch1);
              ch3 = (ch2 \<or> (\<exists>e \<in> set m2. snd e = []));
              m3 = filter (\<lambda>e. snd e \<noteq> []) m2;
              seq = fold (\<lambda>e q. fold (\<lambda>tag q. if tag_node_id tag = or_node_id s \<and> tag_sequence tag > q
                                              then tag_sequence tag else q) (snd e) q) inc (or_seq s)
          in (s\<lparr>or_entries := m3, or_seq := seq\<rparr>, ch3)))"

definition or_snapshot :: "or_set \<Rightarrow> bytes" where
  "or_snapshot s = or_encode_entries (or_entries s) [] []"

definition or_delta :: "or_set \<Rightarrow> or_set \<times> bytes" where
  "or_delta s =
    (if \<not> or_dirty s then (s, [])
     else (s\<lparr>or_dirty := False, or_pending_adds := [], or_pending_removes := []\<rparr>,
           or_encode_entries (or_pending_adds s) (or_pending_removes s) []))"

definition or_has_pending_delta :: "or_set \<Rightarrow> bool" where
  "or_has_pending_delta s = or_dirty s"

subsection \<open>What a set stands for\<close>

definition tag_pairs :: "tag_map \<Rightarrow> (bytes \<times> or_tag) set" where
  "tag_pairs m = {(k, t). t \<in> set (tags_at m k)}"

definition or_tags :: "or_set \<Rightarrow> (bytes \<times> or_tag) set" where
  "or_tags s = tag_pairs (or_entries s)"

definition tag_map_ok :: "tag_map \<Rightarrow> bool" where
  "tag_map_ok m \<longleftrightarrow> om_ok m \<and> (\<forall>e \<in> set m. os_ok (snd e))"

definition or_ok :: "or_set \<Rightarrow> bool" where
  "or_ok s \<longleftrightarrow> tag_map_ok (or_entries s) \<and> (\<forall>e \<in> set (or_entries s). snd e \<noteq> []) \<and>
     tag_map_ok (or_pending_adds s) \<and> os_ok (or_pending_removes s)"

text \<open>The messages of the decoder, as pairs added and tags removed.\<close>

definition or_msg_adds :: "bytes \<Rightarrow> (bytes \<times> or_tag) set" where
  "or_msg_adds m = (case or_decode_entries m of None \<Rightarrow> {} | Some (inc, tombs) \<Rightarrow> tag_pairs inc - UNIV \<times> set tombs)"

definition or_msg_tombs :: "bytes \<Rightarrow> or_tag set" where
  "or_msg_tombs m = (case or_decode_entries m of None \<Rightarrow> {} | Some (inc, tombs) \<Rightarrow> set tombs)"

subsection \<open>Maps of tags\<close>

lemma tags_at_put: "om_ok m \<Longrightarrow> tags_at (om_put k ts m) k' = (if k' = k then ts else tags_at m k')"
  by (simp add: tags_at_def store_simps)

lemma tags_at_erase: "tags_at (om_erase k m) k' = (if k' = k then [] else tags_at m k')"
  by (simp add: tags_at_def store_simps)

lemma tags_at_in: "om_ok m \<Longrightarrow> (k, ts) \<in> set m \<Longrightarrow> tags_at m k = ts"
  by (simp add: tags_at_def om_ok_distinct)

lemma tags_at_nonempty: "t \<in> set (tags_at m k) \<Longrightarrow> (k, tags_at m k) \<in> set m"
  by (auto simp: tags_at_def dest: map_of_SomeD split: option.splits)

lemma tag_map_ok_Nil [simp]: "tag_map_ok []"
  by (simp add: tag_map_ok_def)

lemma tag_map_ok_om: "tag_map_ok m \<Longrightarrow> om_ok m"
  by (simp add: tag_map_ok_def)

lemma tag_map_ok_at: "tag_map_ok m \<Longrightarrow> os_ok (tags_at m k)"
  by (auto simp: tag_map_ok_def tags_at_def dest!: map_of_SomeD split: option.splits)

lemma set_om_put: "set (om_put k v m) \<subseteq> insert (k, v) (set m)"
  by (induction m) auto

lemma tag_map_ok_put: "tag_map_ok m \<Longrightarrow> os_ok ts \<Longrightarrow> tag_map_ok (om_put k ts m)"
  using set_om_put [of k ts m] by (auto simp: tag_map_ok_def)

lemma tag_map_ok_filter: "tag_map_ok m \<Longrightarrow> tag_map_ok (filter P m)"
proof -
  have "sorted_wrt (<) (map fst m) \<Longrightarrow> sorted_wrt (<) (map fst (filter P m))"
    by (induction m) auto
  then show "tag_map_ok m \<Longrightarrow> tag_map_ok (filter P m)"
    by (auto simp: tag_map_ok_def om_ok_def)
qed

lemma os_ok_fold_insert: "os_ok ts \<Longrightarrow> os_ok (fold os_insert xs ts)"
  by (induction xs arbitrary: ts) auto

lemma set_fold_insert: "set (fold os_insert xs ts) = set xs \<union> set ts"
  by (induction xs arbitrary: ts) auto

lemma os_ok_fold_erase: "os_ok ts \<Longrightarrow> os_ok (fold os_erase xs ts)"
  by (induction xs arbitrary: ts) auto

lemma set_fold_erase: "set (fold os_erase xs ts) = set ts - set xs"
  by (induction xs arbitrary: ts) auto

lemma fold_erase_Nil: "fold os_erase xs [] = []"
  by (induction xs) (auto simp: os_erase_def)

lemma tag_pairs_put: "om_ok m \<Longrightarrow> tag_pairs (om_put k ts m) = {k} \<times> set ts \<union> {p \<in> tag_pairs m. fst p \<noteq> k}"
  by (auto simp: tag_pairs_def tags_at_put split: if_splits)

lemma tag_pairs_iff: "om_ok m \<Longrightarrow> (k, t) \<in> tag_pairs m \<longleftrightarrow> (\<exists>ts. (k, ts) \<in> set m \<and> t \<in> set ts)"
  by (auto simp: tag_pairs_def tags_at_in dest: tags_at_nonempty)

lemma tag_pairs_Nil [simp]: "tag_pairs [] = {}"
  by (simp add: tag_pairs_def tags_at_def)

lemma tag_pairs_filter: "tag_map_ok m \<Longrightarrow> tag_pairs (filter (\<lambda>e. snd e \<noteq> []) m) = tag_pairs m"
  using tag_map_ok_filter [of m "\<lambda>e. snd e \<noteq> []"] by (fastforce simp: tag_pairs_iff tag_map_ok_om)

text \<open>An ordered map of nonempty sorted sets is determined by its pairs.\<close>

lemma tag_map_eqI:
  assumes "tag_map_ok m" "tag_map_ok m'" "\<forall>e \<in> set m. snd e \<noteq> []" "\<forall>e \<in> set m'. snd e \<noteq> []"
    and "tag_pairs m = tag_pairs m'"
  shows "m = m'"
proof (rule om_ok_eqI)
  have at: "tags_at m k = tags_at m' k" for k
  proof (rule os_ok_eqI)
    show "set (tags_at m k) = set (tags_at m' k)"
      using assms(5) by (auto simp: tag_pairs_def set_eq_iff)
  qed (simp_all add: assms tag_map_ok_at)
  have "map_of m k = map_of m' k" for k
  proof -
    have "map_of n k = (if tags_at n k = [] then None else Some (tags_at n k))"
      if "\<forall>e \<in> set n. snd e \<noteq> []" for n
      using that by (fastforce simp: tags_at_def split: option.splits dest: map_of_SomeD)
    with assms(3,4) at show ?thesis by metis
  qed
  then show "map_of m = map_of m'" by blast
qed (simp_all add: assms tag_map_ok_om)

subsection \<open>Merge joins the pairs\<close>

lemma fold_add_tag:
  "os_ok l \<Longrightarrow> os_ok (fst (fold (or_add_tag T) ts (l, ch))) \<and>
     set (fst (fold (or_add_tag T) ts (l, ch))) = set l \<union> (set ts - set T)"
  by (induction ts arbitrary: l ch) (auto simp: or_add_tag_def)

lemma or_add_entry_pairs:
  assumes "tag_map_ok m"
  shows "tag_map_ok (fst (or_add_entry T e (m, ch)))"
    and "tag_pairs (fst (or_add_entry T e (m, ch))) = tag_pairs m \<union> {fst e} \<times> (set (snd e) - set T)"
proof -
  let ?l = "fst (fold (or_add_tag T) (snd e) (tags_at m (fst e), ch))"
  have l: "os_ok ?l" "set ?l = set (tags_at m (fst e)) \<union> (set (snd e) - set T)"
    using fold_add_tag [OF tag_map_ok_at [OF assms]] by blast+
  have put: "fst (or_add_entry T e (m, ch)) = om_put (fst e) ?l m"
    by (simp add: or_add_entry_def split_beta)
  show "tag_map_ok (fst (or_add_entry T e (m, ch)))"
    by (simp add: put tag_map_ok_put assms l(1))
  show "tag_pairs (fst (or_add_entry T e (m, ch))) = tag_pairs m \<union> {fst e} \<times> (set (snd e) - set T)"
    unfolding put tag_pairs_put [OF tag_map_ok_om [OF assms]] l(2) by (auto simp: tag_pairs_def)
qed

lemma or_add_entries_pairs:
  "tag_map_ok m \<Longrightarrow> tag_map_ok (fst (fold (or_add_entry T) inc (m, ch))) \<and>
   tag_pairs (fst (fold (or_add_entry T) inc (m, ch))) = tag_pairs m \<union> {(k, t). \<exists>ts. (k, ts) \<in> set inc \<and> t \<in> set ts \<and> t \<notin> set T}"
proof (induction inc arbitrary: m ch)
  case Nil
  then show ?case by simp
next
  case (Cons e inc)
  obtain k ts where kts: "e = (k, ts)" by (cases e)
  obtain m' ch' where e: "or_add_entry T (k, ts) (m, ch) = (m', ch')" by fastforce
  then have "tag_map_ok m'" "tag_pairs m' = tag_pairs m \<union> {k} \<times> (set ts - set T)"
    using or_add_entry_pairs [OF Cons.prems, of T "(k, ts)" ch] by simp_all
  with Cons.IH [of m' ch'] show ?case by (auto simp: e kts)
qed

lemma or_apply_tombstones_pairs:
  assumes "tag_map_ok m"
  shows "tag_map_ok (fst (or_apply_tombstones T m))"
    and "tag_pairs (fst (or_apply_tombstones T m)) = tag_pairs m - UNIV \<times> set T"
proof -
  let ?f = "\<lambda>e. (fst e, fold os_erase T (snd e))"
  have keys: "map fst (map ?f m) = map fst m" by simp
  then have ok: "tag_map_ok (map ?f m)"
    using assms by (auto simp: tag_map_ok_def om_ok_def os_ok_fold_erase simp del: map_map)
  have at: "tags_at (map ?f m) k = fold os_erase T (tags_at m k)" for k
    by (induction m) (auto simp: tags_at_def fold_erase_Nil)
  from ok show "tag_map_ok (fst (or_apply_tombstones T m))"
    by (simp add: or_apply_tombstones_def Let_def)
  show "tag_pairs (fst (or_apply_tombstones T m)) = tag_pairs m - UNIV \<times> set T"
    by (auto simp: or_apply_tombstones_def Let_def tag_pairs_def at set_fold_erase)
qed

lemma or_read_tags_ok: "os_ok ts \<Longrightarrow> os_ok (fst (or_read_tags n p ts))"
  by (induction n arbitrary: p ts) auto

lemma or_decode_entry_ok:
  "or_decode_entry p m = Some (m', p') \<Longrightarrow> tag_map_ok m \<Longrightarrow> tag_map_ok m'"
  by (auto simp: or_decode_entry_def Let_def split_beta split: if_splits
      intro!: tag_map_ok_put os_ok_fold_insert tag_map_ok_at)

lemma or_decode_loop_ok: "or_decode_loop n p m = Some (m', p') \<Longrightarrow> tag_map_ok m \<Longrightarrow> tag_map_ok m'"
  by (induction n p m rule: or_decode_loop.induct) (auto split: option.splits dest: or_decode_entry_ok)

lemma or_decode_entries_ok: "or_decode_entries d = Some (inc, T) \<Longrightarrow> tag_map_ok inc \<and> os_ok T"
  by (auto simp: or_decode_entries_def Let_def or_read_tags_ok split: if_splits option.splits
      dest: or_decode_loop_ok)

lemma or_merge_tags:
  assumes "or_ok s"
  shows "or_tags (fst (or_merge m s)) = (or_tags s - UNIV \<times> or_msg_tombs m) \<union> or_msg_adds m"
    and "or_ok (fst (or_merge m s))"
    and "or_node_id (fst (or_merge m s)) = or_node_id s"
proof -
  have ok: "tag_map_ok (or_entries s)" using assms by (simp add: or_ok_def)
  have "or_tags (fst (or_merge m s)) = (or_tags s - UNIV \<times> or_msg_tombs m) \<union> or_msg_adds m \<and>
    or_ok (fst (or_merge m s)) \<and> or_node_id (fst (or_merge m s)) = or_node_id s"
  proof (cases "or_decode_entries m")
    case None
    then show ?thesis using assms by (simp add: or_merge_def or_msg_adds_def or_msg_tombs_def)
  next
    case (Some a)
    then obtain inc T where dec: "or_decode_entries m = Some (inc, T)" by (cases a) auto
    then have inc: "tag_map_ok inc" by (simp add: or_decode_entries_ok)
    obtain m1 ch1 where m1: "or_apply_tombstones T (or_entries s) = (m1, ch1)" by fastforce
    obtain m2 ch2 where m2: "fold (or_add_entry T) inc (m1, ch1) = (m2, ch2)" by fastforce
    have "tag_map_ok m1" "tag_pairs m1 = or_tags s - UNIV \<times> set T"
      using or_apply_tombstones_pairs [OF ok, of T] by (simp_all add: m1 or_tags_def)
    then have "tag_map_ok m2" "tag_pairs m2 = (or_tags s - UNIV \<times> set T) \<union> (tag_pairs inc - UNIV \<times> set T)"
      using or_add_entries_pairs [of m1 T inc ch1] inc by (auto simp: m2 tag_pairs_iff tag_map_ok_om)
    with assms show ?thesis
      by (simp add: or_merge_def dec m1 m2 or_tags_def tag_pairs_filter or_msg_adds_def or_msg_tombs_def
          or_ok_def tag_map_ok_filter)
  qed
  then show "or_tags (fst (or_merge m s)) = (or_tags s - UNIV \<times> or_msg_tombs m) \<union> or_msg_adds m"
    "or_ok (fst (or_merge m s))" "or_node_id (fst (or_merge m s)) = or_node_id s" by blast+
qed

interpretation orset_adds: join_replica "\<lambda>m s. fst (or_merge m s)" or_tags or_msg_adds "(\<union>)"
  or_ok "\<lambda>m. or_msg_tombs m = {}"
  by unfold_locales (auto simp: or_merge_tags)

subsection \<open>Local operations\<close>

lemma or_contains_tags: "or_contains k s \<longleftrightarrow> (\<exists>t. (k, t) \<in> or_tags s)"
  by (auto simp: or_contains_def or_tags_def tag_pairs_def tags_at_def ex_in_conv split: option.splits)

definition fresh_tag :: "or_set \<Rightarrow> or_tag" where
  "fresh_tag s = OrTag (or_node_id s) (or_seq s + 1)"

lemma or_add_eq:
  "or_add k s = (s\<lparr>or_seq := or_seq s + 1,
     or_entries := om_put k (os_insert (fresh_tag s) (tags_at (or_entries s) k)) (or_entries s),
     or_pending_adds := om_put k (os_insert (fresh_tag s) (tags_at (or_pending_adds s) k)) (or_pending_adds s),
     or_dirty := True\<rparr>, True)"
  by (simp add: or_add_def next_tag_def fresh_tag_def)

lemma or_add_tags:
  assumes "or_ok s"
  shows "or_tags (fst (or_add k s)) = insert (k, fresh_tag s) (or_tags s)"
    and "tag_pairs (or_pending_adds (fst (or_add k s))) = insert (k, fresh_tag s) (tag_pairs (or_pending_adds s))"
    and "or_ok (fst (or_add k s))"
proof -
  have ok: "tag_map_ok (or_entries s)" "tag_map_ok (or_pending_adds s)" using assms by (simp_all add: or_ok_def)
  show "or_tags (fst (or_add k s)) = insert (k, fresh_tag s) (or_tags s)"
    unfolding or_add_eq or_tags_def by (auto simp: tag_pairs_put tag_map_ok_om ok) (auto simp: tag_pairs_def)
  show "tag_pairs (or_pending_adds (fst (or_add k s))) = insert (k, fresh_tag s) (tag_pairs (or_pending_adds s))"
    unfolding or_add_eq by (auto simp: tag_pairs_put tag_map_ok_om ok) (auto simp: tag_pairs_def)
  have "os_insert (fresh_tag s) (tags_at (or_entries s) k) \<noteq> []"
    by (metis set_os_insert insert_not_empty set_empty)
  then show "or_ok (fst (or_add k s))"
    using assms set_om_put [of k "os_insert (fresh_tag s) (tags_at (or_entries s) k)" "or_entries s"]
    by (auto simp: or_ok_def or_add_eq tag_map_ok_put tag_map_ok_at)
qed

lemma or_remove_tags:
  assumes "or_ok s"
  shows "or_tags (fst (or_remove k s)) = {p \<in> or_tags s. fst p \<noteq> k}"
    and "set (or_pending_removes (fst (or_remove k s))) = set (or_pending_removes s) \<union> {t. (k, t) \<in> or_tags s}"
    and "snd (or_remove k s) \<longleftrightarrow> or_contains k s"
    and "or_ok (fst (or_remove k s))"
proof -
  have ne: "map_of (or_entries s) k \<noteq> Some []"
    using assms by (fastforce simp: or_ok_def dest: map_of_SomeD)
  have "om_ok (om_erase k (or_entries s))"
    using assms by (simp add: or_ok_def tag_map_ok_om)
  moreover have "set (om_erase k (or_entries s)) \<subseteq> set (or_entries s)"
    by (auto simp: om_erase_def)
  ultimately show "or_ok (fst (or_remove k s))"
    using assms by (auto simp: or_remove_def or_ok_def tag_map_ok_def os_ok_fold_insert split: option.splits)
  show "or_tags (fst (or_remove k s)) = {p \<in> or_tags s. fst p \<noteq> k}"
    "set (or_pending_removes (fst (or_remove k s))) = set (or_pending_removes s) \<union> {t. (k, t) \<in> or_tags s}"
    "snd (or_remove k s) \<longleftrightarrow> or_contains k s"
    using ne by (auto simp: or_remove_def or_tags_def tag_pairs_def tags_at_def tags_at_erase or_contains_def
        set_fold_insert store_simps split: option.splits if_splits)
qed

subsection \<open>Wire format round trip\<close>

definition tag_wire :: "or_tag \<Rightarrow> bytes" where
  "tag_wire t = be16 (tag_node_id t) @ be32 (tag_sequence t)"

definition or_entry_wire :: "bytes \<times> or_tag list \<Rightarrow> bytes" where
  "or_entry_wire e = be16 (of_nat (length (fst e))) @ fst e @ [of_nat (length (snd e))] @ concat (map tag_wire (snd e))"

definition entry_fits :: "bytes \<times> or_tag list \<Rightarrow> bool" where
  "entry_fits e \<longleftrightarrow> length (fst e) < 2 ^ 16 \<and> length (snd e) < 2 ^ 8"

definition msg_fits :: "tag_map \<Rightarrow> or_tag list \<Rightarrow> bool" where
  "msg_fits m T \<longleftrightarrow> length m < 2 ^ 16 \<and> list_all entry_fits m \<and> length T < 2 ^ 16"

lemma length_tags_wire: "length (concat (map tag_wire ts)) = length ts * 6"
  by (induction ts) (simp_all add: tag_wire_def)

lemma or_write_tags_wire:
  "length r = length ts * 6 \<Longrightarrow> length q = off \<Longrightarrow> or_write_tags ts off (q @ r) = q @ concat (map tag_wire ts)"
proof (induction ts arbitrary: q r off)
  case Nil
  then show ?case by simp
next
  case (Cons t ts)
  have "or_write_tags (t # ts) off (q @ r) = or_write_tags ts (off + 6) ((q @ tag_wire t) @ drop 6 r)"
    using Cons.prems by (simp add: buf_simps tag_wire_def Let_def)
  with Cons.IH [of "drop 6 r" "q @ tag_wire t" "off + 6"] Cons.prems show ?case
    by (simp add: tag_wire_def)
qed

lemma or_encode_entry_wire:
  "or_encode_entry e buf = buf @ (if snd e = [] then [] else or_entry_wire e)"
proof (cases "snd e = []")
  case True
  then show ?thesis by (simp add: or_encode_entry_def Let_def)
next
  case False
  let ?b = "buf @ be16 (of_nat (length (fst e))) @ fst e"
  have "or_encode_entry e buf = or_write_tags (snd e) (length ?b + 1)
      ((?b @ [of_nat (length (snd e))]) @ replicate (length (snd e) * 6) 0)"
    using False by (simp add: or_encode_entry_def Let_def buf_simps list_update_append)
  then show ?thesis
    using False or_write_tags_wire [of "replicate (length (snd e) * 6) 0" "snd e" "?b @ [of_nat (length (snd e))]"
        "length ?b + 1"] by (simp add: or_entry_wire_def)
qed

lemma fold_encode_entry:
  "fold or_encode_entry m buf = buf @ concat (map or_entry_wire (filter (\<lambda>e. snd e \<noteq> []) m))"
  by (induction m arbitrary: buf) (simp_all add: or_encode_entry_wire)

lemma fold_entry_count:
  "fold (\<lambda>e n. if snd e \<noteq> [] then n + 1 else n) m (a :: u16) = a + of_nat (length (filter (\<lambda>e. snd e \<noteq> []) m))"
  by (induction m arbitrary: a) (simp_all add: add.assoc)

lemma or_encode_entries_wire:
  "or_encode_entries m T [] = be16 (of_nat (length (filter (\<lambda>e. snd e \<noteq> []) m))) @
     concat (map or_entry_wire (filter (\<lambda>e. snd e \<noteq> []) m)) @ be16 (of_nat (length T)) @ concat (map tag_wire T)"
proof -
  let ?b = "be16 (of_nat (length (filter (\<lambda>e. snd e \<noteq> []) m))) @ concat (map or_entry_wire (filter (\<lambda>e. snd e \<noteq> []) m))"
  have "or_encode_entries m T [] = or_write_tags T (length ?b + 2)
      ((?b @ be16 (of_nat (length T))) @ replicate (length T * 6) 0)"
    by (simp add: or_encode_entries_def Let_def fold_entry_count fold_encode_entry buf_simps)
  then show ?thesis
    using or_write_tags_wire [of "replicate (length T * 6) 0" T "?b @ be16 (of_nat (length T))" "length ?b + 2"]
    by simp
qed

lemma or_read_tags_wire:
  "or_read_tags (length ts) (concat (map tag_wire ts) @ r) acc = (fold os_insert ts acc, r)"
  by (induction ts arbitrary: acc) (simp_all add: tag_wire_def wire_simps)

lemma unat_small_u16: "n < 2 ^ 16 \<Longrightarrow> unat (of_nat n :: u16) = n"
  by (simp add: unat_of_nat take_bit_nat_eq_self)

lemma unat_small_byte: "n < 2 ^ 8 \<Longrightarrow> unat (of_nat n :: u8) = n"
  by (simp add: unat_of_nat take_bit_nat_eq_self)

lemma or_decode_entry_wire:
  assumes "entry_fits e"
  shows "or_decode_entry (or_entry_wire e @ r) m =
    Some (om_put (fst e) (fold os_insert (fold os_insert (snd e) []) (tags_at m (fst e))) m, r)"
  using assms or_read_tags_wire [of "snd e" r "[]"]
  by (simp add: or_decode_entry_def or_entry_wire_def entry_fits_def Let_def wire_simps unat_small_u16
      unat_small_byte length_tags_wire nth_append)

lemma or_decode_loop_wire:
  assumes "list_all entry_fits es" and "tag_map_ok m"
  shows "\<exists>m'. or_decode_loop (length es) (concat (map or_entry_wire es) @ r) m = Some (m', r) \<and> tag_map_ok m' \<and>
    tag_pairs m' = tag_pairs m \<union> {(k, t). \<exists>ts. (k, ts) \<in> set es \<and> t \<in> set ts} \<and>
    ((\<forall>e \<in> set m. snd e \<noteq> []) \<longrightarrow> (\<forall>e \<in> set es. snd e \<noteq> []) \<longrightarrow> (\<forall>e \<in> set m'. snd e \<noteq> []))"
  using assms
proof (induction es arbitrary: m)
  case Nil
  then show ?case by simp
next
  case (Cons e es)
  define ts where "ts = fold os_insert (fold os_insert (snd e) []) (tags_at m (fst e))"
  define m1 where "m1 = om_put (fst e) ts m"
  have ts: "os_ok ts" "set ts = set (snd e) \<union> set (tags_at m (fst e))"
    using Cons.prems(2) by (auto simp: ts_def set_fold_insert intro!: os_ok_fold_insert tag_map_ok_at)
  then have m1: "tag_map_ok m1" "tag_pairs m1 = tag_pairs m \<union> {fst e} \<times> set (snd e)"
    unfolding m1_def using tag_pairs_put [OF tag_map_ok_om [OF Cons.prems(2)], of "fst e" ts] Cons.prems(2)
    by (auto simp: tag_map_ok_put) (auto simp: tag_pairs_def)
  have ne: "\<forall>e \<in> set m1. snd e \<noteq> []" if "\<forall>e \<in> set m. snd e \<noteq> []" "snd e \<noteq> []"
    using that ts(2) set_om_put [of "fst e" ts m] by (fastforce simp: m1_def)
  have "or_decode_loop (length (e # es)) (concat (map or_entry_wire (e # es)) @ r) m =
      or_decode_loop (length es) (concat (map or_entry_wire es) @ r) m1"
    using Cons.prems(1) by (simp add: or_decode_entry_wire m1_def ts_def)
  with Cons.IH [OF _ m1(1)] Cons.prems(1) m1(2) ne show ?case by (cases e) fastforce
qed

text \<open>What is decoded is what was encoded, element by element and tag by tag.\<close>

lemma or_decode_encode:
  assumes "tag_map_ok m" and "os_ok T" and fits: "msg_fits (filter (\<lambda>e. snd e \<noteq> []) m) T"
  shows "or_decode_entries (or_encode_entries m T []) = Some (filter (\<lambda>e. snd e \<noteq> []) m, T)"
proof -
  let ?m = "filter (\<lambda>e. snd e \<noteq> []) m"
  have okm: "tag_map_ok ?m" using assms(1) by (rule tag_map_ok_filter)
  obtain m' where dec: "or_decode_loop (length ?m) (concat (map or_entry_wire ?m) @ (be16 (of_nat (length T)) @
      concat (map tag_wire T))) [] = Some (m', be16 (of_nat (length T)) @ concat (map tag_wire T))"
    and m': "tag_map_ok m'" "tag_pairs m' = {(k, t). \<exists>ts. (k, ts) \<in> set ?m \<and> t \<in> set ts}" "\<forall>e \<in> set m'. snd e \<noteq> []"
    using or_decode_loop_wire [of ?m "[]" "be16 (of_nat (length T)) @ concat (map tag_wire T)"] fits
    by (auto simp: msg_fits_def)
  have "tag_pairs m' = tag_pairs ?m"
    using okm by (auto simp: m'(2) tag_pairs_iff tag_map_ok_om)
  then have "m' = ?m" using m'(1,3) okm by (intro tag_map_eqI) auto
  moreover have "fold os_insert T [] = T"
    by (rule os_ok_eqI) (simp_all add: os_ok_fold_insert set_fold_insert assms(2))
  ultimately show ?thesis
    using dec fits or_read_tags_wire [of T "[]" "[]"]
    by (simp add: or_encode_entries_wire or_decode_entries_def msg_fits_def wire_simps unat_small_u16
        length_tags_wire Let_def)
qed

text \<open>What a delta and a snapshot mean to their receiver.\<close>

definition delta_fits :: "or_set \<Rightarrow> bool" where
  "delta_fits s \<longleftrightarrow> msg_fits (filter (\<lambda>e. snd e \<noteq> []) (or_pending_adds s)) (or_pending_removes s)"

lemma or_delta_meaning:
  assumes "or_ok s" and "or_dirty s" and "delta_fits s"
  shows "or_msg_tombs (snd (or_delta s)) = set (or_pending_removes s)"
    and "or_msg_adds (snd (or_delta s)) = tag_pairs (or_pending_adds s) - UNIV \<times> set (or_pending_removes s)"
  using assms or_decode_encode [of "or_pending_adds s" "or_pending_removes s"]
  by (simp_all add: or_delta_def or_msg_tombs_def or_msg_adds_def or_ok_def delta_fits_def tag_pairs_filter)

lemma or_delta_keeps:
  "or_tags (fst (or_delta s)) = or_tags s" "or_ok s \<Longrightarrow> or_ok (fst (or_delta s))"
  by (simp_all add: or_delta_def or_tags_def or_ok_def)

lemma or_ok_new: "or_ok (or_new n)"
  by (simp add: or_ok_def or_new_def or_default_def)

lemma or_entries_eqI:
  "or_ok s \<Longrightarrow> or_ok t \<Longrightarrow> or_tags s = or_tags t \<Longrightarrow> or_entries s = or_entries t"
  by (auto simp: or_ok_def or_tags_def intro: tag_map_eqI)

subsection \<open>Tags are never reused\<close>

definition tags_below :: "or_set \<Rightarrow> bool" where
  "tags_below s \<longleftrightarrow> (\<forall>e \<in> set (or_entries s). \<forall>t \<in> set (snd e).
     tag_node_id t = or_node_id s \<longrightarrow> tag_sequence t \<le> or_seq s)"

lemma tags_below_iff:
  "or_ok s \<Longrightarrow> tags_below s \<longleftrightarrow> (\<forall>(k, t) \<in> or_tags s. tag_node_id t = or_node_id s \<longrightarrow> tag_sequence t \<le> or_seq s)"
  by (fastforce simp: tags_below_def or_tags_def or_ok_def tag_map_ok_om tag_pairs_iff)

lemma word_succ_less: "(w :: u32) \<noteq> - 1 \<Longrightarrow> w < w + 1"
  using unatSuc [of w] by (auto simp: word_less_nat_alt add.commute add_eq_0_iff)

lemma fresh_tag_new:
  assumes "or_ok s" and "tags_below s" and "or_seq s \<noteq> - 1"
  shows "(k, fresh_tag s) \<notin> or_tags s"
proof
  assume "(k, fresh_tag s) \<in> or_tags s"
  then have "or_seq s + 1 \<le> or_seq s" using assms(2) by (auto simp: tags_below_iff [OF assms(1)] fresh_tag_def)
  with word_succ_less [OF assms(3)] show False by simp
qed

lemma fold_max_seq_ge:
  "q \<le> fold (\<lambda>tag q. if tag_node_id tag = n \<and> tag_sequence tag > q then tag_sequence tag else q) ts q"
proof (induction ts arbitrary: q)
  case (Cons t ts)
  show ?case using Cons [of "tag_sequence t"] Cons [of q] by (auto intro: order.trans less_imp_le)
qed simp

lemma fold_max_seq_in:
  "t \<in> set ts \<Longrightarrow> tag_node_id t = n \<Longrightarrow> tag_sequence t \<le>
   fold (\<lambda>tag q. if tag_node_id tag = n \<and> tag_sequence tag > q then tag_sequence tag else q) ts q"
proof (induction ts arbitrary: q)
  case (Cons u ts)
  show ?case
  proof (cases "t = u")
    case True
    with Cons.prems fold_max_seq_ge [of "tag_sequence t" n ts] fold_max_seq_ge [of q n ts] show ?thesis
      by (auto intro: order.trans)
  qed (use Cons in auto)
qed simp

lemma fold_max_seq_entries:
  defines "upd \<equiv> \<lambda>n. fold (\<lambda>tag q. if tag_node_id tag = n \<and> tag_sequence tag > q then tag_sequence tag else q)"
  shows "q \<le> fold (\<lambda>e. upd n (snd e)) inc q \<and>
    (\<forall>k ts t. (k, ts) \<in> set inc \<longrightarrow> t \<in> set ts \<longrightarrow> tag_node_id t = n \<longrightarrow> tag_sequence t \<le> fold (\<lambda>e. upd n (snd e)) inc q)"
proof (induction inc arbitrary: q)
  case (Cons e inc)
  have "q \<le> upd n (snd e) q" "\<forall>t \<in> set (snd e). tag_node_id t = n \<longrightarrow> tag_sequence t \<le> upd n (snd e) q"
    by (auto simp: upd_def fold_max_seq_ge fold_max_seq_in)
  with Cons [of "upd n (snd e) q"] show ?case by (cases e) (auto intro: order.trans)
qed simp

lemma tags_below_add:
  assumes "or_ok s" and "tags_below s" and "or_seq s \<noteq> - 1"
  shows "tags_below (fst (or_add k s))"
proof -
  have "or_seq s \<le> or_seq s + 1" using word_succ_less [OF assms(3)] by simp
  then show ?thesis
    using assms(2) unfolding tags_below_iff [OF assms(1)] tags_below_iff [OF or_add_tags(3) [OF assms(1)]]
    by (auto simp: or_add_tags [OF assms(1)])
      (auto simp: or_add_eq fresh_tag_def intro: order.trans)
qed

lemma tags_below_merge:
  assumes "or_ok s" and "tags_below s"
  shows "tags_below (fst (or_merge m s))"
proof (cases "or_decode_entries m")
  case None
  then show ?thesis using assms by (simp add: or_merge_def)
next
  case (Some a)
  then obtain inc T where dec: "or_decode_entries m = Some (inc, T)" by (cases a) auto
  have inc: "om_ok inc" using or_decode_entries_ok [OF dec] by (simp add: tag_map_ok_om)
  let ?q = "or_seq (fst (or_merge m s))"
  have q: "or_seq s \<le> ?q" "(k, t) \<in> tag_pairs inc \<Longrightarrow> tag_node_id t = or_node_id s \<Longrightarrow> tag_sequence t \<le> ?q" for k t
    using fold_max_seq_entries [of "or_seq s" "or_node_id s" inc]
    by (auto simp: or_merge_def dec split_beta Let_def tag_pairs_iff [OF inc])
  show ?thesis
    using assms(2) q unfolding tags_below_iff [OF assms(1)] tags_below_iff [OF or_merge_tags(2) [OF assms(1)]]
      or_merge_tags(1,3) [OF assms(1)]
    by (fastforce simp: or_msg_adds_def dec intro: order.trans)
qed

subsection \<open>Properties of the observed-remove set\<close>

text \<open>A tag belongs to one element.\<close>

definition tags_unique :: "or_set \<Rightarrow> bool" where
  "tags_unique s \<longleftrightarrow> (\<forall>e \<in> set (or_entries s). \<forall>f \<in> set (or_entries s).
     fst e \<noteq> fst f \<longrightarrow> set (snd e) \<inter> set (snd f) = {})"

lemma tags_uniqueD: "tags_unique s \<Longrightarrow> or_ok s \<Longrightarrow> (k, t) \<in> or_tags s \<Longrightarrow> (l, t) \<in> or_tags s \<Longrightarrow> k = l"
  by (force simp: tags_unique_def or_tags_def tag_pairs_iff or_ok_def tag_map_ok_om)

text \<open>
  C7. Add wins. Two replicas with the same elements and nothing pending; one adds an element while the
  other, which has it, removes it. After both deltas are exchanged both replicas contain the element, and
  their entries are equal. The hypotheses are the invariants of the replicas, that the tag sequence is not
  exhausted, and that the removed tags fit the 16-bit count of a delta.
\<close>

theorem or_add_wins:
  assumes "or_ok a" and "or_ok b" and "or_entries a = or_entries b"
    and "tags_below a" and "or_seq a \<noteq> - 1" and "or_contains x b"
    and "or_pending_adds a = []" and "or_pending_removes a = []"
    and "or_pending_adds b = []" and "or_pending_removes b = []"
    and "length x < 2 ^ 16" and "length (tags_at (or_entries b) x) < 2 ^ 16" and "tags_unique b"
  shows "let a1 = fst (or_add x a); b1 = fst (or_remove x b);
             (a2, da) = or_delta a1; (b2, db) = or_delta b1;
             a3 = fst (or_merge db a2); b3 = fst (or_merge da b2)
         in or_contains x a3 \<and> or_contains x b3 \<and> or_entries a3 = or_entries b3"
proof -
  define t where "t = fresh_tag a"
  define a1 where "a1 = fst (or_add x a)"
  define b1 where "b1 = fst (or_remove x b)"
  have tags: "or_tags a = or_tags b" using assms(3) by (simp add: or_tags_def)
  have new: "(k, t) \<notin> or_tags b" for k
    using fresh_tag_new [OF assms(1,4,5)] by (simp add: t_def tags)
  have ok: "or_ok a1" "or_ok b1"
    using or_add_tags(3) [OF assms(1)] or_remove_tags(4) [OF assms(2)] by (simp_all add: a1_def b1_def)
  have ta: "or_tags a1 = insert (x, t) (or_tags b)" and pa: "tag_pairs (or_pending_adds a1) = {(x, t)}"
    using or_add_tags(1,2) [OF assms(1)] by (simp_all add: a1_def t_def tags assms(7))
  have tb: "or_tags b1 = {p \<in> or_tags b. fst p \<noteq> x}"
    and pb: "set (or_pending_removes b1) = {t. (x, t) \<in> or_tags b}" "or_pending_adds b1 = []"
    "or_pending_removes a1 = []" "or_dirty a1" "or_dirty b1"
    using or_remove_tags(1,2,3) [OF assms(2), of x] assms(6-10)
    by (auto simp: b1_def a1_def or_add_eq or_remove_def or_contains_def split: option.splits)
  have lenr: "length (or_pending_removes b1) = length (tags_at (or_entries b) x)"
  proof -
    have "or_pending_removes b1 = tags_at (or_entries b) x"
      using pb(1) ok(2) assms(2) by (intro os_ok_eqI) (auto simp: or_ok_def tag_map_ok_at or_tags_def tag_pairs_def)
    then show ?thesis by simp
  qed
  have fits: "delta_fits a1" "delta_fits b1"
    using assms(11,12) by (auto simp: delta_fits_def msg_fits_def pb lenr entry_fits_def)
      (auto simp: a1_def or_add_eq assms(7) tags_at_def insort_insert_key_def entry_fits_def)
  note da = or_delta_meaning [OF ok(1) pb(4) fits(1)] and db = or_delta_meaning [OF ok(2) pb(5) fits(2)]
  define a3 where "a3 = fst (or_merge (snd (or_delta b1)) (fst (or_delta a1)))"
  define b3 where "b3 = fst (or_merge (snd (or_delta a1)) (fst (or_delta b1)))"
  note oka = or_delta_keeps(2) [OF ok(1)] and okb = or_delta_keeps(2) [OF ok(2)]
  have other: "(k, u) \<in> or_tags b \<Longrightarrow> (x, u) \<in> or_tags b \<Longrightarrow> k = x" for k u
    using tags_uniqueD [OF assms(13,2)] by blast
  have "or_tags a3 = insert (x, t) {p \<in> or_tags b. fst p \<noteq> x}"
    using new other by (auto simp: a3_def or_merge_tags(1) [OF oka] or_delta_keeps ta db pb)
  moreover have "or_tags b3 = insert (x, t) {p \<in> or_tags b. fst p \<noteq> x}"
    by (auto simp: b3_def or_merge_tags(1) [OF okb] or_delta_keeps tb da pb pa)
  ultimately have "or_contains x a3 \<and> or_contains x b3 \<and> or_entries a3 = or_entries b3"
    using or_entries_eqI [of a3 b3] or_merge_tags(2) oka okb
    by (auto simp: or_contains_tags a3_def b3_def)
  then show ?thesis by (simp add: Let_def split_beta a3_def b3_def a1_def b1_def)
qed

theorem or_add_wins_witness:
  "let m = [([7], [OrTag 2 1]), ([9], [OrTag 2 2])];
       a = (or_new 1)\<lparr>or_entries := m\<rparr>; b = (or_new 2)\<lparr>or_entries := m, or_seq := 2\<rparr>;
       a1 = fst (or_add [7] a); b1 = fst (or_remove [7] b);
       (a2, da) = or_delta a1; (b2, db) = or_delta b1;
       a3 = fst (or_merge db a2); b3 = fst (or_merge da b2)
   in or_contains [7] a3 \<and> or_contains [7] b3 \<and> or_entries a3 = or_entries b3"
proof -
  let ?m = "[([7], [OrTag 2 1]), ([9], [OrTag 2 2])] :: tag_map"
  let ?a = "(or_new 1)\<lparr>or_entries := ?m\<rparr>" and ?b = "(or_new 2)\<lparr>or_entries := ?m, or_seq := 2\<rparr>"
  have "or_ok ?a" "or_ok ?b" "or_entries ?a = or_entries ?b" "tags_below ?a" "or_seq ?a \<noteq> - 1" "or_contains [7] ?b"
    "or_pending_adds ?a = []" "or_pending_removes ?a = []" "or_pending_adds ?b = []" "or_pending_removes ?b = []"
    "length [7 :: u8] < 2 ^ 16" "length (tags_at (or_entries ?b) [7]) < 2 ^ 16" "tags_unique ?b"
    by (simp_all add: or_ok_def or_new_def or_default_def tag_map_ok_def om_ok_def os_ok_def tags_below_def
        tags_unique_def or_contains_def tags_at_def)
  from or_add_wins [OF this] show ?thesis by (simp only: Let_def)
qed

text \<open>
  C11. When messages commute. If neither message removes a tag that the other adds, the order in which a
  replica merges them is irrelevant: the resulting entries are equal.
\<close>

theorem or_merge_commute:
  assumes "or_ok s" and "or_msg_adds m \<inter> UNIV \<times> or_msg_tombs n = {}" and "or_msg_adds n \<inter> UNIV \<times> or_msg_tombs m = {}"
  shows "or_entries (fst (or_merge m (fst (or_merge n s)))) = or_entries (fst (or_merge n (fst (or_merge m s))))"
proof (rule or_entries_eqI)
  have ok: "or_ok (fst (or_merge n s))" "or_ok (fst (or_merge m s))"
    using or_merge_tags(2) [OF assms(1)] by blast+
  then show "or_ok (fst (or_merge m (fst (or_merge n s))))" "or_ok (fst (or_merge n (fst (or_merge m s))))"
    using or_merge_tags(2) by blast+
  show "or_tags (fst (or_merge m (fst (or_merge n s)))) = or_tags (fst (or_merge n (fst (or_merge m s))))"
    using assms(2,3) by (auto simp: or_merge_tags(1) [OF ok(1)] or_merge_tags(1) [OF ok(2)] or_merge_tags(1) [OF assms(1)])
qed

theorem or_merge_commute_witness:
  "let m = [0, 1, 0, 1, 7, 1, 0, 1, 0, 0, 0, 5, 0, 0]; n = [0, 0, 0, 1, 0, 2, 0, 0, 0, 3]
   in or_msg_adds m = {([7], OrTag 1 5)} \<and> or_msg_tombs n = {OrTag 2 3} \<and>
      or_entries (fst (or_merge m (fst (or_merge n (or_new 4))))) = or_entries (fst (or_merge n (fst (or_merge m (or_new 4)))))"
proof -
  let ?m = "[0, 1, 0, 1, 7, 1, 0, 1, 0, 0, 0, 5, 0, 0] :: bytes" and ?n = "[0, 0, 0, 1, 0, 2, 0, 0, 0, 3] :: bytes"
  have "or_decode_entries ?m = Some ([([7], [OrTag 1 5])], [])" "or_decode_entries ?n = Some ([], [OrTag 2 3])"
    by code_simp+
  then have "or_msg_adds ?m = {([7], OrTag 1 5)}" "or_msg_tombs ?m = {}" "or_msg_adds ?n = {}" "or_msg_tombs ?n = {OrTag 2 3}"
    by (auto simp: or_msg_adds_def or_msg_tombs_def tag_pairs_def tags_at_def split: if_splits)
  with or_merge_commute [OF or_ok_new [of 4], of ?m ?n] show ?thesis by (simp add: Let_def)
qed

text \<open>
  A removal that overtakes its addition is lost. A node adds an element, sends the delta, removes the element and
  sends that delta. A replica that merges the deltas in this order ends without the element; one that merges them in
  the other order ends with it, because the tags removed are not remembered.
\<close>

theorem or_remove_before_add:
  assumes "length x < 2 ^ 16"
  shows "let (o2, d_add) = or_delta (fst (or_add x (or_new n)));
             (o4, d_rem) = or_delta (fst (or_remove x o2))
         in \<not> or_contains x (fst (or_merge d_rem (fst (or_merge d_add (or_new k))))) \<and>
            or_contains x (fst (or_merge d_add (fst (or_merge d_rem (or_new k)))))"
proof -
  define o1 where "o1 = fst (or_add x (or_new n))"
  define o3 where "o3 = fst (or_remove x (fst (or_delta o1)))"
  have none: "or_tags (or_new i) = {}" for i by (simp add: or_tags_def or_new_def or_default_def)
  have o1: "or_ok o1" "or_tags o1 = {(x, OrTag n 1)}" "or_pending_removes o1 = []" "or_dirty o1"
    "or_pending_adds o1 = [(x, [OrTag n 1])]"
    using or_add_tags(1,3) [OF or_ok_new [of n], of x]
    by (simp_all add: o1_def none) (simp_all add: or_add_eq or_new_def or_default_def fresh_tag_def tags_at_def
        insort_insert_key_def)
  have o2: "or_ok (fst (or_delta o1))" "or_tags (fst (or_delta o1)) = {(x, OrTag n 1)}" "or_contains x (fst (or_delta o1))"
    "or_pending_adds (fst (or_delta o1)) = []" "or_pending_removes (fst (or_delta o1)) = []"
    using o1 or_delta_keeps [of o1] by (simp_all add: or_contains_tags) (simp_all add: or_delta_def)
  have o3: "or_ok o3" "or_pending_adds o3 = []" "set (or_pending_removes o3) = {OrTag n 1}" "or_dirty o3"
    using or_remove_tags [OF o2(1), of x] o2
    by (auto simp: o3_def) (auto simp: or_remove_def or_contains_def split: option.splits)
  have "or_pending_removes o3 = [OrTag n 1]"
    using o3 by (intro os_ok_eqI) (auto simp: or_ok_def os_ok_def)
  then have fits: "delta_fits o1" "delta_fits o3"
    using assms o1 o3 by (simp_all add: delta_fits_def msg_fits_def entry_fits_def)
  have "or_msg_adds (snd (or_delta o1)) = {(x, OrTag n 1)}" "or_msg_tombs (snd (or_delta o1)) = {}"
    "or_msg_adds (snd (or_delta o3)) = {}" "or_msg_tombs (snd (or_delta o3)) = {OrTag n 1}"
    using or_delta_meaning [OF o1(1,4) fits(1)] or_delta_meaning [OF o3(1,4) fits(2)] o1 o3
    by (auto simp: tag_pairs_def tags_at_def split: if_splits)
  then show ?thesis
    by (simp add: Let_def split_beta or_contains_tags or_merge_tags or_ok_new none flip: o1_def o3_def)
qed

theorem or_remove_before_add_witness:
  "let (o2, d_add) = or_delta (fst (or_add [7] (or_new 1)));
       (o4, d_rem) = or_delta (fst (or_remove [7] o2))
   in \<not> or_contains [7] (fst (or_merge d_rem (fst (or_merge d_add (or_new 2))))) \<and>
      or_contains [7] (fst (or_merge d_add (fst (or_merge d_rem (or_new 2)))))"
  using or_remove_before_add [of "[7]" 1 2] by simp

text \<open>
  C12. State transfer. A snapshot whose counts fit their fields, merged into a replica that has no elements,
  reproduces the sender's entries exactly.
\<close>

theorem or_snapshot_transfer:
  assumes "or_ok s" and "or_ok r" and "or_entries r = []" and "msg_fits (or_entries s) []"
  shows "or_entries (fst (or_merge (or_snapshot s) r)) = or_entries s"
proof (rule or_entries_eqI)
  have "filter (\<lambda>e. snd e \<noteq> []) (or_entries s) = or_entries s"
    using assms(1) by (auto simp: or_ok_def filter_id_conv)
  then have "or_decode_entries (or_snapshot s) = Some (or_entries s, [])"
    using or_decode_encode [of "or_entries s" "[]"] assms(1,4) by (simp add: or_snapshot_def or_ok_def)
  then show "or_tags (fst (or_merge (or_snapshot s) r)) = or_tags s"
    using assms(3) by (simp add: or_merge_tags(1) [OF assms(2)] or_msg_adds_def or_msg_tombs_def)
      (simp add: or_tags_def)
qed (simp_all add: assms or_merge_tags)

theorem or_snapshot_transfer_witness:
  "let s = (or_new 1)\<lparr>or_entries := [([7], [OrTag 2 1, OrTag 3 4]), ([9], [OrTag 2 2])]\<rparr>
   in or_entries (fst (or_merge (or_snapshot s) (or_new 2))) = or_entries s"
proof -
  let ?s = "(or_new 1)\<lparr>or_entries := [([7], [OrTag 2 1, OrTag 3 4]), ([9], [OrTag 2 2])]\<rparr>"
  have "or_ok ?s" "or_entries (or_new 2) = []" "msg_fits (or_entries ?s) []"
    by (simp_all add: or_ok_def or_new_def or_default_def tag_map_ok_def om_ok_def os_ok_def msg_fits_def
        entry_fits_def less_or_tag_def)
  from or_snapshot_transfer [OF this(1) or_ok_new this(2,3)] show ?thesis by (simp only: Let_def)
qed

text \<open>
  Fresh tags. The invariants hold for a new set and are kept by every operation, and with them the tag of the next
  addition is on no element, unless the 32-bit sequence is exhausted.
\<close>

theorem or_tags_fresh:
  assumes "or_ok s" and "tags_below s" and "or_seq s \<noteq> - 1"
  shows "(\<forall>k. (k, OrTag (or_node_id s) (or_seq s + 1)) \<notin> or_tags s) \<and>
    or_ok (fst (or_add x s)) \<and> tags_below (fst (or_add x s)) \<and>
    or_ok (fst (or_remove x s)) \<and> tags_below (fst (or_remove x s)) \<and>
    or_ok (fst (or_merge m s)) \<and> tags_below (fst (or_merge m s)) \<and>
    or_ok (fst (or_delta s)) \<and> tags_below (fst (or_delta s))"
proof -
  have "tags_below (fst (or_remove x s))"
    using assms(2) by (auto simp: tags_below_def or_remove_def om_erase_def split: option.splits)
  moreover have "tags_below (fst (or_delta s))"
    using assms(2) by (simp add: tags_below_def or_delta_def)
  ultimately show ?thesis
    using fresh_tag_new [OF assms] tags_below_add [OF assms] tags_below_merge [OF assms(1,2)]
      or_add_tags(3) [OF assms(1)] or_remove_tags(4) [OF assms(1)] or_merge_tags(2) [OF assms(1)]
      or_delta_keeps(2) [OF assms(1)]
    by (simp add: fresh_tag_def)
qed

theorem or_tags_fresh_witness:
  "let s = (or_new 1)\<lparr>or_entries := [([7], [OrTag 1 3])], or_seq := 3\<rparr>
   in (\<forall>k. (k, OrTag 1 4) \<notin> or_tags s) \<and> tags_below (fst (or_add [9] s)) \<and> tags_below (fst (or_merge [0, 0, 0, 0] s))"
proof -
  let ?s = "(or_new 1)\<lparr>or_entries := [([7], [OrTag 1 3])], or_seq := 3\<rparr>"
  have "or_ok ?s" "tags_below ?s" "or_seq ?s \<noteq> - 1"
    by (simp_all add: or_ok_def or_new_def or_default_def tag_map_ok_def om_ok_def os_ok_def tags_below_def)
  from or_tags_fresh [OF this, of "[9]" "[0, 0, 0, 0]"] show ?thesis
    by (simp add: Let_def) (simp add: or_new_def or_default_def)
qed

end
