(* ===== verification/Version_Vector.thy ===== *)
theory Version_Vector
  imports Crdt_Base
begin

text \<open>
  Version vectors (\<^verbatim>\<open>state/version_vector.h\<close>, \<^verbatim>\<open>version_vector.cpp\<close>). The vector of entries is an
  association list, searched from the front. The lemmas show that, for vectors with one entry per node,
  the comparisons of the class are the pointwise order of the sequence numbers, that \<open>merge\<close> is its
  least upper bound (an interpretation of \<open>join_crdt\<close>) and that the wire format round-trips for fewer
  than 256 entries.
\<close>

type_synonym version_entry = "u16 \<times> u32"

type_synonym version_vector = "version_entry list"

fun vv_find :: "version_vector \<Rightarrow> u16 \<Rightarrow> version_entry option" where
  "vv_find [] node_id = None"
| "vv_find (e # es) node_id = (if fst e = node_id then Some e else vv_find es node_id)"

text \<open>A write through the pointer that \<open>find\<close> returned.\<close>

fun vv_store :: "u16 \<Rightarrow> u32 \<Rightarrow> version_vector \<Rightarrow> version_vector" where
  "vv_store node_id seq [] = []"
| "vv_store node_id seq (e # es) =
     (if fst e = node_id then (node_id, seq) # es else e # vv_store node_id seq es)"

definition vv_increment :: "u16 \<Rightarrow> version_vector \<Rightarrow> version_vector \<times> u32" where
  "vv_increment node_id v =
    (case vv_find v node_id of
       Some e \<Rightarrow> (vv_store node_id (snd e + 1) v, snd e + 1)
     | None \<Rightarrow> (v @ [(node_id, 1)], 1))"

definition vv_get :: "version_vector \<Rightarrow> u16 \<Rightarrow> u32" where
  "vv_get v node_id = (case vv_find v node_id of Some e \<Rightarrow> snd e | None \<Rightarrow> 0)"

definition vv_set :: "u16 \<Rightarrow> u32 \<Rightarrow> version_vector \<Rightarrow> version_vector" where
  "vv_set node_id seq v =
    (case vv_find v node_id of Some e \<Rightarrow> vv_store node_id seq v | None \<Rightarrow> v @ [(node_id, seq)])"

fun vv_merge :: "version_vector \<Rightarrow> version_vector \<Rightarrow> version_vector" where
  "vv_merge v [] = v"
| "vv_merge v (oe # other) =
     vv_merge (case vv_find v (fst oe) of
                 Some e \<Rightarrow> vv_store (fst oe) (max (snd e) (snd oe)) v
               | None \<Rightarrow> v @ [oe]) other"

fun vv_dominates :: "version_vector \<Rightarrow> version_vector \<Rightarrow> bool" where
  "vv_dominates v [] = True"
| "vv_dominates v (oe # other) = (if vv_get v (fst oe) < snd oe then False else vv_dominates v other)"

definition vv_concurrent_with :: "version_vector \<Rightarrow> version_vector \<Rightarrow> bool" where
  "vv_concurrent_with v other = (\<not> vv_dominates v other \<and> \<not> vv_dominates other v)"

fun vv_agrees :: "version_vector \<Rightarrow> version_vector \<Rightarrow> bool" where
  "vv_agrees other [] = True"
| "vv_agrees other (e # es) = (if vv_get other (fst e) \<noteq> snd e then False else vv_agrees other es)"

definition vv_equal :: "version_vector \<Rightarrow> version_vector \<Rightarrow> bool" where
  "vv_equal v other = (vv_agrees other v \<and> vv_agrees v other)"

definition vv_less_than :: "version_vector \<Rightarrow> version_vector \<Rightarrow> bool" where
  "vv_less_than v other = (vv_dominates other v \<and> \<not> vv_equal v other)"

definition vv_wire_size :: "version_vector \<Rightarrow> nat" where
  "vv_wire_size v = 1 + length v * 6"

fun vv_write_entries :: "version_vector \<Rightarrow> nat \<Rightarrow> bytes \<Rightarrow> bytes" where
  "vv_write_entries [] offset buf = buf"
| "vv_write_entries (e # es) offset buf =
    (let b1 = write_u16 buf offset (fst e);
         b2 = write_u32 b1 (offset + 2) (snd e)
     in vv_write_entries es (offset + 6) b2)"

definition vv_encode :: "version_vector \<Rightarrow> bytes \<Rightarrow> bytes option" where
  "vv_encode v buf =
    (if length buf < vv_wire_size v then None
     else Some (vv_write_entries v 1 (buf[0 := of_nat (length v)])))"

fun vv_read_entries :: "nat \<Rightarrow> bytes \<Rightarrow> version_vector" where
  "vv_read_entries 0 p = []"
| "vv_read_entries (Suc i) p = (read_u16 p, read_u32 (drop 2 p)) # vv_read_entries i (drop 6 p)"

definition vv_decode :: "bytes \<Rightarrow> version_vector option" where
  "vv_decode buf =
    (if length buf < 1 then None
     else
       let count = unat (buf ! 0); needed = 1 + count * 6
       in if length buf < needed then None else Some (vv_read_entries count (drop 1 buf)))"

subsection \<open>The order of versions\<close>

definition vv_join :: "(u16 \<Rightarrow> u32) \<Rightarrow> (u16 \<Rightarrow> u32) \<Rightarrow> u16 \<Rightarrow> u32" where
  "vv_join f g = (\<lambda>n. max (f n) (g n))"

lemma vv_find_map_of: "vv_find v n = map_option (Pair n) (map_of v n)"
  by (induction v) auto

lemma vv_get_map_of: "vv_get v n = (case map_of v n of Some s \<Rightarrow> s | None \<Rightarrow> 0)"
  by (simp add: vv_get_def vv_find_map_of split: option.splits)

lemma vv_store_put: "map_of v n \<noteq> None \<Longrightarrow> vv_store n s v = um_put n s v"
  by (induction v) auto

lemma vv_set_put: "vv_set n s v = um_put n s v"
  by (simp add: vv_set_def vv_find_map_of vv_store_put um_put_new split: option.splits)

lemma vv_increment_put: "vv_increment n v = (um_put n (vv_get v n + 1) v, vv_get v n + 1)"
  by (simp add: vv_increment_def vv_get_def vv_find_map_of vv_store_put um_put_new split: option.splits)

lemma vv_merge_step:
  "(case vv_find v (fst oe) of Some e \<Rightarrow> vv_store (fst oe) (max (snd e) (snd oe)) v | None \<Rightarrow> v @ [oe]) =
     um_put (fst oe) (max (vv_get v (fst oe)) (snd oe)) v"
  by (cases oe) (simp add: vv_get_def vv_find_map_of vv_store_put um_put_new split: option.splits)

lemma vv_get_put: "vv_get (um_put n s v) k = (if k = n then s else vv_get v k)"
  by (simp add: vv_get_map_of update_conv')

lemma vv_merge_ok: "um_ok v \<Longrightarrow> um_ok (vv_merge v w)"
proof (induction w arbitrary: v)
  case (Cons e w)
  then show ?case using vv_merge_step [of v e] by simp
qed simp

lemma vv_get_merge: "um_ok w \<Longrightarrow> vv_get (vv_merge v w) k = max (vv_get v k) (vv_get w k)"
proof (induction w arbitrary: v)
  case Nil
  then show ?case by (simp add: vv_get_map_of)
next
  case (Cons e w)
  have "map_of w (fst e) = None" using Cons.prems by (simp add: map_of_eq_None_iff)
  then have w: "vv_get w (fst e) = 0" by (simp add: vv_get_map_of)
  have "vv_get (vv_merge v (e # w)) k = max (vv_get (um_put (fst e) (max (vv_get v (fst e)) (snd e)) v) k) (vv_get w k)"
    using Cons vv_merge_step [of v e] by simp
  with w show ?case by (simp add: vv_get_put) (simp add: vv_get_map_of)
qed

lemma vv_dominates_iff: "um_ok w \<Longrightarrow> vv_dominates v w \<longleftrightarrow> (\<forall>k. vv_get w k \<le> vv_get v k)"
proof (induction w)
  case Nil
  then show ?case by (simp add: vv_get_map_of)
next
  case (Cons e w)
  have "map_of w (fst e) = None" using Cons.prems by (simp add: map_of_eq_None_iff)
  then have w: "vv_get w (fst e) = 0" by (simp add: vv_get_map_of)
  have "vv_get (e # w) k = (if k = fst e then snd e else vv_get w k)" for k
    by (simp add: vv_get_map_of)
  with Cons w show ?case by (auto simp: not_less) (metis word_zero_le)
qed

lemma vv_agrees_all: "vv_agrees w v \<longleftrightarrow> (\<forall>e \<in> set v. vv_get w (fst e) = snd e)"
  by (induction v) auto

lemma vv_get_entry: "um_ok v \<Longrightarrow> e \<in> set v \<Longrightarrow> vv_get v (fst e) = snd e"
  by (cases e) (simp add: vv_get_map_of)

lemma vv_agrees_iff: "um_ok v \<Longrightarrow> vv_agrees w v \<longleftrightarrow> (\<forall>k \<in> fst ` set v. vv_get w k = vv_get v k)"
  by (simp add: vv_agrees_all vv_get_entry)

lemma vv_get_absent: "k \<notin> fst ` set v \<Longrightarrow> vv_get v k = 0"
  by (simp add: vv_get_map_of map_of_eq_None_iff [THEN iffD2])

lemma vv_equal_iff: "um_ok v \<Longrightarrow> um_ok w \<Longrightarrow> vv_equal v w \<longleftrightarrow> vv_get v = vv_get w"
  unfolding vv_equal_def vv_agrees_iff fun_eq_iff by (metis vv_get_absent)

interpretation versions: join_crdt "\<lambda>w v. vv_merge v w" vv_get vv_get vv_join um_ok um_ok "\<lambda>v. v" "\<lambda>v. True"
  by unfold_locales (auto simp: vv_join_def fun_eq_iff vv_merge_ok vv_get_merge max.assoc max.commute max.left_commute)

text \<open>
  The order of versions. For vectors with one entry per node the comparisons are the pointwise order
  of the sequence numbers, missing nodes counting as zero: \<open>dominates\<close> is at least, \<open>==\<close> is equal everywhere,
  \<open>less_than\<close> is strictly below, \<open>concurrent_with\<close> is incomparable; and \<open>merge\<close> is the least upper bound:
  it dominates both arguments, and every vector that dominates both dominates it.
\<close>

theorem vv_order:
  assumes "um_ok v" and "um_ok w" and "um_ok u"
  shows "(vv_dominates v w \<longleftrightarrow> vv_get w \<le> vv_get v) \<and>
    (vv_equal v w \<longleftrightarrow> vv_get v = vv_get w) \<and>
    (vv_less_than v w \<longleftrightarrow> vv_get v < vv_get w) \<and>
    (vv_concurrent_with v w \<longleftrightarrow> \<not> vv_get v \<le> vv_get w \<and> \<not> vv_get w \<le> vv_get v) \<and>
    vv_dominates (vv_merge v w) v \<and> vv_dominates (vv_merge v w) w \<and>
    (vv_dominates u v \<and> vv_dominates u w \<longrightarrow> vv_dominates u (vv_merge v w))"
proof -
  note d = vv_dominates_iff [OF assms(1)] vv_dominates_iff [OF assms(2)]
    vv_dominates_iff [OF vv_merge_ok [OF assms(1)]]
  show ?thesis
    by (auto simp: d vv_less_than_def vv_concurrent_with_def vv_equal_iff assms vv_get_merge le_fun_def less_le)
qed

theorem vv_order_witness:
  "let v = [(1, 4), (2, 7)]; w = [(2, 3), (5, 1)]; u = [(5, 9), (2, 9), (1, 9)]
   in vv_concurrent_with v w \<and> vv_dominates (vv_merge v w) v \<and> vv_dominates (vv_merge v w) w \<and>
      vv_dominates u (vv_merge v w) \<and> \<not> vv_get v \<le> vv_get w"
proof -
  let ?v = "[(1, 4), (2, 7)] :: version_vector" and ?w = "[(2, 3), (5, 1)] :: version_vector"
    and ?u = "[(5, 9), (2, 9), (1, 9)] :: version_vector"
  have "vv_concurrent_with ?v ?w" "vv_dominates ?u ?v" "vv_dominates ?u ?w" by code_simp+
  moreover have "um_ok ?v" "um_ok ?w" "um_ok ?u" by simp_all
  ultimately show ?thesis using vv_order [of ?v ?w ?u] unfolding Let_def by blast
qed

subsection \<open>Wire format\<close>

definition vv_entry_wire :: "version_entry \<Rightarrow> bytes" where
  "vv_entry_wire e = be16 (fst e) @ be32 (snd e)"

lemma vv_write_entries_wire:
  "length es * 6 \<le> length r \<Longrightarrow> length q = off \<Longrightarrow>
   vv_write_entries es off (q @ r) = q @ concat (map vv_entry_wire es) @ drop (length es * 6) r"
proof (induction es arbitrary: q r off)
  case Nil
  then show ?case by simp
next
  case (Cons e es)
  have "vv_write_entries (e # es) off (q @ r) = vv_write_entries es (off + 6) ((q @ vv_entry_wire e) @ drop 6 r)"
    using Cons.prems by (simp add: buf_simps vv_entry_wire_def Let_def)
  with Cons.IH [of "drop 6 r" "q @ vv_entry_wire e" "off + 6"] Cons.prems show ?case
    by (simp add: vv_entry_wire_def add.commute)
qed

lemma vv_read_entries_wire: "vv_read_entries (length v) (concat (map vv_entry_wire v) @ r) = v"
  by (induction v) (simp_all add: vv_entry_wire_def wire_simps)

lemma length_vv_wire: "length (concat (map vv_entry_wire v)) = length v * 6"
  by (induction v) (simp_all add: vv_entry_wire_def)

lemma vv_decode_encode:
  assumes "length v < 256" and "vv_wire_size v \<le> length buf"
  shows "\<exists>buf'. vv_encode v buf = Some buf' \<and> length buf' = length buf \<and> vv_decode buf' = Some v \<and>
    drop (vv_wire_size v) buf' = drop (vv_wire_size v) buf"
proof -
  obtain b r where buf: "buf = b # r" using assms(2) by (cases buf) (simp_all add: vv_wire_size_def)
  have "unat (of_nat (length v) :: u8) = length v"
    using assms(1) by (simp add: unat_of_nat take_bit_nat_eq_self)
  with assms buf vv_write_entries_wire [of v r "[of_nat (length v)]" 1]
    vv_read_entries_wire [of v "drop (length v * 6) r"]
  show ?thesis by (auto simp: vv_encode_def vv_decode_def vv_wire_size_def length_vv_wire Let_def not_less)
qed

end
