(* ===== verification/State_Path.thy ===== *)
theory State_Path
  imports Packet
begin

text \<open>
  State paths (\<^verbatim>\<open>state/state_path.h\<close>, \<^verbatim>\<open>state_path.cpp\<close>). A path is a byte string with its hash and its
  segments between slashes. The lemmas show that the segments of a joined path are the segments that
  were joined, what the wildcard match and the prefix test decide, and how they relate.
\<close>

record state_path =
  sp_path :: bytes
  sp_hash :: u32
  sp_segments :: "bytes list"

definition SLASH :: u8 where "SLASH = 0x2F"

definition STAR :: u8 where "STAR = 0x2A"

text \<open>The splitting loop; \<^verbatim>\<open>sv.find('/')\<close> is the length of the part before the first slash.\<close>

function split_segments :: "bytes \<Rightarrow> bytes list" where
  "split_segments sv =
    (if sv = [] then []
     else
       let pos = length (takeWhile (\<lambda>c. c \<noteq> SLASH) sv)
       in if pos = length sv then [sv]
          else take pos sv # split_segments (drop (pos + 1) sv))"
  by pat_completeness auto
termination
  by (relation "measure length") auto

declare split_segments.simps [simp del]

definition parse_segments :: "bytes \<Rightarrow> bytes list" where
  "parse_segments path =
    (let sv1 = (if path \<noteq> [] \<and> hd path = SLASH then tl path else path);
         sv2 = (if sv1 \<noteq> [] \<and> last sv1 = SLASH then butlast sv1 else sv1)
     in split_segments sv2)"

definition state_path_default :: state_path where
  "state_path_default = \<lparr>sp_path = [], sp_hash = 0, sp_segments = []\<rparr>"

definition state_path_new :: "(bytes \<Rightarrow> u32) \<Rightarrow> bytes \<Rightarrow> state_path" where
  "state_path_new xxh path = \<lparr>sp_path = path, sp_hash = xxhash32 xxh path, sp_segments = parse_segments path\<rparr>"

definition state_path_empty :: "state_path \<Rightarrow> bool" where
  "state_path_empty p \<longleftrightarrow> sp_path p = []"

definition state_path_eq :: "state_path \<Rightarrow> state_path \<Rightarrow> bool" where
  "state_path_eq p q \<longleftrightarrow> sp_hash p = sp_hash q \<and> sp_path p = sp_path q"

fun match_loop :: "bytes list \<Rightarrow> bytes list \<Rightarrow> bool" where
  "match_loop [] segs = True"
| "match_loop (p # ps) segs =
    (if p = [STAR] then match_loop ps (tl segs)
     else if p \<noteq> hd segs then False
     else match_loop ps (tl segs))"

definition path_matches :: "state_path \<Rightarrow> state_path \<Rightarrow> bool" where
  "path_matches p pattern =
    (if length (sp_segments pattern) \<noteq> length (sp_segments p) then False
     else match_loop (sp_segments pattern) (sp_segments p))"

fun prefix_loop :: "bytes list \<Rightarrow> bytes list \<Rightarrow> bool" where
  "prefix_loop [] other = True"
| "prefix_loop (s # segs) other = (if s \<noteq> hd other then False else prefix_loop segs (tl other))"

definition is_prefix_of :: "state_path \<Rightarrow> state_path \<Rightarrow> bool" where
  "is_prefix_of p other =
    (if length (sp_segments p) > length (sp_segments other) then False
     else prefix_loop (sp_segments p) (sp_segments other))"

text \<open>Joining segments back: \<open>/a/b/c\<close>.\<close>

definition join_path :: "bytes list \<Rightarrow> bytes" where
  "join_path segs = concat (map (\<lambda>s. SLASH # s) segs)"

definition segment_ok :: "bytes \<Rightarrow> bool" where
  "segment_ok s \<longleftrightarrow> s \<noteq> [] \<and> SLASH \<notin> set s"

lemma takeWhile_no_slash: "SLASH \<notin> set s \<Longrightarrow> takeWhile (\<lambda>c. c \<noteq> SLASH) (s @ SLASH # r) = s"
  by (induction s) auto

lemma split_last: "segment_ok s \<Longrightarrow> split_segments s = [s]"
proof -
  assume "segment_ok s"
  then have "takeWhile (\<lambda>c. c \<noteq> SLASH) s = s" and ne: "s \<noteq> []"
    by (auto simp: segment_ok_def)
  then have "length (takeWhile (\<lambda>c. c \<noteq> SLASH) s) = length s" by (simp only:)
  with ne show ?thesis by (subst split_segments.simps) (simp add: Let_def)
qed

lemma split_cons: "SLASH \<notin> set s \<Longrightarrow> split_segments (s @ SLASH # r) = s # split_segments r"
  by (subst split_segments.simps) (simp add: Let_def takeWhile_no_slash)

lemma split_join: "segs \<noteq> [] \<Longrightarrow> list_all segment_ok segs \<Longrightarrow> split_segments (tl (join_path segs)) = segs"
proof (induction segs)
  case (Cons s segs)
  show ?case
  proof (cases segs)
    case Nil
    with Cons show ?thesis by (simp add: join_path_def split_last)
  next
    case (Cons t ts)
    then have "tl (join_path (s # segs)) = s @ SLASH # tl (join_path segs)" by (simp add: join_path_def)
    with Cons.prems Cons.IH Cons show ?thesis by (simp add: split_cons segment_ok_def)
  qed
qed simp

lemma last_join: "segs \<noteq> [] \<Longrightarrow> list_all segment_ok segs \<Longrightarrow> join_path segs \<noteq> [] \<and> last (join_path segs) \<noteq> SLASH \<and>
  tl (join_path segs) \<noteq> [] \<and> last (tl (join_path segs)) \<noteq> SLASH"
proof (induction segs)
  case (Cons s segs)
  have s: "s \<noteq> []" "SLASH \<notin> set s" using Cons.prems by (auto simp: segment_ok_def)
  then have l: "last s \<noteq> SLASH" by (metis last_in_set)
  show ?case
  proof (cases segs)
    case Nil
    with s l show ?thesis by (simp add: join_path_def)
  next
    case (Cons t ts)
    with Cons.prems Cons.IH s l show ?thesis by (simp add: join_path_def)
  qed
qed simp

lemma match_loop_iff:
  "length ps = length segs \<Longrightarrow> match_loop ps segs \<longleftrightarrow> list_all2 (\<lambda>p s. p = [STAR] \<or> p = s) ps segs"
proof (induction ps arbitrary: segs)
  case (Cons p ps)
  then show ?case by (cases segs) auto
qed simp

lemma prefix_loop_iff: "length segs \<le> length other \<Longrightarrow> prefix_loop segs other \<longleftrightarrow> take (length segs) other = segs"
proof (induction segs arbitrary: other)
  case (Cons s segs)
  then show ?case by (cases other) auto
qed simp

text \<open>
  Paths are their segments. A path written with or without its leading slash, and with or without one
  trailing slash, has exactly the segments it was written from; hence equal spelling up to those slashes
  gives paths that match and prefix the same paths.
\<close>

theorem segments_of_joined_path:
  assumes "segs \<noteq> []" and "list_all segment_ok segs"
  shows "parse_segments (join_path segs) = segs \<and> parse_segments (tl (join_path segs)) = segs \<and>
    parse_segments (join_path segs @ [SLASH]) = segs \<and> parse_segments (tl (join_path segs) @ [SLASH]) = segs"
proof -
  obtain r where r: "join_path segs = SLASH # r"
    using assms(1) by (cases segs) (simp_all add: join_path_def)
  have l: "r \<noteq> []" "last r \<noteq> SLASH" using last_join [OF assms] by (simp_all add: r)
  have "hd r \<noteq> SLASH"
    using assms r by (cases segs; cases "hd segs") (auto simp: join_path_def segment_ok_def)
  then show ?thesis
    using l split_join [OF assms] by (simp add: parse_segments_def Let_def r)
qed

theorem segments_of_joined_path_witness:
  "let segs = [[97, 112, 112], [117]]
   in join_path segs = [47, 97, 112, 112, 47, 117] \<and> parse_segments (join_path segs) = segs \<and>
      parse_segments (tl (join_path segs)) = segs \<and> parse_segments (join_path segs @ [SLASH]) = segs"
  using segments_of_joined_path [of "[[97, 112, 112], [117]]"]
  by (simp add: segment_ok_def SLASH_def join_path_def)

text \<open>
  Matching. A path matches a pattern exactly when both have the same number of segments and every segment of the
  pattern is a star or equal; in particular a pattern never matches a deeper path. A path is a prefix of another
  exactly when its segments are the first segments of the other, and two paths that are prefixes of each other
  have the same segments.
\<close>

theorem path_match_spec:
  "(path_matches p pattern \<longleftrightarrow> list_all2 (\<lambda>g s. g = [STAR] \<or> g = s) (sp_segments pattern) (sp_segments p)) \<and>
   (is_prefix_of p q \<longleftrightarrow> (\<exists>rest. sp_segments q = sp_segments p @ rest)) \<and>
   (is_prefix_of p q \<and> is_prefix_of q p \<longleftrightarrow> sp_segments p = sp_segments q)"
proof -
  have pre: "is_prefix_of a b \<longleftrightarrow> (\<exists>rest. sp_segments b = sp_segments a @ rest)" for a b
    by (auto simp: is_prefix_of_def prefix_loop_iff) (metis append_take_drop_id)
  have "path_matches p pattern \<longleftrightarrow> list_all2 (\<lambda>g s. g = [STAR] \<or> g = s) (sp_segments pattern) (sp_segments p)"
  proof (cases "length (sp_segments pattern) = length (sp_segments p)")
    case True
    then show ?thesis by (simp add: path_matches_def match_loop_iff)
  next
    case False
    then have "\<not> list_all2 (\<lambda>g s. g = [STAR] \<or> g = s) (sp_segments pattern) (sp_segments p)"
      using list_all2_lengthD by blast
    with False show ?thesis by (simp add: path_matches_def)
  qed
  moreover have "is_prefix_of p q \<and> is_prefix_of q p \<longleftrightarrow> sp_segments p = sp_segments q"
    unfolding pre by (metis append.assoc append_is_Nil_conv append_self_conv)
  ultimately show ?thesis using pre by blast
qed

end
