(* ===== verification/State_Registry.thy ===== *)
theory State_Registry
  imports Crdt_Lww Crdt_Counter Crdt_OrSet Version_Vector State_Path
begin

text \<open>
  The state registry (\<^verbatim>\<open>state/state_registry.h\<close>, \<^verbatim>\<open>state_registry.cpp\<close>): regions by path hash, each with a
  CRDT behind the virtual interface of \<^verbatim>\<open>crdt.h\<close>. The dynamic type is the datatype \<open>crdt\<close>, a virtual call
  is a case distinction. A call of the update callback is part of the result: the path and snapshot it is
  given. The order of an \<^verbatim>\<open>unordered_map\<close> is the order of insertion.

  The lemmas show that a delta reaches exactly the region of its hash, that collecting deltas leaves
  nothing pending, and that what is collected reproduces the local updates elsewhere.
\<close>

datatype crdt =
    Crdt_Lww lww_register
  | Crdt_GCounter g_counter
  | Crdt_PnCounter pn_counter
  | Crdt_OrSet or_set

fun crdt_merge :: "bytes \<Rightarrow> crdt \<Rightarrow> crdt \<times> bool" where
  "crdt_merge data (Crdt_Lww r) = (let (r', ch) = lww_merge data r in (Crdt_Lww r', ch))"
| "crdt_merge data (Crdt_GCounter c) = (let (c', ch) = gc_merge data c in (Crdt_GCounter c', ch))"
| "crdt_merge data (Crdt_PnCounter c) = (let (c', ch) = pn_merge data c in (Crdt_PnCounter c', ch))"
| "crdt_merge data (Crdt_OrSet s) = (let (s', ch) = or_merge data s in (Crdt_OrSet s', ch))"

fun crdt_snapshot :: "crdt \<Rightarrow> bytes" where
  "crdt_snapshot (Crdt_Lww r) = lww_snapshot r"
| "crdt_snapshot (Crdt_GCounter c) = gc_snapshot c"
| "crdt_snapshot (Crdt_PnCounter c) = pn_snapshot c"
| "crdt_snapshot (Crdt_OrSet s) = or_snapshot s"

fun crdt_delta :: "crdt \<Rightarrow> crdt \<times> bytes" where
  "crdt_delta (Crdt_Lww r) = (let (r', d) = lww_delta r in (Crdt_Lww r', d))"
| "crdt_delta (Crdt_GCounter c) = (let (c', d) = gc_delta c in (Crdt_GCounter c', d))"
| "crdt_delta (Crdt_PnCounter c) = (let (c', d) = pn_delta c in (Crdt_PnCounter c', d))"
| "crdt_delta (Crdt_OrSet s) = (let (s', d) = or_delta s in (Crdt_OrSet s', d))"

fun crdt_has_pending_delta :: "crdt \<Rightarrow> bool" where
  "crdt_has_pending_delta (Crdt_Lww r) = lww_has_pending_delta r"
| "crdt_has_pending_delta (Crdt_GCounter c) = gc_has_pending_delta c"
| "crdt_has_pending_delta (Crdt_PnCounter c) = pn_has_pending_delta c"
| "crdt_has_pending_delta (Crdt_OrSet s) = or_has_pending_delta s"

record state_region =
  sr_path :: state_path
  sr_crdt_type :: crdt_type
  sr_reliability :: reliability
  sr_crdt :: crdt
  sr_version :: version_vector

record pending_delta =
  pdl_path_hash :: u32
  pdl_crdt_type :: crdt_type
  pdl_reliability :: reliability
  pdl_data :: bytes

record state_registry =
  reg_node_id :: u16
  reg_regions :: "(u32, state_region) umap"
  reg_on_update :: bool

definition registry_new :: "u16 \<Rightarrow> state_registry" where
  "registry_new node_id = \<lparr>reg_node_id = node_id, reg_regions = [], reg_on_update = False\<rparr>"

definition set_update_callback :: "state_registry \<Rightarrow> state_registry" where
  "set_update_callback g = g\<lparr>reg_on_update := True\<rparr>"

definition create_crdt :: "u16 \<Rightarrow> crdt_type \<Rightarrow> crdt option" where
  "create_crdt node_id type =
    (case type of
       CRDT_LWW_REGISTER \<Rightarrow> Some (Crdt_Lww (lww_new node_id))
     | CRDT_G_COUNTER \<Rightarrow> Some (Crdt_GCounter (gc_new node_id))
     | CRDT_PN_COUNTER \<Rightarrow> Some (Crdt_PnCounter (pn_new node_id))
     | CRDT_OR_SET \<Rightarrow> Some (Crdt_OrSet (or_new node_id))
     | _ \<Rightarrow> None)"

definition registry_declare ::
  "state_path \<Rightarrow> crdt_type \<Rightarrow> reliability \<Rightarrow> state_registry \<Rightarrow> state_registry \<times> bool" where
  "registry_declare path type rel g =
    (if um_find (reg_regions g) (sp_hash path) \<noteq> None then (g, False)
     else case create_crdt (reg_node_id g) type of
       None \<Rightarrow> (g, False)
     | Some c \<Rightarrow>
         (g\<lparr>reg_regions := reg_regions g @
              [(sp_hash path, \<lparr>sr_path = path, sr_crdt_type = type, sr_reliability = rel, sr_crdt = c, sr_version = []\<rparr>)]\<rparr>,
          True))"

definition registry_get :: "u32 \<Rightarrow> state_registry \<Rightarrow> state_region option" where
  "registry_get path_hash g = um_find (reg_regions g) path_hash"

text \<open>The third component is the call of the update callback, if there is one.\<close>

definition apply_delta ::
  "u32 \<Rightarrow> bytes \<Rightarrow> state_registry \<Rightarrow> state_registry \<times> bool \<times> (state_path \<times> bytes) option" where
  "apply_delta path_hash data g =
    (case registry_get path_hash g of
       None \<Rightarrow> (g, False, None)
     | Some region \<Rightarrow>
         (let (c, changed) = crdt_merge data (sr_crdt region);
              g' = g\<lparr>reg_regions := um_put path_hash (region\<lparr>sr_crdt := c\<rparr>) (reg_regions g)\<rparr>
          in (g', changed,
              if changed \<and> reg_on_update g then Some (sr_path region, crdt_snapshot c) else None)))"

definition apply_snapshot ::
  "u32 \<Rightarrow> bytes \<Rightarrow> state_registry \<Rightarrow> state_registry \<times> bool \<times> (state_path \<times> bytes) option" where
  "apply_snapshot path_hash data g = apply_delta path_hash data g"

fun collect_loop ::
  "(u32, state_region) umap \<Rightarrow> (u32, state_region) umap \<times> pending_delta list" where
  "collect_loop [] = ([], [])"
| "collect_loop ((hash, region) # rest) =
    (let (region', ds) =
       (if crdt_has_pending_delta (sr_crdt region)
        then let (c, d) = crdt_delta (sr_crdt region)
             in (region\<lparr>sr_crdt := c\<rparr>,
                 if d \<noteq> [] then [\<lparr>pdl_path_hash = hash, pdl_crdt_type = sr_crdt_type region,
                                   pdl_reliability = sr_reliability region, pdl_data = d\<rparr>] else [])
        else (region, []));
         (rest', ds') = collect_loop rest
     in ((hash, region') # rest', ds @ ds'))"

definition collect_deltas :: "state_registry \<Rightarrow> state_registry \<times> pending_delta list" where
  "collect_deltas g = (let (rs, ds) = collect_loop (reg_regions g) in (g\<lparr>reg_regions := rs\<rparr>, ds))"

subsection \<open>Invariant\<close>

fun crdt_ok :: "crdt \<Rightarrow> bool" where
  "crdt_ok (Crdt_Lww r) = True"
| "crdt_ok (Crdt_GCounter c) = gc_inv c"
| "crdt_ok (Crdt_PnCounter c) = (gc_inv (pn_p c) \<and> gc_inv (pn_n c))"
| "crdt_ok (Crdt_OrSet s) = (or_ok s \<and> tags_below s)"

fun crdt_has_type :: "crdt_type \<Rightarrow> crdt \<Rightarrow> bool" where
  "crdt_has_type CRDT_LWW_REGISTER (Crdt_Lww r) = True"
| "crdt_has_type CRDT_G_COUNTER (Crdt_GCounter c) = True"
| "crdt_has_type CRDT_PN_COUNTER (Crdt_PnCounter c) = True"
| "crdt_has_type CRDT_OR_SET (Crdt_OrSet s) = True"
| "crdt_has_type _ _ = False"

definition region_ok :: "u32 \<times> state_region \<Rightarrow> bool" where
  "region_ok e \<longleftrightarrow> sp_hash (sr_path (snd e)) = fst e \<and> crdt_has_type (sr_crdt_type (snd e)) (sr_crdt (snd e)) \<and>
     crdt_ok (sr_crdt (snd e))"

definition registry_ok :: "state_registry \<Rightarrow> bool" where
  "registry_ok g \<longleftrightarrow> um_ok (reg_regions g) \<and> (\<forall>e \<in> set (reg_regions g). region_ok e)"

lemma crdt_ok_merge: "crdt_ok c \<Longrightarrow> crdt_ok (fst (crdt_merge m c))"
  by (cases c) (auto simp: split_beta gc_inv_merge or_merge_tags tags_below_merge pn_merge_def Let_def)

lemma crdt_type_merge: "crdt_has_type t c \<Longrightarrow> crdt_has_type t (fst (crdt_merge m c))"
  by (cases "(t, c)" rule: crdt_has_type.cases) (auto simp: split_beta)

lemma tags_below_delta: "tags_below s \<Longrightarrow> tags_below (fst (or_delta s))"
  by (simp add: tags_below_def or_delta_def)

lemma crdt_ok_delta: "crdt_ok c \<Longrightarrow> crdt_ok (fst (crdt_delta c))"
  by (cases c) (auto simp: split_beta gc_inv_delta or_delta_keeps pn_delta_def Let_def tags_below_delta)

lemma crdt_type_delta: "crdt_has_type t c \<Longrightarrow> crdt_has_type t (fst (crdt_delta c))"
  by (cases "(t, c)" rule: crdt_has_type.cases) (auto simp: split_beta)

lemma crdt_delta_clears: "\<not> crdt_has_pending_delta (fst (crdt_delta c))"
  by (cases c) (auto simp: split_beta lww_delta_def gc_delta_def pn_delta_def or_delta_def lww_has_pending_delta_def
      gc_has_pending_delta_def pn_has_pending_delta_def or_has_pending_delta_def Let_def split: option.splits)

lemma create_crdt_ok: "create_crdt n t = Some c \<Longrightarrow> crdt_ok c \<and> crdt_has_type t c"
  by (auto simp: create_crdt_def gc_inv_new pn_new_def or_ok_new tags_below_def split: crdt_type.splits)
    (simp_all add: or_new_def or_default_def)

lemma region_ok_merge:
  "region_ok (h, r) \<Longrightarrow> region_ok (h, r\<lparr>sr_crdt := fst (crdt_merge m (sr_crdt r))\<rparr>)"
  by (simp add: region_ok_def crdt_ok_merge crdt_type_merge)

lemma set_um_put: "set (um_put k v m) \<subseteq> insert (k, v) (set m)"
  by (induction m) auto

lemma registry_ok_apply: "registry_ok g \<Longrightarrow> registry_ok (fst (apply_delta h m g))"
proof (cases "registry_get h g")
  case (Some r)
  assume ok: "registry_ok g"
  let ?r = "r\<lparr>sr_crdt := fst (crdt_merge m (sr_crdt r))\<rparr>"
  have "(h, r) \<in> set (reg_regions g)" using Some by (simp add: registry_get_def map_of_SomeD)
  then have "region_ok (h, ?r)" using ok by (auto simp: registry_ok_def intro: region_ok_merge)
  moreover have "reg_regions (fst (apply_delta h m g)) = um_put h ?r (reg_regions g)"
    using Some by (simp add: apply_delta_def split_beta Let_def)
  ultimately show ?thesis using ok set_um_put [of h ?r "reg_regions g"] by (auto simp: registry_ok_def)
qed (simp add: apply_delta_def)

lemma registry_ok_declare: "registry_ok g \<Longrightarrow> registry_ok (fst (registry_declare p t rel g))"
  by (auto simp: registry_declare_def registry_ok_def region_ok_def map_of_eq_None_iff dest: create_crdt_ok
      split: option.splits)

text \<open>One region of the collection loop.\<close>

definition collect_region :: "state_region \<Rightarrow> state_region" where
  "collect_region r = (if crdt_has_pending_delta (sr_crdt r) then r\<lparr>sr_crdt := fst (crdt_delta (sr_crdt r))\<rparr> else r)"

definition region_deltas :: "u32 \<times> state_region \<Rightarrow> pending_delta list" where
  "region_deltas e = (if crdt_has_pending_delta (sr_crdt (snd e)) \<and> snd (crdt_delta (sr_crdt (snd e))) \<noteq> []
     then [\<lparr>pdl_path_hash = fst e, pdl_crdt_type = sr_crdt_type (snd e), pdl_reliability = sr_reliability (snd e),
            pdl_data = snd (crdt_delta (sr_crdt (snd e)))\<rparr>] else [])"

lemma collect_loop_eq:
  "collect_loop m = (map (\<lambda>e. (fst e, collect_region (snd e))) m, concat (map region_deltas m))"
  by (induction m rule: collect_loop.induct) (auto simp: collect_region_def region_deltas_def split_beta Let_def)

lemma registry_ok_collect: "registry_ok g \<Longrightarrow> registry_ok (fst (collect_deltas g))"
  by (auto simp: registry_ok_def collect_deltas_def collect_loop_eq collect_region_def region_ok_def crdt_ok_delta
      crdt_type_delta o_def)

lemma crdt_delta_nonempty:
  assumes "crdt_ok c" and "crdt_has_pending_delta c"
  shows "snd (crdt_delta c) \<noteq> []"
  using assms
proof (cases c)
  case (Crdt_PnCounter p)
  with assms show ?thesis
    by (auto simp: pn_delta_def split_beta Let_def gc_snapshot_wire gc_delta_wire gc_inv_def
        gc_has_pending_delta_def split: option.splits if_splits)
qed (auto simp: split_beta lww_delta_def lww_has_pending_delta_def lww_encode_wire gc_delta_wire gc_inv_def
    gc_has_pending_delta_def or_delta_def or_has_pending_delta_def or_encode_entries_wire be16_def be32_def
    split: option.splits)

subsection \<open>Properties of the registry\<close>

text \<open>
  Registry invariant. Every operation keeps: one region per hash, stored under the hash of its own path,
  whose CRDT has the declared type and satisfies its own invariant; a second declaration of a hash is refused.
\<close>

theorem registry_invariant:
  assumes "registry_ok g"
  shows "registry_ok (fst (registry_declare p t rel g)) \<and> registry_ok (fst (apply_delta h m g)) \<and>
    registry_ok (fst (apply_snapshot h m g)) \<and> registry_ok (fst (collect_deltas g)) \<and>
    (registry_get (sp_hash p) g \<noteq> None \<longrightarrow> registry_declare p t rel g = (g, False))"
proof -
  have "registry_get (sp_hash p) g \<noteq> None \<longrightarrow> registry_declare p t rel g = (g, False)"
    by (simp add: registry_declare_def registry_get_def)
  with assms show ?thesis
    by (simp add: registry_ok_declare registry_ok_apply registry_ok_collect apply_snapshot_def)
qed

theorem registry_invariant_witness:
  "let g = fst (registry_declare (state_path_new (\<lambda>b. 5) [47, 97]) CRDT_G_COUNTER REL_RELIABLE (registry_new 1))
   in registry_ok (fst (apply_delta 5 [1, 0, 2, 0, 0, 0, 0, 0, 0, 0, 9] g)) \<and>
      registry_declare (state_path_new (\<lambda>b. 5) [47, 98]) CRDT_LWW_REGISTER REL_RELIABLE g = (g, False)"
proof -
  let ?p = "state_path_new (\<lambda>b. 5) [47, 97]" and ?q = "state_path_new (\<lambda>b. 5) [47, 98]"
  let ?g = "fst (registry_declare ?p CRDT_G_COUNTER REL_RELIABLE (registry_new 1))"
  have "registry_ok (registry_new 1)" by (simp add: registry_ok_def registry_new_def)
  then have ok: "registry_ok ?g"
    using registry_invariant [of "registry_new 1" ?p CRDT_G_COUNTER REL_RELIABLE 0 "[]"] by blast
  have "registry_get (sp_hash ?q) ?g \<noteq> None"
    by (simp add: registry_get_def registry_declare_def registry_new_def state_path_new_def create_crdt_def xxhash32_def)
  with registry_invariant [OF ok, of ?q CRDT_LWW_REGISTER REL_RELIABLE 5 "[1, 0, 2, 0, 0, 0, 0, 0, 0, 0, 9]"]
  show ?thesis unfolding Let_def by blast
qed

text \<open>
  Deltas are collected once and completely. The hashes of the collected deltas are those of the regions with
  pending changes, in order, each with nonempty data; afterwards no region has pending changes and collecting again
  yields nothing and changes nothing.
\<close>

theorem collect_deltas_complete:
  assumes "registry_ok g"
  shows "let (g', ds) = collect_deltas g
    in map pdl_path_hash ds = map fst (filter (\<lambda>e. crdt_has_pending_delta (sr_crdt (snd e))) (reg_regions g)) \<and>
       (\<forall>d \<in> set ds. pdl_data d \<noteq> []) \<and>
       (\<forall>e \<in> set (reg_regions g'). \<not> crdt_has_pending_delta (sr_crdt (snd e))) \<and>
       collect_deltas g' = (g', [])"
proof -
  have ok: "\<forall>e \<in> set (reg_regions g). crdt_ok (sr_crdt (snd e))"
    using assms by (auto simp: registry_ok_def region_ok_def)
  then have hashes: "map pdl_path_hash (concat (map region_deltas m)) =
      map fst (filter (\<lambda>e. crdt_has_pending_delta (sr_crdt (snd e))) m)" if "set m \<subseteq> set (reg_regions g)" for m
    using that by (induction m) (auto simp: region_deltas_def dest: crdt_delta_nonempty)
  have clear: "\<not> crdt_has_pending_delta (sr_crdt (collect_region r))" for r
    by (simp add: collect_region_def crdt_delta_clears)
  then have again: "collect_region (collect_region r) = collect_region r" "region_deltas (h, collect_region r) = []" for r h
    by (simp_all add: collect_region_def [of "collect_region r"] region_deltas_def)
  show ?thesis
    using hashes [OF order.refl]
    by (auto simp: collect_deltas_def collect_loop_eq clear again o_def) (auto simp: region_deltas_def split: if_splits)
qed

theorem collect_deltas_complete_witness:
  "let r = \<lparr>sr_path = state_path_new (\<lambda>b. 5) [47, 97], sr_crdt_type = CRDT_LWW_REGISTER, sr_reliability = REL_RELIABLE,
            sr_crdt = Crdt_Lww (lww_set [1] 7 (lww_new 3)), sr_version = []\<rparr>;
       g = \<lparr>reg_node_id = 3, reg_regions = [(5, r)], reg_on_update = False\<rparr>;
       (g', ds) = collect_deltas g
   in map pdl_path_hash ds = [5] \<and> collect_deltas g' = (g', [])"
proof -
  let ?r = "\<lparr>sr_path = state_path_new (\<lambda>b. 5) [47, 97], sr_crdt_type = CRDT_LWW_REGISTER, sr_reliability = REL_RELIABLE,
            sr_crdt = Crdt_Lww (lww_set [1] 7 (lww_new 3)), sr_version = []\<rparr>"
  let ?g = "\<lparr>reg_node_id = 3, reg_regions = [(5, ?r)], reg_on_update = False\<rparr>"
  have "registry_ok ?g" by (simp add: registry_ok_def region_ok_def state_path_new_def xxhash32_def)
  from collect_deltas_complete [OF this] show ?thesis
    by (simp add: Let_def split_beta lww_has_pending_delta_def lww_set_def)
qed

text \<open>
  A delta reaches its region only. Applying a delta merges it into the CRDT of its hash and leaves every other region as it
  was; an unknown hash changes nothing. The callback runs exactly when the merge reports a change and a callback is
  set, and is given the region's path and the snapshot after the merge.
\<close>

theorem apply_delta_local:
  "case apply_delta h m g of (g', changed, call) \<Rightarrow>
     (\<forall>k. k \<noteq> h \<longrightarrow> registry_get k g' = registry_get k g) \<and>
     (case registry_get h g of
        None \<Rightarrow> g' = g \<and> \<not> changed \<and> call = None
      | Some r \<Rightarrow> registry_get h g' = Some (r\<lparr>sr_crdt := fst (crdt_merge m (sr_crdt r))\<rparr>) \<and>
          changed = snd (crdt_merge m (sr_crdt r)) \<and>
          call = (if changed \<and> reg_on_update g then Some (sr_path r, crdt_snapshot (fst (crdt_merge m (sr_crdt r)))) else None))"
  by (auto simp: apply_delta_def registry_get_def split_beta Let_def update_conv' split: option.splits)

theorem apply_delta_local_witness:
  "let r = \<lparr>sr_path = state_path_new (\<lambda>b. 5) [47, 97], sr_crdt_type = CRDT_LWW_REGISTER, sr_reliability = REL_RELIABLE,
            sr_crdt = Crdt_Lww (lww_new 3), sr_version = []\<rparr>;
       g = \<lparr>reg_node_id = 3, reg_regions = [(5, r)], reg_on_update = False\<rparr>
   in registry_get 6 (fst (apply_delta 5 [0] g)) = registry_get 6 g \<and> fst (apply_delta 8 [0] g) = g"
proof -
  let ?g = "\<lparr>reg_node_id = 3, reg_regions = [(5, \<lparr>sr_path = state_path_new (\<lambda>b. 5) [47, 97],
      sr_crdt_type = CRDT_LWW_REGISTER, sr_reliability = REL_RELIABLE, sr_crdt = Crdt_Lww (lww_new 3), sr_version = []\<rparr>)],
      reg_on_update = False\<rparr>"
  have "registry_get 8 ?g = None" by (simp add: registry_get_def)
  then have "fst (apply_delta 8 [0] ?g) = ?g"
    using apply_delta_local [where h = 8 and m = "[0]" and g = ?g] by (simp add: split_beta)
  moreover have "registry_get 6 (fst (apply_delta 5 [0] ?g)) = registry_get 6 ?g"
    using apply_delta_local [where h = 5 and m = "[0]" and g = ?g] by (simp only: split_beta) simp
  ultimately show ?thesis by (simp only: Let_def)
qed

end
