(* ===== verification/Resolution.thy ===== *)
theory Resolution
  imports Frame_Types
begin

text \<open>
  Resolution tiers (\<^verbatim>\<open>state/resolution.h\<close>, \<^verbatim>\<open>resolution.cpp\<close>): which deltas a subscriber of a tier is sent.
  A reading of the steady clock is an argument, in nanoseconds. The lemmas show what every tier decides,
  that the change threshold is compared with the number of differing bytes, and how many deltas of a path
  the rate limit lets through.
\<close>

record resolution_config =
  rc_normal_max_updates_per_sec :: u32
  rc_coarse_min_change_bytes :: nat

definition resolution_config_default :: resolution_config where
  "resolution_config_default = \<lparr>rc_normal_max_updates_per_sec = 10, rc_coarse_min_change_bytes = 4\<rparr>"

record path_rate_state =
  prs_last_sent :: nat
  prs_sent_this_interval :: u32

record delta_filter =
  dfl_tier :: resolution_tier
  dfl_config :: resolution_config
  dfl_rate_states :: "(u32, path_rate_state) umap"
  dfl_coarse_states :: "(u32, bytes) umap"
  dfl_metadata_states :: "(u32, bool) umap"
  dfl_deltas_forwarded :: u64
  dfl_deltas_filtered :: u64

definition delta_filter_new :: "resolution_tier \<Rightarrow> resolution_config \<Rightarrow> delta_filter" where
  "delta_filter_new tier config = \<lparr>dfl_tier = tier, dfl_config = config, dfl_rate_states = [], dfl_coarse_states = [],
     dfl_metadata_states = [], dfl_deltas_forwarded = 0, dfl_deltas_filtered = 0\<rparr>"

definition set_tier :: "resolution_tier \<Rightarrow> delta_filter \<Rightarrow> delta_filter" where
  "set_tier tier f = f\<lparr>dfl_tier := tier\<rparr>"

definition set_config :: "resolution_config \<Rightarrow> delta_filter \<Rightarrow> delta_filter" where
  "set_config config f = f\<lparr>dfl_config := config\<rparr>"

text \<open>The state of one path under the rate limit: the body of \<^verbatim>\<open>check_rate_limit\<close> behind the lookup.\<close>

definition rate_step :: "u32 \<Rightarrow> nat \<Rightarrow> path_rate_state \<Rightarrow> path_rate_state \<times> bool" where
  "rate_step limit now state =
    (if prs_sent_this_interval state = 0 then (\<lparr>prs_last_sent = now, prs_sent_this_interval = 1\<rparr>, True)
     else
       let elapsed = (now - prs_last_sent state) div 1000000 in
       if elapsed \<ge> 1000 then (\<lparr>prs_last_sent = now, prs_sent_this_interval = 1\<rparr>, True)
       else if prs_sent_this_interval state < limit
       then (state\<lparr>prs_sent_this_interval := prs_sent_this_interval state + 1\<rparr>, True)
       else (state, False))"

definition check_rate_limit :: "nat \<Rightarrow> u32 \<Rightarrow> delta_filter \<Rightarrow> delta_filter \<times> bool" where
  "check_rate_limit now path_hash f =
    (let state = (case um_find (dfl_rate_states f) path_hash of
                    Some s \<Rightarrow> s | None \<Rightarrow> \<lparr>prs_last_sent = 0, prs_sent_this_interval = 0\<rparr>);
         (state', ok) = rate_step (rc_normal_max_updates_per_sec (dfl_config f)) now state
     in (f\<lparr>dfl_rate_states := um_put path_hash state' (dfl_rate_states f)\<rparr>, ok))"

fun count_diff :: "nat \<Rightarrow> nat \<Rightarrow> bytes \<Rightarrow> bytes \<Rightarrow> nat \<Rightarrow> nat" where
  "count_diff 0 i data prev diff = diff"
| "count_diff (Suc n) i data prev diff =
     count_diff n (i + 1) data prev (if i < length prev \<and> data ! i \<noteq> prev ! i then diff + 1 else diff)"

definition diff_bytes :: "bytes \<Rightarrow> bytes \<Rightarrow> nat" where
  "diff_bytes data prev =
    (let max_len = max (length prev) (length data);
         min_len = min (length prev) (length data)
     in count_diff min_len 0 data prev (max_len - min_len))"

definition check_change_threshold :: "u32 \<Rightarrow> bytes \<Rightarrow> delta_filter \<Rightarrow> delta_filter \<times> bool" where
  "check_change_threshold path_hash data f =
    (let prev = (case um_find (dfl_coarse_states f) path_hash of Some d \<Rightarrow> d | None \<Rightarrow> []);
         stored = (\<lambda>d. f\<lparr>dfl_coarse_states := um_put path_hash d (dfl_coarse_states f)\<rparr>)
     in if prev = [] then (stored data, True)
        else if diff_bytes data prev \<ge> rc_coarse_min_change_bytes (dfl_config f) then (stored data, True)
        else (stored prev, False))"

definition count_forwarded :: "delta_filter \<Rightarrow> delta_filter" where
  "count_forwarded f = f\<lparr>dfl_deltas_forwarded := dfl_deltas_forwarded f + 1\<rparr>"

definition count_filtered :: "delta_filter \<Rightarrow> delta_filter" where
  "count_filtered f = f\<lparr>dfl_deltas_filtered := dfl_deltas_filtered f + 1\<rparr>"

definition should_forward :: "nat \<Rightarrow> u32 \<Rightarrow> bytes \<Rightarrow> delta_filter \<Rightarrow> delta_filter \<times> bool" where
  "should_forward now path_hash delta_data f =
    (case dfl_tier f of
       TIER_FULL \<Rightarrow> (count_forwarded f, True)
     | TIER_NORMAL \<Rightarrow>
         (let (f', ok) = check_rate_limit now path_hash f
          in if ok then (count_forwarded f', True) else (count_filtered f', False))
     | TIER_COARSE \<Rightarrow>
         (let (f', ok) = check_change_threshold path_hash delta_data f
          in if ok then (count_forwarded f', True) else (count_filtered f', False))
     | TIER_METADATA \<Rightarrow>
         (count_filtered (f\<lparr>dfl_metadata_states := um_put path_hash True (dfl_metadata_states f)\<rparr>), False)
     | TIER_other b \<Rightarrow> (f, False))"

definition should_send_version_info :: "u32 \<Rightarrow> delta_filter \<Rightarrow> delta_filter \<times> bool" where
  "should_send_version_info path_hash f =
    (if dfl_tier f \<noteq> TIER_METADATA then (f, False)
     else case um_find (dfl_metadata_states f) path_hash of
       None \<Rightarrow> (f, False)
     | Some pending \<Rightarrow>
         if pending then (f\<lparr>dfl_metadata_states := um_put path_hash False (dfl_metadata_states f)\<rparr>, True)
         else (f, False))"

definition delta_filter_reset :: "delta_filter \<Rightarrow> delta_filter" where
  "delta_filter_reset f = f\<lparr>dfl_rate_states := [], dfl_coarse_states := [], dfl_metadata_states := [],
     dfl_deltas_forwarded := 0, dfl_deltas_filtered := 0\<rparr>"

subsection \<open>The change threshold\<close>

lemma count_diff_acc: "count_diff n i data prev d = d + count_diff n i data prev 0"
proof (induction n arbitrary: i d)
  case (Suc n)
  show ?case using Suc [of "i + 1" "d + 1"] Suc [of "i + 1" d] Suc [of "i + 1" 1] by simp
qed simp

lemma count_diff_card:
  "i + n \<le> length prev \<Longrightarrow> count_diff n i data prev 0 = card {j. i \<le> j \<and> j < i + n \<and> data ! j \<noteq> prev ! j}"
proof (induction n arbitrary: i)
  case (Suc n)
  have "{j. i \<le> j \<and> j < i + Suc n \<and> data ! j \<noteq> prev ! j} =
      (if data ! i \<noteq> prev ! i then {i} else {}) \<union> {j. Suc i \<le> j \<and> j < Suc i + n \<and> data ! j \<noteq> prev ! j}"
    by (auto simp: le_less Suc_le_eq)
  moreover have "i \<notin> {j. Suc i \<le> j \<and> j < Suc i + n \<and> data ! j \<noteq> prev ! j}" by simp
  ultimately show ?case
    using Suc.IH [of "Suc i"] Suc.prems count_diff_acc [of n "Suc i" data prev 1] by simp
qed simp

lemma diff_bytes_card:
  "diff_bytes data prev = (max (length prev) (length data) - min (length prev) (length data)) +
     card {j. j < min (length prev) (length data) \<and> data ! j \<noteq> prev ! j}"
  using count_diff_card [of 0 "min (length prev) (length data)" prev data]
  by (simp add: diff_bytes_def Let_def count_diff_acc [of _ _ _ _ "_ - _"])

subsection \<open>The rate limit\<close>

text \<open>The number of deltas of a path let through, for a sequence of calls at given times for any paths.\<close>

fun forward_count :: "u32 \<Rightarrow> (nat \<times> u32 \<times> bytes) list \<Rightarrow> delta_filter \<Rightarrow> nat" where
  "forward_count h [] f = 0"
| "forward_count h ((now, path_hash, d) # calls) f =
    (let (f', ok) = should_forward now path_hash d f in (if ok \<and> path_hash = h then 1 else 0) + forward_count h calls f')"

fun rate_count :: "u32 \<Rightarrow> nat list \<Rightarrow> path_rate_state \<Rightarrow> nat" where
  "rate_count limit [] state = 0"
| "rate_count limit (now # ts) state =
    (let (state', ok) = rate_step limit now state in (if ok then 1 else 0) + rate_count limit ts state')"

definition rate_state_of :: "u32 \<Rightarrow> delta_filter \<Rightarrow> path_rate_state" where
  "rate_state_of h f = (case um_find (dfl_rate_states f) h of
     Some s \<Rightarrow> s | None \<Rightarrow> \<lparr>prs_last_sent = 0, prs_sent_this_interval = 0\<rparr>)"

definition times_of :: "u32 \<Rightarrow> (nat \<times> u32 \<times> bytes) list \<Rightarrow> nat list" where
  "times_of h calls = map fst (filter (\<lambda>(now, path_hash, d). path_hash = h) calls)"

lemma forward_count_rate:
  "dfl_tier f = TIER_NORMAL \<Longrightarrow>
   forward_count h calls f = rate_count (rc_normal_max_updates_per_sec (dfl_config f)) (times_of h calls) (rate_state_of h f)"
proof (induction calls arbitrary: f)
  case (Cons c calls)
  obtain now k d where c: "c = (now, k, d)" by (cases c)
  obtain st ok where st: "rate_step (rc_normal_max_updates_per_sec (dfl_config f)) now (rate_state_of k f) = (st, ok)"
    by fastforce
  obtain f' where f': "should_forward now k d f = (f', ok)" "dfl_tier f' = TIER_NORMAL" "dfl_config f' = dfl_config f"
    "rate_state_of h f' = (if k = h then st else rate_state_of h f)"
    using Cons.prems st
    by (cases ok) (simp_all add: should_forward_def check_rate_limit_def rate_state_of_def count_forwarded_def
        count_filtered_def Let_def split_beta update_conv')
  then show ?case using Cons.IH [of f'] st by (cases "k = h") (simp_all add: c times_of_def)
qed (simp add: times_of_def)

lemma unat_succ_below:
  assumes "(w :: u32) < v"
  shows "unat (w + 1) = Suc (unat w)"
proof -
  have "w \<noteq> - 1" using assms by (metis max_word_max not_less)
  then have "1 + w \<noteq> 0" by (metis add.commute eq_neg_iff_add_eq_0)
  then show ?thesis by (metis add.commute unatSuc)
qed

lemma rate_window:
  "prs_sent_this_interval s \<noteq> 0 \<Longrightarrow> \<forall>t \<in> set ts. t < prs_last_sent s + 1000000000 \<Longrightarrow>
   rate_count limit ts s \<le> unat limit - unat (prs_sent_this_interval s)"
proof (induction ts arbitrary: s)
  case (Cons t ts)
  have "t - prs_last_sent s < 1000 * 1000000" using Cons.prems(2) by auto
  then have el: "(t - prs_last_sent s) div 1000000 < 1000" by (rule less_mult_imp_div_less)
  show ?case
  proof (cases "prs_sent_this_interval s < limit")
    case True
    let ?s = "s\<lparr>prs_sent_this_interval := prs_sent_this_interval s + 1\<rparr>"
    have lt: "unat (prs_sent_this_interval s) < unat limit" using True by (simp add: word_less_nat_alt)
    note u = unat_succ_below [OF True]
    then have "prs_sent_this_interval s + 1 \<noteq> 0" by auto
    then have "rate_count limit ts ?s \<le> unat limit - unat (prs_sent_this_interval s + 1)"
      using Cons.IH [of ?s] Cons.prems by simp
    with True el lt u Cons.prems(1) show ?thesis by (simp add: rate_step_def Let_def)
  next
    case False
    with Cons el show ?thesis by (simp add: rate_step_def Let_def)
  qed
qed simp

lemma rate_span:
  "sorted ts \<Longrightarrow> \<forall>t \<in> set ts. t0 \<le> t \<and> t < t0 + 1000000000 \<Longrightarrow>
   rate_count limit ts s \<le> (unat limit - unat (prs_sent_this_interval s)) + max 1 (unat limit)"
proof (induction ts arbitrary: s)
  case (Cons t ts)
  let ?r = "\<lparr>prs_last_sent = t, prs_sent_this_interval = 1\<rparr>"
  have w: "rate_count limit ts ?r \<le> unat limit - 1"
    using rate_window [of ?r ts limit] Cons.prems by fastforce
  consider (reset) "rate_step limit t s = (?r, True)"
    | (send) "rate_step limit t s = (s\<lparr>prs_sent_this_interval := prs_sent_this_interval s + 1\<rparr>, True)"
        "prs_sent_this_interval s < limit" "prs_sent_this_interval s \<noteq> 0"
    | (stop) "rate_step limit t s = (s, False)"
    by (cases "prs_sent_this_interval s = 0"; cases "(t - prs_last_sent s) div 1000000 \<ge> 1000";
        cases "prs_sent_this_interval s < limit") (auto simp: rate_step_def Let_def)
  then show ?case
  proof cases
    case reset
    with w show ?thesis by (simp add: max_def) linarith
  next
    case send
    have lt: "unat (prs_sent_this_interval s) < unat limit" using send(2) by (simp add: word_less_nat_alt)
    with unat_succ_below [OF send(2)] send Cons.IH [of "s\<lparr>prs_sent_this_interval := prs_sent_this_interval s + 1\<rparr>"] Cons.prems
    show ?thesis by simp
  next
    case stop
    with Cons show ?thesis by simp
  qed
qed simp

text \<open>Intervals begin at least a second apart, so that many seconds hold no more than that many intervals.\<close>

lemma rate_step_cases:
  assumes "prs_sent_this_interval s \<noteq> 0"
  obtains (reset) "rate_step limit t s = (\<lparr>prs_last_sent = t, prs_sent_this_interval = 1\<rparr>, True)" "prs_last_sent s + 1000000000 \<le> t"
  | (send) "rate_step limit t s = (s\<lparr>prs_sent_this_interval := prs_sent_this_interval s + 1\<rparr>, True)" "prs_sent_this_interval s < limit"
  | (stop) "rate_step limit t s = (s, False)"
proof (cases "1000 \<le> (t - prs_last_sent s) div 1000000")
  case True
  then have "1000 * 1000000 \<le> t - prs_last_sent s" by (simp only: less_eq_div_iff_mult_less_eq zero_less_numeral)
  then have "prs_last_sent s + 1000000000 \<le> t" by linarith
  then show thesis using True assms reset by (simp add: rate_step_def)
next
  case False
  then show thesis using assms send stop by (cases "prs_sent_this_interval s < limit") (simp_all add: rate_step_def)
qed

lemma rate_intervals:
  assumes "0 < limit"
  shows "prs_sent_this_interval s \<noteq> 0 \<Longrightarrow> prs_sent_this_interval s \<le> limit \<Longrightarrow> sorted ts \<Longrightarrow>
    \<forall>t \<in> set ts. t < prs_last_sent s + (k + 1) * 1000000000 \<Longrightarrow>
    rate_count limit ts s \<le> (unat limit - unat (prs_sent_this_interval s)) + k * unat limit"
proof (induction ts arbitrary: s k)
  case (Cons t ts)
  let ?r = "\<lparr>prs_last_sent = t, prs_sent_this_interval = 1\<rparr>"
  have pos: "0 < unat limit" "1 \<le> limit" using assms by (simp_all add: unat_gt_0 word_le_nat_alt Suc_le_eq)
  from Cons.prems(1) show ?case
  proof (cases rule: rate_step_cases [where limit = limit and t = t])
    case reset
    have lim: "t' < prs_last_sent s + (k + 1) * 1000000000" if "t' \<in> set (t # ts)" for t' using Cons.prems(4) that by blast
    then have "prs_last_sent s + 1000000000 < prs_last_sent s + (k + 1) * 1000000000" using reset(2) by fastforce
    then obtain j where j: "k = j + 1" by (cases k) simp_all
    have "t' < t + (j + 1) * 1000000000" if "t' \<in> set ts" for t' using lim [of t'] that reset(2) unfolding j by simp
    then have "rate_count limit ts ?r \<le> (unat limit - 1) + j * unat limit"
      using Cons.IH [of ?r j] Cons.prems(3) pos(2) by simp
    then show ?thesis using reset(1) pos(1) by (simp add: j)
  next
    case send
    let ?s = "s\<lparr>prs_sent_this_interval := prs_sent_this_interval s + 1\<rparr>"
    note u = unat_succ_below [OF send(2)]
    have lt: "unat (prs_sent_this_interval s) < unat limit" using send(2) by (simp add: word_less_nat_alt)
    then have "prs_sent_this_interval s + 1 \<noteq> 0" "prs_sent_this_interval s + 1 \<le> limit" using u by (auto simp: word_le_nat_alt)
    then have "rate_count limit ts ?s \<le> (unat limit - unat (prs_sent_this_interval s + 1)) + k * unat limit"
      using Cons.IH [of ?s k] Cons.prems(3,4) by simp
    then show ?thesis using send(1) lt by (simp add: u)
  next
    case stop
    with Cons show ?thesis by simp
  qed
qed simp

lemma rate_passes: "min (unat limit - unat (prs_sent_this_interval s)) (length ts) \<le> rate_count limit ts s"
proof (induction ts arbitrary: s)
  case (Cons t ts)
  let ?r = "\<lparr>prs_last_sent = t, prs_sent_this_interval = 1\<rparr>"
  show ?case
  proof (cases "prs_sent_this_interval s < limit")
    case True
    let ?s = "s\<lparr>prs_sent_this_interval := prs_sent_this_interval s + 1\<rparr>"
    have "rate_step limit t s = (?r, True) \<or> rate_step limit t s = (?s, True) \<and> prs_sent_this_interval s \<noteq> 0"
      using True by (simp add: rate_step_def Let_def)
    then show ?thesis
      using Cons.IH [of ?s] Cons.IH [of ?r] unat_succ_below [OF True]
      by (cases "prs_sent_this_interval s = 0") (auto simp: unat_gt_0 word_neq_0_conv Suc_le_eq)
  next
    case False
    then show ?thesis by (simp add: word_less_nat_alt)
  qed
qed simp

text \<open>
  C34. The rate limit. For a subscriber of the NORMAL tier with a limit of at least one, and a path that the filter has not seen: whatever calls
  for this and for other paths are made at non-decreasing times, in the first \<open>n\<close> seconds at most \<open>n\<close> times the configured number of
  deltas of the path pass, and its first deltas, up to the configured number, all pass.
\<close>

theorem rate_limit_bound:
  assumes "dfl_tier f = TIER_NORMAL" "0 < rc_normal_max_updates_per_sec (dfl_config f)" "um_find (dfl_rate_states f) h = None"
    and "sorted (map fst calls)" "\<forall>t \<in> set (map fst calls). t0 \<le> t \<and> t < t0 + n * 1000000000"
  shows "forward_count h calls f \<le> n * unat (rc_normal_max_updates_per_sec (dfl_config f)) \<and>
    min (unat (rc_normal_max_updates_per_sec (dfl_config f))) (length (times_of h calls)) \<le> forward_count h calls f"
proof -
  let ?l = "rc_normal_max_updates_per_sec (dfl_config f)" and ?s = "\<lparr>prs_last_sent = 0, prs_sent_this_interval = 0\<rparr>"
  have c: "forward_count h calls f = rate_count ?l (times_of h calls) ?s"
    using forward_count_rate [OF assms(1), of h calls] assms(3) by (simp add: rate_state_of_def)
  have ts: "sorted (times_of h calls)" "\<forall>t \<in> set (times_of h calls). t0 \<le> t \<and> t < t0 + n * 1000000000"
    using assms(4,5) by (auto simp: times_of_def sorted_map sorted_wrt_filter)
  have "rate_count ?l (times_of h calls) ?s \<le> n * unat ?l"
  proof (cases "times_of h calls")
    case (Cons t ts)
    let ?r = "\<lparr>prs_last_sent = t, prs_sent_this_interval = 1\<rparr>"
    obtain j where j: "n = Suc j" using ts(2) Cons by (cases n) auto
    have "0 < unat ?l" using assms(2) by (simp add: unat_gt_0)
    moreover have "t' < t + (j + 1) * 1000000000" if "t' \<in> set ts" for t'
    proof -
      have "t0 \<le> t" "t' < t0 + n * 1000000000" using ts(2) that Cons by auto
      then show ?thesis by (simp add: j)
    qed
    then have "rate_count ?l ts ?r \<le> (unat ?l - 1) + j * unat ?l"
      using rate_intervals [OF assms(2), of ?r ts j] ts(1) assms(2) by (simp add: Cons word_le_nat_alt word_less_nat_alt Suc_le_eq)
    ultimately show ?thesis by (simp add: Cons rate_step_def j)
  qed simp
  then show ?thesis using rate_passes [of ?l ?s "times_of h calls"] by (simp add: c)
qed

theorem rate_limit_bound_witness:
  "let f = delta_filter_new TIER_NORMAL \<lparr>rc_normal_max_updates_per_sec = 2, rc_coarse_min_change_bytes = 4\<rparr>;
       calls = [(5, 9, []), (6, 9, []), (7, 3, []), (7, 9, []), (8, 9, [])]
   in forward_count 9 calls f = 2"
proof -
  let ?f = "delta_filter_new TIER_NORMAL \<lparr>rc_normal_max_updates_per_sec = 2, rc_coarse_min_change_bytes = 4\<rparr>"
  let ?calls = "[(5, 9, []), (6, 9, []), (7, 3, []), (7, 9, []), (8, 9, [])] :: (nat \<times> u32 \<times> bytes) list"
  have "forward_count 9 ?calls ?f \<le> 2 \<and> 2 \<le> forward_count 9 ?calls ?f"
    using rate_limit_bound [of ?f 9 ?calls 5 1] by (simp add: delta_filter_new_def times_of_def)
  then show ?thesis unfolding Let_def by simp
qed

text \<open>
  The intervals are fixed: in less than a second that holds the edge of two of them more than the limit can pass, up to twice as
  much. And a limit of zero does not close a path: the first delta of every interval passes.
\<close>

lemma rate_limit_any_second:
  assumes "dfl_tier f = TIER_NORMAL" and "sorted (map fst calls)"
    and "\<forall>t \<in> set (map fst calls). t0 \<le> t \<and> t < t0 + 1000000000"
  shows "forward_count h calls f \<le> 2 * max 1 (unat (rc_normal_max_updates_per_sec (dfl_config f)))"
proof -
  have "sorted (times_of h calls)" "\<forall>t \<in> set (times_of h calls). t0 \<le> t \<and> t < t0 + 1000000000"
    using assms(2,3) by (auto simp: times_of_def sorted_map sorted_wrt_filter)
  then show ?thesis
    using rate_span [of "times_of h calls" t0 "rc_normal_max_updates_per_sec (dfl_config f)" "rate_state_of h f"]
      forward_count_rate [OF assms(1), of h calls] by linarith
qed

lemma rate_limit_edge:
  "rate_count 2 [900000000, 1000000000, 1100000000] \<lparr>prs_last_sent = 0, prs_sent_this_interval = 1\<rparr> = 3"
  by (simp add: rate_step_def Let_def)

lemma rate_limit_zero: "rate_count 0 [t, t] \<lparr>prs_last_sent = 0, prs_sent_this_interval = 0\<rparr> = 1"
  by (simp add: rate_step_def Let_def)

text \<open>
  What the tiers forward. FULL forwards everything. COARSE forwards a delta exactly when none was kept for the path or
  it differs from the last one forwarded in at least the configured number of bytes, the length difference counting
  in full, and keeps what it forwarded. METADATA never forwards, and reports a pending version exactly once.
\<close>

theorem tier_decisions:
  "(dfl_tier f = TIER_FULL \<longrightarrow> snd (should_forward now h d f)) \<and>
   (dfl_tier f = TIER_COARSE \<longrightarrow>
      (let kept = (case um_find (dfl_coarse_states f) h of Some x \<Rightarrow> x | None \<Rightarrow> []);
           differ = (max (length kept) (length d) - min (length kept) (length d)) +
             card {j. j < min (length kept) (length d) \<and> d ! j \<noteq> kept ! j};
           (f', ok) = should_forward now h d f
       in (ok \<longleftrightarrow> kept = [] \<or> differ \<ge> rc_coarse_min_change_bytes (dfl_config f)) \<and>
          um_find (dfl_coarse_states f') h = Some (if ok then d else kept))) \<and>
   (dfl_tier f = TIER_METADATA \<longrightarrow>
      (let (f1, ok) = should_forward now h d f; (f2, send1) = should_send_version_info h f1;
           (f3, send2) = should_send_version_info h f2
       in \<not> ok \<and> send1 \<and> \<not> send2))"
proof -
  let ?kept = "case um_find (dfl_coarse_states f) h of Some x \<Rightarrow> x | None \<Rightarrow> []"
  have "dfl_tier f = TIER_COARSE \<longrightarrow>
      (let (f', ok) = should_forward now h d f
       in (ok \<longleftrightarrow> ?kept = [] \<or> diff_bytes d ?kept \<ge> rc_coarse_min_change_bytes (dfl_config f)) \<and>
          um_find (dfl_coarse_states f') h = Some (if ok then d else ?kept))"
    by (simp add: should_forward_def check_change_threshold_def count_forwarded_def count_filtered_def Let_def
        update_conv')
  moreover have "dfl_tier f = TIER_METADATA \<longrightarrow>
      (let (f1, ok) = should_forward now h d f; (f2, send1) = should_send_version_info h f1;
           (f3, send2) = should_send_version_info h f2
       in \<not> ok \<and> send1 \<and> \<not> send2)"
    by (simp add: should_forward_def count_filtered_def should_send_version_info_def update_conv')
  moreover have "dfl_tier f = TIER_FULL \<longrightarrow> snd (should_forward now h d f)"
    by (simp add: should_forward_def)
  ultimately show ?thesis unfolding Let_def diff_bytes_card by blast
qed

theorem tier_decisions_witness:
  "let f = (delta_filter_new TIER_COARSE resolution_config_default)\<lparr>dfl_coarse_states := [(3, [1, 2, 3, 4, 5, 6])]\<rparr>
   in \<not> snd (should_forward 0 3 [1, 2, 3, 4, 5, 9] f) \<and> snd (should_forward 0 3 [1, 9, 9, 9, 9, 6] f) \<and>
      snd (should_forward 0 3 [1] (set_tier TIER_FULL f))"
proof -
  let ?f = "(delta_filter_new TIER_COARSE resolution_config_default)\<lparr>dfl_coarse_states := [(3, [1, 2, 3, 4, 5, 6])]\<rparr>"
  have t: "dfl_tier ?f = TIER_COARSE" "dfl_tier (set_tier TIER_FULL ?f) = TIER_FULL"
    by (simp_all add: delta_filter_new_def set_tier_def)
  have "snd (should_forward 0 3 [1] (set_tier TIER_FULL ?f))"
    using tier_decisions [of "set_tier TIER_FULL ?f" 0 3 "[1]"] t by blast
  moreover have "\<not> snd (should_forward 0 3 [1, 2, 3, 4, 5, 9] ?f)" "snd (should_forward 0 3 [1, 9, 9, 9, 9, 6] ?f)"
    by code_simp+
  ultimately show ?thesis unfolding Let_def by blast
qed

end
