(* ===== verification/Subscription.thy ===== *)
theory Subscription
  imports State_Path
begin

text \<open>
  Remote subscriptions (\<^verbatim>\<open>state/subscription.h\<close>, \<^verbatim>\<open>subscription.cpp\<close>): the manager with credits, and the
  payloads of the subscribe, unsubscribe and credit frames. Credits are 64-bit signed integers, here
  integers with an explicit overflow check. The lemmas show that a subscription is matched exactly as often
  as it has credits, and that the payloads round-trip.
\<close>

record subscription =
  sub_sub_id :: u32
  sub_conn_id :: u16
  sub_pattern :: state_path
  sub_credits :: int
  sub_freshness_us :: u32
  sub_tier :: resolution_tier

definition has_credits :: "subscription \<Rightarrow> bool" where
  "has_credits s \<longleftrightarrow> sub_credits s \<noteq> 0"

definition consume_credit :: "subscription \<Rightarrow> subscription" where
  "consume_credit s = (if sub_credits s > 0 then s\<lparr>sub_credits := sub_credits s - 1\<rparr> else s)"

record match_result =
  mr_sub_id :: u32
  mr_conn_id :: u16

record subscription_manager =
  sm_next_id :: u32
  sm_subs :: "(u32, subscription) umap"

definition subscription_manager_new :: subscription_manager where
  "subscription_manager_new = \<lparr>sm_next_id = 1, sm_subs = []\<rparr>"

text \<open>\<^verbatim>\<open>emplace\<close> does nothing when the key is taken.\<close>

definition subscribe ::
  "u16 \<Rightarrow> state_path \<Rightarrow> int \<Rightarrow> u32 \<Rightarrow> subscription_manager \<Rightarrow> subscription_manager \<times> u32" where
  "subscribe conn_id pattern initial_credits freshness_us m =
    (let id = sm_next_id m;
         sub = \<lparr>sub_sub_id = id, sub_conn_id = conn_id, sub_pattern = pattern, sub_credits = initial_credits,
                sub_freshness_us = freshness_us, sub_tier = TIER_FULL\<rparr>
     in (m\<lparr>sm_next_id := id + 1,
           sm_subs := (if um_find (sm_subs m) id = None then sm_subs m @ [(id, sub)] else sm_subs m)\<rparr>, id))"

definition unsubscribe :: "u32 \<Rightarrow> subscription_manager \<Rightarrow> subscription_manager \<times> bool" where
  "unsubscribe sub_id m = (m\<lparr>sm_subs := um_erase sub_id (sm_subs m)\<rparr>, um_find (sm_subs m) sub_id \<noteq> None)"

definition remove_connection_subs :: "u16 \<Rightarrow> subscription_manager \<Rightarrow> subscription_manager" where
  "remove_connection_subs conn_id m = m\<lparr>sm_subs := filter (\<lambda>e. sub_conn_id (snd e) \<noteq> conn_id) (sm_subs m)\<rparr>"

text \<open>\<open>None\<close> is signed overflow of the 64-bit credits.\<close>

definition add_credits :: "u32 \<Rightarrow> int \<Rightarrow> subscription_manager \<Rightarrow> (subscription_manager \<times> bool) option" where
  "add_credits sub_id credits m =
    (case um_find (sm_subs m) sub_id of
       None \<Rightarrow> Some (m, False)
     | Some s \<Rightarrow>
         if sub_credits s \<ge> 0
         then let c = sub_credits s + credits
              in if c < 2 ^ 63 then Some (m\<lparr>sm_subs := um_put sub_id (s\<lparr>sub_credits := c\<rparr>) (sm_subs m)\<rparr>, True)
                 else None
         else Some (m, True))"

fun match_consume_loop ::
  "state_path \<Rightarrow> (u32, subscription) umap \<Rightarrow> (u32, subscription) umap \<times> match_result list" where
  "match_consume_loop path [] = ([], [])"
| "match_consume_loop path ((sid, sub) # rest) =
    (let (rest', rs) = match_consume_loop path rest
     in if path_matches path (sub_pattern sub) \<and> has_credits sub
        then ((sid, consume_credit sub) # rest', \<lparr>mr_sub_id = sub_sub_id sub, mr_conn_id = sub_conn_id sub\<rparr> # rs)
        else ((sid, sub) # rest', rs))"

definition match_and_consume :: "state_path \<Rightarrow> subscription_manager \<Rightarrow> subscription_manager \<times> match_result list" where
  "match_and_consume path m =
    (let (subs, rs) = match_consume_loop path (sm_subs m) in (m\<lparr>sm_subs := subs\<rparr>, rs))"

definition match_subs :: "state_path \<Rightarrow> subscription_manager \<Rightarrow> match_result list" where
  "match_subs path m =
     map (\<lambda>e. \<lparr>mr_sub_id = sub_sub_id (snd e), mr_conn_id = sub_conn_id (snd e)\<rparr>)
       (filter (\<lambda>e. path_matches path (sub_pattern (snd e)) \<and> has_credits (snd e)) (sm_subs m))"

definition get_subscription :: "u32 \<Rightarrow> subscription_manager \<Rightarrow> subscription option" where
  "get_subscription sub_id m = um_find (sm_subs m) sub_id"

definition subscription_count :: "subscription_manager \<Rightarrow> nat" where
  "subscription_count m = length (sm_subs m)"

definition count_for_connection :: "u16 \<Rightarrow> subscription_manager \<Rightarrow> nat" where
  "count_for_connection conn_id m = length (filter (\<lambda>e. sub_conn_id (snd e) = conn_id) (sm_subs m))"

subsection \<open>Frame payloads\<close>

record subscribe_payload =
  sfp_sub_id :: u32
  sfp_initial_credits :: int
  sfp_freshness_us :: u32
  sfp_tier :: resolution_tier
  sfp_pattern :: bytes

definition subscribe_wire_size :: "subscribe_payload \<Rightarrow> nat" where
  "subscribe_wire_size p = 15 + length (sfp_pattern p)"

text \<open>The result is the buffer and \<open>written\<close>.\<close>

definition subscribe_encode :: "subscribe_payload \<Rightarrow> bytes \<Rightarrow> (bytes \<times> nat) option" where
  "subscribe_encode p buf =
    (let needed = subscribe_wire_size p in
     if length buf < needed then None
     else
       let b1 = write_u32 buf 0 (sfp_sub_id p);
           b2 = write_u32 b1 4 (word_of_int (sfp_initial_credits p));
           b3 = write_u32 b2 8 (sfp_freshness_us p);
           b4 = b3[12 := resolution_tier_code (sfp_tier p)];
           b5 = write_u16 b4 13 (of_nat (length (sfp_pattern p)));
           b6 = (if sfp_pattern p \<noteq> [] then put_bytes b5 15 (sfp_pattern p) else b5)
       in Some (b6, needed))"

definition subscribe_decode :: "bytes \<Rightarrow> subscribe_payload option" where
  "subscribe_decode buf =
    (if length buf < 15 then None
     else
       let pat_len = unat (read_u16 (drop 13 buf)) in
       if length buf < 15 + pat_len then None
       else Some \<lparr>sfp_sub_id = read_u32 buf, sfp_initial_credits = sint (read_u32 (drop 4 buf)),
                  sfp_freshness_us = read_u32 (drop 8 buf), sfp_tier = resolution_tier_of (buf ! 12),
                  sfp_pattern = take pat_len (drop 15 buf)\<rparr>)"

record unsubscribe_payload =
  ufp_sub_id :: u32

definition UNSUBSCRIBE_WIRE_SIZE :: nat where "UNSUBSCRIBE_WIRE_SIZE = 4"

definition unsubscribe_encode :: "unsubscribe_payload \<Rightarrow> bytes \<Rightarrow> bytes option" where
  "unsubscribe_encode p buf =
    (if length buf < UNSUBSCRIBE_WIRE_SIZE then None else Some (write_u32 buf 0 (ufp_sub_id p)))"

definition unsubscribe_decode :: "bytes \<Rightarrow> unsubscribe_payload option" where
  "unsubscribe_decode buf =
    (if length buf < UNSUBSCRIBE_WIRE_SIZE then None else Some \<lparr>ufp_sub_id = read_u32 buf\<rparr>)"

record credit_payload =
  cfp_sub_id :: u32
  cfp_credits :: int

definition CREDIT_WIRE_SIZE :: nat where "CREDIT_WIRE_SIZE = 8"

definition credit_encode :: "credit_payload \<Rightarrow> bytes \<Rightarrow> bytes option" where
  "credit_encode p buf =
    (if length buf < CREDIT_WIRE_SIZE then None
     else Some (write_u32 (write_u32 buf 0 (cfp_sub_id p)) 4 (word_of_int (cfp_credits p))))"

definition credit_decode :: "bytes \<Rightarrow> credit_payload option" where
  "credit_decode buf =
    (if length buf < CREDIT_WIRE_SIZE then None
     else Some \<lparr>cfp_sub_id = read_u32 buf, cfp_credits = sint (read_u32 (drop 4 buf))\<rparr>)"

definition int32 :: "int \<Rightarrow> bool" where
  "int32 i \<longleftrightarrow> - (2 ^ 31) \<le> i \<and> i < 2 ^ 31"

subsection \<open>Payloads round-trip\<close>

lemma sint_word_of_int32: "int32 i \<Longrightarrow> sint (word_of_int i :: u32) = i"
  by (simp add: int32_def sint_sbintrunc' signed_take_bit_int_eq_self)

lemma int32_sint: "int32 (sint (w :: u32))"
  using sint_lt [of w] sint_ge [of w] by (simp add: int32_def)

interpretation unsubscribe_codec: fixed_codec unsubscribe_encode unsubscribe_decode "\<lambda>p. be32 (ufp_sub_id p)" "\<lambda>p. True"
  UNSUBSCRIBE_WIRE_SIZE
proof (unfold_locales, goal_cases)
  case (6 b)
  then have "4 \<le> length b" by (simp add: UNSUBSCRIBE_WIRE_SIZE_def)
  then show ?case by (auto simp: long_list unsubscribe_decode_def UNSUBSCRIBE_WIRE_SIZE_def wire_simps)
qed (auto simp: unsubscribe_encode_def unsubscribe_decode_def UNSUBSCRIBE_WIRE_SIZE_def buf_simps wire_simps)

interpretation credit_codec: fixed_codec credit_encode credit_decode
  "\<lambda>p. be32 (cfp_sub_id p) @ be32 (word_of_int (cfp_credits p))" "\<lambda>p. int32 (cfp_credits p)" CREDIT_WIRE_SIZE
proof (unfold_locales, goal_cases)
  case (6 b)
  then have "8 \<le> length b" by (simp add: CREDIT_WIRE_SIZE_def)
  then show ?case by (auto simp: long_list credit_decode_def CREDIT_WIRE_SIZE_def wire_simps int32_sint)
qed (auto simp: credit_encode_def credit_decode_def CREDIT_WIRE_SIZE_def buf_simps wire_simps sint_word_of_int32)

lemma subscribe_decode_encode:
  assumes "int32 (sfp_initial_credits p)" and "resolution_tier_wf (sfp_tier p)" and "length (sfp_pattern p) < 2 ^ 16"
    and "subscribe_encode p buf = Some (buf', n)"
  shows "subscribe_decode buf' = Some p \<and> n = subscribe_wire_size p"
proof -
  have u: "unat (of_nat (length (sfp_pattern p)) :: u16) = length (sfp_pattern p)"
    using assms(3) by (simp add: unat_of_nat take_bit_nat_eq_self)
  have len: "15 + length (sfp_pattern p) \<le> length buf"
    using assms(4) by (auto simp: subscribe_encode_def subscribe_wire_size_def Let_def split: if_splits)
  have b': "buf' = be32 (sfp_sub_id p) @ be32 (word_of_int (sfp_initial_credits p)) @ be32 (sfp_freshness_us p) @
      [resolution_tier_code (sfp_tier p)] @ be16 (of_nat (length (sfp_pattern p))) @ sfp_pattern p @
      drop (15 + length (sfp_pattern p)) buf"
    using assms(4) len
    by (auto simp: subscribe_encode_def subscribe_wire_size_def Let_def buf_simps add.commute split: if_splits)
  show ?thesis
    using assms(1,2,4) u
    by (auto simp: b' subscribe_decode_def wire_simps sint_word_of_int32 Let_def)
      (auto simp: subscribe_encode_def Let_def split: if_splits)
qed

subsection \<open>Credits\<close>

definition subs_ok :: "subscription_manager \<Rightarrow> bool" where
  "subs_ok m \<longleftrightarrow> um_ok (sm_subs m) \<and> (\<forall>e \<in> set (sm_subs m). sub_sub_id (snd e) = fst e)"

definition selected :: "state_path \<Rightarrow> subscription \<Rightarrow> bool" where
  "selected path s \<longleftrightarrow> path_matches path (sub_pattern s) \<and> has_credits s"

text \<open>How often subscription \<open>i\<close> is among the results, for a sequence of changed paths.\<close>

fun delivered :: "u32 \<Rightarrow> state_path list \<Rightarrow> subscription_manager \<Rightarrow> nat" where
  "delivered i [] m = 0"
| "delivered i (p # paths) m =
    (let (m', rs) = match_and_consume p m in length (filter (\<lambda>r. mr_sub_id r = i) rs) + delivered i paths m')"

lemma match_consume_loop_eq:
  "match_consume_loop path subs =
    (map (\<lambda>e. (fst e, if selected path (snd e) then consume_credit (snd e) else snd e)) subs,
     map (\<lambda>e. \<lparr>mr_sub_id = sub_sub_id (snd e), mr_conn_id = sub_conn_id (snd e)\<rparr>) (filter (\<lambda>e. selected path (snd e)) subs))"
  by (induction path subs rule: match_consume_loop.induct) (auto simp: selected_def split_beta Let_def)

lemma filter_key_single:
  "um_ok m \<Longrightarrow> length (filter (\<lambda>e. fst e = i \<and> P (snd e)) m) =
     (case um_find m i of None \<Rightarrow> 0 | Some s \<Rightarrow> if P s then 1 else 0)"
proof (induction m)
  case (Cons e m)
  then have "fst e = i \<Longrightarrow> um_find m i = None" by (auto simp: map_of_eq_None_iff)
  with Cons show ?case by (cases e) auto
qed simp

lemma match_and_consume_step:
  assumes "subs_ok m"
  shows "subs_ok (fst (match_and_consume p m))"
    and "get_subscription i (fst (match_and_consume p m)) =
      map_option (\<lambda>s. if selected p s then consume_credit s else s) (get_subscription i m)"
    and "length (filter (\<lambda>r. mr_sub_id r = i) (snd (match_and_consume p m))) =
      (case get_subscription i m of None \<Rightarrow> 0 | Some s \<Rightarrow> if selected p s then 1 else 0)"
proof -
  let ?f = "\<lambda>s. if selected p s then consume_credit s else s"
  have "map_of (map (\<lambda>e. (fst e, ?f (snd e))) l) i = map_option ?f (map_of l i)" for l :: "(u32, subscription) umap"
    by (induction l) auto
  then show "get_subscription i (fst (match_and_consume p m)) = map_option ?f (get_subscription i m)"
    by (simp add: get_subscription_def match_and_consume_def match_consume_loop_eq)
  show "subs_ok (fst (match_and_consume p m))"
    using assms by (auto simp: subs_ok_def match_and_consume_def match_consume_loop_eq o_def consume_credit_def)
  have "filter (\<lambda>e. selected p (snd e) \<and> sub_sub_id (snd e) = i) (sm_subs m) =
      filter (\<lambda>e. fst e = i \<and> selected p (snd e)) (sm_subs m)"
    using assms by (intro filter_cong) (auto simp: subs_ok_def)
  then show "length (filter (\<lambda>r. mr_sub_id r = i) (snd (match_and_consume p m))) =
      (case get_subscription i m of None \<Rightarrow> 0 | Some s \<Rightarrow> if selected p s then 1 else 0)"
    using filter_key_single [of "sm_subs m" i "selected p"] assms
    by (simp add: match_and_consume_def match_consume_loop_eq filter_map o_def get_subscription_def subs_ok_def)
qed

lemma delivered_credits:
  "subs_ok m \<Longrightarrow> get_subscription i m = Some s \<Longrightarrow>
   delivered i paths m = (let n = length (filter (\<lambda>p. path_matches p (sub_pattern s)) paths)
     in if sub_credits s < 0 then n else min (nat (sub_credits s)) n)"
proof (induction paths arbitrary: m s)
  case (Cons p paths)
  let ?s = "if selected p s then consume_credit s else s"
  have "delivered i (p # paths) m = (if selected p s then 1 else 0) + delivered i paths (fst (match_and_consume p m))"
    using match_and_consume_step(3) [OF Cons.prems(1), where i = i and p = p] Cons.prems(2) by (simp add: split_beta)
  moreover have "delivered i paths (fst (match_and_consume p m)) =
      (let n = length (filter (\<lambda>q. path_matches q (sub_pattern ?s)) paths)
       in if sub_credits ?s < 0 then n else min (nat (sub_credits ?s)) n)"
    using Cons.prems match_and_consume_step(1,2) [OF Cons.prems(1), where p = p] by (intro Cons.IH) simp_all
  ultimately show ?case
    by (auto simp: selected_def has_credits_def consume_credit_def Let_def min_def)
qed (simp add: Let_def)

text \<open>
  C35. Backpressure. A subscription that starts with a non-negative number of credits is matched for the first that many
  matching changes and for no more; a negative number (unlimited) is matched for every matching change. What other
  subscriptions do has no influence.
\<close>

theorem credits_bound_deliveries:
  assumes "subs_ok m" and "get_subscription i m = Some s"
  shows "delivered i paths m =
    (if sub_credits s < 0 then length (filter (\<lambda>p. path_matches p (sub_pattern s)) paths)
     else min (nat (sub_credits s)) (length (filter (\<lambda>p. path_matches p (sub_pattern s)) paths)))"
  using delivered_credits [OF assms, of paths] by (simp add: Let_def)

theorem credits_bound_deliveries_witness:
  "let p = state_path_new (\<lambda>b. 1) [47, 97]; (m, i) = subscribe 4 p 2 0 subscription_manager_new
   in delivered i [p, p, p] m = 2"
proof -
  let ?p = "state_path_new (\<lambda>b. 1) [47, 97]"
  let ?m = "fst (subscribe 4 ?p 2 0 subscription_manager_new)"
  have seg: "sp_segments ?p = [[97]]"
    using split_last [of "[97]"] by (simp add: state_path_new_def parse_segments_def SLASH_def segment_ok_def)
  then have match: "path_matches ?p ?p" by (simp add: path_matches_def)
  obtain s where s: "get_subscription 1 ?m = Some s" "sub_credits s = 2" "sub_pattern s = ?p" "subs_ok ?m"
    by (simp add: subscribe_def subscription_manager_new_def get_subscription_def subs_ok_def Let_def)
  with credits_bound_deliveries [OF s(4,1), of "[?p, ?p, ?p]"] match have "delivered 1 [?p, ?p, ?p] ?m = 2"
    by simp
  then show ?thesis
    by (simp add: Let_def split_beta) (simp add: subscribe_def subscription_manager_new_def Let_def)
qed

text \<open>A negative credit grant turns an exhausted subscription into an unlimited one.\<close>

lemma negative_grant_unlimited:
  assumes "get_subscription i m = Some s" and "sub_credits s = 0"
  shows "\<exists>m'. add_credits i (- 1) m = Some (m', True) \<and>
    get_subscription i m' = Some (s\<lparr>sub_credits := - 1\<rparr>)"
  using assms by (simp add: add_credits_def get_subscription_def update_conv')

end
