(* ===== verification/Observer.thy ===== *)
theory Observer
  imports State_Path
begin

text \<open>
  Local observation (\<^verbatim>\<open>state/observer.h\<close>, \<^verbatim>\<open>observer.cpp\<close>). A callback is identified by its watch handle; the
  calls that \<open>notify\<close> makes are part of its result, in order. Callbacks that change the observer while it
  iterates are outside the model. The lemmas show that a watch with a limit of \<open>n\<close> fires for its first \<open>n\<close>
  matching events and is then removed.
\<close>

record state_change_event =
  ev_path :: state_path
  ev_path_hash :: u32
  ev_crdt_type :: crdt_type
  ev_data :: bytes
  ev_author_node_id :: u16

record watch_options =
  wo_crdt_filter :: "crdt_type option"
  wo_max_notifications :: int

definition watch_options_default :: watch_options where
  "watch_options_default = \<lparr>wo_crdt_filter = None, wo_max_notifications = - 1\<rparr>"

record watch_entry =
  we_handle :: u32
  we_pattern :: state_path
  we_options :: watch_options
  we_remaining :: int

record state_observer =
  ob_next_handle :: u32
  ob_watches :: "(u32, watch_entry) umap"
  ob_pending_removal :: "u32 list"

definition observer_new :: state_observer where
  "observer_new = \<lparr>ob_next_handle = 1, ob_watches = [], ob_pending_removal = []\<rparr>"

definition watch :: "state_path \<Rightarrow> watch_options \<Rightarrow> state_observer \<Rightarrow> state_observer \<times> u32" where
  "watch pattern opts b =
    (let h = ob_next_handle b;
         entry = \<lparr>we_handle = h, we_pattern = pattern, we_options = opts, we_remaining = wo_max_notifications opts\<rparr>
     in (b\<lparr>ob_next_handle := h + 1,
           ob_watches := (if um_find (ob_watches b) h = None then ob_watches b @ [(h, entry)] else ob_watches b)\<rparr>, h))"

definition unwatch :: "u32 \<Rightarrow> state_observer \<Rightarrow> state_observer \<times> bool" where
  "unwatch h b = (b\<lparr>ob_watches := um_erase h (ob_watches b)\<rparr>, um_find (ob_watches b) h \<noteq> None)"

text \<open>The loop over the watches: the watches after it, the handles to remove and the callbacks made.\<close>

fun notify_loop ::
  "state_change_event \<Rightarrow> (u32, watch_entry) umap \<Rightarrow> (u32, watch_entry) umap \<times> u32 list \<times> u32 list" where
  "notify_loop ev [] = ([], [], [])"
| "notify_loop ev ((h, entry) # rest) =
    (let (rest', rem, calls) = notify_loop ev rest in
     if wo_crdt_filter (we_options entry) \<noteq> None \<and> wo_crdt_filter (we_options entry) \<noteq> Some (ev_crdt_type ev)
     then ((h, entry) # rest', rem, calls)
     else if \<not> path_matches (ev_path ev) (we_pattern entry) then ((h, entry) # rest', rem, calls)
     else if we_remaining entry = 0 then ((h, entry) # rest', h # rem, calls)
     else if we_remaining entry > 0
     then let entry' = entry\<lparr>we_remaining := we_remaining entry - 1\<rparr>
          in ((h, entry') # rest', (if we_remaining entry' = 0 then h # rem else rem), h # calls)
     else ((h, entry) # rest', rem, h # calls))"

definition cleanup_expired :: "state_observer \<Rightarrow> state_observer" where
  "cleanup_expired b = b\<lparr>ob_watches := fold um_erase (ob_pending_removal b) (ob_watches b), ob_pending_removal := []\<rparr>"

definition notify :: "state_change_event \<Rightarrow> state_observer \<Rightarrow> state_observer \<times> u32 list" where
  "notify ev b =
    (let (ws, rem, calls) = notify_loop ev (ob_watches b)
     in (cleanup_expired (b\<lparr>ob_watches := ws, ob_pending_removal := rem\<rparr>), calls))"

definition watch_count :: "state_observer \<Rightarrow> nat" where
  "watch_count b = length (ob_watches b)"

definition observer_clear :: "state_observer \<Rightarrow> state_observer" where
  "observer_clear b = b\<lparr>ob_watches := [], ob_pending_removal := []\<rparr>"

subsection \<open>Limited watches\<close>

definition interested :: "state_change_event \<Rightarrow> watch_entry \<Rightarrow> bool" where
  "interested ev w \<longleftrightarrow> (wo_crdt_filter (we_options w) = None \<or> wo_crdt_filter (we_options w) = Some (ev_crdt_type ev)) \<and>
     path_matches (ev_path ev) (we_pattern w)"

text \<open>What an event does to one watch: the watch afterwards, or none; and how often it fires.\<close>

definition fires :: "state_change_event \<Rightarrow> watch_entry \<Rightarrow> nat" where
  "fires ev w = (if interested ev w \<and> we_remaining w \<noteq> 0 then 1 else 0)"

definition after :: "state_change_event \<Rightarrow> watch_entry \<Rightarrow> watch_entry option" where
  "after ev w = (if \<not> interested ev w then Some w
     else if we_remaining w = 0 \<or> we_remaining w = 1 then None
     else if we_remaining w > 0 then Some (w\<lparr>we_remaining := we_remaining w - 1\<rparr>) else Some w)"

fun fired :: "u32 \<Rightarrow> state_change_event list \<Rightarrow> state_observer \<Rightarrow> nat" where
  "fired h [] b = 0"
| "fired h (ev # evs) b = (let (b', calls) = notify ev b in length (filter (\<lambda>c. c = h) calls) + fired h evs b')"

lemma fold_erase_find: "um_find (fold um_erase hs m) h = (if h \<in> set hs then None else um_find m h)"
  by (induction hs arbitrary: m) (auto simp: delete_conv')

lemma fold_erase_ok: "um_ok m \<Longrightarrow> um_ok (fold um_erase hs m)"
  by (induction hs arbitrary: m) auto

lemma notify_loop_keys: "map fst (fst (notify_loop ev m)) = map fst m"
  by (induction ev m rule: notify_loop.induct) (auto simp: split_beta Let_def)

lemma notify_loop_in: "h \<in> set (fst (snd (notify_loop ev m))) \<Longrightarrow> h \<in> fst ` set m"
  by (induction ev m rule: notify_loop.induct) (auto simp: split_beta Let_def split: if_splits)

lemma notify_loop_calls_in: "h \<in> set (snd (snd (notify_loop ev m))) \<Longrightarrow> h \<in> fst ` set m"
  by (induction ev m rule: notify_loop.induct) (auto simp: split_beta Let_def split: if_splits)

lemma notify_loop_entry:
  "um_ok m \<Longrightarrow> um_find m h = Some w \<Longrightarrow>
   (if h \<in> set (fst (snd (notify_loop ev m))) then None else um_find (fst (notify_loop ev m)) h) = after ev w \<and>
   length (filter (\<lambda>c. c = h) (snd (snd (notify_loop ev m)))) = fires ev w"
proof (induction ev m rule: notify_loop.induct)
  case (2 ev k e rest)
  obtain rest' rem calls where r: "notify_loop ev rest = (rest', rem, calls)" by (cases "notify_loop ev rest") auto
  show ?case
  proof (cases "k = h")
    case True
    with "2.prems" have "w = e" "h \<notin> fst ` set rest" by auto
    moreover have "h \<notin> set rem" "h \<notin> set calls" "um_find rest' h = None"
      using calculation(2) notify_loop_in [of h ev rest] notify_loop_calls_in [of h ev rest] notify_loop_keys [of ev rest]
      by (auto simp: r map_of_eq_None_iff simp flip: set_map)
    moreover have "filter (\<lambda>c. c = h) calls = []" using calculation(4) by (induction calls) auto
    ultimately show ?thesis
      using True by (auto simp: r after_def fires_def interested_def Let_def)
  next
    case False
    then have "um_find rest h = Some w" "um_ok rest" using "2.prems" by auto
    from "2.IH" [OF this(2,1)] False show ?thesis by (auto simp: r Let_def)
  qed
qed simp

lemma notify_entry:
  assumes "um_ok (ob_watches b)" and "um_find (ob_watches b) h = Some w"
  shows "um_ok (ob_watches (fst (notify ev b)))"
    and "um_find (ob_watches (fst (notify ev b))) h = after ev w"
    and "length (filter (\<lambda>c. c = h) (snd (notify ev b))) = fires ev w"
  using notify_loop_entry [OF assms, of ev] assms(1) notify_loop_keys [of ev "ob_watches b"]
  by (simp_all add: notify_def cleanup_expired_def split_beta fold_erase_find fold_erase_ok)

lemma notify_absent:
  assumes "um_ok (ob_watches b)" and "um_find (ob_watches b) h = None"
  shows "um_ok (ob_watches (fst (notify ev b))) \<and> um_find (ob_watches (fst (notify ev b))) h = None \<and>
    filter (\<lambda>c. c = h) (snd (notify ev b)) = []"
proof -
  have "h \<notin> fst ` set (ob_watches b)" using assms(2) by (simp add: map_of_eq_None_iff)
  then have "h \<notin> set (snd (notify ev b))" "um_find (fst (notify_loop ev (ob_watches b))) h = None"
    using notify_loop_calls_in [of h ev "ob_watches b"] notify_loop_keys [of ev "ob_watches b"]
    by (auto simp: notify_def split_beta map_of_eq_None_iff simp flip: set_map)
  moreover have "filter (\<lambda>c. c = h) xs = []" if "h \<notin> set xs" for xs :: "u32 list" using that by (induction xs) auto
  ultimately show ?thesis
    using assms(1) notify_loop_keys [of ev "ob_watches b"]
    by (simp add: notify_def cleanup_expired_def split_beta fold_erase_find fold_erase_ok)
qed

lemma fired_absent: "um_ok (ob_watches b) \<Longrightarrow> um_find (ob_watches b) h = None \<Longrightarrow> fired h evs b = 0"
  by (induction evs arbitrary: b) (simp_all add: split_beta notify_absent)

text \<open>
  Limited watches. A watch with \<open>n > 0\<close> notifications left fires for the first \<open>n\<close> events it is interested in (type filter
  and pattern) and for no later one; a watch with a negative number fires for all of them.
\<close>

theorem watch_fires_at_most:
  assumes "um_ok (ob_watches b)" and "um_find (ob_watches b) h = Some w" and "we_remaining w \<noteq> 0"
  shows "fired h evs b = (if we_remaining w < 0 then length (filter (\<lambda>ev. interested ev w) evs)
    else min (nat (we_remaining w)) (length (filter (\<lambda>ev. interested ev w) evs)))"
  using assms
proof (induction evs arbitrary: b w)
  case (Cons ev evs)
  note n = notify_entry [OF Cons.prems(1,2), of ev]
  have step: "fired h (ev # evs) b = fires ev w + fired h evs (fst (notify ev b))"
    using n(3) by (simp add: split_beta)
  have int: "interested e (w\<lparr>we_remaining := r\<rparr>) = interested e w" for e r by (simp add: interested_def)
  consider (no) "after ev w = Some w" "\<not> interested ev w \<or> we_remaining w < 0" | (last) "after ev w = None" "interested ev w" "we_remaining w = 1"
    | (dec) "after ev w = Some (w\<lparr>we_remaining := we_remaining w - 1\<rparr>)" "interested ev w" "we_remaining w > 1"
    using Cons.prems(3)
    by (cases "interested ev w"; cases "we_remaining w = 1"; cases "we_remaining w > 0") (auto simp: after_def)
  then show ?case
  proof cases
    case no
    then show ?thesis
      using step n Cons.IH [of "fst (notify ev b)" w] Cons.prems(3) by (auto simp: fires_def after_def split: if_splits)
  next
    case last
    then show ?thesis using step n fired_absent [of "fst (notify ev b)" h evs] by (simp add: fires_def)
  next
    case dec
    then show ?thesis
      using step n Cons.IH [of "fst (notify ev b)" "w\<lparr>we_remaining := we_remaining w - 1\<rparr>"]
      by (auto simp: fires_def int min_def nat_diff_distrib)
  qed
qed simp

theorem watch_fires_at_most_witness:
  "let p = state_path_new (\<lambda>b. 1) []; (b, h) = watch p \<lparr>wo_crdt_filter = None, wo_max_notifications = 1\<rparr> observer_new;
       ev = \<lparr>ev_path = p, ev_path_hash = 1, ev_crdt_type = CRDT_LWW_REGISTER, ev_data = [], ev_author_node_id = 0\<rparr>
   in fired h [ev, ev, ev] b = 1"
proof -
  let ?p = "state_path_new (\<lambda>b. 1) []"
  let ?b = "fst (watch ?p \<lparr>wo_crdt_filter = None, wo_max_notifications = 1\<rparr> observer_new)"
  let ?ev = "\<lparr>ev_path = ?p, ev_path_hash = 1, ev_crdt_type = CRDT_LWW_REGISTER, ev_data = [], ev_author_node_id = 0\<rparr>"
  have "path_matches ?p ?p"
    by (simp add: path_matches_def state_path_new_def parse_segments_def split_segments.simps)
  moreover obtain w where w: "um_ok (ob_watches ?b)" "um_find (ob_watches ?b) 1 = Some w" "we_remaining w = 1"
    "we_pattern w = ?p" "wo_crdt_filter (we_options w) = None"
    by (simp add: watch_def observer_new_def Let_def)
  ultimately have "fired 1 [?ev, ?ev, ?ev] ?b = 1"
    using watch_fires_at_most [OF w(1,2), of "[?ev, ?ev, ?ev]"] by (simp add: interested_def)
  then show ?thesis by (simp add: Let_def split_beta) (simp add: watch_def observer_new_def Let_def)
qed

end
