(* ===== verification/Event_Log.thy ===== *)
theory Event_Log
  imports Version_Vector
begin

text \<open>
  The event log (\<^verbatim>\<open>state/event_log.h\<close>, \<^verbatim>\<open>event_log.cpp\<close>). Pointers to entries are the entries. The lemmas show that
  sequence numbers increase along the log, that a query returns what its caller may lack, and that
  compaction removes nothing that a caller at or beyond the snapshot still needs.
\<close>

record log_entry =
  le_sequence :: u64
  le_path_hash :: u32
  le_crdt_type :: crdt_type
  le_version :: version_vector
  le_data :: bytes
  le_is_snapshot :: bool
  le_timestamp_us :: u32

record event_log =
  el_next_seq :: u64
  el_entries :: "log_entry list"
  el_max_entries :: nat

definition event_log_new :: event_log where
  "event_log_new = \<lparr>el_next_seq = 1, el_entries = [], el_max_entries = 10000\<rparr>"

definition log_append :: "log_entry \<Rightarrow> event_log \<Rightarrow> event_log \<times> u64" where
  "log_append entry l =
    (let seq = el_next_seq l
     in (l\<lparr>el_next_seq := seq + 1, el_entries := el_entries l @ [entry\<lparr>le_sequence := seq\<rparr>]\<rparr>, seq))"

definition append_delta ::
  "u32 \<Rightarrow> crdt_type \<Rightarrow> version_vector \<Rightarrow> bytes \<Rightarrow> u32 \<Rightarrow> event_log \<Rightarrow> event_log \<times> u64" where
  "append_delta path_hash crdt_type version data timestamp_us l =
     log_append \<lparr>le_sequence = 0, le_path_hash = path_hash, le_crdt_type = crdt_type, le_version = version,
       le_data = data, le_is_snapshot = False, le_timestamp_us = timestamp_us\<rparr> l"

definition append_snapshot ::
  "u32 \<Rightarrow> crdt_type \<Rightarrow> version_vector \<Rightarrow> bytes \<Rightarrow> u32 \<Rightarrow> event_log \<Rightarrow> event_log \<times> u64" where
  "append_snapshot path_hash crdt_type version data timestamp_us l =
     log_append \<lparr>le_sequence = 0, le_path_hash = path_hash, le_crdt_type = crdt_type, le_version = version,
       le_data = data, le_is_snapshot = True, le_timestamp_us = timestamp_us\<rparr> l"

definition entries_since :: "u32 \<Rightarrow> version_vector \<Rightarrow> event_log \<Rightarrow> log_entry list" where
  "entries_since path_hash since l =
     filter (\<lambda>e. le_path_hash e = path_hash \<and> \<not> vv_dominates since (le_version e)) (el_entries l)"

definition latest_snapshot :: "u32 \<Rightarrow> event_log \<Rightarrow> log_entry option" where
  "latest_snapshot path_hash l =
     fold (\<lambda>e latest. if le_path_hash e = path_hash \<and> le_is_snapshot e then Some e else latest) (el_entries l) None"

definition entries_for :: "u32 \<Rightarrow> event_log \<Rightarrow> log_entry list" where
  "entries_for path_hash l = filter (\<lambda>e. le_path_hash e = path_hash) (el_entries l)"

fun compact_loop :: "u32 \<Rightarrow> version_vector \<Rightarrow> log_entry list \<Rightarrow> log_entry list" where
  "compact_loop path_hash snapshot_version [] = []"
| "compact_loop path_hash snapshot_version (entry # rest) =
    (if le_path_hash entry = path_hash
     then if le_is_snapshot entry \<or> \<not> vv_dominates snapshot_version (le_version entry)
          then entry # compact_loop path_hash snapshot_version rest
          else compact_loop path_hash snapshot_version rest
     else entry # compact_loop path_hash snapshot_version rest)"

definition compact :: "u32 \<Rightarrow> version_vector \<Rightarrow> event_log \<Rightarrow> event_log \<times> nat" where
  "compact path_hash snapshot_version l =
    (let kept = compact_loop path_hash snapshot_version (el_entries l)
     in (l\<lparr>el_entries := kept\<rparr>, length (el_entries l) - length kept))"

definition latest_sequence :: "event_log \<Rightarrow> u64" where
  "latest_sequence l = el_next_seq l - 1"

definition set_max_entries :: "nat \<Rightarrow> event_log \<Rightarrow> event_log" where
  "set_max_entries n l = l\<lparr>el_max_entries := n\<rparr>"

definition needs_compaction :: "event_log \<Rightarrow> bool" where
  "needs_compaction l \<longleftrightarrow> length (el_entries l) > el_max_entries l"

subsection \<open>Invariant and compaction\<close>

definition log_ok :: "event_log \<Rightarrow> bool" where
  "log_ok l \<longleftrightarrow> sorted_wrt (<) (map le_sequence (el_entries l)) \<and>
     (\<forall>e \<in> set (el_entries l). le_sequence e < el_next_seq l \<and> um_ok (le_version e))"

lemma compact_loop_filter:
  "compact_loop h v es = filter (\<lambda>e. le_path_hash e = h \<longrightarrow> le_is_snapshot e \<or> \<not> vv_dominates v (le_version e)) es"
  by (induction es) auto

lemma sorted_wrt_filter_map: "sorted_wrt (<) (map f es) \<Longrightarrow> sorted_wrt (<) (map f (filter P es))"
  by (induction es) auto

lemma log_ok_append:
  assumes "log_ok l" and "el_next_seq l \<noteq> - 1" and "um_ok (le_version e)"
  shows "log_ok (fst (log_append e l))"
proof -
  have "el_next_seq l < el_next_seq l + 1"
    using assms(2) unatSuc [of "el_next_seq l"] by (auto simp: word_less_nat_alt add.commute add_eq_0_iff)
  with assms show ?thesis
    by (auto simp: log_ok_def log_append_def Let_def sorted_wrt_append intro: less_trans)
qed

lemma latest_snapshot_filter:
  "fold (\<lambda>e latest. if le_path_hash e = h \<and> le_is_snapshot e then Some e else latest) (compact_loop k v es) x =
   fold (\<lambda>e latest. if le_path_hash e = h \<and> le_is_snapshot e then Some e else latest) es x"
  by (induction es arbitrary: x) auto

text \<open>
  Compaction is safe. Compacting a path at a version keeps every entry that a caller whose version dominates the
  snapshot version would be sent, keeps the latest snapshot of every path and all entries of other paths, and
  returns the number of entries removed; the log stays well-formed.
\<close>

theorem compact_safe:
  assumes "log_ok l" and "um_ok v" and "vv_dominates since v"
  shows "let (l', n) = compact h v l
    in log_ok l' \<and> entries_since h since l' = entries_since h since l \<and>
       latest_snapshot k l' = latest_snapshot k l \<and> (k \<noteq> h \<longrightarrow> entries_for k l' = entries_for k l) \<and>
       length (el_entries l') + n = length (el_entries l)"
proof -
  have dom: "vv_dominates since (le_version e)" if "e \<in> set (el_entries l)" "vv_dominates v (le_version e)" for e
  proof -
    have "um_ok (le_version e)" using that(1) assms(1) by (simp add: log_ok_def)
    then show ?thesis
      using that(2) assms(3) by (auto simp: vv_dominates_iff [OF assms(2)] vv_dominates_iff intro: order.trans)
  qed
  have "filter (\<lambda>e. le_path_hash e = h \<and> \<not> vv_dominates since (le_version e)) (compact_loop h v (el_entries l)) =
      filter (\<lambda>e. le_path_hash e = h \<and> \<not> vv_dominates since (le_version e)) (el_entries l)"
    unfolding compact_loop_filter filter_filter by (rule filter_cong) (auto dest: dom)
  moreover have "k \<noteq> h \<Longrightarrow> filter (\<lambda>e. le_path_hash e = k) (compact_loop h v (el_entries l)) =
      filter (\<lambda>e. le_path_hash e = k) (el_entries l)"
    unfolding compact_loop_filter filter_filter by (rule filter_cong) auto
  moreover have "length (compact_loop h v (el_entries l)) \<le> length (el_entries l)"
    by (simp add: compact_loop_filter)
  moreover have "log_ok (l\<lparr>el_entries := compact_loop h v (el_entries l)\<rparr>)"
    using assms(1) by (simp add: log_ok_def compact_loop_filter sorted_wrt_filter_map)
  ultimately show ?thesis
    by (simp add: compact_def Let_def entries_since_def latest_snapshot_def entries_for_def latest_snapshot_filter)
qed

theorem compact_safe_witness:
  "let l = fst (append_delta 7 CRDT_LWW_REGISTER [(1, 2)] [9] 0 (fst (append_delta 7 CRDT_LWW_REGISTER [(1, 1)] [8] 0 event_log_new)));
       (l', n) = compact 7 [(1, 1)] l
   in length (el_entries l') = 1 \<and> n = 1 \<and> entries_since 7 [(1, 1)] l' = entries_since 7 [(1, 1)] l"
proof -
  let ?l1 = "fst (append_delta 7 CRDT_LWW_REGISTER [(1, 1)] [8] 0 event_log_new)"
  let ?l = "fst (append_delta 7 CRDT_LWW_REGISTER [(1, 2)] [9] 0 ?l1)"
  have "log_ok event_log_new" by (simp add: log_ok_def event_log_new_def)
  then have "log_ok ?l1" unfolding append_delta_def by (rule log_ok_append) (simp_all add: event_log_new_def)
  then have "log_ok ?l" unfolding append_delta_def
    by (rule log_ok_append) (simp_all add: event_log_new_def log_append_def Let_def)
  moreover have "vv_dominates [(1, 1)] [(1, 1)]" by code_simp
  ultimately have "entries_since 7 [(1, 1)] (fst (compact 7 [(1, 1)] ?l)) = entries_since 7 [(1, 1)] ?l"
    using compact_safe [of ?l "[(1, 1)]" "[(1, 1)]" 7 7] by (simp add: split_beta Let_def)
  moreover have "length (el_entries (fst (compact 7 [(1, 1)] ?l))) = 1" "snd (compact 7 [(1, 1)] ?l) = 1"
    by (simp_all add: compact_def append_delta_def log_append_def event_log_new_def vv_get_def Let_def)
  ultimately show ?thesis unfolding Let_def split_beta by blast
qed

end
