(* ===== verification/Ack_Tracker.thy ===== *)
theory Ack_Tracker
  imports Frames
begin

text \<open>
  Packet tracking (\<^verbatim>\<open>reliability/sequence.h\<close>, \<^verbatim>\<open>ack_tracker.h\<close>, \<^verbatim>\<open>ack_tracker.cpp\<close>): serial-number comparison, the
  sender's list of packets in flight, and the receiver's 256-bit window, a list of 32 bytes shifted in place.

  The lemmas show that the byte-level shift is the shift of the bit sequence, that the window is
  exactly the set of packets received within 256 of the largest, and what an acknowledgement does to the
  packets in flight, the packets that were lost included.
\<close>

definition seq_lt :: "u32 \<Rightarrow> u32 \<Rightarrow> bool" where
  "seq_lt a b \<longleftrightarrow> sint (a - b) < 0"

definition seq_le :: "u32 \<Rightarrow> u32 \<Rightarrow> bool" where
  "seq_le a b \<longleftrightarrow> a = b \<or> seq_lt a b"

definition seq_gt :: "u32 \<Rightarrow> u32 \<Rightarrow> bool" where
  "seq_gt a b \<longleftrightarrow> seq_lt b a"

definition seq_ge :: "u32 \<Rightarrow> u32 \<Rightarrow> bool" where
  "seq_ge a b \<longleftrightarrow> a = b \<or> seq_gt a b"

subsection \<open>Sender\<close>

record sent_packet_info =
  spi_packet_number :: u32
  spi_sent_timestamp_us :: u32
  spi_size :: u16
  spi_acked :: bool
  spi_retransmitted :: bool
  spi_retransmit_count :: u8

type_synonym send_tracker = "sent_packet_info list"

record sack_range =
  sack_start :: u32
  sack_end :: u32

definition on_packet_sent :: "u32 \<Rightarrow> u32 \<Rightarrow> u16 \<Rightarrow> send_tracker \<Rightarrow> send_tracker" where
  "on_packet_sent pkt_num timestamp_us sz s =
     s @ [\<lparr>spi_packet_number = pkt_num, spi_sent_timestamp_us = timestamp_us, spi_size = sz, spi_acked = False,
           spi_retransmitted = False, spi_retransmit_count = 0\<rparr>]"

fun find_sent :: "u32 \<Rightarrow> send_tracker \<Rightarrow> sent_packet_info option" where
  "find_sent pkt_num [] = None"
| "find_sent pkt_num (i # s) = (if spi_packet_number i = pkt_num then Some i else find_sent pkt_num s)"

text \<open>The first entry of a number becomes acknowledged.\<close>

fun ack_first :: "u32 \<Rightarrow> send_tracker \<Rightarrow> send_tracker" where
  "ack_first pkt_num [] = []"
| "ack_first pkt_num (i # s) =
     (if spi_packet_number i = pkt_num then i\<lparr>spi_acked := True\<rparr> # s else i # ack_first pkt_num s)"

definition ack_where :: "(u32 \<Rightarrow> bool) \<Rightarrow> send_tracker \<Rightarrow> send_tracker" where
  "ack_where P s = map (\<lambda>i. if P (spi_packet_number i) then i\<lparr>spi_acked := True\<rparr> else i) s"

text \<open>\<open>ranges = None\<close> is a null pointer; the first \<open>sack_range_count\<close> ranges are read.\<close>

definition on_ack_received ::
  "ack_frame \<Rightarrow> sack_range list option \<Rightarrow> u32 \<Rightarrow> send_tracker \<Rightarrow> send_tracker \<times> u32" where
  "on_ack_received ack ranges current_timestamp_us s =
    (let (s1, rtt_sample) =
       (case find_sent (ackf_largest_acked ack) s of
          None \<Rightarrow> (s, 0)
        | Some info \<Rightarrow>
            if spi_acked info then (s, 0)
            else
              let raw_rtt = current_timestamp_us - spi_sent_timestamp_us info
              in (ack_first (ackf_largest_acked ack) s,
                  if raw_rtt > ucast (ackf_ack_delay_us ack) then raw_rtt - ucast (ackf_ack_delay_us ack) else raw_rtt));
         s2 = ack_where (\<lambda>n. seq_le n (ackf_largest_acked ack)) s1;
         s3 = (case ranges of
                 None \<Rightarrow> s2
               | Some rs \<Rightarrow> fold (\<lambda>r. ack_where (\<lambda>n. seq_ge n (sack_start r) \<and> seq_le n (sack_end r)))
                   (take (unat (ackf_sack_range_count ack)) rs) s2)
     in (s3, rtt_sample))"

definition get_retransmit_candidates :: "u32 \<Rightarrow> u32 \<Rightarrow> send_tracker \<Rightarrow> u32 list" where
  "get_retransmit_candidates current_timestamp_us rto_us s =
     map spi_packet_number (filter (\<lambda>i. \<not> spi_acked i \<and> \<not> spi_retransmitted i \<and>
       current_timestamp_us - spi_sent_timestamp_us i \<ge> rto_us) s)"

fun send_gc :: "u32 \<Rightarrow> send_tracker \<Rightarrow> send_tracker" where
  "send_gc oldest_unacked [] = []"
| "send_gc oldest_unacked (i # s) =
     (if spi_acked i \<and> seq_lt (spi_packet_number i) oldest_unacked then send_gc oldest_unacked s else i # s)"

definition pending_count :: "send_tracker \<Rightarrow> nat" where
  "pending_count s = length (filter (\<lambda>i. \<not> spi_acked i) s)"

subsection \<open>Receiver\<close>

definition BITMAP_SIZE :: nat where "BITMAP_SIZE = 256"

record recv_tracker =
  rt_largest_received :: u32
  rt_has_received :: bool
  rt_bitmap :: bytes

definition recv_tracker_new :: recv_tracker where
  "recv_tracker_new = \<lparr>rt_largest_received = 0, rt_has_received = False, rt_bitmap = replicate 32 0\<rparr>"

definition set_bit_recv :: "u32 \<Rightarrow> recv_tracker \<Rightarrow> recv_tracker" where
  "set_bit_recv pkt_num t =
    (if \<not> rt_has_received t then t
     else if seq_gt pkt_num (rt_largest_received t) then t
     else
       let offset = unat (rt_largest_received t - pkt_num) in
       if offset \<ge> BITMAP_SIZE then t
       else t\<lparr>rt_bitmap := (rt_bitmap t)[offset div 8 := (rt_bitmap t ! (offset div 8)) OR push_bit (offset mod 8) 1]\<rparr>)"

definition get_bit_recv :: "u32 \<Rightarrow> recv_tracker \<Rightarrow> bool" where
  "get_bit_recv pkt_num t =
    (if \<not> rt_has_received t then False
     else if seq_gt pkt_num (rt_largest_received t) then False
     else
       let offset = unat (rt_largest_received t - pkt_num) in
       if offset \<ge> BITMAP_SIZE then False
       else (rt_bitmap t ! (offset div 8)) AND push_bit (offset mod 8) 1 \<noteq> 0)"

text \<open>
  The carry loop runs from the last byte to the first and reads only bytes at or before the one it
  writes, so every byte it reads still has its old value.
\<close>

fun carry_loop :: "nat \<Rightarrow> nat \<Rightarrow> nat \<Rightarrow> bytes \<Rightarrow> bytes" where
  "carry_loop 0 byte_shift bit_shift bm = bm"
| "carry_loop (Suc i) byte_shift bit_shift bm =
    (let val = (if i \<ge> byte_shift
                then let src_byte = i - byte_shift;
                         v = push_bit bit_shift (bm ! src_byte)
                     in if src_byte > 0 then v OR drop_bit (8 - bit_shift) (bm ! (src_byte - 1)) else v
                else 0)
     in carry_loop i byte_shift bit_shift (bm[i := val]))"

definition shift_bitmap :: "nat \<Rightarrow> bytes \<Rightarrow> bytes" where
  "shift_bitmap shift bm =
    (if shift \<ge> BITMAP_SIZE then replicate 32 0
     else
       let byte_shift = shift div 8; bit_shift = shift mod 8
       in if bit_shift = 0
          then put_bytes (put_bytes bm byte_shift (take (BITMAP_SIZE div 8 - byte_shift) bm)) 0 (replicate byte_shift 0)
          else carry_loop (BITMAP_SIZE div 8) byte_shift bit_shift bm)"

definition on_packet_received :: "u32 \<Rightarrow> recv_tracker \<Rightarrow> recv_tracker" where
  "on_packet_received pkt_num t =
    (if \<not> rt_has_received t
     then set_bit_recv pkt_num (t\<lparr>rt_largest_received := pkt_num, rt_has_received := True, rt_bitmap := replicate 32 0\<rparr>)
     else if seq_gt pkt_num (rt_largest_received t)
     then set_bit_recv pkt_num
            (t\<lparr>rt_bitmap := shift_bitmap (unat (pkt_num - rt_largest_received t)) (rt_bitmap t),
               rt_largest_received := pkt_num\<rparr>)
     else set_bit_recv pkt_num t)"

definition is_duplicate :: "u32 \<Rightarrow> recv_tracker \<Rightarrow> bool" where
  "is_duplicate pkt_num t = (if \<not> rt_has_received t then False else get_bit_recv pkt_num t)"

record ack_scan_state =
  as_ranges :: "sack_range list"
  as_in_range :: bool
  as_range_start :: u32

definition scan_step :: "recv_tracker \<Rightarrow> nat \<Rightarrow> ack_scan_state \<Rightarrow> ack_scan_state" where
  "scan_step t i a =
    (let pkt = rt_largest_received t - of_nat i;
         received = get_bit_recv pkt t
     in if received \<and> \<not> as_in_range a then a\<lparr>as_range_start := pkt, as_in_range := True\<rparr>
        else if \<not> received \<and> as_in_range a
        then a\<lparr>as_ranges := as_ranges a @ [\<lparr>sack_start = pkt + 1, sack_end = as_range_start a\<rparr>], as_in_range := False\<rparr>
        else a)"

fun scan_loop :: "recv_tracker \<Rightarrow> nat list \<Rightarrow> ack_scan_state \<Rightarrow> ack_scan_state" where
  "scan_loop t [] a = a"
| "scan_loop t (i # is) a = (if length (as_ranges a) < 4 then scan_loop t is (scan_step t i a) else a)"

definition build_ack :: "u32 \<Rightarrow> recv_tracker \<Rightarrow> ack_frame \<times> sack_range list" where
  "build_ack ack_delay_us t =
    (let delay = (if ack_delay_us > 0xFFFF then 0xFFFF else ucast ack_delay_us) in
     if \<not> rt_has_received t
     then (\<lparr>ackf_largest_acked = rt_largest_received t, ackf_ack_delay_us = delay, ackf_sack_range_count = 0\<rparr>, [])
     else
       let a = scan_loop t [1..<BITMAP_SIZE] \<lparr>as_ranges = [], as_in_range = False, as_range_start = 0\<rparr>;
           rs = (if as_in_range a \<and> as_ranges a \<noteq> []
                 then butlast (as_ranges a) @ [(last (as_ranges a))\<lparr>sack_start := rt_largest_received t - of_nat (BITMAP_SIZE - 1)\<rparr>]
                 else as_ranges a)
       in (\<lparr>ackf_largest_acked = rt_largest_received t, ackf_ack_delay_us = delay,
             ackf_sack_range_count = of_nat (length rs)\<rparr>, rs))"

subsection \<open>The bit window\<close>

definition bit_at :: "bytes \<Rightarrow> nat \<Rightarrow> bool" where
  "bit_at bm i \<longleftrightarrow> bit (bm ! (i div 8)) (i mod 8)"

lemma carry_loop_spec:
  "n \<le> length bm \<Longrightarrow> length (carry_loop n bs k bm) = length bm \<and>
   (\<forall>j < length bm. carry_loop n bs k bm ! j =
     (if j < n then if j \<ge> bs
        then if j - bs > 0 then push_bit k (bm ! (j - bs)) OR drop_bit (8 - k) (bm ! (j - bs - 1)) else push_bit k (bm ! (j - bs))
        else 0
      else bm ! j))"
proof (induction n arbitrary: bm)
  case (Suc i)
  let ?v = "if i \<ge> bs then if i - bs > 0 then push_bit k (bm ! (i - bs)) OR drop_bit (8 - k) (bm ! (i - bs - 1))
      else push_bit k (bm ! (i - bs)) else 0"
  have step: "carry_loop (Suc i) bs k bm = carry_loop i bs k (bm[i := ?v])" by (simp add: Let_def)
  have IH: "length (carry_loop i bs k (bm[i := ?v])) = length bm" "\<forall>j < length bm. carry_loop i bs k (bm[i := ?v]) ! j =
     (if j < i then if j \<ge> bs
        then if j - bs > 0 then push_bit k (bm[i := ?v] ! (j - bs)) OR drop_bit (8 - k) (bm[i := ?v] ! (j - bs - 1))
          else push_bit k (bm[i := ?v] ! (j - bs))
        else 0
      else bm[i := ?v] ! j)"
    using Suc.IH [of "bm[i := ?v]"] Suc.prems by simp_all
  show ?case unfolding step using IH Suc.prems by (auto simp: nth_list_update less_Suc_eq)
qed simp

lemma div_mod_8: "(8 * q + r) div 8 = q" "(8 * q + r) mod 8 = r" if "r < 8" for q r :: nat
  using that by simp_all

lemma shift_bitmap_bits:
  assumes "length bm = 32" and "i < 256" and "s < 256"
  shows "bit_at (shift_bitmap s bm) i \<longleftrightarrow> s \<le> i \<and> bit_at bm (i - s)"
proof -
  define j b bs k where "j = i div 8" and "b = i mod 8" and "bs = s div 8" and "k = s mod 8"
  have i: "i = 8 * j + b" "b < 8" and s: "s = 8 * bs + k" "k < 8" by (simp_all add: j_def b_def bs_def k_def)
  have jl: "j < 32" "bs < 32" using assms(2,3) i s by auto
  show ?thesis
  proof (cases "k = 0")
    case True
    have "shift_bitmap s bm = replicate bs 0 @ take (32 - bs) bm"
      using True assms(1,3) jl
      by (simp add: shift_bitmap_def BITMAP_SIZE_def Let_def put_bytes_def min_def flip: bs_def k_def)
    then have "bit_at (shift_bitmap s bm) i \<longleftrightarrow> bs \<le> j \<and> bit (bm ! (j - bs)) b"
      using jl assms(1) by (auto simp: bit_at_def nth_append simp flip: j_def b_def)
    moreover have "i - s = 8 * (j - bs) + b" if "bs \<le> j" using that True i s by simp
    moreover have "s \<le> i \<longleftrightarrow> bs \<le> j" using True i s by auto
    ultimately show ?thesis using i(2) by (auto simp: bit_at_def div_mod_8)
  next
    case False
    have "shift_bitmap s bm = carry_loop 32 bs k bm"
      using False assms(3) by (simp add: shift_bitmap_def BITMAP_SIZE_def Let_def flip: bs_def k_def)
    then have v: "shift_bitmap s bm ! j = (if j \<ge> bs
        then if j - bs > 0 then push_bit k (bm ! (j - bs)) OR drop_bit (8 - k) (bm ! (j - bs - 1)) else push_bit k (bm ! (j - bs))
        else 0)"
      using carry_loop_spec [of 32 bm bs k] assms(1) jl(1) by simp
    have l: "bit_at (shift_bitmap s bm) i \<longleftrightarrow> bit (shift_bitmap s bm ! j) b" by (simp add: bit_at_def j_def b_def)
    consider (lt) "j < bs" | (hi) "bs \<le> j" "k \<le> b" | (carry) "bs < j" "b < k" | (out) "j = bs" "b < k" by linarith
    then show ?thesis
    proof cases
      case lt
      then have "\<not> s \<le> i" using i s by auto
      with lt show ?thesis by (simp add: l v)
    next
      case hi
      then have "i - s = 8 * (j - bs) + (b - k)" "s \<le> i" using i s by auto
      with div_mod_8 [of "b - k" "j - bs"] i(2) have d: "(i - s) div 8 = j - bs" "(i - s) mod 8 = b - k" "s \<le> i"
        by simp_all
      have "\<not> bit (drop_bit (8 - k) (w :: u8)) b" for w using hi(2) i(2) s(2) by (simp add: bit_simps)
      then show ?thesis using hi i(2) d by (simp add: l v bit_simps bit_at_def [of bm])
    next
      case carry
      then have "i - s = 8 * (j - bs - 1) + (8 + b - k)" "s \<le> i" using i s by auto
      with div_mod_8 [of "8 + b - k" "j - bs - 1"] carry s(2) False
      have d: "(i - s) div 8 = j - bs - 1" "(i - s) mod 8 = 8 + b - k" "s \<le> i" by simp_all
      with carry show ?thesis using i(2) s(2) False by (simp add: l v bit_simps bit_at_def [of bm])
    next
      case out
      then have "\<not> s \<le> i" using i s by auto
      with out v show ?thesis by (simp add: l bit_simps)
    qed
  qed
qed

lemma length_shift_bitmap: "length bm = 32 \<Longrightarrow> length (shift_bitmap s bm) = 32"
  using carry_loop_spec [of 32 bm "s div 8" "s mod 8"]
  by (simp add: shift_bitmap_def BITMAP_SIZE_def Let_def put_bytes_def)

lemma sint_neg_iff: "sint (w :: u32) < 0 \<longleftrightarrow> 2 ^ 31 \<le> unat w"
proof -
  have "sint w < 0 \<longleftrightarrow> bit w 31"
    by (simp add: sint_uint signed_take_bit_negative_iff bit_uint_iff)
  also have "\<dots> \<longleftrightarrow> odd (unat w div 2 ^ 31)"
  proof -
    have "bit (unat w) 31 \<longleftrightarrow> bit w 31" by (simp add: bit_unsigned_iff)
    then show ?thesis by (simp add: bit_iff_odd [of "unat w"])
  qed
  also have "\<dots> \<longleftrightarrow> 2 ^ 31 \<le> unat w"
  proof -
    have "unat w < 2 ^ 32" using unsigned_less [of w] by simp
    then have "unat w div 2 ^ 31 < 2" by (simp add: less_mult_imp_div_less)
    then have "unat w div 2 ^ 31 = 0 \<or> unat w div 2 ^ 31 = 1" by linarith
    then show ?thesis by (auto simp: div_eq_0_iff)
  qed
  finally show ?thesis .
qed

lemma seq_lt_unat: "seq_lt a b \<longleftrightarrow> 2 ^ 31 \<le> unat (a - b)"
  by (simp add: seq_lt_def sint_neg_iff)

lemma get_bit_window:
  "get_bit_recv p t \<longleftrightarrow> rt_has_received t \<and> unat (rt_largest_received t - p) < 256 \<and>
     bit_at (rt_bitmap t) (unat (rt_largest_received t - p))"
  by (auto simp: get_bit_recv_def seq_gt_def seq_lt_unat BITMAP_SIZE_def Let_def bit_at_def and_exp_eq_0_iff_not_bit
      push_bit_of_1)

lemma set_bit_window:
  assumes "length (rt_bitmap t) = 32" and "rt_has_received t" and "j < 256"
  shows "bit_at (rt_bitmap (set_bit_recv p t)) j \<longleftrightarrow>
    bit_at (rt_bitmap t) j \<or> j = unat (rt_largest_received t - p)"
proof -
  let ?o = "unat (rt_largest_received t - p)"
  have "bit_at (bm[?o div 8 := (bm ! (?o div 8)) OR push_bit (?o mod 8) 1]) j \<longleftrightarrow> bit_at bm j \<or> j = ?o"
    if "length bm = 32" "?o < 256" for bm :: bytes
  proof (cases "j div 8 = ?o div 8")
    case True
    then have "j = ?o \<longleftrightarrow> j mod 8 = ?o mod 8" by (metis div_mult_mod_eq)
    moreover have "?o div 8 < 32" using that(2) by auto
    ultimately show ?thesis using True that by (auto simp: bit_at_def bit_simps)
  next
    case False
    then show ?thesis using that by (auto simp: bit_at_def)
  qed
  with assms show ?thesis
    by (auto simp: set_bit_recv_def seq_gt_def seq_lt_unat BITMAP_SIZE_def Let_def)
qed

definition recv_ok :: "recv_tracker \<Rightarrow> bool" where
  "recv_ok t \<longleftrightarrow> length (rt_bitmap t) = 32"

lemma set_bit_fields [simp]:
  "rt_largest_received (set_bit_recv p t) = rt_largest_received t"
  "rt_has_received (set_bit_recv p t) = rt_has_received t"
  "length (rt_bitmap (set_bit_recv p t)) = length (rt_bitmap t)"
  by (simp_all add: set_bit_recv_def Let_def)

lemma seq_gt_distance:
  assumes "seq_gt p l"
  shows "0 < unat (p - l)" and "unat (p - l) \<le> 2 ^ 31"
proof -
  have ge: "2 ^ 31 \<le> unat (l - p)" using assms by (simp add: seq_gt_def seq_lt_unat)
  have lt: "unat (l - p) < 2 ^ 32" using unsigned_less [of "l - p"] by simp
  have "unat (p - l) = unat (0 - (l - p))" by simp
  also have "\<dots> = 2 ^ 32 - unat (l - p)"
    using ge unat_sub_if_size [of 0 "l - p"] by (simp add: word_size)
  finally show "0 < unat (p - l)" "unat (p - l) \<le> 2 ^ 31" using lt ge by simp_all
qed

text \<open>
  C24. Duplicate detection. The 256-bit window is exactly a set of packet numbers: after a packet is received, a number counts as
  already received if and only if it lies within 256 of the largest number seen, going backwards with
  wrap-around, and is that packet or counted before. The largest number only moves forward.
\<close>

theorem recv_window_spec:
  assumes "recv_ok t"
  shows "let t' = on_packet_received p t
    in recv_ok t' \<and> rt_has_received t' \<and>
       rt_largest_received t' = (if rt_has_received t \<and> \<not> seq_gt p (rt_largest_received t) then rt_largest_received t else p) \<and>
       (is_duplicate q t' \<longleftrightarrow> unat (rt_largest_received t' - q) < 256 \<and> (q = p \<or> is_duplicate q t))"
proof -
  have dup: "is_duplicate r u \<longleftrightarrow> get_bit_recv r u" for r u by (simp add: is_duplicate_def get_bit_recv_def)
  let ?L = "rt_largest_received t"
  consider (first) "\<not> rt_has_received t" | (new) "rt_has_received t" "seq_gt p ?L" | (old) "rt_has_received t" "\<not> seq_gt p ?L"
    by blast
  then show ?thesis
  proof cases
    case first
    let ?t = "t\<lparr>rt_largest_received := p, rt_has_received := True, rt_bitmap := replicate 32 0\<rparr>"
    have "\<not> bit_at (replicate 32 0) j" if "j < 256" for j using that by (simp add: bit_at_def)
    moreover have "unat (p - q) = 0 \<longleftrightarrow> q = p" by (auto simp: unat_eq_zero)
    ultimately show ?thesis
      using first set_bit_window [of ?t "unat (p - q)" p]
      by (auto simp: on_packet_received_def recv_ok_def dup get_bit_window Let_def)
  next
    case new
    define s n where "s = unat (p - ?L)" and "n = unat (p - q)"
    let ?t = "t\<lparr>rt_bitmap := shift_bitmap s (rt_bitmap t), rt_largest_received := p\<rparr>"
    have t': "on_packet_received p t = set_bit_recv p ?t" using new by (simp add: on_packet_received_def s_def)
    have s: "0 < s" "s \<le> 2 ^ 31" using seq_gt_distance [OF new(2)] by (simp_all add: s_def)
    have "?L - q = (p - q) - (p - ?L)" by simp
    then have m: "unat (?L - q) = (if s \<le> n then n - s else n + 2 ^ 32 - s)"
      using unat_sub_if_size [of "p - q" "p - ?L"] by (simp add: word_size s_def n_def)
    have old: "get_bit_recv q t \<longleftrightarrow> s \<le> n \<and> bit_at (rt_bitmap t) (n - s)" if "n < 256"
      using that s new(1) by (auto simp: get_bit_window m)
    have sh: "bit_at (shift_bitmap s (rt_bitmap t)) n \<longleftrightarrow> s \<le> n \<and> bit_at (rt_bitmap t) (n - s)" if "n < 256"
    proof (cases "s < 256")
      case True
      then show ?thesis using shift_bitmap_bits [of "rt_bitmap t" n s] assms that by (simp add: recv_ok_def)
    next
      case False
      then show ?thesis using that by (simp add: shift_bitmap_def BITMAP_SIZE_def bit_at_def)
    qed
    have "n = 0 \<longleftrightarrow> q = p" by (auto simp: n_def unat_eq_zero)
    with new old sh set_bit_window [of ?t n p] assms show ?thesis
      by (auto simp: t' recv_ok_def dup get_bit_window length_shift_bitmap Let_def simp flip: n_def)
  next
    case old
    have "unat (?L - q) = unat (?L - p) \<longleftrightarrow> q = p"
      by (simp add: word_unat_eq_iff [symmetric])
    with old set_bit_window [of t "unat (?L - q)" p] assms show ?thesis
      by (auto simp: on_packet_received_def recv_ok_def dup get_bit_window Let_def)
  qed
qed

theorem recv_window_spec_witness:
  "let t = on_packet_received 5 recv_tracker_new
   in rt_largest_received t = 5 \<and> is_duplicate 5 t \<and> \<not> is_duplicate 4 t"
proof -
  have ok: "recv_ok recv_tracker_new" by (simp add: recv_ok_def recv_tracker_new_def)
  have none: "rt_has_received recv_tracker_new = False" "\<not> is_duplicate 4 recv_tracker_new"
    by (simp_all add: recv_tracker_new_def is_duplicate_def)
  show ?thesis
    using recv_window_spec [OF ok, of 5 5] recv_window_spec [OF ok, of 5 4] by (simp add: Let_def none)
qed

subsection \<open>What an acknowledgement does\<close>

lemma ack_first_where:
  "P n \<Longrightarrow> ack_where P (ack_first n s) = ack_where P s"
  by (induction n s rule: ack_first.induct) (auto simp: ack_where_def)

lemma ack_where_ack_where: "ack_where P (ack_where Q s) = ack_where (\<lambda>n. P n \<or> Q n) s"
  by (simp add: ack_where_def)

lemma fold_ack_where: "fold (\<lambda>r. ack_where (P r)) rs s = ack_where (\<lambda>n. \<exists>r \<in> set rs. P r n) s"
proof (induction rs arbitrary: s)
  case Nil
  then show ?case by (simp add: ack_where_def)
next
  case (Cons r rs)
  have "fold (\<lambda>r. ack_where (P r)) (r # rs) s = ack_where (\<lambda>n. (\<exists>x \<in> set rs. P x n) \<or> P r n) s"
    by (simp add: Cons ack_where_ack_where)
  also have "(\<lambda>n. (\<exists>x \<in> set rs. P x n) \<or> P r n) = (\<lambda>n. \<exists>x \<in> set (r # rs). P x n)" by auto
  finally show ?case .
qed

definition covered :: "ack_frame \<Rightarrow> sack_range list option \<Rightarrow> u32 \<Rightarrow> bool" where
  "covered ack ranges n \<longleftrightarrow> seq_le n (ackf_largest_acked ack) \<or>
     (\<exists>rs. ranges = Some rs \<and> (\<exists>r \<in> set (take (unat (ackf_sack_range_count ack)) rs). seq_ge n (sack_start r) \<and> seq_le n (sack_end r)))"

lemma on_ack_received_where:
  "fst (on_ack_received ack ranges now s) = ack_where (covered ack ranges) s"
proof -
  let ?P = "\<lambda>n. seq_le n (ackf_largest_acked ack)"
  have l: "?P (ackf_largest_acked ack)" by (simp add: seq_le_def)
  have "fst (on_ack_received ack ranges now s) = (case ranges of None \<Rightarrow> ack_where ?P s
      | Some rs \<Rightarrow> fold (\<lambda>r. ack_where (\<lambda>n. seq_ge n (sack_start r) \<and> seq_le n (sack_end r)))
          (take (unat (ackf_sack_range_count ack)) rs) (ack_where ?P s))"
    by (auto simp: on_ack_received_def Let_def ack_first_where [of ?P, OF l] split: option.splits)
  also have "\<dots> = ack_where (covered ack ranges) s"
    by (cases ranges)
      (simp_all add: fold_ack_where ack_where_ack_where covered_def [abs_def] disj_commute)
  finally show ?thesis .
qed

text \<open>
  A lost packet is never retransmitted. The receiver acknowledges the largest number it has seen even when packets before
  it are missing, and the sender takes everything up to that number as delivered: after the acknowledgement of a
  receiver that misses packet \<open>p\<close>, no entry of \<open>p\<close> is pending and \<open>p\<close> is not a candidate for retransmission, at any
  time and for any timeout.
\<close>

theorem lost_packet_not_retransmitted:
  assumes "rt_has_received t" and "seq_lt p (rt_largest_received t)" and "\<not> is_duplicate p t"
  shows "let (ack, ranges) = build_ack d t; (s', rtt) = on_ack_received ack (Some ranges) now s
    in (\<forall>i \<in> set s'. spi_packet_number i = p \<longrightarrow> spi_acked i) \<and>
       p \<notin> set (get_retransmit_candidates later rto s')"
proof -
  obtain ack ranges where b: "build_ack d t = (ack, ranges)" by fastforce
  have "ackf_largest_acked ack = rt_largest_received t"
    using b assms(1) by (auto simp: build_ack_def Let_def)
  then have "covered ack (Some ranges) p" using assms(2) by (simp add: covered_def seq_le_def)
  then have "\<forall>i \<in> set (fst (on_ack_received ack (Some ranges) now s)). spi_packet_number i = p \<longrightarrow> spi_acked i"
    by (auto simp: on_ack_received_where ack_where_def)
  then show ?thesis by (auto simp: b Let_def split_beta get_retransmit_candidates_def)
qed

theorem lost_packet_not_retransmitted_witness:
  "let t = \<lparr>rt_largest_received = 7, rt_has_received = True, rt_bitmap = [1] @ replicate 31 0\<rparr>;
       s = on_packet_sent 7 20 100 (on_packet_sent 6 10 100 []);
       (ack, ranges) = build_ack 0 t; (s', rtt) = on_ack_received ack (Some ranges) 50 s
   in \<not> is_duplicate 6 t \<and> 6 \<notin> set (get_retransmit_candidates 1000000 100 s')"
proof -
  let ?t = "\<lparr>rt_largest_received = 7, rt_has_received = True, rt_bitmap = [1] @ replicate 31 0\<rparr>"
  have h: "rt_has_received ?t" "seq_lt 6 (rt_largest_received ?t)" "\<not> is_duplicate 6 ?t"
    by (simp_all add: seq_lt_def is_duplicate_def get_bit_recv_def seq_gt_def BITMAP_SIZE_def Let_def)
  from lost_packet_not_retransmitted [OF h, of 0 50 "on_packet_sent 7 20 100 (on_packet_sent 6 10 100 [])" 1000000 100] h(3)
  show ?thesis unfolding Let_def split_beta by blast
qed

subsection \<open>Selective acknowledgements\<close>

text \<open>
  A range built by the scan covers a run of received packets, at distances \<open>e\<close> to \<open>j - 1\<close> behind the
  largest, and the packet at distance \<open>j\<close> is missing.
\<close>

definition run_range :: "recv_tracker \<Rightarrow> nat \<Rightarrow> nat \<Rightarrow> sack_range \<Rightarrow> bool" where
  "run_range t e j r \<longleftrightarrow> 1 \<le> e \<and> e < j \<and> j < 256 \<and>
     r = \<lparr>sack_start = rt_largest_received t - of_nat j + 1, sack_end = rt_largest_received t - of_nat e\<rparr> \<and>
     \<not> get_bit_recv (rt_largest_received t - of_nat j) t \<and>
     (\<forall>k. e \<le> k \<and> k < j \<longrightarrow> get_bit_recv (rt_largest_received t - of_nat k) t)"

definition scan_inv :: "recv_tracker \<Rightarrow> nat \<Rightarrow> ack_scan_state \<Rightarrow> bool" where
  "scan_inv t i a \<longleftrightarrow> (\<forall>r \<in> set (as_ranges a). \<exists>e j. run_range t e j r) \<and>
     (as_in_range a \<longrightarrow> (\<exists>e. 1 \<le> e \<and> e < i \<and> as_range_start a = rt_largest_received t - of_nat e \<and>
        (\<forall>k. e \<le> k \<and> k < i \<longrightarrow> get_bit_recv (rt_largest_received t - of_nat k) t)))"

lemma scan_step_inv:
  assumes "scan_inv t i a" and "1 \<le> i" and "i < 256"
  shows "scan_inv t (Suc i) (scan_step t i a)"
proof -
  let ?g = "\<lambda>k. get_bit_recv (rt_largest_received t - of_nat k) t"
  consider (start) "?g i" "\<not> as_in_range a" | (stop) "\<not> ?g i" "as_in_range a" | (in_run) "?g i" "as_in_range a"
    | (gap) "\<not> ?g i" "\<not> as_in_range a" by blast
  then show ?thesis
  proof cases
    case start
    have "\<forall>k. i \<le> k \<and> k < Suc i \<longrightarrow> ?g k" using start(1) by (auto simp: less_Suc_eq_le le_antisym)
    with assms start show ?thesis by (auto simp: scan_inv_def scan_step_def Let_def)
  next
    case stop
    then obtain e where e: "1 \<le> e" "e < i" "as_range_start a = rt_largest_received t - of_nat e" "\<forall>k. e \<le> k \<and> k < i \<longrightarrow> ?g k"
      using assms(1) by (auto simp: scan_inv_def)
    have "run_range t e i \<lparr>sack_start = rt_largest_received t - of_nat i + 1, sack_end = as_range_start a\<rparr>"
      using e stop(1) assms(3) by (simp add: run_range_def)
    with assms stop show ?thesis by (auto simp: scan_inv_def scan_step_def Let_def)
  next
    case in_run
    then obtain e where e: "1 \<le> e" "e < i" "as_range_start a = rt_largest_received t - of_nat e" "\<forall>k. e \<le> k \<and> k < i \<longrightarrow> ?g k"
      using assms(1) by (auto simp: scan_inv_def)
    then have "\<forall>k. e \<le> k \<and> k < Suc i \<longrightarrow> ?g k" using in_run(1) by (metis less_SucE)
    moreover have "scan_step t i a = a" using in_run by (simp add: scan_step_def Let_def)
    ultimately show ?thesis using assms(1) e by (auto simp: scan_inv_def intro: less_SucI)
  next
    case gap
    then show ?thesis using assms(1) by (simp add: scan_inv_def scan_step_def Let_def)
  qed
qed

lemma scan_loop_inv:
  "scan_inv t i a \<Longrightarrow> 1 \<le> i \<Longrightarrow> \<exists>k. scan_inv t k (scan_loop t [i..<256] a)"
proof (induction "256 - i" arbitrary: i a)
  case (Suc n)
  then have i: "i < 256" by simp
  then have u: "[i..<256] = i # [Suc i..<256]" by (simp add: upt_conv_Cons)
  show ?case
  proof (cases "length (as_ranges a) < 4")
    case True
    then show ?thesis
      using Suc.hyps(1) [of "Suc i" "scan_step t i a"] Suc.hyps(2) scan_step_inv [OF Suc.prems i] Suc.prems(2)
      by (simp add: u)
  next
    case False
    then show ?thesis using Suc.prems by (auto simp: u)
  qed
qed auto

text \<open>The range in the middle of which the scan stopped, after it was stretched to the end of the window.\<close>

lemma stretched_covers_missing:
  assumes "run_range t e j r"
  shows "seq_ge (rt_largest_received t - of_nat j) (rt_largest_received t - of_nat 255) \<and>
    seq_le (rt_largest_received t - of_nat j) (sack_end r)"
proof -
  let ?L = "rt_largest_received t"
  have e: "1 \<le> e" "e < j" "j < 256" "sack_end r = ?L - of_nat e" using assms by (auto simp: run_range_def)
  have d: "unat (of_nat m - of_nat n :: u32) = 2 ^ 32 + m - n" if "m < n" "n < 256" for m n :: nat
    using that unat_sub_if_size [of "of_nat m :: u32" "of_nat n"]
    by (simp add: word_size unat_of_nat take_bit_nat_eq_self)
  have "(?L - of_nat j) - (?L - of_nat e) = of_nat e - (of_nat j :: u32)" by simp
  then have "2 ^ 31 \<le> unat ((?L - of_nat j) - sack_end r)" using d [of e j] e by simp
  then have "seq_le (?L - of_nat j) (sack_end r)" by (simp add: seq_le_def seq_lt_unat)
  moreover have "seq_ge (?L - of_nat j) (?L - of_nat 255)"
  proof (cases "j = 255")
    case False
    have "(?L - of_nat 255) - (?L - of_nat j) = of_nat j - (of_nat 255 :: u32)" by simp
    then show ?thesis
      using d [of j 255] e False by (simp add: seq_ge_def seq_gt_def seq_lt_unat del: of_nat_numeral)
  qed (simp add: seq_ge_def)
  ultimately show ?thesis by blast
qed

text \<open>
  Selective acknowledgements. When the scan of the window ends outside a run of received packets, every range of the
  acknowledgement is a maximal run of received packets. When it ends inside a run, the last range is stretched to
  the end of the window and covers a packet that was not received.
\<close>

theorem sack_ranges_spec:
  assumes "rt_has_received t"
  shows "let a = scan_loop t [1..<BITMAP_SIZE] \<lparr>as_ranges = [], as_in_range = False, as_range_start = 0\<rparr>;
             rs = snd (build_ack d t)
    in (\<not> as_in_range a \<longrightarrow> (\<forall>r \<in> set rs. \<exists>e j. run_range t e j r)) \<and>
       (as_in_range a \<and> as_ranges a \<noteq> [] \<longrightarrow>
          (\<exists>p. \<not> is_duplicate p t \<and> seq_ge p (sack_start (last rs)) \<and> seq_le p (sack_end (last rs))))"
proof -
  let ?a = "scan_loop t [1..<BITMAP_SIZE] \<lparr>as_ranges = [], as_in_range = False, as_range_start = 0\<rparr>"
  obtain k where inv: "scan_inv t k ?a"
    using scan_loop_inv [of t 1 "\<lparr>as_ranges = [], as_in_range = False, as_range_start = 0\<rparr>"]
    by (auto simp: scan_inv_def BITMAP_SIZE_def)
  have rs: "snd (build_ack d t) = (if as_in_range ?a \<and> as_ranges ?a \<noteq> []
      then butlast (as_ranges ?a) @ [(last (as_ranges ?a))\<lparr>sack_start := rt_largest_received t - of_nat (BITMAP_SIZE - 1)\<rparr>]
      else as_ranges ?a)"
    using assms by (simp add: build_ack_def Let_def)
  have "\<exists>p. \<not> is_duplicate p t \<and> seq_ge p (sack_start (last (snd (build_ack d t)))) \<and> seq_le p (sack_end (last (snd (build_ack d t))))"
    if ir: "as_in_range ?a" and ne: "as_ranges ?a \<noteq> []"
  proof -
    obtain e j where r: "run_range t e j (last (as_ranges ?a))"
      using inv last_in_set [OF ne] by (auto simp: scan_inv_def)
    then have "\<not> is_duplicate (rt_largest_received t - of_nat j) t"
      by (simp add: run_range_def is_duplicate_def)
    moreover have "last (snd (build_ack d t)) = (last (as_ranges ?a))\<lparr>sack_start := rt_largest_received t - of_nat 255\<rparr>"
      using ir ne by (simp only: rs) (simp add: BITMAP_SIZE_def)
    ultimately show ?thesis
      using stretched_covers_missing [OF r] by (intro exI [of _ "rt_largest_received t - of_nat j"]) simp
  qed
  moreover have "\<not> as_in_range ?a \<longrightarrow> (\<forall>r \<in> set (snd (build_ack d t)). \<exists>e j. run_range t e j r)"
    using inv by (auto simp: rs scan_inv_def)
  ultimately show ?thesis unfolding Let_def by blast
qed

lemma scan_run:
  "\<forall>i \<in> set is. get_bit_recv (rt_largest_received t - of_nat i) t \<Longrightarrow> as_in_range a \<Longrightarrow> scan_loop t is a = a"
  by (induction "is" arbitrary: a) (auto simp: scan_step_def Let_def)

lemma scan_one_gap:
  assumes g: "\<And>k. k < n \<Longrightarrow> get_bit_recv (rt_largest_received t - of_nat k) t \<longleftrightarrow> k \<noteq> 2" and n: "4 \<le> n"
  shows "scan_loop t (1 # 2 # 3 # [4..<n]) \<lparr>as_ranges = [], as_in_range = False, as_range_start = 0\<rparr> =
    scan_step t 3 (scan_step t 2 (scan_step t 1 \<lparr>as_ranges = [], as_in_range = False, as_range_start = 0\<rparr>))"
proof -
  have "\<forall>i \<in> set [4..<n]. get_bit_recv (rt_largest_received t - of_nat i) t" using g by simp
  then show ?thesis using g [of 1] g [of 2] g [of 3] n scan_run [of "[4..<n]" t] by (simp add: scan_step_def Let_def)
qed

theorem sack_ranges_spec_witness:
  "let t = \<lparr>rt_largest_received = 1000, rt_has_received = True, rt_bitmap = 0xFB # replicate 31 0xFF\<rparr>;
       rs = snd (build_ack 0 t)
   in \<not> is_duplicate 998 t \<and>
      (\<exists>p. \<not> is_duplicate p t \<and> seq_ge p (sack_start (last rs)) \<and> seq_le p (sack_end (last rs)))"
proof -
  let ?t = "\<lparr>rt_largest_received = 1000, rt_has_received = True, rt_bitmap = 0xFB # replicate 31 0xFF\<rparr>"
  let ?a0 = "\<lparr>as_ranges = [], as_in_range = False, as_range_start = 0\<rparr>"
  have g: "get_bit_recv (1000 - of_nat k) ?t \<longleftrightarrow> k \<noteq> 2" if "k < 256" for k
  proof -
    have u: "unat (word_of_nat k :: u32) = k" using that by (simp add: unat_of_nat take_bit_nat_eq_self)
    have n: "replicate 31 (255 :: u8) ! (k div 8 - Suc 0) = 255" using that by (intro nth_replicate) linarith
    have "bit (0xFB :: u8) b \<longleftrightarrow> b \<noteq> 2" if "b < 8" for b
      using that by (auto simp: less_Suc_eq numeral_eq_Suc bit_simps)
    moreover have "bit (0xFF :: u8) b" if "b < 8" for b
      using that by (auto simp: less_Suc_eq numeral_eq_Suc bit_simps)
    ultimately show ?thesis using that by (auto simp: get_bit_window u n bit_at_def nth_Cons')
  qed
  have e1: "scan_loop ?t (1 # 2 # 3 # [4..<256]) ?a0 = scan_step ?t 3 (scan_step ?t 2 (scan_step ?t 1 ?a0))"
    using g by (intro scan_one_gap) simp_all
  have e2: "[1..<BITMAP_SIZE] = 1 # 2 # 3 # [4..<256]" unfolding BITMAP_SIZE_def by (simp add: upt_conv_Cons)
  have "as_in_range (scan_loop ?t [1..<BITMAP_SIZE] ?a0) \<and> as_ranges (scan_loop ?t [1..<BITMAP_SIZE] ?a0) \<noteq> []"
    unfolding e2 e1 using g [of 1] g [of 2] g [of 3] by (simp add: scan_step_def)
  moreover have "\<not> is_duplicate 998 ?t" using g [of 2] by (simp add: is_duplicate_def)
  ultimately show ?thesis
    using sack_ranges_spec [of ?t 0] unfolding Let_def by simp
qed

end
