(* ===== verification/Fec.thy ===== *)
theory Fec
  imports Frames "HOL-Library.Multiset"
begin

text \<open>
  Forward error correction (\<^verbatim>\<open>include/protocoll/reliability/fec.h\<close>, \<^verbatim>\<open>src/reliability/fec.cpp\<close>): the encoder
  emits one XOR parity packet per group of data packets and the decoder rebuilds one missing data packet.
  \<open>xor_prefix\<close> is the loop \<^verbatim>\<open>for (i < len) a[i] ^= b[i]\<close>. The runs at the end of the definitions feed
  the encoder and the decoder one packet after the other.
\<close>

record fec_header =
  fec_group_id :: u16
  fec_group_size :: u8
  fec_index :: u8

definition FEC_WIRE_SIZE :: nat where "FEC_WIRE_SIZE = 4"

definition fec_header_encode :: "fec_header \<Rightarrow> bytes \<Rightarrow> bytes option" where
  "fec_header_encode h buf =
    (if length buf < FEC_WIRE_SIZE then None
     else Some (let b1 = write_u16 buf 0 (fec_group_id h);
                    b2 = b1[2 := fec_group_size h]
                in b2[3 := fec_index h]))"

definition fec_header_decode :: "bytes \<Rightarrow> fec_header option" where
  "fec_header_decode buf =
    (if length buf < FEC_WIRE_SIZE then None
     else Some \<lparr>fec_group_id = read_u16 buf, fec_group_size = buf ! 2, fec_index = buf ! 3\<rparr>)"

definition fec_header_wire :: "fec_header \<Rightarrow> bytes" where
  "fec_header_wire h = be16 (fec_group_id h) @ [fec_group_size h, fec_index h]"

subsection \<open>Encoder\<close>

record fec_encoder =
  fe_group_size :: u8
  fe_group_id :: u16
  fe_count :: u8
  fe_parity :: bytes
  fe_max_packet_len :: nat

definition fec_encoder_new :: "u8 \<Rightarrow> fec_encoder" where
  "fec_encoder_new group_size =
    \<lparr>fe_group_size = (if group_size < 2 then 2 else group_size), fe_group_id = 0, fe_count = 0,
     fe_parity = [], fe_max_packet_len = 0\<rparr>"

fun xor_prefix :: "bytes \<Rightarrow> bytes \<Rightarrow> bytes" where
  "xor_prefix (p # ps) (d # ds) = (p XOR d) # xor_prefix ps ds"
| "xor_prefix ps _ = ps"

definition xor_into :: "bytes \<Rightarrow> fec_encoder \<Rightarrow> fec_encoder" where
  "xor_into data e =
    (let len = length data;
         resized = (if len > length (fe_parity e)
                    then fe_parity e @ replicate (len - length (fe_parity e)) 0 else fe_parity e);
         e1 = e\<lparr>fe_parity := xor_prefix resized data\<rparr>
     in if len > fe_max_packet_len e1 then e1\<lparr>fe_max_packet_len := len\<rparr> else e1)"

definition overwrite_header :: "fec_header \<Rightarrow> bytes \<Rightarrow> bytes" where
  "overwrite_header hdr pkt = (case fec_header_encode hdr pkt of Some b \<Rightarrow> b | None \<Rightarrow> pkt)"

definition build_parity_packet :: "fec_encoder \<Rightarrow> bytes" where
  "build_parity_packet e =
    (let pkt = replicate (FEC_WIRE_SIZE + fe_max_packet_len e) 0;
         hdr = \<lparr>fec_group_id = fe_group_id e, fec_group_size = fe_group_size e, fec_index = fe_group_size e\<rparr>
     in put_bytes (overwrite_header hdr pkt) FEC_WIRE_SIZE (take (fe_max_packet_len e) (fe_parity e)))"

definition next_group :: "fec_encoder \<Rightarrow> fec_encoder" where
  "next_group e = e\<lparr>fe_group_id := fe_group_id e + 1, fe_count := 0, fe_parity := [], fe_max_packet_len := 0\<rparr>"

definition fec_encoder_add_packet :: "bytes \<Rightarrow> fec_encoder \<Rightarrow> bytes option \<times> fec_encoder" where
  "fec_encoder_add_packet data e =
    (let e1 = xor_into data e;
         e2 = e1\<lparr>fe_count := fe_count e1 + 1\<rparr>
     in if fe_count e2 \<ge> fe_group_size e2 then (Some (build_parity_packet e2), next_group e2)
        else (None, e2))"

definition fec_encoder_flush :: "fec_encoder \<Rightarrow> bytes option \<times> fec_encoder" where
  "fec_encoder_flush e =
    (if fe_count e = 0 then (None, e)
     else
       let parity = build_parity_packet e;
           hdr = \<lparr>fec_group_id = fe_group_id e, fec_group_size = fe_count e, fec_index = fe_count e\<rparr>
       in (Some (overwrite_header hdr parity), next_group e))"

definition fec_encoder_reset :: "fec_encoder \<Rightarrow> fec_encoder" where
  "fec_encoder_reset e = e\<lparr>fe_group_id := 0, fe_count := 0, fe_parity := [], fe_max_packet_len := 0\<rparr>"

subsection \<open>Decoder\<close>

record received_packet =
  rp_index :: u8
  rp_data :: bytes

record fec_decoder =
  fd_expected_group_size :: u8
  fd_current_group_id :: u16
  fd_group_started :: bool
  fd_received :: "received_packet list"
  fd_has_parity :: bool
  fd_parity_data :: bytes

definition fec_decoder_new :: "u8 \<Rightarrow> fec_decoder" where
  "fec_decoder_new expected_group_size =
    \<lparr>fd_expected_group_size = expected_group_size, fd_current_group_id = 0, fd_group_started = False,
     fd_received = [], fd_has_parity = False, fd_parity_data = []\<rparr>"

definition fec_decoder_reset :: "fec_decoder \<Rightarrow> fec_decoder" where
  "fec_decoder_reset d = d\<lparr>fd_group_started := False, fd_received := [], fd_has_parity := False, fd_parity_data := []\<rparr>"

fun mark_present :: "u8 \<Rightarrow> received_packet list \<Rightarrow> bool list \<Rightarrow> bool list" where
  "mark_present gs [] present = present"
| "mark_present gs (rp # rps) present =
     mark_present gs rps (if rp_index rp < gs then present[unat (rp_index rp) := True] else present)"

fun missing_idx :: "nat \<Rightarrow> bool list \<Rightarrow> nat option" where
  "missing_idx i [] = None"
| "missing_idx i (b # bs) = (if \<not> b then Some i else missing_idx (Suc i) bs)"

fun max_data_len :: "received_packet list \<Rightarrow> nat \<Rightarrow> nat" where
  "max_data_len [] max_len = max_len"
| "max_data_len (rp # rps) max_len =
     max_data_len rps (if length (rp_data rp) > max_len then length (rp_data rp) else max_len)"

fun xor_received :: "received_packet list \<Rightarrow> bytes \<Rightarrow> bytes" where
  "xor_received [] recovered = recovered"
| "xor_received (rp # rps) recovered = xor_received rps (xor_prefix recovered (rp_data rp))"

definition try_recover :: "fec_decoder \<Rightarrow> bytes option" where
  "try_recover d =
    (let gs = fd_expected_group_size d;
         data_count = length (fd_received d);
         total_needed = unat gs
     in if data_count \<ge> total_needed then None
        else if data_count = total_needed - 1 \<and> fd_has_parity d then
          let present = mark_present gs (fd_received d) (replicate (unat gs) False)
          in (case missing_idx 0 present of
                None \<Rightarrow> None
              | Some _ \<Rightarrow>
                  let max_len = max_data_len (fd_received d) (length (fd_parity_data d));
                      recovered = put_bytes (replicate max_len 0) 0 (fd_parity_data d)
                  in Some (xor_received (fd_received d) recovered))
        else None)"

definition store_packet :: "fec_header \<Rightarrow> bytes \<Rightarrow> fec_decoder \<Rightarrow> fec_decoder" where
  "store_packet header data d =
    (let d1 = (if \<not> fd_group_started d \<or> fec_group_id header \<noteq> fd_current_group_id d
               then (fec_decoder_reset d)\<lparr>fd_current_group_id := fec_group_id header, fd_group_started := True\<rparr>
               else d)
     in if fec_index header \<ge> fec_group_size header
        then d1\<lparr>fd_has_parity := True, fd_parity_data := data\<rparr>
        else d1\<lparr>fd_received := fd_received d1 @ [\<lparr>rp_index = fec_index header, rp_data = data\<rparr>]\<rparr>)"

definition fec_decoder_add_packet :: "fec_header \<Rightarrow> bytes \<Rightarrow> fec_decoder \<Rightarrow> bytes option \<times> fec_decoder" where
  "fec_decoder_add_packet header data d =
    (let d1 = store_packet header data d in (try_recover d1, d1))"

subsection \<open>Runs\<close>

fun encoder_run :: "bytes list \<Rightarrow> fec_encoder \<Rightarrow> bytes option list \<times> fec_encoder" where
  "encoder_run [] e = ([], e)"
| "encoder_run (p # ps) e =
    (let (r, e1) = fec_encoder_add_packet p e; (rs, e2) = encoder_run ps e1 in (r # rs, e2))"

fun decoder_run :: "(fec_header \<times> bytes) list \<Rightarrow> fec_decoder \<Rightarrow> bytes option list \<times> fec_decoder" where
  "decoder_run [] d = ([], d)"
| "decoder_run ((h, p) # ps) d =
    (let (r, d1) = fec_decoder_add_packet h p d; (rs, d2) = decoder_run ps d1 in (r # rs, d2))"

text \<open>A receiver strips the header of a parity packet; a data packet carries its position in the group.\<close>

definition parity_arrival :: "bytes \<Rightarrow> fec_header \<times> bytes" where
  "parity_arrival pkt = (the (fec_header_decode pkt), drop FEC_WIRE_SIZE pkt)"

definition data_arrival :: "u16 \<Rightarrow> u8 \<Rightarrow> bytes list \<Rightarrow> nat \<Rightarrow> fec_header \<times> bytes" where
  "data_arrival g k ps j = (\<lparr>fec_group_id = g, fec_group_size = k, fec_index = of_nat j\<rparr>, ps ! j)"

definition between_groups :: "fec_encoder \<Rightarrow> bool" where
  "between_groups e \<longleftrightarrow> fe_count e = 0 \<and> fe_parity e = [] \<and> fe_max_packet_len e = 0"

definition zero_pad :: "nat \<Rightarrow> bytes \<Rightarrow> bytes" where
  "zero_pad n p = p @ replicate (n - length p) 0"

definition max_len_of :: "bytes list \<Rightarrow> nat" where
  "max_len_of ps = fold max (map length ps) 0"

subsection \<open>The header\<close>

lemma unat_inc_below:
  fixes x y :: "'a::len word"
  assumes "unat x < unat y"
  shows "unat (x + 1) = Suc (unat x)"
proof -
  have "Suc (unat x) < 2 ^ LENGTH('a)" using assms unsigned_less [of y, where ?'a = nat] by linarith
  then show ?thesis by (simp add: unat_word_ariths)
qed


interpretation fec_header_codec: fixed_codec fec_header_encode fec_header_decode fec_header_wire "\<lambda>_. True" FEC_WIRE_SIZE
proof (unfold_locales, goal_cases)
  case (2 buf x)
  then obtain a b c d r where "buf = a # b # c # d # r"
    by (auto simp: FEC_WIRE_SIZE_def numeral_eq_Suc Suc_le_length_iff)
  then show ?case
    by (simp add: fec_header_encode_def fec_header_wire_def FEC_WIRE_SIZE_def buf_simps be16_def)
next
  case (5 x rest)
  then show ?case
    using read_be16 [of "fec_group_id x" "fec_group_size x # fec_index x # rest"]
    by (simp add: fec_header_decode_def fec_header_wire_def FEC_WIRE_SIZE_def be16_def)
next
  case (6 b)
  then obtain w x y z r where "b = w # x # y # z # r"
    by (auto simp: FEC_WIRE_SIZE_def numeral_eq_Suc Suc_le_length_iff)
  then show ?case
    by (simp add: fec_header_decode_def fec_header_wire_def FEC_WIRE_SIZE_def wire_simps)
qed (simp_all add: fec_header_encode_def fec_header_decode_def fec_header_wire_def FEC_WIRE_SIZE_def)

subsection \<open>XOR of zero-extended packets\<close>

definition byte_at :: "bytes \<Rightarrow> nat \<Rightarrow> u8" where
  "byte_at xs i = (if i < length xs then xs ! i else 0)"

definition xor_all :: "u8 list \<Rightarrow> u8" where
  "xor_all xs = fold (XOR) xs 0"

lemma byte_at_eqI: "length xs = length ys \<Longrightarrow> (\<And>i. byte_at xs i = byte_at ys i) \<Longrightarrow> xs = ys"
  by (auto simp: byte_at_def intro!: nth_equalityI split: if_splits) (metis (full_types))

lemma byte_at_simps [simp]:
  "byte_at [] i = 0" "byte_at (replicate n 0) i = 0" "byte_at (xs @ replicate n 0) i = byte_at xs i"
  by (auto simp: byte_at_def nth_append)

lemma byte_at_Cons: "byte_at (x # xs) i = (case i of 0 \<Rightarrow> x | Suc j \<Rightarrow> byte_at xs j)"
  by (auto simp: byte_at_def split: nat.splits)

lemma length_xor_prefix [simp]: "length (xor_prefix ps ds) = length ps"
  by (induction ps ds rule: xor_prefix.induct) auto

lemma byte_at_xor_prefix:
  "length ds \<le> length ps \<Longrightarrow> byte_at (xor_prefix ps ds) i = byte_at ps i XOR byte_at ds i"
  by (induction ps ds arbitrary: i rule: xor_prefix.induct) (auto simp: byte_at_Cons split: nat.splits)

lemma fold_xor: "fold (XOR) xs (a :: u8) = a XOR xor_all xs"
proof (induction xs arbitrary: a)
  case (Cons x xs)
  show ?case unfolding xor_all_def using Cons [of "x XOR a"] Cons [of "x"] by (simp add: ac_simps)
qed (simp add: xor_all_def)

lemma xor_all_simps [simp]: "xor_all [] = 0" "xor_all (x # xs) = x XOR xor_all xs"
  "xor_all (xs @ ys) = xor_all xs XOR xor_all ys"
proof -
  show "xor_all [] = 0" by (simp add: xor_all_def)
  show "xor_all (x # xs) = x XOR xor_all xs" using fold_xor [of xs x] by (simp add: xor_all_def)
  show "xor_all (xs @ ys) = xor_all xs XOR xor_all ys"
    using fold_xor [of ys "xor_all xs"] by (simp add: xor_all_def)
qed

lemma xor_all_mset: "mset xs = mset ys \<Longrightarrow> xor_all xs = xor_all ys"
  unfolding xor_all_def by (rule fun_cong [OF fold_multiset_equiv]) (auto simp: fun_eq_iff ac_simps)

lemma max_len_of_simps [simp]: "max_len_of [] = 0" "max_len_of (ps @ [p]) = max (max_len_of ps) (length p)"
  by (auto simp: max_len_of_def)

lemma max_len_of_ge: "p \<in> set ps \<Longrightarrow> length p \<le> max_len_of ps"
  by (induction ps rule: rev_induct) (auto simp: max.coboundedI1)

subsection \<open>The encoder's parity\<close>

definition parity_inv :: "bytes list \<Rightarrow> fec_encoder \<Rightarrow> bool" where
  "parity_inv ps e \<longleftrightarrow> fe_max_packet_len e = max_len_of ps \<and> length (fe_parity e) = max_len_of ps \<and>
     (\<forall>i. byte_at (fe_parity e) i = xor_all (map (\<lambda>p. byte_at p i) ps))"

lemma xor_into_frame [simp]:
  "fe_count (xor_into p e) = fe_count e" "fe_group_size (xor_into p e) = fe_group_size e"
  "fe_group_id (xor_into p e) = fe_group_id e"
  by (simp_all add: xor_into_def Let_def)

lemma xor_into_inv:
  assumes "parity_inv ps e"
  shows "parity_inv (ps @ [p]) (xor_into p e)"
  using assms by (auto simp: parity_inv_def xor_into_def Let_def byte_at_xor_prefix max_def)

text \<open>The parity packet carries its header and the XOR of the group.\<close>

lemma build_parity_wire:
  assumes "parity_inv ps e"
  shows "build_parity_packet e =
    fec_header_wire \<lparr>fec_group_id = fe_group_id e, fec_group_size = fe_group_size e, fec_index = fe_group_size e\<rparr> @ fe_parity e"
proof -
  have "length (fe_parity e) = fe_max_packet_len e" using assms by (simp add: parity_inv_def)
  then show ?thesis
    by (simp add: build_parity_packet_def overwrite_header_def fec_header_codec.enc_ok put_bytes_append
        fec_header_codec.wire_len put_bytes_0)
qed

lemma overwrite_header_wire:
  "overwrite_header h (fec_header_wire h' @ r) = fec_header_wire h @ r"
  by (simp add: overwrite_header_def fec_header_codec.enc_ok fec_header_codec.wire_len)

lemma parity_arrival_wire [simp]: "parity_arrival (fec_header_wire h @ r) = (h, r)"
  by (simp add: parity_arrival_def fec_header_codec.dec_wire fec_header_codec.wire_len)

lemma between_groups_inv: "between_groups e \<Longrightarrow> parity_inv [] e"
  by (simp add: between_groups_def parity_inv_def)

lemma encoder_run_append:
  "encoder_run (ps @ qs) e =
    (let (r1, e1) = encoder_run ps e; (r2, e2) = encoder_run qs e1 in (r1 @ r2, e2))"
  by (induction ps arbitrary: e) (auto simp: split_beta Let_def)

text \<open>Below the group size the packets are only accumulated.\<close>

lemma encoder_run_accumulates:
  assumes "parity_inv qs e" "unat (fe_count e) = length qs" "length qs + length ps < unat (fe_group_size e)"
  shows "\<exists>e'. encoder_run ps e = (replicate (length ps) None, e') \<and> parity_inv (qs @ ps) e' \<and>
     unat (fe_count e') = length qs + length ps \<and> fe_group_size e' = fe_group_size e \<and> fe_group_id e' = fe_group_id e"
  using assms
proof (induction ps arbitrary: qs e)
  case (Cons p ps)
  let ?e = "(xor_into p e)\<lparr>fe_count := fe_count e + 1\<rparr>"
  have "unat (fe_count e + 1) = Suc (length qs)"
    using Cons.prems unat_inc_below [of "fe_count e" "fe_group_size e"] by simp
  then have c: "unat (fe_count ?e) = length (qs @ [p])" by simp
  have step: "fec_encoder_add_packet p e = (None, ?e)"
    using c Cons.prems(3) by (simp add: fec_encoder_add_packet_def word_le_nat_alt)
  have "parity_inv (qs @ [p]) ?e" using xor_into_inv [OF Cons.prems(1)] by (simp add: parity_inv_def)
  from Cons.IH [OF this c] Cons.prems(3) step show ?case by (auto simp del: replicate_Suc simp: replicate_Suc [symmetric])
qed auto

text \<open>A whole group gives its parity packet with the last data packet, and the encoder is between groups again.\<close>

lemma encoder_run_group:
  assumes "between_groups e" "length ps = unat (fe_group_size e)" "ps \<noteq> []"
  shows "\<exists>par e'. encoder_run ps e = (replicate (length ps - 1) None @
        [Some (fec_header_wire \<lparr>fec_group_id = fe_group_id e, fec_group_size = fe_group_size e, fec_index = fe_group_size e\<rparr> @ par)], e') \<and>
     length par = max_len_of ps \<and> (\<forall>i. byte_at par i = xor_all (map (\<lambda>p. byte_at p i) ps)) \<and> between_groups e'"
proof -
  obtain qs p where ps: "ps = qs @ [p]" using assms(3) by (cases ps rule: rev_cases) auto
  have "length [] + length qs < unat (fe_group_size e)" using assms(2) ps by simp
  then obtain e1 where r: "encoder_run qs e = (replicate (length qs) None, e1)" and inv: "parity_inv qs e1"
    and c: "unat (fe_count e1) = length qs" and fr: "fe_group_size e1 = fe_group_size e" "fe_group_id e1 = fe_group_id e"
    using encoder_run_accumulates [of "[]" e qs] between_groups_inv assms(1)
    by (auto simp: between_groups_def)
  let ?e = "(xor_into p e1)\<lparr>fe_count := fe_count e1 + 1\<rparr>"
  have "unat (fe_count e1 + 1) = length ps"
    using c ps assms(2) fr unat_inc_below [of "fe_count e1" "fe_group_size e"] by simp
  then have "fe_count ?e \<ge> fe_group_size ?e" using assms(2) fr by (simp add: word_le_nat_alt)
  moreover have inv': "parity_inv ps ?e" using xor_into_inv [OF inv, of p] ps by (simp add: parity_inv_def)
  ultimately have step: "fec_encoder_add_packet p e1 = (Some (build_parity_packet ?e), next_group ?e)"
    by (simp add: fec_encoder_add_packet_def Let_def)
  have "encoder_run (qs @ [p]) e = (replicate (length qs) None @ [Some (build_parity_packet ?e)], next_group ?e)"
    using encoder_run_append [of qs "[p]" e] r step by simp
  then show ?thesis
    using ps inv' build_parity_wire [OF inv'] fr
    by (auto simp: parity_inv_def between_groups_def next_group_def)
qed

subsection \<open>What the decoder holds\<close>

definition is_parity :: "fec_header \<times> bytes \<Rightarrow> bool" where
  "is_parity a \<longleftrightarrow> fec_index (fst a) \<ge> fec_group_size (fst a)"

definition received_of :: "(fec_header \<times> bytes) list \<Rightarrow> received_packet list" where
  "received_of as = map (\<lambda>a. \<lparr>rp_index = fec_index (fst a), rp_data = snd a\<rparr>) (filter (\<lambda>a. \<not> is_parity a) as)"

definition in_group :: "u16 \<Rightarrow> fec_decoder \<Rightarrow> bool" where
  "in_group g d \<longleftrightarrow> fd_group_started d \<and> fd_current_group_id d = g"

definition holds_group :: "u16 \<Rightarrow> (fec_header \<times> bytes) list \<Rightarrow> fec_decoder \<Rightarrow> bool" where
  "holds_group g as d \<longleftrightarrow> in_group g d \<and> fd_received d = received_of as \<and>
     (fd_has_parity d \<longleftrightarrow> (\<exists>a \<in> set as. is_parity a)) \<and>
     (\<forall>par. fd_has_parity d \<longrightarrow> (\<forall>a \<in> set as. is_parity a \<longrightarrow> snd a = par) \<longrightarrow> fd_parity_data d = par)"

lemma store_first:
  assumes "\<not> in_group g d" "fec_group_id h = g"
  shows "holds_group g [(h, p)] (store_packet h p d) \<and> fd_expected_group_size (store_packet h p d) = fd_expected_group_size d"
  using assms by (auto simp: holds_group_def in_group_def store_packet_def Let_def fec_decoder_reset_def received_of_def is_parity_def)

lemma store_next:
  assumes "holds_group g as d" "fec_group_id h = g"
  shows "holds_group g (as @ [(h, p)]) (store_packet h p d) \<and> fd_expected_group_size (store_packet h p d) = fd_expected_group_size d"
  using assms by (auto simp: holds_group_def in_group_def store_packet_def Let_def received_of_def is_parity_def)

fun store_all :: "(fec_header \<times> bytes) list \<Rightarrow> fec_decoder \<Rightarrow> fec_decoder" where
  "store_all [] d = d"
| "store_all ((h, p) # as) d = store_all as (store_packet h p d)"

lemma store_all_snoc: "store_all (as @ [a]) d = store_packet (fst a) (snd a) (store_all as d)"
  by (induction as d rule: store_all.induct) (cases a, auto)

lemma store_all_holds:
  assumes "\<not> in_group g d" "\<forall>a \<in> set as. fec_group_id (fst a) = g" "as \<noteq> []"
  shows "holds_group g as (store_all as d) \<and> fd_expected_group_size (store_all as d) = fd_expected_group_size d"
  using assms(2,3)
proof (induction as rule: rev_induct)
  case (snoc a as)
  show ?case
  proof (cases "as = []")
    case True
    then show ?thesis using store_first [OF assms(1), of "fst a" "snd a"] snoc.prems by (cases a) auto
  next
    case False
    then have "holds_group g as (store_all as d)" "fd_expected_group_size (store_all as d) = fd_expected_group_size d"
      using snoc by auto
    then show ?thesis using store_next [of g as "store_all as d" "fst a" "snd a"] snoc.prems by (simp add: store_all_snoc)
  qed
qed simp

lemma decoder_run_results:
  "fst (decoder_run as d) = map (\<lambda>n. try_recover (store_all (take (Suc n) as) d)) [0..<length as]"
proof (induction as arbitrary: d)
  case (Cons a as)
  obtain h p where a: "a = (h, p)" by (cases a)
  have "[0..<length (a # as)] = 0 # map Suc [0..<length as]" by (simp add: map_Suc_upt upt_conv_Cons del: upt_Suc)
  then show ?case using Cons [of "store_packet h p d"]
    by (simp add: a split_beta fec_decoder_add_packet_def Let_def o_def del: upt_Suc)
qed simp

text \<open>Before the last packet of a group has arrived nothing is rebuilt.\<close>

lemma no_early_recovery:
  assumes "holds_group g as d" "length as < unat (fd_expected_group_size d)"
  shows "try_recover d = None"
proof (cases "length (fd_received d) = unat (fd_expected_group_size d) - 1 \<and> fd_has_parity d")
  case True
  then have "length (filter (\<lambda>a. \<not> is_parity a) as) = unat (fd_expected_group_size d) - 1"
    using assms(1) by (simp add: holds_group_def received_of_def)
  then have "length (filter (\<lambda>a. \<not> is_parity a) as) = length as"
    using assms(2) length_filter_le [of "\<lambda>a. \<not> is_parity a" as] by linarith
  then have "\<forall>a \<in> set as. \<not> is_parity a" by (metis filter_id_conv length_filter_less less_irrefl)
  then show ?thesis using True assms(1) by (auto simp: holds_group_def)
qed (auto simp: try_recover_def Let_def)

subsection \<open>What the decoder rebuilds\<close>

lemma length_mark_present [simp]: "length (mark_present gs rps present) = length present"
  by (induction rps arbitrary: present) auto

lemma mark_present_only:
  "j < length present \<Longrightarrow> \<not> present ! j \<Longrightarrow> \<forall>rp \<in> set rps. unat (rp_index rp) \<noteq> j \<Longrightarrow> \<not> mark_present gs rps present ! j"
  by (induction rps arbitrary: present) (auto simp: nth_list_update)

lemma missing_idx_None: "missing_idx i bs = None \<longleftrightarrow> (\<forall>b \<in> set bs. b)"
  by (induction bs arbitrary: i) auto

lemma max_data_len_bound: "\<forall>rp \<in> set rps. length (rp_data rp) \<le> n \<Longrightarrow> max_data_len rps n = n"
  by (induction rps) auto

lemma xor_received_spec:
  assumes "\<forall>rp \<in> set rps. length (rp_data rp) \<le> length r"
  shows "length (xor_received rps r) = length r \<and>
    byte_at (xor_received rps r) i = byte_at r i XOR xor_all (map (\<lambda>rp. byte_at (rp_data rp) i) rps)"
  using assms by (induction rps arbitrary: r) (auto simp: byte_at_xor_prefix ac_simps)

lemma try_recover_spec:
  assumes "length (fd_received d) = unat (fd_expected_group_size d) - 1" "0 < unat (fd_expected_group_size d)" "fd_has_parity d"
    and "m < unat (fd_expected_group_size d)" "\<forall>rp \<in> set (fd_received d). unat (rp_index rp) \<noteq> m"
    and "\<forall>rp \<in> set (fd_received d). length (rp_data rp) \<le> length (fd_parity_data d)"
  shows "try_recover d = Some (xor_received (fd_received d) (fd_parity_data d))"
proof -
  let ?pr = "mark_present (fd_expected_group_size d) (fd_received d) (replicate (unat (fd_expected_group_size d)) False)"
  have "\<not> ?pr ! m" using assms by (intro mark_present_only) auto
  then have "missing_idx 0 ?pr \<noteq> None" using assms(4) nth_mem [of m ?pr] by (auto simp: missing_idx_None)
  then show ?thesis
    using assms by (auto simp: try_recover_def Let_def max_data_len_bound put_bytes_0 split: option.splits)
qed

lemma data_arrival_facts:
  assumes "j < unat k"
  shows "\<not> is_parity (data_arrival g k ps j)" "fec_group_id (fst (data_arrival g k ps j)) = g"
    "unat (of_nat j :: u8) = j"
proof -
  show "unat (of_nat j :: u8) = j"
    using assms unsigned_less [of k, where ?'a = nat] by (simp add: unat_of_nat take_bit_nat_eq_self)
  then show "\<not> is_parity (data_arrival g k ps j)" using assms by (simp add: is_parity_def data_arrival_def word_le_nat_alt)
qed (simp add: data_arrival_def)

lemma mset_received_of: "mset as = mset bs \<Longrightarrow> mset (received_of as) = mset (received_of bs)"
  by (simp add: received_of_def)

text \<open>
  All packets of a group but those not sent, with its parity packet, in any order: the decoder stays
  silent until the last one and then returns the XOR of what it holds.
\<close>

lemma decoder_run_group:
  assumes d: "\<not> in_group g d" "fd_expected_group_size d = k"
    and h: "fec_group_id h = g" "is_parity (h, par)"
    and js: "\<forall>j \<in> set js. j < unat k \<and> length (ps ! j) \<le> length par" "Suc (length js) = unat k" "m < unat k" "m \<notin> set js"
    and as: "mset as = mset ((h, par) # map (data_arrival g k ps) js)"
  shows "\<exists>r. fst (decoder_run as d) = replicate (length js) None @ [Some r] \<and> length r = length par \<and>
    (\<forall>i. byte_at r i = byte_at par i XOR xor_all (map (\<lambda>j. byte_at (ps ! j) i) js))"
proof -
  let ?L = "(h, par) # map (data_arrival g k ps) js"
  have len: "length as = Suc (length js)" using mset_eq_length [OF as] by simp
  have set_as: "set as = set ?L" using as mset_eq_setD by blast
  have grp: "\<forall>a \<in> set as. fec_group_id (fst a) = g"
    using h js(1) unfolding set_as by (auto simp: data_arrival_facts)
  have pre: "holds_group g (take (Suc n) as) (store_all (take (Suc n) as) d) \<and>
      fd_expected_group_size (store_all (take (Suc n) as) d) = k" if "n < length as" for n
  proof -
    have "take (Suc n) as \<noteq> []" using that by auto
    then show ?thesis using store_all_holds [OF d(1), of "take (Suc n) as"] grp d(2) by (auto dest: in_set_takeD)
  qed
  have early: "try_recover (store_all (take (Suc n) as) d) = None" if "n < length js" for n
    using no_early_recovery [of g "take (Suc n) as"] pre [of n] that len js(2) by simp
  let ?D = "store_all as d"
  have D: "holds_group g as ?D" "fd_expected_group_size ?D = k" using pre [of "length js"] len by auto
  have par: "fd_has_parity ?D" "fd_parity_data ?D = par"
    using D(1) h js(1) set_as by (auto simp: holds_group_def data_arrival_facts)
  have rcv: "received_of ?L = map (\<lambda>j. \<lparr>rp_index = of_nat j, rp_data = ps ! j\<rparr>) js"
    using h js(1) data_arrival_facts(1) [of _ k] by (auto simp: received_of_def filter_map o_def data_arrival_def intro!: filter_True)
  have ms: "mset (fd_received ?D) = mset (received_of ?L)"
    using D(1) mset_received_of [OF as] by (simp add: holds_group_def)
  have set_rcv: "set (fd_received ?D) = (\<lambda>j. \<lparr>rp_index = of_nat j, rp_data = ps ! j\<rparr>) ` set js"
    using mset_eq_setD [OF ms] rcv by simp
  have lr: "length (fd_received ?D) = unat k - 1" using mset_eq_length [OF ms] rcv js(2) by simp
  have "try_recover ?D = Some (xor_received (fd_received ?D) (fd_parity_data ?D))"
    using par D(2) js lr by (intro try_recover_spec [of ?D m]) (auto simp: set_rcv data_arrival_facts(3) [of _ k])
  moreover have "map (\<lambda>n. try_recover (store_all (take (Suc n) as) d)) [0..<length js] = map (\<lambda>_. None) [0..<length js]"
    by (rule map_cong) (auto simp: early)
  ultimately have "fst (decoder_run as d) = replicate (length js) None @ [Some (xor_received (fd_received ?D) par)]"
    using len by (simp add: decoder_run_results map_replicate_const par)
  moreover have "xor_all (map (\<lambda>rp. byte_at (rp_data rp) i) (fd_received ?D)) = xor_all (map (\<lambda>j. byte_at (ps ! j) i) js)" for i
    using ms rcv by (intro xor_all_mset) (simp add: o_def multiset.map_comp)
  ultimately show ?thesis
    using xor_received_spec [of "fd_received ?D" par] js(1) by (simp add: set_rcv)
qed

text \<open>
  C15. Any one lost data packet of a group is rebuilt. The encoder, between groups, emits one parity packet
  with the last of the K data packets of a group. A decoder of the same group size that receives the parity packet and all
  data packets but the one at position m, in any order, returns nothing until the last of them and then exactly
  packet m, padded with zeros to the longest packet of the group.
\<close>

theorem fec_recovers_single_loss:
  assumes "between_groups e" "length ps = unat (fe_group_size e)" "m < length ps"
    and "fd_expected_group_size d = fe_group_size e" "\<not> in_group (fe_group_id e) d"
  shows "\<exists>pkt. fst (encoder_run ps e) = replicate (length ps - 1) None @ [Some pkt] \<and>
    (\<forall>as. mset as = mset (parity_arrival pkt #
              map (data_arrival (fe_group_id e) (fe_group_size e) ps) ([0..<m] @ [Suc m..<length ps])) \<longrightarrow>
       fst (decoder_run as d) = replicate (length ps - 1) None @ [Some (zero_pad (max_len_of ps) (ps ! m))])"
proof -
  let ?h = "\<lparr>fec_group_id = fe_group_id e, fec_group_size = fe_group_size e, fec_index = fe_group_size e\<rparr>"
  let ?js = "[0..<m] @ [Suc m..<length ps]"
  have "ps \<noteq> []" using assms(3) by auto
  then obtain par e' where e': "encoder_run ps e = (replicate (length ps - 1) None @ [Some (fec_header_wire ?h @ par)], e')"
    and par: "length par = max_len_of ps" "\<forall>i. byte_at par i = xor_all (map (\<lambda>p. byte_at p i) ps)"
    using encoder_run_group [OF assms(1,2)] by blast
  have enc: "fst (encoder_run ps e) = replicate (length ps - 1) None @ [Some (fec_header_wire ?h @ par)]" by (simp add: e')
  have split: "mset (m # ?js) = mset [0..<length ps]"
    using assms(3) upt_add_eq_append [of 0 m "length ps - m"] by (simp add: upt_conv_Cons)
  have all: "xor_all (map (\<lambda>p. byte_at p i) ps) = byte_at (ps ! m) i XOR xor_all (map (\<lambda>j. byte_at (ps ! j) i) ?js)" for i
  proof -
    have "mset (map (\<lambda>j. byte_at (ps ! j) i) (m # ?js)) = mset (map (\<lambda>j. byte_at (ps ! j) i) [0..<length ps])"
      using split by (simp only: mset_map)
    moreover have "map (\<lambda>j. byte_at (ps ! j) i) [0..<length ps] = map (\<lambda>p. byte_at p i) ps"
      by (rule nth_equalityI) auto
    ultimately have "xor_all (map (\<lambda>j. byte_at (ps ! j) i) (m # ?js)) = xor_all (map (\<lambda>p. byte_at p i) ps)"
      by (metis xor_all_mset)
    then show ?thesis by (simp only: list.map xor_all_simps)
  qed
  have "fst (decoder_run as d) = replicate (length ps - 1) None @ [Some (zero_pad (max_len_of ps) (ps ! m))]"
    if as: "mset as = mset ((?h, par) # map (data_arrival (fe_group_id e) (fe_group_size e) ps) ?js)" for as
  proof -
    have "\<exists>r. fst (decoder_run as d) = replicate (length ?js) None @ [Some r] \<and> length r = length par \<and>
        (\<forall>i. byte_at r i = byte_at par i XOR xor_all (map (\<lambda>j. byte_at (ps ! j) i) ?js))"
      using assms as par(1) by (intro decoder_run_group [where m = m and h = ?h]) (auto simp: is_parity_def max_len_of_ge)
    then obtain r where r: "fst (decoder_run as d) = replicate (length ?js) None @ [Some r]" "length r = length par"
      "\<And>i. byte_at r i = byte_at par i XOR xor_all (map (\<lambda>j. byte_at (ps ! j) i) ?js)" by blast
    have "byte_at r i = byte_at (ps ! m) i" for i
      using r(3) [of i] spec [OF par(2), of i] all [of i] by (simp only:) (simp add: ac_simps)
    then have "r = zero_pad (max_len_of ps) (ps ! m)"
      using r(2) par(1) assms(3) max_len_of_ge [of "ps ! m" ps] by (intro byte_at_eqI) (auto simp: zero_pad_def)
    then show ?thesis using r(1) assms(3) by simp
  qed
  then show ?thesis using enc by (intro exI [of _ "fec_header_wire ?h @ par"]) simp
qed

theorem fec_recovers_single_loss_witness:
  "\<exists>pkt. fst (encoder_run [[1, 2], [3], [4]] (fec_encoder_new 3)) = [None, None, Some pkt] \<and>
    fst (decoder_run [data_arrival 0 3 [[1, 2], [3], [4]] 2, parity_arrival pkt, data_arrival 0 3 [[1, 2], [3], [4]] 0]
      (fec_decoder_new 3)) = [None, None, Some [3, 0]]"
proof -
  let ?ps = "[[1, 2], [3], [4]] :: bytes list"
  have k: "fe_group_size (fec_encoder_new 3) = 3" "fe_group_id (fec_encoder_new 3) = 0" by (simp_all add: fec_encoder_new_def)
  have h: "between_groups (fec_encoder_new 3)" "length ?ps = unat (fe_group_size (fec_encoder_new 3))" "1 < length ?ps"
    "fd_expected_group_size (fec_decoder_new 3) = fe_group_size (fec_encoder_new 3)"
    "\<not> in_group (fe_group_id (fec_encoder_new 3)) (fec_decoder_new 3)"
    by (simp_all add: k between_groups_def fec_decoder_new_def in_group_def fec_encoder_new_def)
  obtain pkt where pkt: "fst (encoder_run ?ps (fec_encoder_new 3)) = replicate (length ?ps - 1) None @ [Some pkt]"
    and rec: "\<forall>as. mset as = mset (parity_arrival pkt # map (data_arrival 0 3 ?ps) ([0..<1] @ [Suc 1..<length ?ps])) \<longrightarrow>
       fst (decoder_run as (fec_decoder_new 3)) = replicate (length ?ps - 1) None @ [Some (zero_pad (max_len_of ?ps) (?ps ! 1))]"
    using fec_recovers_single_loss [OF h] unfolding k by blast
  have "fst (decoder_run [data_arrival 0 3 [[1, 2], [3], [4]] 2, parity_arrival pkt, data_arrival 0 3 [[1, 2], [3], [4]] 0]
      (fec_decoder_new 3)) = replicate (length ?ps - 1) None @ [Some (zero_pad (max_len_of ?ps) (?ps ! 1))]"
    by (rule rec [rule_format]) (simp add: upt_conv_Cons numeral_2_eq_2)
  moreover have "zero_pad (max_len_of ?ps) (?ps ! 1) = [3, 0]" by (simp add: zero_pad_def max_len_of_def)
  ultimately show ?thesis using pkt by (simp add: numeral_eq_Suc)
qed

text \<open>
  A flushed group. An early flush announces the smaller group in the header of its parity packet, but the decoder counts
  against its configured size. So a packet lost from a flushed group is never rebuilt; and when the flushed group is just one
  packet short and nothing was lost, the decoder returns a packet of zeros that nobody sent.
\<close>

theorem fec_flushed_group:
  assumes "between_groups e" "qs \<noteq> []" "length qs < unat (fe_group_size e)"
    and "fd_expected_group_size d = fe_group_size e" "\<not> in_group (fe_group_id e) d"
  shows "\<exists>pkt. fst (fec_encoder_flush (snd (encoder_run qs e))) = Some pkt \<and>
    (\<forall>m as. m < length qs \<and> mset as = mset (parity_arrival pkt #
              map (data_arrival (fe_group_id e) (fe_group_size e) qs) ([0..<m] @ [Suc m..<length qs])) \<longrightarrow>
       set (fst (decoder_run as d)) = {None}) \<and>
    (\<forall>as. Suc (length qs) = unat (fe_group_size e) \<and> mset as = mset (parity_arrival pkt #
              map (data_arrival (fe_group_id e) (fe_group_size e) qs) [0..<length qs]) \<longrightarrow>
       last (fst (decoder_run as d)) = Some (replicate (max_len_of qs) 0))"
proof -
  obtain e1 where e1: "encoder_run qs e = (replicate (length qs) None, e1)" "parity_inv qs e1" "unat (fe_count e1) = length qs"
    "fe_group_size e1 = fe_group_size e" "fe_group_id e1 = fe_group_id e"
    using encoder_run_accumulates [of "[]" e qs] between_groups_inv assms by (auto simp: between_groups_def)
  let ?h = "\<lparr>fec_group_id = fe_group_id e, fec_group_size = fe_count e1, fec_index = fe_count e1\<rparr>"
  let ?par = "fe_parity e1"
  have "fe_count e1 \<noteq> 0" using e1(3) assms(2) by auto
  then have flush: "fst (fec_encoder_flush (snd (encoder_run qs e))) = Some (fec_header_wire ?h @ ?par)"
    using build_parity_wire [OF e1(2)] e1
    by (simp add: fec_encoder_flush_def overwrite_header_wire)
  have par: "length ?par = max_len_of qs" "\<forall>i. byte_at ?par i = xor_all (map (\<lambda>p. byte_at p i) qs)"
    using e1(2) by (auto simp: parity_inv_def)
  have lost: "set (fst (decoder_run as d)) = {None}"
    if m: "m < length qs" and as: "mset as = mset ((?h, ?par) # map (data_arrival (fe_group_id e) (fe_group_size e) qs) ([0..<m] @ [Suc m..<length qs]))"
    for m as
  proof -
    have len: "length as = length qs" using mset_eq_length [OF as] m by simp
    have grp: "\<forall>a \<in> set as. fec_group_id (fst a) = fe_group_id e"
      using mset_eq_setD [OF as] by (auto simp: data_arrival_def)
    have "try_recover (store_all (take (Suc n) as) d) = None" if "n < length as" for n
    proof -
      have "take (Suc n) as \<noteq> []" using that by auto
      then have "holds_group (fe_group_id e) (take (Suc n) as) (store_all (take (Suc n) as) d)"
        "fd_expected_group_size (store_all (take (Suc n) as) d) = fe_group_size e"
        using store_all_holds [OF assms(5), of "take (Suc n) as"] grp assms(4) by (auto dest: in_set_takeD)
      then show ?thesis using no_early_recovery that len assms(3) by simp
    qed
    then show ?thesis using len assms(2) by (auto simp: decoder_run_results image_iff intro!: exI [of _ 0])
  qed
  have phantom: "last (fst (decoder_run as d)) = Some (replicate (max_len_of qs) 0)"
    if k: "Suc (length qs) = unat (fe_group_size e)"
      and as: "mset as = mset ((?h, ?par) # map (data_arrival (fe_group_id e) (fe_group_size e) qs) [0..<length qs])" for as
  proof -
    have "\<exists>r. fst (decoder_run as d) = replicate (length [0..<length qs]) None @ [Some r] \<and> length r = length ?par \<and>
        (\<forall>i. byte_at r i = byte_at ?par i XOR xor_all (map (\<lambda>j. byte_at (qs ! j) i) [0..<length qs]))"
      using assms as par(1) k by (intro decoder_run_group [where m = "length qs" and h = ?h]) (auto simp: is_parity_def max_len_of_ge)
    then obtain r where r: "fst (decoder_run as d) = replicate (length [0..<length qs]) None @ [Some r]" "length r = length ?par"
      "\<forall>i. byte_at r i = byte_at ?par i XOR xor_all (map (\<lambda>j. byte_at (qs ! j) i) [0..<length qs])" by blast
    have "map (\<lambda>j. byte_at (qs ! j) i) [0..<length qs] = map (\<lambda>p. byte_at p i) qs" for i by (rule nth_equalityI) auto
    then have "r = replicate (max_len_of qs) 0" using r(2,3) par by (intro byte_at_eqI) auto
    then show ?thesis using r(1) by simp
  qed
  show ?thesis
    using flush lost phantom by (intro exI [of _ "fec_header_wire ?h @ ?par"]) (simp only: parity_arrival_wire, blast)
qed

theorem fec_flushed_group_witness:
  "\<exists>pkt. fst (fec_encoder_flush (snd (encoder_run [[1], [2, 3]] (fec_encoder_new 3)))) = Some pkt \<and>
    set (fst (decoder_run [data_arrival 0 3 [[1], [2, 3]] 1, parity_arrival pkt] (fec_decoder_new 3))) = {None} \<and>
    last (fst (decoder_run [parity_arrival pkt, data_arrival 0 3 [[1], [2, 3]] 0, data_arrival 0 3 [[1], [2, 3]] 1]
      (fec_decoder_new 3))) = Some [0, 0]"
proof -
  let ?qs = "[[1], [2, 3]] :: bytes list"
  have k: "fe_group_size (fec_encoder_new 3) = 3" "fe_group_id (fec_encoder_new 3) = 0" by (simp_all add: fec_encoder_new_def)
  have h: "between_groups (fec_encoder_new 3)" "?qs \<noteq> []" "length ?qs < unat (fe_group_size (fec_encoder_new 3))"
    "fd_expected_group_size (fec_decoder_new 3) = fe_group_size (fec_encoder_new 3)"
    "\<not> in_group (fe_group_id (fec_encoder_new 3)) (fec_decoder_new 3)"
    by (simp_all add: k between_groups_def fec_decoder_new_def in_group_def fec_encoder_new_def)
  obtain pkt where pkt: "fst (fec_encoder_flush (snd (encoder_run ?qs (fec_encoder_new 3)))) = Some pkt"
    and lost: "\<forall>m as. m < length ?qs \<and> mset as = mset (parity_arrival pkt # map (data_arrival 0 3 ?qs) ([0..<m] @ [Suc m..<length ?qs])) \<longrightarrow>
       set (fst (decoder_run as (fec_decoder_new 3))) = {None}"
    and phantom: "\<forall>as. Suc (length ?qs) = unat (3 :: u8) \<and> mset as = mset (parity_arrival pkt # map (data_arrival 0 3 ?qs) [0..<length ?qs]) \<longrightarrow>
       last (fst (decoder_run as (fec_decoder_new 3))) = Some (replicate (max_len_of ?qs) 0)"
    using fec_flushed_group [OF h] unfolding k by blast
  have "set (fst (decoder_run [data_arrival 0 3 ?qs 1, parity_arrival pkt] (fec_decoder_new 3))) = {None}"
    by (rule lost [rule_format, of 0]) (simp add: upt_conv_Cons)
  moreover have "last (fst (decoder_run [parity_arrival pkt, data_arrival 0 3 ?qs 0, data_arrival 0 3 ?qs 1] (fec_decoder_new 3))) =
      Some (replicate (max_len_of ?qs) 0)"
    by (rule phantom [rule_format]) (simp add: upt_conv_Cons)
  moreover have "replicate (max_len_of ?qs) 0 = [0, 0]" by (simp add: max_len_of_def numeral_2_eq_2)
  ultimately show ?thesis using pkt by auto
qed

end
