(* ===== verification/Freshness.thy ===== *)
theory Freshness
  imports Rom_Prelude
begin

text \<open>
  Delta deadlines (\<^verbatim>\<open>include/protocoll/reliability/freshness.h\<close>, \<^verbatim>\<open>src/reliability/freshness.cpp\<close>): the
  stamp of a delta and the outbox that drops stale entries and keeps only the latest entry of a path. Ages are differences
  of 32-bit microsecond clocks and wrap. \<open>drain\<close> calls \<open>pop\<close> until it returns false; \<open>keep_last\<close> is
  the reference for \<open>coalesce\<close>.
\<close>

record freshness_stamp =
  fs_created_us :: u32
  fs_deadline_us :: u32

definition stamp_is_fresh :: "u32 \<Rightarrow> freshness_stamp \<Rightarrow> bool" where
  "stamp_is_fresh now_us s =
    (if fs_deadline_us s = 0 then True
     else let age = now_us - fs_created_us s in age \<le> fs_deadline_us s)"

definition stamp_remaining :: "u32 \<Rightarrow> freshness_stamp \<Rightarrow> u32" where
  "stamp_remaining now_us s =
    (if fs_deadline_us s = 0 then - 1
     else
       let age = now_us - fs_created_us s
       in if age \<ge> fs_deadline_us s then 0 else fs_deadline_us s - age)"

record outbox_entry =
  oe_path_hash :: u32
  oe_crdt_type :: u8
  oe_reliability :: u8
  oe_freshness :: freshness_stamp
  oe_data :: bytes
  oe_target_sub_id :: u32
  oe_target_conn_id :: u16

definition entry_is_fresh :: "u32 \<Rightarrow> outbox_entry \<Rightarrow> bool" where
  "entry_is_fresh now_us e = stamp_is_fresh now_us (oe_freshness e)"

type_synonym delta_outbox = "outbox_entry list"

definition outbox_push :: "outbox_entry \<Rightarrow> delta_outbox \<Rightarrow> delta_outbox" where
  "outbox_push entry entries = entries @ [entry]"

fun outbox_pop :: "u32 \<Rightarrow> delta_outbox \<Rightarrow> outbox_entry option \<times> delta_outbox" where
  "outbox_pop now_us [] = (None, [])"
| "outbox_pop now_us (front # entries) =
     (if entry_is_fresh now_us front then (Some front, entries) else outbox_pop now_us entries)"

definition outbox_gc :: "u32 \<Rightarrow> delta_outbox \<Rightarrow> nat \<times> delta_outbox" where
  "outbox_gc now_us entries =
    (let kept = filter (\<lambda>e. entry_is_fresh now_us e) entries in (length entries - length kept, kept))"

fun latest_loop :: "nat \<Rightarrow> delta_outbox \<Rightarrow> (u32, nat) umap \<Rightarrow> (u32, nat) umap" where
  "latest_loop 0 entries latest = latest"
| "latest_loop (Suc i) entries latest =
    (let ph = oe_path_hash (entries ! i)
     in latest_loop i entries (if um_find latest ph = None then um_put ph i latest else latest))"

fun kept_loop :: "nat \<Rightarrow> delta_outbox \<Rightarrow> (u32, nat) umap \<Rightarrow> delta_outbox" where
  "kept_loop i [] latest = []"
| "kept_loop i (e # es) latest =
    (if um_find latest (oe_path_hash e) = Some i then e # kept_loop (Suc i) es latest else kept_loop (Suc i) es latest)"

definition outbox_coalesce :: "delta_outbox \<Rightarrow> nat \<times> delta_outbox" where
  "outbox_coalesce entries =
    (if length entries \<le> 1 then (0, entries)
     else
       let latest = latest_loop (length entries) entries [];
           kept = kept_loop 0 entries latest
       in (length entries - length kept, kept))"

lemma outbox_pop_shorter: "outbox_pop now es = (Some e, es') \<Longrightarrow> length es' < length es"
  by (induction es) (auto split: if_splits)

function drain :: "u32 \<Rightarrow> delta_outbox \<Rightarrow> outbox_entry list" where
  "drain now_us entries =
    (case outbox_pop now_us entries of (None, _) \<Rightarrow> [] | (Some e, entries') \<Rightarrow> e # drain now_us entries')"
  by auto

termination drain
  by (relation "measure (\<lambda>(_, es). length es)") (simp_all add: outbox_pop_shorter [OF sym])

declare drain.simps [simp del]

fun keep_last :: "delta_outbox \<Rightarrow> delta_outbox" where
  "keep_last [] = []"
| "keep_last (e # es) = (if oe_path_hash e \<in> oe_path_hash ` set es then keep_last es else e # keep_last es)"

subsection \<open>Stamps in real time\<close>

text \<open>With an unbounded clock, a stamp is fresh again after the 32-bit clock has come around.\<close>

lemma stamp_fresh_real_time:
  assumes "c \<le> t" "d < 2 ^ 32" "0 < d"
  shows "stamp_is_fresh (of_nat t) \<lparr>fs_created_us = of_nat c, fs_deadline_us = of_nat d\<rparr> \<longleftrightarrow> (t - c) mod 2 ^ 32 \<le> d"
proof -
  have "of_nat t - of_nat c = (of_nat (t - c) :: u32)" using assms(1) by simp
  moreover have "unat (of_nat d :: u32) = d" using assms(2) by (simp add: unat_of_nat take_bit_nat_eq_self)
  moreover have "(of_nat d :: u32) \<noteq> 0" using calculation(2) assms(3) by auto
  ultimately show ?thesis
    by (simp add: stamp_is_fresh_def word_le_nat_alt unat_of_nat take_bit_eq_mod)
qed

lemma remaining_fresh: "stamp_remaining now s \<noteq> 0 \<Longrightarrow> stamp_is_fresh now s"
  by (auto simp: stamp_remaining_def stamp_is_fresh_def Let_def split: if_splits)

subsection \<open>The outbox\<close>

lemma drain_filter: "drain now es = filter (entry_is_fresh now) es"
proof (induction es rule: length_induct)
  case (1 es)
  have "drain now es = filter (entry_is_fresh now) es"
    if "\<forall>ys. length ys < length es \<longrightarrow> drain now ys = filter (entry_is_fresh now) ys"
    using that
  proof (induction es)
    case Nil
    then show ?case by (simp add: drain.simps)
  next
    case (Cons e es)
    show ?case
    proof (cases "entry_is_fresh now e")
      case True
      then show ?thesis using Cons.prems by (subst drain.simps) simp
    next
      case False
      then have "drain now (e # es) = drain now es"
        by (subst (1 2) drain.simps) simp
      then show ?thesis using False Cons.prems by simp
    qed
  qed
  with 1 show ?case by simp
qed

lemma latest_loop_find:
  assumes "n \<le> length es"
  shows "um_find (latest_loop n es m) ph =
    (case um_find m ph of Some i \<Rightarrow> Some i
     | None \<Rightarrow> (if \<exists>i < n. oe_path_hash (es ! i) = ph then Some (Max {i. i < n \<and> oe_path_hash (es ! i) = ph}) else None))"
  using assms
proof (induction n arbitrary: m)
  case (Suc n)
  have "{i. i < Suc n \<and> oe_path_hash (es ! i) = ph} =
      (if oe_path_hash (es ! n) = ph then insert n {i. i < n \<and> oe_path_hash (es ! i) = ph} else {i. i < n \<and> oe_path_hash (es ! i) = ph})"
    by (auto simp: less_Suc_eq)
  moreover have "Max (insert n {i. i < n \<and> oe_path_hash (es ! i) = ph}) = n"
    by (rule Max_eqI) auto
  ultimately show ?case
    using Suc by (auto simp: Let_def store_simps less_Suc_eq split: option.splits)
qed (simp split: option.splits)

lemma latest_is_last:
  "um_find (latest_loop (length es) es []) (oe_path_hash (es ! i)) = Some i \<longleftrightarrow>
     oe_path_hash (es ! i) \<notin> oe_path_hash ` set (drop (Suc i) es)" if "i < length es"
proof -
  let ?S = "{j. j < length es \<and> oe_path_hash (es ! j) = oe_path_hash (es ! i)}"
  have S: "finite ?S" "i \<in> ?S" using that by auto
  have "um_find (latest_loop (length es) es []) (oe_path_hash (es ! i)) = Some (Max ?S)"
    using that by (auto simp: latest_loop_find)
  moreover have "Max ?S = i \<longleftrightarrow> (\<forall>j \<in> ?S. j \<le> i)"
    using S Max_ge [OF S(1)] Max_eqI [OF S(1), of i] by (intro iffI) auto
  moreover have "(\<forall>j \<in> ?S. j \<le> i) \<longleftrightarrow> oe_path_hash (es ! i) \<notin> oe_path_hash ` set (drop (Suc i) es)"
  proof
    assume a: "\<forall>j \<in> ?S. j \<le> i"
    show "oe_path_hash (es ! i) \<notin> oe_path_hash ` set (drop (Suc i) es)"
    proof
      assume "oe_path_hash (es ! i) \<in> oe_path_hash ` set (drop (Suc i) es)"
      then obtain k where "k < length es - Suc i" "oe_path_hash (es ! (Suc i + k)) = oe_path_hash (es ! i)"
        by (auto simp: in_set_conv_nth)
      then show False using bspec [OF a, of "Suc i + k"] that by (simp add: less_diff_conv)
    qed
  next
    assume a: "oe_path_hash (es ! i) \<notin> oe_path_hash ` set (drop (Suc i) es)"
    show "\<forall>j \<in> ?S. j \<le> i"
    proof (rule ballI, rule ccontr)
      fix j assume "j \<in> ?S" "\<not> j \<le> i"
      then have "es ! j \<in> set (drop (Suc i) es)" "oe_path_hash (es ! j) = oe_path_hash (es ! i)"
        using nth_mem [of "j - Suc i" "drop (Suc i) es"] by auto
      then show False using a by (metis imageI)
    qed
  qed
  ultimately show ?thesis by auto
qed

lemma kept_loop_keep_last:
  "kept_loop n (drop n es) (latest_loop (length es) es []) = keep_last (drop n es)" if "n \<le> length es"
  using that
proof (induction "length es - n" arbitrary: n)
  case (Suc k)
  then have n: "n < length es" by simp
  then have "drop n es = es ! n # drop (Suc n) es" by (simp add: Cons_nth_drop_Suc)
  moreover have "kept_loop (Suc n) (drop (Suc n) es) (latest_loop (length es) es []) = keep_last (drop (Suc n) es)"
    using Suc n by (intro Suc.hyps) auto
  ultimately show ?case using latest_is_last [OF n] by simp
qed simp

lemma coalesce_keep_last: "outbox_coalesce es = (length es - length (keep_last es), keep_last es)"
proof (cases "length es \<le> 1")
  case True
  then have "keep_last es = es" by (cases es rule: keep_last.cases) (auto simp: length_Suc_conv le_Suc_eq)
  then show ?thesis using True by (simp add: outbox_coalesce_def)
next
  case False
  then show ?thesis using kept_loop_keep_last [of 0 es] by (simp add: outbox_coalesce_def Let_def)
qed

text \<open>
  Draining a coalesced outbox. \<^verbatim>\<open>coalesce\<close> keeps exactly the last entry of every path, in order, and
  returns how many it dropped; popping until the outbox is empty then delivers exactly those of them that
  have not passed their deadline, in order.
\<close>

theorem outbox_coalesce_drain:
  "outbox_coalesce es = (length es - length (keep_last es), keep_last es) \<and>
   drain now (snd (outbox_coalesce es)) = filter (entry_is_fresh now) (keep_last es)"
  by (simp add: coalesce_keep_last drain_filter)

end
