(* ===== verification/Doubles.thy ===== *)
theory Doubles
  imports Rom_Prelude Complex_Main
begin

text \<open>
  Floating-point numbers. A \<^verbatim>\<open>double\<close> is a real number, and every operation on doubles rounds its exact result with the
  parameter \<open>rnd\<close>, the rounding of the floating-point unit; decimal constants round the same way. \<open>double_to_u32\<close>
  is the C++ conversion to \<^verbatim>\<open>uint32_t\<close>, which truncates and is undefined (\<open>None\<close>) when the truncated value does not fit.
\<close>

definition double_to_u32 :: "real \<Rightarrow> u32 option" where
  "double_to_u32 x =
    (if - 1 < x \<and> x < 2 ^ 32 then Some (if x < 0 then 0 else of_int \<lfloor>x\<rfloor>) else None)"

definition u32_to_double :: "u32 \<Rightarrow> real" where
  "u32_to_double w = real (unat w)"

text \<open>What a floating-point unit promises: rounding is monotone and whole numbers of up to 53 bits are exact.\<close>

definition rounding :: "(real \<Rightarrow> real) \<Rightarrow> bool" where
  "rounding rnd \<longleftrightarrow> mono rnd \<and> (\<forall>n :: int. \<bar>n\<bar> \<le> 2 ^ 53 \<longrightarrow> rnd (of_int n) = of_int n)"

declare of_nat_unat [simp del]

lemma rnd_nat: "rounding rnd \<Longrightarrow> n \<le> 2 ^ 53 \<Longrightarrow> rnd (real n) = real n"
  unfolding rounding_def by (metis abs_of_nat of_int_of_nat_eq of_nat_le_iff of_nat_numeral of_nat_power)

lemma rnd_le: "rounding rnd \<Longrightarrow> x \<le> real n \<Longrightarrow> n \<le> 2 ^ 53 \<Longrightarrow> rnd x \<le> real n"
  using rnd_nat [of rnd n] by (metis monoD rounding_def)

lemma rnd_ge: "rounding rnd \<Longrightarrow> real n \<le> x \<Longrightarrow> n \<le> 2 ^ 53 \<Longrightarrow> real n \<le> rnd x"
  using rnd_nat [of rnd n] by (metis monoD rounding_def)

lemma double_to_u32_le:
  assumes "0 \<le> x" "x \<le> real n" "n < 2 ^ 32"
  shows "\<exists>w. double_to_u32 x = Some w \<and> unat w \<le> n"
proof -
  have n: "real n < 2 ^ 32" using assms(3) by (metis of_nat_less_iff of_nat_numeral of_nat_power)
  have f: "0 \<le> \<lfloor>x\<rfloor>" "\<lfloor>x\<rfloor> \<le> int n" using assms(1,2) by (auto simp: floor_le_iff le_floor_iff)
  then have "unat (of_int \<lfloor>x\<rfloor> :: u32) = nat \<lfloor>x\<rfloor>"
    using n assms(2,3) take_bit_int_eq_self [of "\<lfloor>x\<rfloor>" 32] by (simp add: unat_eq_nat_uint uint_word_of_int_eq)
  then show ?thesis using assms n f by (auto simp: double_to_u32_def)
qed

lemma rnd_between:
  assumes "rounding rnd" "0 \<le> x" "x \<le> real n" "n < 2 ^ 32"
  shows "0 \<le> rnd x \<and> rnd x \<le> real n \<and> (\<exists>w. double_to_u32 (rnd x) = Some w \<and> unat w \<le> n)"
proof -
  have "0 \<le> rnd x" "rnd x \<le> real n" using rnd_ge [of rnd 0 x] rnd_le [of rnd x n] assms by auto
  then show ?thesis using double_to_u32_le assms(4) by blast
qed

end
