(* ===== verification/Congestion.thy ===== *)
theory Congestion
  imports Doubles
begin

text \<open>
  Delay-based congestion control (\<^verbatim>\<open>include/protocoll/reliability/congestion.h\<close>,
  \<^verbatim>\<open>src/reliability/congestion.cpp\<close>): the trendline estimator, the overuse detector and the rate controller.

  Arithmetic on doubles is that of \<^verbatim>\<open>Doubles\<close>; the operations that convert a double to an integer return an option.
  Infinities and NaN do not occur: the only division by a computed value is guarded.
\<close>

datatype congestion_state = SLOW_START | STEADY | DRAIN

datatype bandwidth_usage = USAGE_NORMAL | USAGE_OVERUSE | USAGE_UNDERUSE

subsection \<open>Trendline estimator\<close>

record trend_point =
  tp_smoothed_delay :: real
  tp_arrival_time :: real

record trendline_estimator =
  te_window :: "trend_point list"
  te_accumulated_delay :: real
  te_smoothed_delay :: real
  te_slope :: real
  te_count :: nat

definition WINDOW_SIZE :: nat where "WINDOW_SIZE = 20"

definition trendline_new :: trendline_estimator where
  "trendline_new = \<lparr>te_window = [], te_accumulated_delay = 0, te_smoothed_delay = 0, te_slope = 0, te_count = 0\<rparr>"

fun slope_sums :: "(real \<Rightarrow> real) \<Rightarrow> trend_point list \<Rightarrow> real \<times> real \<times> real \<times> real \<Rightarrow> real \<times> real \<times> real \<times> real" where
  "slope_sums rnd [] s = s"
| "slope_sums rnd (p # ps) (sum_x, sum_y, sum_xy, sum_xx) =
     slope_sums rnd ps
       (rnd (sum_x + tp_arrival_time p),
        rnd (sum_y + tp_smoothed_delay p),
        rnd (sum_xy + rnd (tp_arrival_time p * tp_smoothed_delay p)),
        rnd (sum_xx + rnd (tp_arrival_time p * tp_arrival_time p)))"

definition compute_slope :: "(real \<Rightarrow> real) \<Rightarrow> trend_point list \<Rightarrow> real" where
  "compute_slope rnd window =
    (if length window < 2 then 0
     else
       let n = real (length window);
           (sum_x, sum_y, sum_xy, sum_xx) = slope_sums rnd window (0, 0, 0, 0);
           denom = rnd (rnd (n * sum_xx) - rnd (sum_x * sum_x))
       in if \<bar>denom\<bar> < rnd (1 / 10 ^ 9) then 0
          else rnd (rnd (rnd (n * sum_xy) - rnd (sum_x * sum_y)) / denom))"

definition trendline_update :: "(real \<Rightarrow> real) \<Rightarrow> real \<Rightarrow> real \<Rightarrow> real \<Rightarrow> trendline_estimator \<Rightarrow> real \<times> trendline_estimator" where
  "trendline_update rnd arrival_delta_ms send_delta_ms now_ms t =
    (let coeff = rnd (9 / 10);
         delay_delta = rnd (arrival_delta_ms - send_delta_ms);
         acc = rnd (te_accumulated_delay t + delay_delta);
         smoothed = rnd (rnd (coeff * te_smoothed_delay t) + rnd (rnd (1 - coeff) * acc));
         pushed = te_window t @ [\<lparr>tp_smoothed_delay = smoothed, tp_arrival_time = now_ms\<rparr>];
         window = (if length pushed > WINDOW_SIZE then tl pushed else pushed);
         slope = (if length window \<ge> 2 then compute_slope rnd window else te_slope t)
     in (slope, \<lparr>te_window = window, te_accumulated_delay = acc, te_smoothed_delay = smoothed,
                 te_slope = slope, te_count = te_count t + 1\<rparr>))"

subsection \<open>Overuse detector\<close>

record overuse_detector =
  od_state :: bandwidth_usage
  od_overuse_timer :: real

definition overuse_detector_new :: overuse_detector where
  "overuse_detector_new = \<lparr>od_state = USAGE_NORMAL, od_overuse_timer = 0\<rparr>"

definition detect :: "(real \<Rightarrow> real) \<Rightarrow> real \<Rightarrow> overuse_detector \<Rightarrow> bandwidth_usage \<times> overuse_detector" where
  "detect rnd trendline_slope o0 =
    (let o1 = (if trendline_slope > 25 / 2 then
                 let o' = o0\<lparr>od_overuse_timer := rnd (od_overuse_timer o0 + 1)\<rparr>
                 in if od_overuse_timer o' > 10 then o'\<lparr>od_state := USAGE_OVERUSE\<rparr> else o'
               else if trendline_slope < - (25 / 2) then o0\<lparr>od_overuse_timer := 0, od_state := USAGE_UNDERUSE\<rparr>
               else o0\<lparr>od_overuse_timer := 0, od_state := USAGE_NORMAL\<rparr>)
     in (od_state o1, o1))"

subsection \<open>Rate controller\<close>

definition MIN_RATE_BPS :: u32 where "MIN_RATE_BPS = 10000"
definition INITIAL_RATE_BPS :: u32 where "INITIAL_RATE_BPS = 300000"
definition MAX_RATE_BPS :: u32 where "MAX_RATE_BPS = 100000000"
definition MIN_CWND :: u32 where "MIN_CWND = 2400"
definition INITIAL_CWND :: u32 where "INITIAL_CWND = 15000"
definition ADDITIVE_INCREASE_BPS :: u32 where "ADDITIVE_INCREASE_BPS = 8000"

definition MULTIPLICATIVE_DECREASE :: "(real \<Rightarrow> real) \<Rightarrow> real" where
  "MULTIPLICATIVE_DECREASE rnd = rnd (85 / 100)"

record congestion_controller =
  cc_state :: congestion_state
  cc_send_rate_bps :: u32
  cc_cwnd :: u32
  cc_bytes_in_flight :: u32
  cc_last_update_us :: u32
  cc_trendline :: trendline_estimator
  cc_detector :: overuse_detector
  cc_last_send_ts_us :: u32
  cc_last_arrival_ts_us :: u32
  cc_has_last_sample :: bool

definition congestion_reset :: "congestion_controller \<Rightarrow> congestion_controller" where
  "congestion_reset c =
    c\<lparr>cc_state := SLOW_START, cc_send_rate_bps := INITIAL_RATE_BPS, cc_cwnd := INITIAL_CWND, cc_bytes_in_flight := 0,
      cc_last_update_us := 0, cc_last_send_ts_us := 0, cc_last_arrival_ts_us := 0, cc_has_last_sample := False,
      cc_trendline := trendline_new\<rparr>"

definition congestion_new :: congestion_controller where
  "congestion_new = congestion_reset
    \<lparr>cc_state = SLOW_START, cc_send_rate_bps = INITIAL_RATE_BPS, cc_cwnd = INITIAL_CWND, cc_bytes_in_flight = 0,
     cc_last_update_us = 0, cc_trendline = trendline_new, cc_detector = overuse_detector_new,
     cc_last_send_ts_us = 0, cc_last_arrival_ts_us = 0, cc_has_last_sample = False\<rparr>"

definition congestion_on_packet_sent :: "u16 \<Rightarrow> congestion_controller \<Rightarrow> congestion_controller" where
  "congestion_on_packet_sent pkt_size c = c\<lparr>cc_bytes_in_flight := cc_bytes_in_flight c + ucast pkt_size\<rparr>"

definition reduce_in_flight :: "u16 \<Rightarrow> congestion_controller \<Rightarrow> congestion_controller" where
  "reduce_in_flight packet_size c =
    c\<lparr>cc_bytes_in_flight := (if cc_bytes_in_flight c \<ge> ucast packet_size then cc_bytes_in_flight c - ucast packet_size else 0)\<rparr>"

definition decreased_rate :: "(real \<Rightarrow> real) \<Rightarrow> u32 \<Rightarrow> u32 option" where
  "decreased_rate rnd rate = double_to_u32 (rnd (u32_to_double rate * MULTIPLICATIVE_DECREASE rnd))"

definition clamp_rate :: "congestion_controller \<Rightarrow> congestion_controller" where
  "clamp_rate c =
    (let c1 = (if cc_send_rate_bps c < MIN_RATE_BPS then c\<lparr>cc_send_rate_bps := MIN_RATE_BPS\<rparr> else c)
     in if cc_send_rate_bps c1 > MAX_RATE_BPS then c1\<lparr>cc_send_rate_bps := MAX_RATE_BPS\<rparr> else c1)"

definition update_rate :: "(real \<Rightarrow> real) \<Rightarrow> bandwidth_usage \<Rightarrow> u32 \<Rightarrow> congestion_controller \<Rightarrow> congestion_controller option" where
  "update_rate rnd usage timestamp_us c =
    (let elapsed_us = timestamp_us - cc_last_update_us c in
     if elapsed_us = 0 then Some c
     else map_option clamp_rate
       (case cc_state c of
          SLOW_START \<Rightarrow>
            if usage = USAGE_OVERUSE
            then map_option (\<lambda>r. c\<lparr>cc_state := DRAIN, cc_send_rate_bps := r\<rparr>) (decreased_rate rnd (cc_send_rate_bps c))
            else
              let growth = rnd (u32_to_double elapsed_us / 1000000)
              in map_option (\<lambda>r. c\<lparr>cc_send_rate_bps := r\<rparr>)
                   (double_to_u32 (rnd (u32_to_double (cc_send_rate_bps c) * rnd (1 + growth))))
        | STEADY \<Rightarrow>
            if usage = USAGE_OVERUSE
            then map_option (\<lambda>r. c\<lparr>cc_state := DRAIN, cc_send_rate_bps := r\<rparr>) (decreased_rate rnd (cc_send_rate_bps c))
            else if usage = USAGE_NORMAL
            then
              let seconds = rnd (u32_to_double elapsed_us / 1000000)
              in map_option (\<lambda>r. c\<lparr>cc_send_rate_bps := cc_send_rate_bps c + r\<rparr>)
                   (double_to_u32 (rnd (u32_to_double ADDITIVE_INCREASE_BPS * seconds)))
            else Some c
        | DRAIN \<Rightarrow> Some (if usage \<noteq> USAGE_OVERUSE then c\<lparr>cc_state := STEADY\<rparr> else c)))"

definition update_cwnd_from_rate :: "(real \<Rightarrow> real) \<Rightarrow> u32 \<Rightarrow> congestion_controller \<Rightarrow> congestion_controller option" where
  "update_cwnd_from_rate rnd rtt_us c =
    (let rtt_sec = rnd (u32_to_double rtt_us / 1000000)
     in map_option (\<lambda>new_cwnd. c\<lparr>cc_cwnd := (if new_cwnd < MIN_CWND then MIN_CWND else new_cwnd)\<rparr>)
          (double_to_u32 (rnd (u32_to_double (cc_send_rate_bps c) * rtt_sec))))"

definition congestion_on_ack_received ::
    "(real \<Rightarrow> real) \<Rightarrow> u32 \<Rightarrow> u32 \<Rightarrow> u16 \<Rightarrow> u16 \<Rightarrow> congestion_controller \<Rightarrow> congestion_controller option" where
  "congestion_on_ack_received rnd send_ts_us ack_ts_us ack_delay_us packet_size c0 =
    (let c = reduce_in_flight packet_size c0;
         arrival_ts_us = ack_ts_us - ucast ack_delay_us;
         sampled =
           (if cc_has_last_sample c then
              let send_delta_ms = rnd (u32_to_double (send_ts_us - cc_last_send_ts_us c) / 1000);
                  arrival_delta_ms = rnd (u32_to_double (arrival_ts_us - cc_last_arrival_ts_us c) / 1000);
                  now_ms = rnd (u32_to_double ack_ts_us / 1000);
                  (slope, trend) = trendline_update rnd arrival_delta_ms send_delta_ms now_ms (cc_trendline c);
                  (usage, det) = detect rnd slope (cc_detector c);
                  rtt_us = ack_ts_us - send_ts_us
              in Option.bind (update_rate rnd usage ack_ts_us (c\<lparr>cc_trendline := trend, cc_detector := det\<rparr>))
                   (\<lambda>c2. if rtt_us > 0 then update_cwnd_from_rate rnd rtt_us c2 else Some c2)
            else Some c)
     in map_option (\<lambda>c2. c2\<lparr>cc_last_send_ts_us := send_ts_us, cc_last_arrival_ts_us := arrival_ts_us,
                            cc_has_last_sample := True, cc_last_update_us := ack_ts_us\<rparr>) sampled)"

definition congestion_on_packet_lost :: "(real \<Rightarrow> real) \<Rightarrow> u32 \<Rightarrow> u16 \<Rightarrow> congestion_controller \<Rightarrow> congestion_controller option" where
  "congestion_on_packet_lost rnd timestamp_us packet_size c0 =
    (let c = (reduce_in_flight packet_size c0)\<lparr>cc_state := DRAIN\<rparr>
     in Option.bind (decreased_rate rnd (cc_send_rate_bps c))
          (\<lambda>r. let c1 = c\<lparr>cc_send_rate_bps := (if r < MIN_RATE_BPS then MIN_RATE_BPS else r)\<rparr>
               in map_option (\<lambda>c2. c2\<lparr>cc_last_update_us := timestamp_us\<rparr>) (update_cwnd_from_rate rnd 100000 c1)))"

definition can_send :: "u16 \<Rightarrow> congestion_controller \<Rightarrow> bool" where
  "can_send packet_size c \<longleftrightarrow> cc_bytes_in_flight c + ucast packet_size \<le> cc_cwnd c"

definition pacing_delay_us :: "(real \<Rightarrow> real) \<Rightarrow> congestion_controller \<Rightarrow> u32 option" where
  "pacing_delay_us rnd c =
    (if cc_send_rate_bps c = 0 then Some 0
     else double_to_u32 (rnd (rnd (1200 / u32_to_double (cc_send_rate_bps c)) * 1000000)))"

subsection \<open>Runs of the controller\<close>

datatype cc_event =
    CC_Sent u16
  | CC_Ack u32 u32 u16 u16
  | CC_Lost u32 u16

fun cc_step :: "(real \<Rightarrow> real) \<Rightarrow> cc_event \<Rightarrow> congestion_controller \<Rightarrow> congestion_controller option" where
  "cc_step rnd (CC_Sent n) c = Some (congestion_on_packet_sent n c)"
| "cc_step rnd (CC_Ack send ack delay n) c = congestion_on_ack_received rnd send ack delay n c"
| "cc_step rnd (CC_Lost t n) c = congestion_on_packet_lost rnd t n c"

fun cc_run :: "(real \<Rightarrow> real) \<Rightarrow> cc_event list \<Rightarrow> congestion_controller \<Rightarrow> congestion_controller option" where
  "cc_run rnd [] c = Some c"
| "cc_run rnd (e # es) c = Option.bind (cc_step rnd e c) (cc_run rnd es)"

text \<open>
  No more than 41 seconds pass between two updates, and no round trip takes more than 42: the arguments are
  the controller's \<open>has_last_sample\<close> and \<open>last_update_us\<close>.
\<close>

fun timely :: "bool \<Rightarrow> u32 \<Rightarrow> cc_event list \<Rightarrow> bool" where
  "timely has t [] \<longleftrightarrow> True"
| "timely has t (CC_Sent n # es) \<longleftrightarrow> timely has t es"
| "timely has t (CC_Ack send ack delay n # es) \<longleftrightarrow>
     (has \<longrightarrow> ack - t \<le> 41000000 \<and> ack - send \<le> 42000000) \<and> timely True ack es"
| "timely has t (CC_Lost t' n # es) \<longleftrightarrow> timely has t' es"

definition rate_ok :: "congestion_controller \<Rightarrow> bool" where
  "rate_ok c \<longleftrightarrow> MIN_RATE_BPS \<le> cc_send_rate_bps c \<and> cc_send_rate_bps c \<le> MAX_RATE_BPS \<and> MIN_CWND \<le> cc_cwnd c"

lemma decreased_rate_le:
  assumes "rounding rnd"
  shows "\<exists>r. decreased_rate rnd rate = Some r \<and> r \<le> rate"
proof -
  have "0 \<le> rnd (85 / 100)" "rnd (85 / 100) \<le> 1" using rnd_between [OF assms, of "85 / 100" 1] by auto
  then have "0 \<le> real (unat rate) * rnd (85 / 100)" "real (unat rate) * rnd (85 / 100) \<le> real (unat rate)"
    using mult_left_le [of "rnd (85 / 100)" "real (unat rate)"] by auto
  then show ?thesis
    using rnd_between [OF assms, of "real (unat rate) * rnd (85 / 100)" "unat rate"] unsigned_less [of rate, where ?'a = nat]
    by (simp add: decreased_rate_def u32_to_double_def MULTIPLICATIVE_DECREASE_def word_le_nat_alt)
qed

text \<open>A product of a bounded rate with a bounded number of seconds converts without overflow.\<close>

lemma scaled_fits:
  assumes "rounding rnd" "unat rate \<le> a" "0 \<le> x" "x \<le> real b" "a * b < 2 ^ 32"
  shows "\<exists>w. double_to_u32 (rnd (u32_to_double rate * x)) = Some w \<and> unat w \<le> a * b"
proof -
  have "u32_to_double rate * x \<le> real a * real b"
    unfolding u32_to_double_def using assms by (intro mult_mono) auto
  then show ?thesis using rnd_between [OF assms(1), of "u32_to_double rate * x" "a * b"] assms by (simp add: u32_to_double_def)
qed

lemma seconds_bound:
  assumes "rounding rnd" "unat us \<le> n * 1000000" "n < 2 ^ 32"
  shows "0 \<le> rnd (u32_to_double us / 1000000)" "rnd (u32_to_double us / 1000000) \<le> real n"
proof -
  have "real (unat us) \<le> real n * 1000000" using assms(2) by (metis of_nat_le_iff of_nat_mult of_nat_numeral)
  then show "0 \<le> rnd (u32_to_double us / 1000000)" "rnd (u32_to_double us / 1000000) \<le> real n"
    using rnd_between [OF assms(1), of "u32_to_double us / 1000000" n] assms(3) by (auto simp: u32_to_double_def)
qed

lemma clamp_rate_ok [simp]:
  "MIN_RATE_BPS \<le> cc_send_rate_bps (clamp_rate c)" "cc_send_rate_bps (clamp_rate c) \<le> MAX_RATE_BPS"
  "cc_cwnd (clamp_rate c) = cc_cwnd c" "cc_has_last_sample (clamp_rate c) = cc_has_last_sample c"
  "cc_last_update_us (clamp_rate c) = cc_last_update_us c"
  by (auto simp: clamp_rate_def Let_def MIN_RATE_BPS_def MAX_RATE_BPS_def not_less)

lemma rate_ok_clamp: "MIN_CWND \<le> cc_cwnd c \<Longrightarrow> rate_ok (clamp_rate c)"
  by (simp add: rate_ok_def)

lemma max_rate_unat: "cc_send_rate_bps c \<le> MAX_RATE_BPS \<Longrightarrow> unat (cc_send_rate_bps c) \<le> 100000000"
  by (simp add: MAX_RATE_BPS_def word_le_nat_alt)

lemma update_rate_defined:
  assumes "rounding rnd" "rate_ok c" "ts - cc_last_update_us c \<le> 41000000"
  shows "\<exists>c'. update_rate rnd usage ts c = Some c' \<and> rate_ok c'"
proof -
  let ?el = "ts - cc_last_update_us c"
  let ?g = "rnd (u32_to_double ?el / 1000000)"
  have el: "unat ?el \<le> 41 * 1000000" using assms(3) by (simp add: word_le_nat_alt)
  have r: "unat (cc_send_rate_bps c) \<le> 100000000" using assms(2) by (intro max_rate_unat) (simp add: rate_ok_def)
  have g: "0 \<le> ?g" "?g \<le> real 41" using seconds_bound [OF assms(1) el] by auto
  obtain d where d: "decreased_rate rnd (cc_send_rate_bps c) = Some d" using decreased_rate_le [OF assms(1)] by blast
  have "0 \<le> rnd (1 + ?g)" "rnd (1 + ?g) \<le> real 42" using rnd_between [OF assms(1), of "1 + ?g" 42] g by auto
  then obtain w1 where w1: "double_to_u32 (rnd (u32_to_double (cc_send_rate_bps c) * rnd (1 + ?g))) = Some w1"
    using scaled_fits [OF assms(1) r, of "rnd (1 + ?g)" 42] by auto
  obtain w2 where w2: "double_to_u32 (rnd (u32_to_double ADDITIVE_INCREASE_BPS * ?g)) = Some w2"
    using scaled_fits [OF assms(1) _ g, of ADDITIVE_INCREASE_BPS 8000] by (auto simp: ADDITIVE_INCREASE_BPS_def)
  have cw: "MIN_CWND \<le> cc_cwnd c" using assms(2) by (simp add: rate_ok_def)
  show ?thesis
  proof (cases "?el = 0")
    case True
    then show ?thesis using assms(2) by (simp add: update_rate_def)
  next
    case False
    then show ?thesis
      using d w1 w2 cw by (cases "cc_state c"; cases usage) (simp_all add: update_rate_def Let_def rate_ok_clamp)
  qed
qed

lemma update_cwnd_defined:
  assumes "rounding rnd" "rate_ok c" "rtt \<le> 42000000"
  shows "\<exists>c'. update_cwnd_from_rate rnd rtt c = Some c' \<and> rate_ok c' \<and> cc_has_last_sample c' = cc_has_last_sample c"
proof -
  have t: "unat rtt \<le> 42 * 1000000" using assms(3) by (simp add: word_le_nat_alt)
  have r: "unat (cc_send_rate_bps c) \<le> 100000000" using assms(2) by (intro max_rate_unat) (simp add: rate_ok_def)
  obtain w where w: "double_to_u32 (rnd (u32_to_double (cc_send_rate_bps c) * rnd (u32_to_double rtt / 1000000))) = Some w"
    using scaled_fits [OF assms(1) r seconds_bound [OF assms(1) t]] by auto
  show ?thesis using assms(2) by (auto simp: update_cwnd_from_rate_def w rate_ok_def)
qed

lemma reduce_in_flight_frame [simp]:
  "rate_ok (reduce_in_flight n c) = rate_ok c" "cc_has_last_sample (reduce_in_flight n c) = cc_has_last_sample c"
  "cc_last_update_us (reduce_in_flight n c) = cc_last_update_us c" "cc_send_rate_bps (reduce_in_flight n c) = cc_send_rate_bps c"
  by (simp_all add: reduce_in_flight_def rate_ok_def)

lemma ack_defined:
  assumes "rounding rnd" "rate_ok c" "cc_has_last_sample c \<longrightarrow> ack - cc_last_update_us c \<le> 41000000 \<and> ack - send \<le> 42000000"
  shows "\<exists>c'. congestion_on_ack_received rnd send ack delay n c = Some c' \<and> rate_ok c' \<and> cc_has_last_sample c' \<and> cc_last_update_us c' = ack"
proof (cases "cc_has_last_sample c")
  case False
  then show ?thesis using assms(2) by (simp add: congestion_on_ack_received_def Let_def rate_ok_def reduce_in_flight_def)
next
  case True
  let ?p = "trendline_update rnd (rnd (u32_to_double (ack - ucast delay - cc_last_arrival_ts_us (reduce_in_flight n c)) / 1000))
      (rnd (u32_to_double (send - cc_last_send_ts_us (reduce_in_flight n c)) / 1000)) (rnd (u32_to_double ack / 1000))
      (cc_trendline (reduce_in_flight n c))"
  let ?q = "detect rnd (fst ?p) (cc_detector (reduce_in_flight n c))"
  let ?c1 = "(reduce_in_flight n c)\<lparr>cc_trendline := snd ?p, cc_detector := snd ?q\<rparr>"
  have "rate_ok ?c1" using assms(2) by (simp add: rate_ok_def reduce_in_flight_def)
  then obtain c2 where c2: "update_rate rnd (fst ?q) ack ?c1 = Some c2" "rate_ok c2"
    using update_rate_defined [OF assms(1), of ?c1 ack "fst ?q"] assms(3) True by auto
  obtain c3 where "(if ack - send > 0 then update_cwnd_from_rate rnd (ack - send) c2 else Some c2) = Some c3" "rate_ok c3"
    using update_cwnd_defined [OF assms(1) c2(2), of "ack - send"] c2(2) assms(3) True by (cases "ack - send > 0") auto
  then show ?thesis
    using True c2(1) by (simp add: congestion_on_ack_received_def Let_def split_beta rate_ok_def)
qed

lemma lost_defined:
  assumes "rounding rnd" "rate_ok c"
  shows "\<exists>c'. congestion_on_packet_lost rnd t n c = Some c' \<and> rate_ok c' \<and>
    cc_has_last_sample c' = cc_has_last_sample c \<and> cc_last_update_us c' = t"
proof -
  let ?c = "(reduce_in_flight n c)\<lparr>cc_state := DRAIN\<rparr>"
  obtain r where r: "decreased_rate rnd (cc_send_rate_bps c) = Some r" "r \<le> cc_send_rate_bps c"
    using decreased_rate_le [OF assms(1)] by blast
  let ?c1 = "?c\<lparr>cc_send_rate_bps := if r < MIN_RATE_BPS then MIN_RATE_BPS else r\<rparr>"
  have "rate_ok ?c1"
    using r(2) assms(2) by (auto simp: rate_ok_def reduce_in_flight_def MIN_RATE_BPS_def MAX_RATE_BPS_def not_less)
  then obtain c2 where "update_cwnd_from_rate rnd 100000 ?c1 = Some c2" "rate_ok c2" "cc_has_last_sample c2 = cc_has_last_sample c"
    using update_cwnd_defined [OF assms(1), of ?c1 100000] by auto
  then show ?thesis using r(1) by (simp add: congestion_on_packet_lost_def Let_def rate_ok_def)
qed

text \<open>
  C25. The sending rate stays within its bounds and every conversion is defined. While no more than 41 seconds pass between
  updates and no round trip takes more than 42 seconds, every sequence of sends, acknowledgements and losses is processed
  without an out-of-range conversion and ends with a rate between \<open>MIN_RATE_BPS\<close> and \<open>MAX_RATE_BPS\<close> and a window of at
  least \<open>MIN_CWND\<close>, for every monotone rounding that is exact on whole numbers.
\<close>

theorem congestion_rate_bounds:
  assumes "rounding rnd" "rate_ok c" "timely (cc_has_last_sample c) (cc_last_update_us c) es"
  shows "\<exists>c'. cc_run rnd es c = Some c' \<and> rate_ok c'"
  using assms(2,3)
proof (induction es arbitrary: c)
  case (Cons e es)
  have "\<exists>c1. cc_step rnd e c = Some c1 \<and> rate_ok c1 \<and> timely (cc_has_last_sample c1) (cc_last_update_us c1) es"
  proof (cases e)
    case (CC_Sent n)
    then show ?thesis using Cons.prems by (simp add: congestion_on_packet_sent_def rate_ok_def)
  next
    case (CC_Ack send ack delay n)
    then show ?thesis using ack_defined [OF assms(1) Cons.prems(1), of ack send delay n] Cons.prems(2) by auto
  next
    case (CC_Lost t n)
    then show ?thesis using lost_defined [OF assms(1) Cons.prems(1), of t n] Cons.prems(2) by auto
  qed
  then show ?case using Cons.IH by fastforce
qed simp

theorem congestion_rate_bounds_witness:
  "\<exists>c'. cc_run (\<lambda>x. x) [CC_Sent 1200, CC_Ack 1000 51000 100 1200, CC_Sent 900, CC_Ack 60000 30000000 100 900, CC_Lost 31000000 900]
     congestion_new = Some c' \<and> rate_ok c'"
proof -
  have "rounding (\<lambda>x. x)" by (simp add: rounding_def mono_def)
  moreover have "rate_ok congestion_new"
    by (simp add: congestion_new_def congestion_reset_def rate_ok_def MIN_RATE_BPS_def MAX_RATE_BPS_def INITIAL_RATE_BPS_def
        MIN_CWND_def INITIAL_CWND_def)
  moreover have "timely (cc_has_last_sample congestion_new) (cc_last_update_us congestion_new)
      [CC_Sent 1200, CC_Ack 1000 51000 100 1200, CC_Sent 900, CC_Ack 60000 30000000 100 900, CC_Lost 31000000 900]"
    by (simp add: congestion_new_def congestion_reset_def)
  ultimately show ?thesis by (rule congestion_rate_bounds)
qed

text \<open>After a longer silence in slow start at the top rate the conversion of the grown rate is out of range.\<close>

lemma slow_start_overflow:
  assumes "rounding rnd" "cc_state c = SLOW_START" "cc_send_rate_bps c = MAX_RATE_BPS" "ts - cc_last_update_us c = 43000000"
    and "usage \<noteq> USAGE_OVERUSE"
  shows "update_rate rnd usage ts c = None"
proof -
  have "rnd 43 = 43" "rnd 44 = 44" "rnd (100000000 * 44) = 100000000 * 44"
    using rnd_nat [OF assms(1), of 43] rnd_nat [OF assms(1), of 44] rnd_nat [OF assms(1), of "100000000 * 44"] by simp_all
  then show ?thesis
    using assms by (simp add: update_rate_def Let_def u32_to_double_def double_to_u32_def MAX_RATE_BPS_def)
qed

end
