(* ===== verification/Connection.thy ===== *)
theory Connection
  imports Packet Ack_Tracker
begin

text \<open>
  Connections: the state machine of one connection (\<^verbatim>\<open>connection.h\<close>, \<^verbatim>\<open>connection.cpp\<close>), the allocator of
  connection ids (\<^verbatim>\<open>connection_id.h\<close>) and the table of connections (\<^verbatim>\<open>connection_manager.h\<close>,
  \<^verbatim>\<open>connection_manager.cpp\<close>). A reading of the steady clock is an argument, in nanoseconds. A pointer
  into the table is the key of the entry, and an operation that returns a pointer returns the entry.

  \<open>conn_op\<close> lists the operations a connection can be driven by, \<open>conn_run\<close> applies a sequence of them.
\<close>

record endpoint =
  ep_address :: bytes
  ep_port :: u16

datatype connection_state = CS_IDLE | CS_CONNECTING | CS_ACCEPTING | CS_CONNECTED | CS_CLOSING | CS_CLOSED

record connection_config =
  ccfg_max_frame_size :: u16
  ccfg_connect_timeout_ms :: u32
  ccfg_idle_timeout_ms :: u32
  ccfg_ping_interval_ms :: u32

definition connection_config_default :: connection_config where
  "connection_config_default =
    \<lparr>ccfg_max_frame_size = of_nat MAX_PAYLOAD_SIZE, ccfg_connect_timeout_ms = 5000, ccfg_idle_timeout_ms = 30000,
     ccfg_ping_interval_ms = 10000\<rparr>"

record connection =
  cn_state :: connection_state
  cn_local_conn_id :: u16
  cn_remote_conn_id :: u16
  cn_remote :: endpoint
  cn_config :: connection_config
  cn_send_pkt_num :: u32
  cn_recv_pkt_num :: u32
  cn_negotiated_max_frame :: u16
  cn_peer_version :: u8
  cn_epoch :: nat
  cn_srtt_us :: u32

text \<open>The port of a default \<^verbatim>\<open>Endpoint\<close> is uninitialised in the source, zero here.\<close>

definition connection_new :: "nat \<Rightarrow> connection" where
  "connection_new now =
    \<lparr>cn_state = CS_IDLE, cn_local_conn_id = 0, cn_remote_conn_id = 0, cn_remote = \<lparr>ep_address = [], ep_port = 0\<rparr>,
     cn_config = connection_config_default, cn_send_pkt_num = 0, cn_recv_pkt_num = 0, cn_negotiated_max_frame = 0,
     cn_peer_version = 0, cn_epoch = now, cn_srtt_us = 0\<rparr>"

definition conn_initiate :: "nat \<Rightarrow> u16 \<Rightarrow> endpoint \<Rightarrow> connection \<Rightarrow> connection \<times> bool" where
  "conn_initiate now local_conn_id remote c =
    (if cn_state c \<noteq> CS_IDLE then (c, False)
     else (c\<lparr>cn_local_conn_id := local_conn_id, cn_remote := remote, cn_epoch := now, cn_state := CS_CONNECTING\<rparr>, True))"

definition conn_accept :: "nat \<Rightarrow> u16 \<Rightarrow> u16 \<Rightarrow> endpoint \<Rightarrow> connection \<Rightarrow> connection \<times> bool" where
  "conn_accept now local_conn_id remote_conn_id remote c =
    (if cn_state c \<noteq> CS_IDLE \<and> cn_state c \<noteq> CS_ACCEPTING then (c, False)
     else (c\<lparr>cn_local_conn_id := local_conn_id, cn_remote_conn_id := remote_conn_id, cn_remote := remote,
             cn_epoch := now, cn_state := CS_CONNECTED\<rparr>, True))"

definition conn_on_accept :: "u16 \<Rightarrow> connection \<Rightarrow> connection \<times> bool" where
  "conn_on_accept assigned_conn_id c =
    (if cn_state c \<noteq> CS_CONNECTING then (c, False)
     else (c\<lparr>cn_remote_conn_id := assigned_conn_id, cn_state := CS_CONNECTED\<rparr>, True))"

definition conn_on_connect :: "u8 \<Rightarrow> u16 \<Rightarrow> connection \<Rightarrow> connection \<times> bool" where
  "conn_on_connect peer_version peer_max_frame_size c =
    (c\<lparr>cn_peer_version := peer_version,
       cn_negotiated_max_frame := min (ccfg_max_frame_size (cn_config c)) peer_max_frame_size,
       cn_state := CS_ACCEPTING\<rparr>, True)"

definition conn_close :: "connection \<Rightarrow> connection \<times> bool" where
  "conn_close c = (if cn_state c \<noteq> CS_CONNECTED then (c, False) else (c\<lparr>cn_state := CS_CLOSING\<rparr>, True))"

definition conn_on_close :: "connection \<Rightarrow> connection \<times> bool" where
  "conn_on_close c = (c\<lparr>cn_state := CS_CLOSED\<rparr>, True)"

definition next_send_packet_number :: "connection \<Rightarrow> connection \<times> u32" where
  "next_send_packet_number c = (c\<lparr>cn_send_pkt_num := cn_send_pkt_num c + 1\<rparr>, cn_send_pkt_num c)"

definition update_recv_packet_number :: "u32 \<Rightarrow> connection \<Rightarrow> connection" where
  "update_recv_packet_number pkt_num c = (if pkt_num > cn_recv_pkt_num c then c\<lparr>cn_recv_pkt_num := pkt_num\<rparr> else c)"

definition elapsed_us :: "nat \<Rightarrow> connection \<Rightarrow> u32" where
  "elapsed_us now c = (of_nat ((now - cn_epoch c) div 1000) AND 0xFFFFFFFF)"

definition update_rtt :: "u32 \<Rightarrow> connection \<Rightarrow> connection" where
  "update_rtt sample_us c =
    c\<lparr>cn_srtt_us := (if cn_srtt_us c = 0 then sample_us else (cn_srtt_us c * 7 + sample_us) div 8)\<rparr>"

definition conn_set_config :: "connection_config \<Rightarrow> connection \<Rightarrow> connection" where
  "conn_set_config cfg c = c\<lparr>cn_config := cfg\<rparr>"

subsection \<open>Connection ids\<close>

definition conn_id_next :: "u16 \<Rightarrow> u16 \<times> u16" where
  "conn_id_next next_id =
    (let cid = next_id; next1 = next_id + 1
     in if cid = 0 then (next1, next1 + 1) else (cid, next1))"

fun conn_ids :: "nat \<Rightarrow> u16 \<Rightarrow> u16 list" where
  "conn_ids 0 a = []"
| "conn_ids (Suc n) a = (let (cid, a') = conn_id_next a in cid # conn_ids n a')"

subsection \<open>Connection table\<close>

record managed_connection =
  mc_remote_node_id :: u16
  mc_conn :: connection
  mc_send_tracker :: send_tracker
  mc_recv_tracker :: recv_tracker

record connection_manager =
  cm_conns :: "(u16, managed_connection) umap"
  cm_id_alloc :: u16

definition connection_manager_new :: connection_manager where
  "connection_manager_new = \<lparr>cm_conns = [], cm_id_alloc = 1\<rparr>"

definition cm_add :: "nat \<Rightarrow> u16 \<Rightarrow> connection_manager \<Rightarrow> connection_manager \<times> managed_connection option" where
  "cm_add now remote_node_id m =
    (case um_find (cm_conns m) remote_node_id of
       Some _ \<Rightarrow> (m, None)
     | None \<Rightarrow>
         let mc = \<lparr>mc_remote_node_id = remote_node_id, mc_conn = connection_new now, mc_send_tracker = [],
                   mc_recv_tracker = recv_tracker_new\<rparr>
         in (m\<lparr>cm_conns := um_put remote_node_id mc (cm_conns m)\<rparr>, Some mc))"

definition cm_remove :: "u16 \<Rightarrow> connection_manager \<Rightarrow> connection_manager \<times> bool" where
  "cm_remove remote_node_id m =
    (m\<lparr>cm_conns := um_erase remote_node_id (cm_conns m)\<rparr>, um_find (cm_conns m) remote_node_id \<noteq> None)"

definition cm_get :: "u16 \<Rightarrow> connection_manager \<Rightarrow> managed_connection option" where
  "cm_get remote_node_id m = um_find (cm_conns m) remote_node_id"

text \<open>Writing through the pointer that \<^verbatim>\<open>get\<close> or \<^verbatim>\<open>add\<close> returned.\<close>

definition cm_set :: "u16 \<Rightarrow> managed_connection \<Rightarrow> connection_manager \<Rightarrow> connection_manager" where
  "cm_set remote_node_id mc m = m\<lparr>cm_conns := um_put remote_node_id mc (cm_conns m)\<rparr>"

definition get_by_conn_id :: "u16 \<Rightarrow> connection_manager \<Rightarrow> managed_connection option" where
  "get_by_conn_id local_conn_id m =
    map_option snd (find (\<lambda>e. cn_local_conn_id (mc_conn (snd e)) = local_conn_id) (cm_conns m))"

definition has_connections :: "connection_manager \<Rightarrow> bool" where
  "has_connections m = list_ex (\<lambda>e. cn_state (mc_conn (snd e)) = CS_CONNECTED) (cm_conns m)"

definition cm_primary :: "connection_manager \<Rightarrow> (u16 \<times> managed_connection) option" where
  "cm_primary m = (case cm_conns m of [] \<Rightarrow> None | e # _ \<Rightarrow> Some e)"

definition cm_connected_nodes :: "connection_manager \<Rightarrow> u16 list" where
  "cm_connected_nodes m = map fst (filter (\<lambda>e. cn_state (mc_conn (snd e)) = CS_CONNECTED) (cm_conns m))"

definition next_conn_id :: "connection_manager \<Rightarrow> connection_manager \<times> u16" where
  "next_conn_id m = (let (cid, a') = conn_id_next (cm_id_alloc m) in (m\<lparr>cm_id_alloc := a'\<rparr>, cid))"

subsection \<open>Runs of one connection\<close>

datatype conn_op =
    Op_Initiate nat u16 endpoint
  | Op_Accept nat u16 u16 endpoint
  | Op_OnAccept u16
  | Op_OnConnect u8 u16
  | Op_Close
  | Op_OnClose
  | Op_NextSend
  | Op_Received u32
  | Op_Rtt u32
  | Op_SetConfig connection_config

fun conn_step :: "conn_op \<Rightarrow> connection \<Rightarrow> connection" where
  "conn_step (Op_Initiate now cid ep) c = fst (conn_initiate now cid ep c)"
| "conn_step (Op_Accept now cid rid ep) c = fst (conn_accept now cid rid ep c)"
| "conn_step (Op_OnAccept cid) c = fst (conn_on_accept cid c)"
| "conn_step (Op_OnConnect v n) c = fst (conn_on_connect v n c)"
| "conn_step Op_Close c = fst (conn_close c)"
| "conn_step Op_OnClose c = fst (conn_on_close c)"
| "conn_step Op_NextSend c = fst (next_send_packet_number c)"
| "conn_step (Op_Received n) c = update_recv_packet_number n c"
| "conn_step (Op_Rtt n) c = update_rtt n c"
| "conn_step (Op_SetConfig cfg) c = conn_set_config cfg c"

fun is_on_connect :: "conn_op \<Rightarrow> bool" where
  "is_on_connect (Op_OnConnect v n) = True"
| "is_on_connect _ = False"

text \<open>A CONNECT frame is handled only by an idle connection, as the header documents for the server side.\<close>

definition documented :: "conn_op \<Rightarrow> connection \<Rightarrow> bool" where
  "documented op c \<longleftrightarrow> (is_on_connect op \<longrightarrow> cn_state c = CS_IDLE)"

inductive conn_reach :: "connection \<Rightarrow> connection \<Rightarrow> bool" where
  reach_refl: "conn_reach c c"
| reach_step: "conn_reach c c1 \<Longrightarrow> documented op c1 \<Longrightarrow> conn_reach c (conn_step op c1)"

text \<open>The order of the states that the header documents.\<close>

fun phase :: "connection_state \<Rightarrow> nat" where
  "phase CS_IDLE = 0"
| "phase CS_CONNECTING = 1"
| "phase CS_ACCEPTING = 1"
| "phase CS_CONNECTED = 2"
| "phase CS_CLOSING = 3"
| "phase CS_CLOSED = 4"

lemmas conn_defs = conn_initiate_def conn_accept_def conn_on_accept_def conn_on_connect_def conn_close_def
  conn_on_close_def next_send_packet_number_def update_recv_packet_number_def update_rtt_def conn_set_config_def

lemma phase_4: "phase s = 4 \<longleftrightarrow> s = CS_CLOSED" "phase s \<le> 4"
  by (cases s; simp)+

lemma conn_step_phase: "documented op c \<Longrightarrow> phase (cn_state c) \<le> phase (cn_state (conn_step op c))"
  by (cases op) (auto simp: conn_defs phase_4(2) documented_def)

lemma conn_step_received: "cn_recv_pkt_num c \<le> cn_recv_pkt_num (conn_step op c)"
  by (cases op) (auto simp: conn_defs)

text \<open>What identifies an established connection: its two ids, the other endpoint and the start of its time stamps.\<close>

definition identity :: "connection \<Rightarrow> u16 \<times> u16 \<times> endpoint \<times> nat" where
  "identity c = (cn_local_conn_id c, cn_remote_conn_id c, cn_remote c, cn_epoch c)"

lemma conn_step_identity: "2 \<le> phase (cn_state c) \<Longrightarrow> identity (conn_step op c) = identity c"
  by (cases op; cases "cn_state c") (auto simp: conn_defs identity_def)

text \<open>Only \<^verbatim>\<open>accept\<close> and \<^verbatim>\<open>on_accept\<close> establish a connection.\<close>

lemma conn_step_connected:
  "cn_state (conn_step op c) = CS_CONNECTED \<Longrightarrow>
   cn_state c = CS_CONNECTED \<or> (\<exists>now cid rid ep. op = Op_Accept now cid rid ep) \<or> (\<exists>cid. op = Op_OnAccept cid)"
  by (cases op) (auto simp: conn_defs split: if_splits)

text \<open>
  C26. The life of a connection. Whatever operations are applied to it, as long as CONNECT frames reach it only while it is idle, a
  connection moves forward through its documented states and never back, a closed one stays closed, an established one keeps its ids, its
  remote endpoint and its epoch until the end, and the number of the last packet received never decreases.
\<close>

theorem connection_lifecycle:
  assumes "conn_reach c c'"
  shows "phase (cn_state c) \<le> phase (cn_state c') \<and> (cn_state c = CS_CLOSED \<longrightarrow> cn_state c' = CS_CLOSED) \<and>
    (2 \<le> phase (cn_state c) \<longrightarrow> identity c' = identity c) \<and> cn_recv_pkt_num c \<le> cn_recv_pkt_num c'"
proof -
  have mono: "phase (cn_state c) \<le> phase (cn_state c')"
    using assms by (induction rule: conn_reach.induct) (auto intro: order_trans conn_step_phase)
  moreover have "cn_state c = CS_CLOSED \<Longrightarrow> cn_state c' = CS_CLOSED"
    using mono phase_4 by (metis order_antisym phase.simps(6))
  moreover have "2 \<le> phase (cn_state c) \<longrightarrow> 2 \<le> phase (cn_state c') \<and> identity c' = identity c"
    using assms by (induction rule: conn_reach.induct) (auto intro: order_trans conn_step_phase simp: conn_step_identity)
  moreover have "cn_recv_pkt_num c \<le> cn_recv_pkt_num c'"
    using assms by (induction rule: conn_reach.induct) (auto intro: order_trans conn_step_received)
  ultimately show ?thesis by blast
qed

theorem connection_lifecycle_witness:
  "let ep = \<lparr>ep_address = [1], ep_port = 9\<rparr>; c = conn_step (Op_OnAccept 7) (conn_step (Op_Initiate 0 3 ep) (connection_new 0));
       c' = conn_step (Op_Accept 5 2 0 \<lparr>ep_address = [], ep_port = 0\<rparr>) (conn_step Op_OnClose (conn_step (Op_Received 4) c))
   in cn_state c = CS_CONNECTED \<and> cn_state c' = CS_CLOSED \<and> identity c' = (3, 7, ep, 0) \<and> 0 \<le> cn_recv_pkt_num c'"
proof -
  let ?ep = "\<lparr>ep_address = [1], ep_port = 9\<rparr>"
  let ?c = "conn_step (Op_OnAccept 7) (conn_step (Op_Initiate 0 3 ?ep) (connection_new 0))"
  let ?c1 = "conn_step Op_OnClose (conn_step (Op_Received 4) ?c)"
  let ?c' = "conn_step (Op_Accept 5 2 0 \<lparr>ep_address = [], ep_port = 0\<rparr>) ?c1"
  have r: "conn_reach ?c ?c'" "conn_reach ?c1 ?c'"
    by (intro reach_step reach_refl; simp only: documented_def is_on_connect.simps simp_thms)+
  have c: "cn_state ?c = CS_CONNECTED" "identity ?c = (3, 7, ?ep, 0)" "cn_state ?c1 = CS_CLOSED"
    by (simp_all add: conn_defs connection_new_def identity_def)
  show ?thesis using connection_lifecycle [OF r(1)] connection_lifecycle [OF r(2)] c by (simp only: Let_def) simp
qed

text \<open>
  The code does not keep CONNECT frames from other states: one takes an established or closed connection back to ACCEPTING, from
  where \<^verbatim>\<open>accept\<close> opens it again.
\<close>

lemma on_connect_reopens:
  "cn_state (conn_step (Op_OnConnect v n) c) = CS_ACCEPTING"
  "cn_state (conn_step (Op_Accept now cid rid ep) (conn_step (Op_OnConnect v n) c)) = CS_CONNECTED"
  by (simp_all add: conn_defs)

subsection \<open>Connection ids\<close>

lemma unat_of_nat_u16: "n < 65536 \<Longrightarrow> unat (of_nat n :: u16) = n"
  by (simp add: unat_of_nat take_bit_nat_eq_self)

lemma of_nat_u16_nonzero: "0 < n \<Longrightarrow> n < 65536 \<Longrightarrow> (of_nat n :: u16) \<noteq> 0"
  using unat_of_nat_u16 [of n] by auto

lemma of_nat_u16_wraps: "(of_nat 65536 :: u16) = 0"
  by simp

lemma conn_ids_upt:
  assumes "0 < k" "k + n \<le> 65536"
  shows "conn_ids n (of_nat k) = map of_nat [k..<k + n]"
  using assms
proof (induction n arbitrary: k)
  case (Suc n)
  then show ?case
    using Suc.IH [of "Suc k"] of_nat_u16_nonzero [of k]
    by (simp add: conn_id_next_def Let_def upt_conv_Cons add.commute del: upt_Suc)
qed simp

lemma conn_ids_wrap:
  assumes "0 < k" "k + n = 65536"
  shows "conn_ids (Suc n) (of_nat k) = map of_nat [k..<k + n] @ [1]"
  using assms
proof (induction n arbitrary: k)
  case 0
  then have "(of_nat k :: u16) = 0" using of_nat_u16_wraps by simp
  then show ?case by (simp add: conn_id_next_def Let_def)
next
  case (Suc n)
  have "conn_ids (Suc (Suc n)) (of_nat k) = of_nat k # conn_ids (Suc n) (of_nat (Suc k))"
    using of_nat_u16_nonzero [of k] Suc.prems
    by (subst conn_ids.simps) (simp add: conn_id_next_def Let_def add.commute del: conn_ids.simps)
  then show ?case using Suc.IH [of "Suc k"] Suc.prems by (simp add: upt_conv_Cons del: upt_Suc conn_ids.simps)
qed

text \<open>
  Connection ids. The first 65535 ids a table hands out are pairwise distinct and never 0, the value reserved for
  the handshake; the next one repeats the first, whether or not its connection is still open.
\<close>

theorem conn_ids_distinct:
  assumes "n \<le> 65535"
  shows "distinct (conn_ids n (cm_id_alloc connection_manager_new)) \<and> 0 \<notin> set (conn_ids n (cm_id_alloc connection_manager_new)) \<and>
     last (conn_ids 65536 (cm_id_alloc connection_manager_new)) = hd (conn_ids 65536 (cm_id_alloc connection_manager_new))"
proof -
  have one: "cm_id_alloc connection_manager_new = of_nat 1" by (simp add: connection_manager_new_def)
  have ids: "conn_ids n (of_nat 1) = map of_nat [1..<1 + n]" using assms by (intro conn_ids_upt) auto
  have "inj_on (of_nat :: nat \<Rightarrow> u16) (set [1..<1 + n])"
    using assms unat_of_nat_u16 by (intro inj_on_inverseI [where g = unat]) auto
  moreover have "(0 :: u16) \<notin> of_nat ` set [1..<1 + n]" using assms of_nat_u16_nonzero by fastforce
  moreover have "conn_ids (Suc 65535) (of_nat 1) = map of_nat [1..<1 + 65535] @ [1]" by (rule conn_ids_wrap) auto
  then have "last (conn_ids (Suc 65535) (of_nat 1)) = 1" by (simp only: last_snoc)
  moreover have "hd (conn_ids (Suc 65535) (of_nat 1)) = 1"
    by (subst conn_ids.simps) (simp add: conn_id_next_def Let_def del: conn_ids.simps)
  moreover have "(65536 :: nat) = Suc 65535" by simp
  ultimately show ?thesis unfolding one ids by (simp only: distinct_map set_map distinct_upt simp_thms)
qed

theorem conn_ids_distinct_witness:
  "distinct (conn_ids 3 (cm_id_alloc connection_manager_new)) \<and> 0 \<notin> set (conn_ids 3 (cm_id_alloc connection_manager_new))"
  using conn_ids_distinct [of 3] by simp

subsection \<open>Round-trip time\<close>

text \<open>As long as the weighted sum fits 32 bits, the estimate stays between the old one and the sample.\<close>

lemma update_rtt_between:
  assumes "cn_srtt_us c \<noteq> 0" "unat (cn_srtt_us c) * 7 + unat s < 2 ^ 32"
  shows "min (cn_srtt_us c) s \<le> cn_srtt_us (update_rtt s c) \<and> cn_srtt_us (update_rtt s c) \<le> max (cn_srtt_us c) s"
proof -
  have m: "unat (cn_srtt_us c * 7) = unat (cn_srtt_us c) * 7" using assms(2) by (simp add: unat_word_ariths)
  then have "unat (cn_srtt_us c * 7 + s) = unat (cn_srtt_us c) * 7 + unat s" using assms(2) by (simp add: unat_word_ariths)
  then have "unat (cn_srtt_us (update_rtt s c)) = (unat (cn_srtt_us c) * 7 + unat s) div 8"
    using assms(1) by (simp add: update_rtt_def unat_div)
  then show ?thesis by (auto simp: word_le_nat_alt min_def max_def)
qed

text \<open>Above about ten minutes the sum wraps and the estimate collapses.\<close>

lemma update_rtt_wraps:
  "cn_srtt_us (update_rtt 613566757 ((connection_new 0)\<lparr>cn_srtt_us := 613566757\<rparr>)) = 76695845"
  by (simp add: update_rtt_def)

end
