(* ===== verification/Handshake.thy ===== *)
theory Handshake
  imports Connection
begin

text \<open>
  The CONNECT, ACCEPT, CLOSE, PING and PONG exchange (\<^verbatim>\<open>handshake.h\<close>, \<^verbatim>\<open>handshake.cpp\<close>). A builder takes the clock readings of
  its calls of \<^verbatim>\<open>elapsed_us\<close> in order and returns the connection, whose packet number advanced, with the packet.
  \<open>process_packet\<close> returns the event with the connection after the state machine was driven; \<open>process_frames\<close> is
  its loop over the frames of the packet.

  The lemmas show that the two ends of a handshake reach CONNECTED with matching ids, and that a packet
  that is not accepted leaves the state machine alone.
\<close>

definition encoder_for :: "packet_type \<Rightarrow> u16 \<Rightarrow> u32 \<Rightarrow> u32 \<Rightarrow> packet_encoder" where
  "encoder_for t cid n ts =
    set_timestamp ts (set_packet_number n (set_connection_id cid (set_packet_type t packet_encoder_new)))"

definition build_connect_packet :: "(bytes \<Rightarrow> u32) \<Rightarrow> nat \<Rightarrow> connection \<Rightarrow> connection \<times> bytes" where
  "build_connect_packet xxh now c =
    (let (c1, n) = next_send_packet_number c;
         enc = encoder_for PT_HANDSHAKE 0 n (elapsed_us now c1);
         cf = \<lparr>cf_magic = CONNECT_MAGIC, cf_version = PROTOCOL_VERSION, cf_max_frame_size = ccfg_max_frame_size (cn_config c1)\<rparr>;
         enc1 = fst (add_typed_frame connect_encode CONNECT_WIRE_SIZE FT_CONNECT cf enc)
     in (c1, snd (finalize xxh enc1)))"

definition build_accept_packet :: "(bytes \<Rightarrow> u32) \<Rightarrow> nat \<Rightarrow> nat \<Rightarrow> connection \<Rightarrow> connection \<times> bytes" where
  "build_accept_packet xxh now now2 c =
    (let (c1, n) = next_send_packet_number c;
         enc = encoder_for PT_HANDSHAKE (cn_remote_conn_id c1) n (elapsed_us now c1);
         af = \<lparr>af_assigned_conn_id = cn_local_conn_id c1, af_server_timestamp_us = elapsed_us now2 c1\<rparr>;
         enc1 = fst (add_typed_frame accept_encode ACCEPT_WIRE_SIZE FT_ACCEPT af enc)
     in (c1, snd (finalize xxh enc1)))"

definition build_close_packet :: "(bytes \<Rightarrow> u32) \<Rightarrow> nat \<Rightarrow> close_reason \<Rightarrow> connection \<Rightarrow> connection \<times> bytes" where
  "build_close_packet xxh now reason c =
    (let (c1, n) = next_send_packet_number c;
         enc = encoder_for PT_HANDSHAKE (cn_remote_conn_id c1) n (elapsed_us now c1);
         enc1 = fst (add_typed_frame close_encode CLOSE_WIRE_SIZE FT_CLOSE \<lparr>clf_reason = reason\<rparr> enc)
     in (c1, snd (finalize xxh enc1)))"

definition build_ping_packet :: "(bytes \<Rightarrow> u32) \<Rightarrow> nat \<Rightarrow> nat \<Rightarrow> u32 \<Rightarrow> connection \<Rightarrow> connection \<times> bytes" where
  "build_ping_packet xxh now now2 ping_id c =
    (let (c1, n) = next_send_packet_number c;
         enc = encoder_for PT_CONTROL (cn_remote_conn_id c1) n (elapsed_us now c1);
         pf = \<lparr>pf_ping_id = ping_id, pf_timestamp_us = elapsed_us now2 c1\<rparr>;
         enc1 = fst (add_typed_frame ping_encode PING_WIRE_SIZE FT_PING pf enc)
     in (c1, snd (finalize xxh enc1)))"

definition build_pong_packet :: "(bytes \<Rightarrow> u32) \<Rightarrow> nat \<Rightarrow> u32 \<Rightarrow> u32 \<Rightarrow> connection \<Rightarrow> connection \<times> bytes" where
  "build_pong_packet xxh now ping_id echo_timestamp c =
    (let (c1, n) = next_send_packet_number c;
         enc = encoder_for PT_CONTROL (cn_remote_conn_id c1) n (elapsed_us now c1);
         pf = \<lparr>pf_ping_id = ping_id, pf_timestamp_us = echo_timestamp\<rparr>;
         enc1 = fst (add_typed_frame ping_encode PING_WIRE_SIZE FT_PONG pf enc)
     in (c1, snd (finalize xxh enc1)))"

datatype handshake_result =
    HR_CONNECT_RECEIVED | HR_ACCEPT_RECEIVED | HR_CLOSE_RECEIVED | HR_PING_RECEIVED | HR_PONG_RECEIVED
  | HR_NOT_HANDSHAKE | HR_INVALID

record handshake_event =
  he_result :: handshake_result
  he_connect :: connect_frame
  he_accept :: accept_frame
  he_close :: close_frame
  he_ping :: ping_frame

definition handshake_event_new :: "handshake_result \<Rightarrow> handshake_event" where
  "handshake_event_new r =
    \<lparr>he_result = r, he_connect = \<lparr>cf_magic = 0, cf_version = 0, cf_max_frame_size = 0\<rparr>,
     he_accept = \<lparr>af_assigned_conn_id = 0, af_server_timestamp_us = 0\<rparr>, he_close = \<lparr>clf_reason = close_reason_of 0\<rparr>,
     he_ping = \<lparr>pf_ping_id = 0, pf_timestamp_us = 0\<rparr>\<rparr>"

fun process_frames :: "frame list \<Rightarrow> connection \<Rightarrow> handshake_event \<times> connection" where
  "process_frames [] c = (handshake_event_new HR_NOT_HANDSHAKE, c)"
| "process_frames (f # fs) c =
    (case fh_type (fr_header f) of
       FT_CONNECT \<Rightarrow>
         (case connect_decode (fr_payload f) of
            None \<Rightarrow> (handshake_event_new HR_INVALID, c)
          | Some cf \<Rightarrow>
              if cf_magic cf \<noteq> CONNECT_MAGIC then (handshake_event_new HR_INVALID, c)
              else ((handshake_event_new HR_CONNECT_RECEIVED)\<lparr>he_connect := cf\<rparr>,
                    fst (conn_on_connect (cf_version cf) (cf_max_frame_size cf) c)))
     | FT_ACCEPT \<Rightarrow>
         (case accept_decode (fr_payload f) of
            None \<Rightarrow> (handshake_event_new HR_INVALID, c)
          | Some af \<Rightarrow> ((handshake_event_new HR_ACCEPT_RECEIVED)\<lparr>he_accept := af\<rparr>,
                       fst (conn_on_accept (af_assigned_conn_id af) c)))
     | FT_CLOSE \<Rightarrow>
         (case close_decode (fr_payload f) of
            None \<Rightarrow> (handshake_event_new HR_INVALID, c)
          | Some cf \<Rightarrow> ((handshake_event_new HR_CLOSE_RECEIVED)\<lparr>he_close := cf\<rparr>, fst (conn_on_close c)))
     | FT_PING \<Rightarrow>
         (case ping_decode (fr_payload f) of
            None \<Rightarrow> (handshake_event_new HR_INVALID, c)
          | Some pf \<Rightarrow> ((handshake_event_new HR_PING_RECEIVED)\<lparr>he_ping := pf\<rparr>, c))
     | FT_PONG \<Rightarrow>
         (case ping_decode (fr_payload f) of
            None \<Rightarrow> (handshake_event_new HR_INVALID, c)
          | Some pf \<Rightarrow> ((handshake_event_new HR_PONG_RECEIVED)\<lparr>he_ping := pf\<rparr>, c))
     | _ \<Rightarrow> process_frames fs c)"

definition process_packet :: "(bytes \<Rightarrow> u32) \<Rightarrow> bytes \<Rightarrow> connection \<Rightarrow> handshake_event \<times> connection" where
  "process_packet xxh data c =
    (let (dec, parsed) = packet_decoder_parse data packet_decoder_new in
     if \<not> parsed then (handshake_event_new HR_INVALID, c)
     else if \<not> verify_checksum xxh dec then (handshake_event_new HR_INVALID, c)
     else process_frames (all_frames dec) (update_recv_packet_number (ph_packet_number (pd_header dec)) c))"

subsection \<open>Packets of one typed frame\<close>

lemma add_frame_take: "add_frame t (Some p) n e = add_frame t (Some (take (unat n) p)) n e"
  by (simp add: add_frame_def Let_def)

lemma encoder_for_fields [simp]:
  "pe_packet_type (encoder_for t cid n ts) = t" "pe_connection_id (encoder_for t cid n ts) = cid"
  "pe_packet_number (encoder_for t cid n ts) = n" "pe_timestamp_us (encoder_for t cid n ts) = ts"
  "pe_flags (encoder_for t cid n ts) = FLAG_CHECKSUM" "pe_cursor (encoder_for t cid n ts) = PACKET_HEADER_SIZE"
  by (simp_all add: encoder_for_def packet_encoder_new_def set_packet_type_def set_connection_id_def
      set_packet_number_def set_timestamp_def)

lemma encoder_for_empty: "enc_holds (encoder_for t cid n ts) []"
  by (simp add: encoder_for_def enc_holds_new)

context fixed_codec
begin

lemma typed_frame_packet:
  assumes "sz \<le> 256" "frame_type_wf t" "packet_type_wf pt"
  shows "\<exists>d. packet_decoder_parse (snd (finalize xxh (fst (add_typed_frame enc sz t x (encoder_for pt cid n ts))))) d0 = (d, True) \<and>
    verify_checksum xxh d \<and> all_frames d = [mk_frame (t, wire x)] \<and>
    ph_packet_type (pd_header d) = pt \<and> ph_connection_id (pd_header d) = cid \<and> ph_packet_number (pd_header d) = n"
proof -
  let ?e = "encoder_for pt cid n ts"
  have u: "unat (of_nat sz :: u16) = sz" using assms(1) by (simp add: unat_of_nat take_bit_nat_eq_self)
  have "add_typed_frame enc sz t x ?e = add_frame t (Some (wire x)) (of_nat (length (wire x))) ?e"
    using assms(1) enc_ok [of "replicate 256 0" x]
    by (simp add: add_typed_frame_def add_frame_take [of t "wire x @ _"] u wire_len)
  moreover obtain e' where e': "add_frame t (Some (wire x)) (of_nat (length (wire x))) ?e = (e', True)"
    "enc_holds e' (frame_bytes (t, wire x))" "e'\<lparr>pe_buf := [], pe_cursor := 0\<rparr> = ?e\<lparr>pe_buf := [], pe_cursor := 0\<rparr>"
    using enc_holds_add_frame [OF encoder_for_empty, of pt cid n ts "wire x" t] assms(1)
    by (auto simp: wire_len size_defs)
  moreover have "pe_packet_type e' = pt" "pe_connection_id e' = cid" "pe_packet_number e' = n" "pe_flags e' = FLAG_CHECKSUM"
    using arg_cong [OF e'(3), of pe_packet_type] arg_cong [OF e'(3), of pe_connection_id]
      arg_cong [OF e'(3), of pe_packet_number] arg_cong [OF e'(3), of pe_flags] by simp_all
  moreover have "sendable (t, wire x)" using assms(1,2) by (simp add: sendable_def wire_len)
  ultimately show ?thesis
    using finalize_decodes [of e' "[(t, wire x)]" xxh d0] assms(3) by (auto simp: FLAG_CHECKSUM_def)
qed

lemma process_typed:
  assumes "sz \<le> 256" "frame_type_wf t" "packet_type_wf pt"
  shows "process_packet xxh (snd (finalize xxh (fst (add_typed_frame enc sz t x (encoder_for pt cid n ts))))) c =
    process_frames [mk_frame (t, wire x)] (update_recv_packet_number n c)"
  using typed_frame_packet [OF assms, of xxh x cid n ts packet_decoder_new] by (auto simp: process_packet_def)

end

lemma frame_sizes: "CONNECT_WIRE_SIZE \<le> 256" "ACCEPT_WIRE_SIZE \<le> 256" "CLOSE_WIRE_SIZE \<le> 256" "PING_WIRE_SIZE \<le> 256"
  by (simp_all add: CONNECT_WIRE_SIZE_def ACCEPT_WIRE_SIZE_def CLOSE_WIRE_SIZE_def PING_WIRE_SIZE_def)

lemma handshake_type_wf [simp]:
  "packet_type_wf PT_HANDSHAKE" "packet_type_wf PT_CONTROL" "packet_type_wf PT_DATA"
  "frame_type_wf FT_CONNECT" "frame_type_wf FT_ACCEPT" "frame_type_wf FT_CLOSE" "frame_type_wf FT_PING" "frame_type_wf FT_PONG"
  by code_simp+

lemma decode_wires [simp]:
  "connect_decode (connect_wire cf) = Some cf" "accept_decode (accept_wire af) = Some af" "ping_decode (ping_wire pf) = Some pf"
  "close_wf clf \<Longrightarrow> close_decode (close_wire clf) = Some clf"
  using connect_codec.dec_wire [of cf "[]"] accept_codec.dec_wire [of af "[]"] ping_codec.dec_wire [of pf "[]"]
    close_codec.dec_wire [of clf "[]"] by simp_all

lemma mk_frame_sel [simp]: "fh_type (fr_header (mk_frame f)) = fst f" "fr_payload (mk_frame f) = snd f"
  by (simp_all add: mk_frame_def)

lemmas build_defs = build_connect_packet_def build_accept_packet_def build_close_packet_def build_ping_packet_def
  build_pong_packet_def next_send_packet_number_def

text \<open>What the receiver of each built packet does.\<close>

lemma process_connect:
  "process_packet xxh (snd (build_connect_packet xxh now c)) s =
    ((handshake_event_new HR_CONNECT_RECEIVED)\<lparr>he_connect := \<lparr>cf_magic = CONNECT_MAGIC, cf_version = PROTOCOL_VERSION,
        cf_max_frame_size = ccfg_max_frame_size (cn_config c)\<rparr>\<rparr>,
     fst (conn_on_connect PROTOCOL_VERSION (ccfg_max_frame_size (cn_config c))
       (update_recv_packet_number (cn_send_pkt_num c) s)))"
  by (simp add: build_defs Let_def connect_codec.process_typed frame_sizes)

lemma process_accept:
  "process_packet xxh (snd (build_accept_packet xxh now now2 c)) s =
    ((handshake_event_new HR_ACCEPT_RECEIVED)\<lparr>he_accept := \<lparr>af_assigned_conn_id = cn_local_conn_id c,
        af_server_timestamp_us = elapsed_us now2 c\<rparr>\<rparr>,
     fst (conn_on_accept (cn_local_conn_id c) (update_recv_packet_number (cn_send_pkt_num c) s)))"
  by (simp add: build_defs Let_def accept_codec.process_typed frame_sizes elapsed_us_def)

lemma process_close:
  assumes "close_reason_wf r"
  shows "process_packet xxh (snd (build_close_packet xxh now r c)) s =
    ((handshake_event_new HR_CLOSE_RECEIVED)\<lparr>he_close := \<lparr>clf_reason = r\<rparr>\<rparr>,
     fst (conn_on_close (update_recv_packet_number (cn_send_pkt_num c) s)))"
  using assms by (simp add: build_defs Let_def close_codec.process_typed frame_sizes close_wf_def)

text \<open>
  A handshake completes. A client in IDLE that initiates and sends its CONNECT packet, and a server in any state that processes it,
  accepts and answers with its ACCEPT packet, both reach CONNECTED, for every hash function, clock and configuration:
  the client's remote id is the id the server chose, and the server uses the smaller of the two frame sizes. The client
  never learns the negotiated size.
\<close>

theorem handshake_completes:
  assumes "cn_state c = CS_IDLE"
  shows "let (c1, initiated) = conn_initiate t0 cid server_ep c;
             (c2, connect_pkt) = build_connect_packet xxh t1 c1;
             (ev_s, s1) = process_packet xxh connect_pkt s;
             (s2, accepted) = conn_accept t2 sid 0 client_ep s1;
             (s3, accept_pkt) = build_accept_packet xxh t3 t4 s2;
             (ev_c, c3) = process_packet xxh accept_pkt c2
         in initiated \<and> he_result ev_s = HR_CONNECT_RECEIVED \<and> accepted \<and> he_result ev_c = HR_ACCEPT_RECEIVED \<and>
            cn_state c3 = CS_CONNECTED \<and> cn_state s3 = CS_CONNECTED \<and>
            cn_local_conn_id c3 = cid \<and> cn_remote_conn_id c3 = sid \<and> cn_local_conn_id s3 = sid \<and>
            cn_remote c3 = server_ep \<and> cn_remote s3 = client_ep \<and>
            cn_negotiated_max_frame s3 = min (ccfg_max_frame_size (cn_config s)) (ccfg_max_frame_size (cn_config c)) \<and>
            cn_negotiated_max_frame c3 = cn_negotiated_max_frame c"
proof -
  define c1 where "c1 = fst (conn_initiate t0 cid server_ep c)"
  define c2 where "c2 = fst (build_connect_packet xxh t1 c1)"
  define s1 where "s1 = snd (process_packet xxh (snd (build_connect_packet xxh t1 c1)) s)"
  define s2 where "s2 = fst (conn_accept t2 sid 0 client_ep s1)"
  define s3 where "s3 = fst (build_accept_packet xxh t3 t4 s2)"
  define c3 where "c3 = snd (process_packet xxh (snd (build_accept_packet xxh t3 t4 s2)) c2)"
  have c1: "c1 = c\<lparr>cn_local_conn_id := cid, cn_remote := server_ep, cn_epoch := t0, cn_state := CS_CONNECTING\<rparr>"
    "snd (conn_initiate t0 cid server_ep c)" using assms by (auto simp: c1_def conn_initiate_def)
  have c2: "c2 = c1\<lparr>cn_send_pkt_num := cn_send_pkt_num c1 + 1\<rparr>" by (simp add: c2_def build_defs Let_def)
  have s1: "cn_state s1 = CS_ACCEPTING"
    "cn_negotiated_max_frame s1 = min (ccfg_max_frame_size (cn_config s)) (ccfg_max_frame_size (cn_config c))"
    "he_result (fst (process_packet xxh (snd (build_connect_packet xxh t1 c1)) s)) = HR_CONNECT_RECEIVED"
    by (simp_all add: s1_def process_connect c1(1) conn_on_connect_def update_recv_packet_number_def handshake_event_new_def)
  have s2: "s2 = s1\<lparr>cn_local_conn_id := sid, cn_remote_conn_id := 0, cn_remote := client_ep, cn_epoch := t2, cn_state := CS_CONNECTED\<rparr>"
    "snd (conn_accept t2 sid 0 client_ep s1)" using s1(1) by (auto simp: s2_def conn_accept_def)
  have s3: "s3 = s2\<lparr>cn_send_pkt_num := cn_send_pkt_num s2 + 1\<rparr>" by (simp add: s3_def build_defs Let_def)
  have c3: "cn_state c3 = CS_CONNECTED" "cn_remote_conn_id c3 = sid" "cn_local_conn_id c3 = cid" "cn_remote c3 = server_ep"
    "cn_negotiated_max_frame c3 = cn_negotiated_max_frame c"
    "he_result (fst (process_packet xxh (snd (build_accept_packet xxh t3 t4 s2)) c2)) = HR_ACCEPT_RECEIVED"
    by (simp_all add: c3_def process_accept c2 c1(1) s2(1) conn_on_accept_def update_recv_packet_number_def handshake_event_new_def)
  have s3': "cn_state s3 = CS_CONNECTED" "cn_local_conn_id s3 = sid" "cn_remote s3 = client_ep"
    "cn_negotiated_max_frame s3 = cn_negotiated_max_frame s1" using s2(1) s3 by simp_all
  show ?thesis
    using c1(2) s1(2,3) s2(2) s3' c3
    by (simp add: split_beta Let_def flip: c1_def c2_def s1_def s2_def s3_def c3_def)
qed

theorem handshake_completes_witness:
  "let c = connection_new 0; s = (connection_new 0)\<lparr>cn_config := connection_config_default\<lparr>ccfg_max_frame_size := 900\<rparr>\<rparr>;
       xxh = (\<lambda>b. of_nat (length b)); ep = \<lparr>ep_address = [65], ep_port = 1\<rparr>; ep' = \<lparr>ep_address = [66], ep_port = 2\<rparr>;
       (c1, initiated) = conn_initiate 10 5 ep c;
       (c2, connect_pkt) = build_connect_packet xxh 2000 c1;
       (ev_s, s1) = process_packet xxh connect_pkt s;
       (s2, accepted) = conn_accept 30 6 0 ep' s1;
       (s3, accept_pkt) = build_accept_packet xxh 4000 5000 s2;
       (ev_c, c3) = process_packet xxh accept_pkt c2
   in cn_state c3 = CS_CONNECTED \<and> cn_state s3 = CS_CONNECTED \<and> cn_remote_conn_id c3 = 6 \<and> cn_negotiated_max_frame s3 = 900"
proof -
  have "cn_state (connection_new 0) = CS_IDLE" by (simp add: connection_new_def)
  from handshake_completes [OF this, of 10 5 "\<lparr>ep_address = [65], ep_port = 1\<rparr>" "\<lambda>b. of_nat (length b)" 2000
      "(connection_new 0)\<lparr>cn_config := connection_config_default\<lparr>ccfg_max_frame_size := 900\<rparr>\<rparr>" 30 6
      "\<lparr>ep_address = [66], ep_port = 2\<rparr>" 4000 5000]
  show ?thesis
    by (simp add: split_beta Let_def connection_new_def connection_config_default_def MAX_PAYLOAD_SIZE_def size_defs)
qed

text \<open>
  A packet that is not a handshake step leaves the connection alone. Whatever bytes arrive, if the event is INVALID, NOT_HANDSHAKE, PING or PONG,
  then nothing but the highest received packet number changed; and if the bytes do not parse or fail their checksum, the
  event is INVALID and nothing changed at all.
\<close>

theorem process_packet_error_frame:
  assumes "process_packet xxh data c = (ev, c')"
  shows "(he_result ev \<in> {HR_INVALID, HR_NOT_HANDSHAKE, HR_PING_RECEIVED, HR_PONG_RECEIVED} \<longrightarrow>
            c' = c \<or> (\<exists>n. c' = update_recv_packet_number n c)) \<and>
         (\<not> snd (packet_decoder_parse data packet_decoder_new) \<or>
          \<not> verify_checksum xxh (fst (packet_decoder_parse data packet_decoder_new)) \<longrightarrow> he_result ev = HR_INVALID \<and> c' = c)"
proof -
  have frames: "process_frames fs s = (ev, s') \<Longrightarrow>
      he_result ev \<in> {HR_INVALID, HR_NOT_HANDSHAKE, HR_PING_RECEIVED, HR_PONG_RECEIVED} \<Longrightarrow> s' = s" for fs s s'
    by (induction fs s rule: process_frames.induct)
      (auto simp: handshake_event_new_def split: frame_type.splits option.splits if_splits)
  show ?thesis
    using assms frames by (auto simp: process_packet_def split_beta Let_def handshake_event_new_def split: if_splits)
qed

theorem process_packet_error_frame_witness:
  "let (ev, c') = process_packet (\<lambda>b. 0) [1, 2, 3] (connection_new 0) in he_result ev = HR_INVALID \<and> c' = connection_new 0"
proof -
  have "\<not> snd (packet_decoder_parse [1, 2, 3] packet_decoder_new)" by (simp add: packet_decoder_parse_def size_defs)
  then show ?thesis
    using process_packet_error_frame [of "\<lambda>b. 0" "[1, 2, 3]" "connection_new 0"]
    by (cases "process_packet (\<lambda>b. 0) [1, 2, 3] (connection_new 0)") auto
qed

end
