(* ===== verification/Recovery.thy ===== *)
theory Recovery
  imports State_Registry Event_Log
begin

text \<open>
  Reconnection (\<^verbatim>\<open>connection/recovery.h\<close>, \<^verbatim>\<open>recovery.cpp\<close>): the request with the version vectors a client has, its wire format, and
  the plan a server computes from its log. Pointers to log entries are the entries.

  The lemmas show that a request survives the wire, and that a plan leaves nothing out, also when the log
  was compacted before.
\<close>

type_synonym recovery_request = "(u32, version_vector) umap"

fun request_write :: "(u32 \<times> version_vector) list \<Rightarrow> bytes \<Rightarrow> bytes" where
  "request_write [] buf = buf"
| "request_write ((path_hash, vv) # rest) buf =
    (let pos = length buf;
         b1 = buf @ replicate (4 + vv_wire_size vv) 0;
         b2 = write_u32 b1 pos path_hash;
         b3 = (case vv_encode vv (take (vv_wire_size vv) (drop (pos + 4) b2)) of
                 Some e \<Rightarrow> put_bytes b2 (pos + 4) e
               | None \<Rightarrow> b2)
     in request_write rest b3)"

definition request_encode :: "recovery_request \<Rightarrow> bytes" where
  "request_encode known_versions =
    request_write known_versions (write_u16 (replicate 2 0) 0 (of_nat (length known_versions)))"

text \<open>One turn of the decoding loop: the path, its vector and the offset behind it.\<close>

definition request_read_path :: "bytes \<Rightarrow> nat \<Rightarrow> (u32 \<times> version_vector \<times> nat) option" where
  "request_read_path data off =
    (if off + 4 > length data then None
     else
       let path_hash = read_u32 (drop off data); off1 = off + 4 in
       if off1 \<ge> length data then None
       else
         let entry_count = data ! off1; vv_size = 1 + unat entry_count * 6 in
         if off1 + vv_size > length data then None
         else map_option (\<lambda>vv. (path_hash, vv, off1 + vv_size)) (vv_decode (take vv_size (drop off1 data))))"

fun request_read :: "nat \<Rightarrow> bytes \<Rightarrow> nat \<Rightarrow> recovery_request \<Rightarrow> recovery_request option" where
  "request_read 0 data off out = Some out"
| "request_read (Suc i) data off out =
    (case request_read_path data off of
       None \<Rightarrow> None
     | Some (path_hash, vv, off') \<Rightarrow> request_read i data off' (um_put path_hash vv out))"

definition request_decode :: "bytes \<Rightarrow> recovery_request option" where
  "request_decode data =
    (if length data < 2 then None else request_read (unat (read_u16 data)) data 2 [])"

record path_recovery =
  pr_path_hash :: u32
  pr_needs_snapshot :: bool
  pr_entries :: "log_entry list"

definition plan_region :: "recovery_request \<Rightarrow> event_log \<Rightarrow> nat \<Rightarrow> state_region \<Rightarrow> path_recovery" where
  "plan_region known_versions log max_delta_entries region =
    (let path_hash = sp_hash (sr_path region)
     in case um_find known_versions path_hash of
          Some vv \<Rightarrow>
            (let entries = entries_since path_hash vv log
             in if length entries \<le> max_delta_entries
                then \<lparr>pr_path_hash = path_hash, pr_needs_snapshot = False, pr_entries = entries\<rparr>
                else \<lparr>pr_path_hash = path_hash, pr_needs_snapshot = True, pr_entries = []\<rparr>)
        | None \<Rightarrow> \<lparr>pr_path_hash = path_hash, pr_needs_snapshot = True, pr_entries = []\<rparr>)"

definition compute_plan :: "recovery_request \<Rightarrow> event_log \<Rightarrow> state_registry \<Rightarrow> nat \<Rightarrow> path_recovery list" where
  "compute_plan request log registry max_delta_entries =
     map (\<lambda>(hash, region). plan_region request log max_delta_entries region) (reg_regions registry)"

fun build_loop :: "(u32, state_region) umap \<Rightarrow> recovery_request \<Rightarrow> recovery_request" where
  "build_loop [] known_versions = known_versions"
| "build_loop ((hash, region) # rest) known_versions =
     build_loop rest (um_put (sp_hash (sr_path region)) (sr_version region) known_versions)"

definition build_request :: "state_registry \<Rightarrow> recovery_request" where
  "build_request registry = build_loop (reg_regions registry) []"

subsection \<open>The request on the wire\<close>

definition vv_wire :: "version_vector \<Rightarrow> bytes" where
  "vv_wire v = of_nat (length v) # concat (map vv_entry_wire v)"

definition request_wire :: "(u32 \<times> version_vector) list \<Rightarrow> bytes" where
  "request_wire kvs = concat (map (\<lambda>(h, vv). be32 h @ vv_wire vv) kvs)"

lemma length_vv_wire_size [simp]: "length (vv_wire v) = vv_wire_size v"
  by (simp add: vv_wire_def vv_wire_size_def length_vv_wire)

lemma vv_encode_exact: "length buf = vv_wire_size v \<Longrightarrow> vv_encode v buf = Some (vv_wire v)"
proof -
  assume len: "length buf = vv_wire_size v"
  then obtain b r where buf: "buf = b # r" "length r = length v * 6" by (cases buf) (auto simp: vv_wire_size_def)
  then show ?thesis
    using vv_write_entries_wire [of v r "[of_nat (length v)]" 1]
    by (simp add: vv_encode_def vv_wire_size_def vv_wire_def)
qed

lemma vv_decode_wire: "length v < 256 \<Longrightarrow> vv_decode (vv_wire v) = Some v"
  using vv_read_entries_wire [of v "[]"]
  by (simp add: vv_decode_def vv_wire_def length_vv_wire unat_of_nat take_bit_nat_eq_self)

lemma request_write_wire: "request_write kvs buf = buf @ request_wire kvs"
proof (induction kvs arbitrary: buf)
  case (Cons e kvs)
  obtain h vv where e: "e = (h, vv)" by (cases e)
  let ?b1 = "buf @ replicate (4 + vv_wire_size vv) 0"
  have b2: "write_u32 ?b1 (length buf) h = buf @ be32 h @ replicate (vv_wire_size vv) 0"
    by (simp add: buf_simps)
  have enc: "vv_encode vv (replicate (vv_wire_size vv) 0) = Some (vv_wire vv)" by (rule vv_encode_exact) simp
  have b3: "put_bytes (buf @ be32 h @ replicate (vv_wire_size vv) 0) (length buf + 4) (vv_wire vv) = buf @ be32 h @ vv_wire vv"
    by (simp add: put_bytes_def)
  show ?case by (simp add: e b2 enc b3 Cons Let_def request_wire_def)
qed (simp add: request_wire_def)

lemma request_read_wire:
  assumes "\<forall>(h, vv) \<in> set kvs. length vv < 256" "um_ok (out @ kvs)"
  shows "request_read (length kvs) (pre @ request_wire kvs) (length pre) out = Some (out @ kvs)"
  using assms
proof (induction kvs arbitrary: pre out)
  case (Cons e kvs)
  obtain h vv where e: "e = (h, vv)" by (cases e)
  have v: "length vv < 256" using Cons.prems(1) by (simp add: e)
  have wire: "request_wire ((h, vv) # kvs) = be32 h @ vv_wire vv @ request_wire kvs" by (simp add: request_wire_def)
  have cnt: "(vv_wire vv @ request_wire kvs) ! 0 = of_nat (length vv)" "unat (of_nat (length vv) :: u8) = length vv"
    using v by (simp_all add: vv_wire_def unat_of_nat take_bit_nat_eq_self)
  have sz: "Suc (length vv * 6) = vv_wire_size vv" "0 < vv_wire_size vv" by (simp_all add: vv_wire_size_def)
  have new: "um_find out h = None" using Cons.prems(2) by (auto simp: e map_of_eq_None_iff)
  have "request_read (length kvs) ((pre @ be32 h @ vv_wire vv) @ request_wire kvs) (length (pre @ be32 h @ vv_wire vv)) (out @ [e]) =
      Some ((out @ [e]) @ kvs)"
    using Cons.prems by (intro Cons.IH) auto
  moreover have "(pre @ be32 h @ vv_wire vv @ request_wire kvs) ! (length pre + 4) = of_nat (length vv)"
    using cnt(1) by (simp add: nth_append)
  ultimately show ?case
    using new sz by (simp add: e wire request_read_path_def Let_def read_be32 vv_decode_wire [OF v] um_put_new [OF new] cnt(2) add.assoc)
qed simp

text \<open>
  A recovery request survives the wire: a request with fewer than 65536 paths, each with a version vector of fewer than 256 nodes,
  decodes to exactly the same paths and vectors.
\<close>

theorem recovery_request_roundtrip:
  assumes "um_ok kvs" "length kvs < 2 ^ 16" "\<forall>(h, vv) \<in> set kvs. length vv < 256"
  shows "request_decode (request_encode kvs) = Some kvs"
proof -
  have u: "unat (of_nat (length kvs) :: u16) = length kvs"
    using assms(2) by (simp add: unat_of_nat take_bit_nat_eq_self)
  have "request_encode kvs = be16 (of_nat (length kvs)) @ request_wire kvs"
    by (simp add: request_encode_def request_write_wire buf_simps)
  then show ?thesis
    using request_read_wire [OF assms(3), of "[]" "be16 (of_nat (length kvs))"] assms(1)
    by (simp add: request_decode_def read_be16 u)
qed

theorem recovery_request_roundtrip_witness:
  "request_decode (request_encode [(7, [(1, 2), (3, 4)]), (9, [])]) = Some [(7, [(1, 2), (3, 4)]), (9, [])]"
  by (rule recovery_request_roundtrip) simp_all

subsection \<open>The plan\<close>

lemma vv_dominates_trans: "um_ok v \<Longrightarrow> um_ok w \<Longrightarrow> vv_dominates u v \<Longrightarrow> vv_dominates v w \<Longrightarrow> vv_dominates u w"
  by (auto simp: vv_dominates_iff intro: order_trans)

text \<open>
  C33. Recovery leaves nothing out, also after compaction. Take a log with a snapshot of a path at version v, compact the path at v, and
  compute the plan for a client. For every entry of the original log that the client does not have, either the plan sends
  the client the full state of the path, or it sends that very entry, or it sends the snapshot, whose version covers the entry.
\<close>

theorem recovery_plan_complete:
  assumes "log_ok l" "um_ok known" "snap \<in> set (el_entries l)" "le_path_hash snap = h" "le_is_snapshot snap" "le_version snap = v"
    and "(k, region) \<in> set (reg_regions registry)" "sp_hash (sr_path region) = h"
    and "e \<in> set (el_entries l)" "le_path_hash e = h"
    and "\<And>vv. um_find known h = Some vv \<Longrightarrow> um_ok vv \<and> \<not> vv_dominates vv (le_version e)"
  shows "\<exists>pr \<in> set (compute_plan known (fst (compact h v l)) registry limit). pr_path_hash pr = h \<and>
     (pr_needs_snapshot pr \<or> e \<in> set (pr_entries pr) \<or> (snap \<in> set (pr_entries pr) \<and> vv_dominates (le_version snap) (le_version e)))"
proof -
  let ?pr = "plan_region known (fst (compact h v l)) limit region"
  have "?pr \<in> set (compute_plan known (fst (compact h v l)) registry limit)"
    using assms(7) by (force simp: compute_plan_def)
  moreover have "pr_path_hash ?pr = h" using assms(8) by (simp add: plan_region_def Let_def split: option.splits)
  moreover have "pr_needs_snapshot ?pr \<or> e \<in> set (pr_entries ?pr) \<or> (snap \<in> set (pr_entries ?pr) \<and> vv_dominates (le_version snap) (le_version e))"
  proof (cases "pr_needs_snapshot ?pr")
    case False
    then obtain vv where vv: "um_find known h = Some vv" and ent: "pr_entries ?pr = entries_since h vv (fst (compact h v l))"
      using assms(8) by (auto simp: plan_region_def Let_def split: option.splits if_splits)
    have e: "\<not> vv_dominates vv (le_version e)" and ok: "um_ok vv" using assms(11) vv by auto
    show ?thesis
    proof (cases "vv_dominates v (le_version e)")
      case True
      have "um_ok v" "um_ok (le_version e)" using assms(1,3,6,9) by (auto simp: log_ok_def)
      then have "\<not> vv_dominates vv v" using vv_dominates_trans True e by blast
      then have "snap \<in> set (pr_entries ?pr)"
        unfolding ent using assms(3-6) by (auto simp: entries_since_def compact_def Let_def compact_loop_filter)
      then show ?thesis using True assms(6) by simp
    next
      case F: False
      then have "e \<in> set (pr_entries ?pr)"
        unfolding ent using assms(9,10) e by (auto simp: entries_since_def compact_def Let_def compact_loop_filter)
      then show ?thesis by simp
    qed
  qed simp
  ultimately show ?thesis by blast
qed

theorem recovery_plan_complete_witness:
  "let d = \<lparr>le_sequence = 1, le_path_hash = 7, le_crdt_type = CRDT_G_COUNTER, le_version = [(1, 1)], le_data = [5], le_is_snapshot = False,
            le_timestamp_us = 0\<rparr>;
       snap = d\<lparr>le_sequence := 2, le_version := [(1, 2)], le_is_snapshot := True\<rparr>;
       l = \<lparr>el_next_seq = 3, el_entries = [d, snap], el_max_entries = 10\<rparr>;
       region = \<lparr>sr_path = \<lparr>sp_path = [], sp_hash = 7, sp_segments = []\<rparr>, sr_crdt_type = CRDT_G_COUNTER, sr_reliability = REL_RELIABLE,
                 sr_crdt = Crdt_GCounter (gc_new 1), sr_version = []\<rparr>;
       registry = \<lparr>reg_node_id = 1, reg_regions = [(7, region)], reg_on_update = False\<rparr>
   in length (el_entries (fst (compact 7 [(1, 2)] l))) = 1 \<and>
      (\<exists>pr \<in> set (compute_plan [(7, [])] (fst (compact 7 [(1, 2)] l)) registry 50). pr_path_hash pr = 7 \<and>
        (pr_needs_snapshot pr \<or> d \<in> set (pr_entries pr) \<or> (snap \<in> set (pr_entries pr) \<and> vv_dominates (le_version snap) (le_version d))))"
proof -
  let ?d = "\<lparr>le_sequence = 1, le_path_hash = 7, le_crdt_type = CRDT_G_COUNTER, le_version = [(1, 1)], le_data = [5], le_is_snapshot = False,
            le_timestamp_us = 0\<rparr>"
  let ?snap = "?d\<lparr>le_sequence := 2, le_version := [(1, 2)], le_is_snapshot := True\<rparr>"
  let ?l = "\<lparr>el_next_seq = 3, el_entries = [?d, ?snap], el_max_entries = 10\<rparr>"
  let ?region = "\<lparr>sr_path = \<lparr>sp_path = [], sp_hash = 7, sp_segments = []\<rparr>, sr_crdt_type = CRDT_G_COUNTER, sr_reliability = REL_RELIABLE,
                 sr_crdt = Crdt_GCounter (gc_new 1), sr_version = []\<rparr>"
  let ?registry = "\<lparr>reg_node_id = 1, reg_regions = [(7, ?region)], reg_on_update = False\<rparr>"
  have "\<exists>pr \<in> set (compute_plan [(7, [])] (fst (compact 7 [(1, 2)] ?l)) ?registry 50). pr_path_hash pr = 7 \<and>
        (pr_needs_snapshot pr \<or> ?d \<in> set (pr_entries pr) \<or> (?snap \<in> set (pr_entries pr) \<and> vv_dominates (le_version ?snap) (le_version ?d)))"
    by (rule recovery_plan_complete [where k = 7 and region = ?region]) (auto simp: log_ok_def vv_get_def)
  moreover have "length (el_entries (fst (compact 7 [(1, 2)] ?l))) = 1"
    by (simp add: compact_def vv_get_def)
  ultimately show ?thesis unfolding Let_def by blast
qed

end
