(* ===== verification/Routing.thy ===== *)
theory Routing
  imports Doubles "HOL-Library.Multiset"
begin

text \<open>
  Adaptive routing (\<^verbatim>\<open>routing/route_table.h\<close>, \<^verbatim>\<open>route_table.cpp\<close>, \<^verbatim>\<open>router.h\<close>, \<^verbatim>\<open>router.cpp\<close>): the table of candidate
  next hops of every path hash, and the router that strengthens a route on delivery, weakens it on failure, lets
  unused routes decay and picks the hops a delta is forwarded to.

  Weights and latencies are doubles (\<^verbatim>\<open>Doubles\<close>). \<^verbatim>\<open>std::sort\<close> by descending weight is \<open>sort_key\<close>; the order it leaves
  among routes of equal weight is not specified in C++, and no property below depends on it. A pointer to a route
  is used only to update the route in place, which is \<open>upd_first\<close>. The announcement callback is part of the result.
\<close>

section \<open>Route table\<close>

record route =
  next_hop_node_id :: u16
  weight :: real
  latency_ema_us :: real
  success_count :: u32
  failure_count :: u32
  last_success_us :: u64
  last_failure_us :: u64

type_synonym route_table = "(u32, route list) umap"

definition find_route :: "u32 \<Rightarrow> u16 \<Rightarrow> route_table \<Rightarrow> route option" where
  "find_route path_hash next_hop t =
    (case um_find t path_hash of
       None \<Rightarrow> None
     | Some rs \<Rightarrow> find (\<lambda>r. next_hop_node_id r = next_hop) rs)"

fun upd_first :: "('a \<Rightarrow> bool) \<Rightarrow> ('a \<Rightarrow> 'a) \<Rightarrow> 'a list \<Rightarrow> 'a list" where
  "upd_first P f [] = []"
| "upd_first P f (x # xs) = (if P x then f x # xs else x # upd_first P f xs)"

definition update_route :: "u32 \<Rightarrow> u16 \<Rightarrow> (route \<Rightarrow> route) \<Rightarrow> route_table \<Rightarrow> route_table" where
  "update_route path_hash next_hop f t =
    (case um_find t path_hash of
       None \<Rightarrow> t
     | Some rs \<Rightarrow> um_put path_hash (upd_first (\<lambda>r. next_hop_node_id r = next_hop) f rs) t)"

definition new_route :: "u16 \<Rightarrow> real \<Rightarrow> route" where
  "new_route next_hop initial_weight =
    \<lparr>next_hop_node_id = next_hop, weight = initial_weight, latency_ema_us = 0, success_count = 0,
     failure_count = 0, last_success_us = 0, last_failure_us = 0\<rparr>"

definition add_route :: "u32 \<Rightarrow> u16 \<Rightarrow> real \<Rightarrow> route_table \<Rightarrow> route_table" where
  "add_route path_hash next_hop initial_weight t =
    (case find_route path_hash next_hop t of
       Some r \<Rightarrow> t
     | None \<Rightarrow>
         um_put path_hash
           ((case um_find t path_hash of None \<Rightarrow> [] | Some rs \<Rightarrow> rs) @ [new_route next_hop initial_weight]) t)"

definition remove_route :: "u32 \<Rightarrow> u16 \<Rightarrow> route_table \<Rightarrow> bool \<times> route_table" where
  "remove_route path_hash next_hop t =
    (case um_find t path_hash of
       None \<Rightarrow> (False, t)
     | Some rs \<Rightarrow>
         let kept = filter (\<lambda>r. next_hop_node_id r \<noteq> next_hop) rs
         in if length kept = length rs then (False, t)
            else if kept = [] then (True, um_erase path_hash t)
            else (True, um_put path_hash kept t))"

fun table_remove_node :: "u16 \<Rightarrow> route_table \<Rightarrow> route_table" where
  "table_remove_node node_id [] = []"
| "table_remove_node node_id ((h, rs) # t) =
    (let kept = filter (\<lambda>r. next_hop_node_id r \<noteq> node_id) rs
     in if kept = [] then table_remove_node node_id t
        else (h, kept) # table_remove_node node_id t)"

definition by_weight :: "route list \<Rightarrow> route list" where
  "by_weight rs = sort_key (\<lambda>r. - weight r) rs"

definition get_routes :: "u32 \<Rightarrow> route_table \<Rightarrow> route list" where
  "get_routes path_hash t = (case um_find t path_hash of None \<Rightarrow> [] | Some rs \<Rightarrow> by_weight rs)"

fun max_element :: "route \<Rightarrow> route list \<Rightarrow> route" where
  "max_element best [] = best"
| "max_element best (r # rs) = max_element (if weight best < weight r then r else best) rs"

definition best_route :: "u32 \<Rightarrow> route_table \<Rightarrow> route option" where
  "best_route path_hash t =
    (case um_find t path_hash of
       Some (r # rs) \<Rightarrow> Some (max_element r rs)
     | _ \<Rightarrow> None)"

definition routes_above :: "u32 \<Rightarrow> real \<Rightarrow> route_table \<Rightarrow> route list" where
  "routes_above path_hash min_weight t =
    (case um_find t path_hash of
       None \<Rightarrow> []
     | Some rs \<Rightarrow> by_weight (filter (\<lambda>r. min_weight \<le> weight r) rs))"

definition table_on_success ::
    "(real \<Rightarrow> real) \<Rightarrow> u32 \<Rightarrow> u16 \<Rightarrow> u32 \<Rightarrow> route_table \<Rightarrow> route_table" where
  "table_on_success rnd path_hash via_node rtt_us t =
    update_route path_hash via_node
      (\<lambda>r. r\<lparr>success_count := success_count r + 1,
             last_success_us := ucast rtt_us,
             latency_ema_us :=
               (if latency_ema_us r = 0 then u32_to_double rtt_us
                else let alpha = rnd (3 / 10)
                     in rnd (rnd (alpha * u32_to_double rtt_us) + rnd (rnd (1 - alpha) * latency_ema_us r)))\<rparr>) t"

definition table_on_failure :: "u32 \<Rightarrow> u16 \<Rightarrow> route_table \<Rightarrow> route_table" where
  "table_on_failure path_hash via_node t =
    update_route path_hash via_node (\<lambda>r. r\<lparr>failure_count := failure_count r + 1\<rparr>) t"

definition decay_all :: "(real \<Rightarrow> real) \<Rightarrow> real \<Rightarrow> route_table \<Rightarrow> route_table" where
  "decay_all rnd factor t =
    map (\<lambda>(h, rs). (h, map (\<lambda>r. r\<lparr>weight := rnd (weight r * factor)\<rparr>) rs)) t"

definition total_routes :: "route_table \<Rightarrow> nat" where
  "total_routes t = fold (\<lambda>(h, rs) total. total + length rs) t 0"

definition path_count :: "route_table \<Rightarrow> nat" where
  "path_count t = length t"

definition table_clear :: "route_table \<Rightarrow> route_table" where
  "table_clear t = []"

section \<open>Router\<close>

record router_config =
  success_increment :: real
  failure_decrement :: real
  decay_factor :: real
  min_route_weight :: real
  max_routes_per_path :: u8
  latency_alpha :: real
  min_weight :: real
  max_weight :: real

definition default_router_config :: "(real \<Rightarrow> real) \<Rightarrow> router_config" where
  "default_router_config rnd =
    \<lparr>success_increment = rnd (1 / 10), failure_decrement = rnd (1 / 5), decay_factor = rnd (995 / 1000),
     min_route_weight = rnd (1 / 10), max_routes_per_path = 3, latency_alpha = rnd (3 / 10),
     min_weight = rnd (1 / 100), max_weight = 1\<rparr>"

record router =
  rtr_local_node_id :: u16
  rtr_config :: router_config
  rtr_table :: route_table
  rtr_local_paths :: "u32 list"
  rtr_on_announce :: bool

definition new_router :: "u16 \<Rightarrow> router_config \<Rightarrow> router" where
  "new_router local_node_id cfg =
    \<lparr>rtr_local_node_id = local_node_id, rtr_config = cfg, rtr_table = [], rtr_local_paths = [],
     rtr_on_announce = False\<rparr>"

text \<open>The announcement callback is called with its two arguments, if there is one.\<close>

definition announce_path :: "u32 \<Rightarrow> router \<Rightarrow> (u32 \<times> u16) option \<times> router" where
  "announce_path path_hash rt =
    (if rtr_on_announce rt then Some (path_hash, rtr_local_node_id rt) else None,
     if path_hash \<in> set (rtr_local_paths rt) then rt
     else rt\<lparr>rtr_local_paths := rtr_local_paths rt @ [path_hash]\<rparr>)"

definition learn_route :: "(real \<Rightarrow> real) \<Rightarrow> u32 \<Rightarrow> u16 \<Rightarrow> router \<Rightarrow> router" where
  "learn_route rnd path_hash via_node rt =
    (let cfg = rtr_config rt; existing = get_routes path_hash (rtr_table rt)
     in if via_node = rtr_local_node_id rt then rt
        else if unat (max_routes_per_path cfg) \<le> length existing \<and> existing \<noteq> [] \<and>
                min_route_weight cfg \<le> weight (last existing) then rt
        else rt\<lparr>rtr_table := add_route path_hash via_node (rnd (min_route_weight cfg * 2)) (rtr_table rt)\<rparr>)"

definition router_remove_node :: "u16 \<Rightarrow> router \<Rightarrow> router" where
  "router_remove_node node_id rt = rt\<lparr>rtr_table := table_remove_node node_id (rtr_table rt)\<rparr>"

fun collect_hops :: "nat \<Rightarrow> u16 list \<Rightarrow> route list \<Rightarrow> u16 list" where
  "collect_hops n hops [] = hops"
| "collect_hops n hops (r # rs) =
    (let hops' = hops @ [next_hop_node_id r]
     in if n \<le> length hops' then hops' else collect_hops n hops' rs)"

definition select_next_hops :: "u32 \<Rightarrow> router \<Rightarrow> u16 list" where
  "select_next_hops path_hash rt =
    collect_hops (unat (max_routes_per_path (rtr_config rt))) []
      (routes_above path_hash (min_route_weight (rtr_config rt)) (rtr_table rt))"

definition has_route :: "u32 \<Rightarrow> router \<Rightarrow> bool" where
  "has_route path_hash rt = (best_route path_hash (rtr_table rt) \<noteq> None)"

definition clamp_weight :: "router_config \<Rightarrow> real \<Rightarrow> real" where
  "clamp_weight cfg w =
    (if w < min_weight cfg then min_weight cfg else if max_weight cfg < w then max_weight cfg else w)"

definition on_delivery_success :: "(real \<Rightarrow> real) \<Rightarrow> u16 \<Rightarrow> u32 \<Rightarrow> u32 \<Rightarrow> router \<Rightarrow> router" where
  "on_delivery_success rnd via_node path_hash rtt_us rt =
    (case find (\<lambda>r. next_hop_node_id r = via_node) (get_routes path_hash (rtr_table rt)) of
       None \<Rightarrow> rt
     | Some r \<Rightarrow>
         let new_weight = clamp_weight (rtr_config rt) (rnd (weight r + success_increment (rtr_config rt)));
             t1 = snd (remove_route path_hash via_node (rtr_table rt));
             t2 = add_route path_hash via_node new_weight t1
         in rt\<lparr>rtr_table := table_on_success rnd path_hash via_node rtt_us t2\<rparr>)"

definition on_delivery_failure :: "(real \<Rightarrow> real) \<Rightarrow> u16 \<Rightarrow> u32 \<Rightarrow> router \<Rightarrow> router" where
  "on_delivery_failure rnd via_node path_hash rt =
    (let cfg = rtr_config rt; t0 = table_on_failure path_hash via_node (rtr_table rt)
     in case find (\<lambda>r. next_hop_node_id r = via_node) (get_routes path_hash t0) of
          None \<Rightarrow> rt\<lparr>rtr_table := t0\<rparr>
        | Some r \<Rightarrow>
            let raw_weight = rnd (weight r - failure_decrement cfg);
                t1 = snd (remove_route path_hash via_node t0)
            in rt\<lparr>rtr_table :=
                 (if min_weight cfg \<le> raw_weight
                  then add_route path_hash via_node (clamp_weight cfg raw_weight) t1 else t1)\<rparr>)"

definition router_tick :: "(real \<Rightarrow> real) \<Rightarrow> router \<Rightarrow> router" where
  "router_tick rnd rt = rt\<lparr>rtr_table := decay_all rnd (decay_factor (rtr_config rt)) (rtr_table rt)\<rparr>"

definition router_set_config :: "router_config \<Rightarrow> router \<Rightarrow> router" where
  "router_set_config cfg rt = rt\<lparr>rtr_config := cfg\<rparr>"

definition set_announce_callback :: "bool \<Rightarrow> router \<Rightarrow> router" where
  "set_announce_callback cb rt = rt\<lparr>rtr_on_announce := cb\<rparr>"

text \<open>The calls a router receives, in the order they arrive.\<close>

datatype router_op =
    Announce u32
  | Learn u32 u16
  | Remove_node u16
  | Delivery_success u16 u32 u32
  | Delivery_failure u16 u32
  | Tick
  | Set_config router_config
  | Set_callback bool

fun router_step :: "(real \<Rightarrow> real) \<Rightarrow> router_op \<Rightarrow> router \<Rightarrow> router" where
  "router_step rnd (Announce h) rt = snd (announce_path h rt)"
| "router_step rnd (Learn h n) rt = learn_route rnd h n rt"
| "router_step rnd (Remove_node n) rt = router_remove_node n rt"
| "router_step rnd (Delivery_success n h rtt) rt = on_delivery_success rnd n h rtt rt"
| "router_step rnd (Delivery_failure n h) rt = on_delivery_failure rnd n h rt"
| "router_step rnd Tick rt = router_tick rnd rt"
| "router_step rnd (Set_config cfg) rt = router_set_config cfg rt"
| "router_step rnd (Set_callback cb) rt = set_announce_callback cb rt"

definition router_run :: "(real \<Rightarrow> real) \<Rightarrow> router_op list \<Rightarrow> router \<Rightarrow> router" where
  "router_run rnd ops rt = fold (router_step rnd) ops rt"

section \<open>Invariant\<close>

text \<open>
  A configuration that keeps weights in the documented range [0, 1]. Nothing in the code checks a configuration. The last
  condition is that of a learnt route, which starts with twice the minimum.
\<close>

definition config_ok :: "(real \<Rightarrow> real) \<Rightarrow> router_config \<Rightarrow> bool" where
  "config_ok rnd cfg \<longleftrightarrow>
     0 \<le> min_weight cfg \<and> min_weight cfg \<le> max_weight cfg \<and> max_weight cfg \<le> 1 \<and>
     0 \<le> decay_factor cfg \<and> decay_factor cfg \<le> 1 \<and>
     0 \<le> min_route_weight cfg \<and> rnd (min_route_weight cfg * 2) \<le> 1"

text \<open>The shape of a table whose weights lie in a given set.\<close>

definition routes_within :: "real set \<Rightarrow> u16 \<Rightarrow> route list \<Rightarrow> bool" where
  "routes_within U me rs \<longleftrightarrow>
     rs \<noteq> [] \<and> distinct (map next_hop_node_id rs) \<and> list_all (\<lambda>r. next_hop_node_id r \<noteq> me \<and> weight r \<in> U) rs"

definition table_within :: "real set \<Rightarrow> u16 \<Rightarrow> route_table \<Rightarrow> bool" where
  "table_within U me t \<longleftrightarrow> um_ok t \<and> (\<forall>h rs. um_find t h = Some rs \<longrightarrow> routes_within U me rs)"

abbreviation routes_ok :: "u16 \<Rightarrow> route list \<Rightarrow> bool" where
  "routes_ok \<equiv> routes_within {0..1}"

abbreviation table_ok :: "u16 \<Rightarrow> route_table \<Rightarrow> bool" where
  "table_ok \<equiv> table_within {0..1}"

text \<open>What a configuration has to do so that weights stay in a set.\<close>

definition keeps_within :: "real set \<Rightarrow> (real \<Rightarrow> real) \<Rightarrow> router_config \<Rightarrow> bool" where
  "keeps_within U rnd cfg \<longleftrightarrow>
     (\<forall>w. clamp_weight cfg w \<in> U) \<and> rnd (min_route_weight cfg * 2) \<in> U \<and> (\<forall>w \<in> U. rnd (w * decay_factor cfg) \<in> U)"

definition router_ok :: "(real \<Rightarrow> real) \<Rightarrow> router \<Rightarrow> bool" where
  "router_ok rnd rt \<longleftrightarrow>
     table_ok (rtr_local_node_id rt) (rtr_table rt) \<and> distinct (rtr_local_paths rt) \<and>
     config_ok rnd (rtr_config rt)"

fun op_ok :: "(real \<Rightarrow> real) \<Rightarrow> router_op \<Rightarrow> bool" where
  "op_ok rnd (Set_config cfg) = config_ok rnd cfg"
| "op_ok rnd _ = True"

lemma rnd_0: "rounding rnd \<Longrightarrow> rnd 0 = 0"
  using rnd_nat [of rnd 0] by simp

lemma rnd_1: "rounding rnd \<Longrightarrow> rnd 1 = 1"
  using rnd_nat [of rnd 1] by simp

lemma rnd_unit: "rounding rnd \<Longrightarrow> 0 \<le> x \<Longrightarrow> x \<le> 1 \<Longrightarrow> 0 \<le> rnd x \<and> rnd x \<le> 1"
  using rnd_ge [of rnd 0 x] rnd_le [of rnd x 1] by simp

lemma table_ok_put:
  "table_within U me t \<Longrightarrow> routes_within U me rs \<Longrightarrow> table_within U me (um_put h rs t)"
  unfolding table_within_def by (auto simp: update_conv')

lemma table_ok_erase: "table_within U me t \<Longrightarrow> table_within U me (um_erase h t)"
  unfolding table_within_def by (auto simp: delete_conv' split: if_splits)

lemma table_ok_find: "table_within U me t \<Longrightarrow> um_find t h = Some rs \<Longrightarrow> routes_within U me rs"
  unfolding table_within_def by blast

lemma upd_first_hops:
  "(\<And>r. next_hop_node_id (f r) = next_hop_node_id r) \<Longrightarrow>
   map next_hop_node_id (upd_first P f rs) = map next_hop_node_id rs"
  by (induction rs) auto

lemma upd_first_all:
  "list_all Q rs \<Longrightarrow> (\<And>r. Q r \<Longrightarrow> Q (f r)) \<Longrightarrow> list_all Q (upd_first P f rs)"
  by (induction rs) auto

lemma upd_first_Nil [simp]: "upd_first P f rs = [] \<longleftrightarrow> rs = []"
  by (cases rs) auto

lemma routes_ok_upd:
  assumes "routes_within U me rs" "\<And>r. next_hop_node_id (f r) = next_hop_node_id r" "\<And>r. weight (f r) = weight r"
  shows "routes_within U me (upd_first P f rs)"
  using assms upd_first_all [of "\<lambda>r. next_hop_node_id r \<noteq> me \<and> weight r \<in> U" rs f P]
  unfolding routes_within_def by (simp add: upd_first_hops)

lemma table_ok_update_route:
  assumes "table_within U me t" "\<And>r. next_hop_node_id (f r) = next_hop_node_id r" "\<And>r. weight (f r) = weight r"
  shows "table_within U me (update_route h n f t)"
proof (cases "um_find t h")
  case None
  then show ?thesis using assms(1) by (simp add: update_route_def)
next
  case (Some rs)
  then show ?thesis
    using table_ok_put [OF assms(1) routes_ok_upd [OF table_ok_find [OF assms(1) Some] assms(2,3)]]
    by (simp add: update_route_def)
qed

lemma routes_ok_filter:
  "routes_within U me rs \<Longrightarrow> filter P rs \<noteq> [] \<Longrightarrow> routes_within U me (filter P rs)"
  unfolding routes_within_def by (auto simp: list_all_iff distinct_map_filter)

lemma table_ok_add_route:
  assumes "table_within U me t" "n \<noteq> me" "w \<in> U"
  shows "table_within U me (add_route h n w t)"
proof (cases "find_route h n t")
  case (Some r)
  then show ?thesis using assms(1) by (simp add: add_route_def)
next
  case None
  have "routes_within U me ((case um_find t h of None \<Rightarrow> [] | Some rs \<Rightarrow> rs) @ [new_route n w])"
  proof (cases "um_find t h")
    case None
    then show ?thesis using assms by (simp add: routes_within_def new_route_def)
  next
    case (Some rs)
    have "n \<notin> next_hop_node_id ` set rs"
      using \<open>find_route h n t = None\<close> Some by (auto simp: find_route_def find_None_iff)
    then show ?thesis using table_ok_find [OF assms(1) Some] Some assms by (simp add: routes_within_def new_route_def)
  qed
  then show ?thesis using None table_ok_put [OF assms(1)] by (simp add: add_route_def)
qed

lemma table_ok_remove_route: "table_within U me t \<Longrightarrow> table_within U me (snd (remove_route h n t))"
  unfolding remove_route_def Let_def
  by (auto split: option.split intro: table_ok_erase table_ok_put routes_ok_filter dest: table_ok_find)

lemma table_ok_nth: "table_within U me t \<longleftrightarrow> um_ok t \<and> list_all (\<lambda>(h, rs). routes_within U me rs) t"
  unfolding table_within_def list_all_iff by (auto dest: map_of_SomeD)

lemma table_remove_node_keys: "fst ` set (table_remove_node n t) \<subseteq> fst ` set t"
proof (induction t)
  case (Cons e t)
  then show ?case by (cases e) (auto simp: Let_def)
qed simp

lemma table_ok_remove_node: "table_within U me t \<Longrightarrow> table_within U me (table_remove_node n t)"
proof (induction t)
  case (Cons e t)
  obtain h rs where e: "e = (h, rs)" by (cases e)
  have "table_within U me (table_remove_node n t)" using Cons by (auto simp: table_ok_nth)
  moreover have "h \<notin> fst ` set (table_remove_node n t)"
    using Cons.prems table_remove_node_keys [of n t] by (auto simp: table_ok_nth e)
  moreover have "routes_within U me rs" using Cons.prems by (simp add: table_ok_nth e)
  ultimately show ?case by (simp add: table_ok_nth Let_def e routes_ok_filter)
qed (simp add: table_within_def)

lemma table_ok_decay:
  assumes "table_within U me t" "\<forall>w \<in> U. rnd (w * d) \<in> U"
  shows "table_within U me (decay_all rnd d t)"
proof -
  have "routes_within U me (map (\<lambda>r. r\<lparr>weight := rnd (weight r * d)\<rparr>) rs)" if "routes_within U me rs" for rs
    using that assms(2) unfolding routes_within_def by (auto simp: list_all_iff o_def)
  then show ?thesis using assms(1) unfolding table_ok_nth decay_all_def
    by (auto simp: list_all_iff o_def split_beta)
qed

lemma by_weight_set [simp]: "set (by_weight rs) = set rs"
  by (simp add: by_weight_def)

lemma by_weight_distinct:
  "distinct (map f (by_weight rs)) \<longleftrightarrow> distinct (map f rs)"
proof -
  have "mset (map f (by_weight rs)) = mset (map f rs)" by (simp add: by_weight_def)
  then show ?thesis by (metis mset_eq_imp_distinct_iff)
qed

lemma get_routes_set: "set (get_routes h t) = (case um_find t h of None \<Rightarrow> {} | Some rs \<Rightarrow> set rs)"
  by (simp add: get_routes_def split: option.split)

lemma keeps_within_UNIV [simp]: "keeps_within UNIV rnd cfg"
  by (simp add: keeps_within_def)

lemma config_ok_keeps:
  assumes "rounding rnd" "config_ok rnd cfg"
  shows "keeps_within {0..1} rnd cfg"
proof -
  have "rnd (w * decay_factor cfg) \<in> {0..1}" if "w \<in> {0..1}" for w
    using rnd_unit [OF assms(1), of "w * decay_factor cfg"] that assms(2) by (simp add: config_ok_def mult_le_one)
  moreover have "0 \<le> rnd (min_route_weight cfg * 2)"
    using rnd_ge [OF assms(1), of 0 "min_route_weight cfg * 2"] assms(2) by (simp add: config_ok_def)
  ultimately show ?thesis using assms(2) by (auto simp: keeps_within_def config_ok_def clamp_weight_def)
qed

lemma found_route_ok:
  assumes "table_within U me t" "find (\<lambda>r. next_hop_node_id r = n) (get_routes h t) = Some r"
  shows "n \<noteq> me" "weight r \<in> U"
proof -
  have "r \<in> set (get_routes h t)" "next_hop_node_id r = n"
    using assms(2) by (auto simp: find_Some_iff dest: nth_mem)
  then show "n \<noteq> me" "weight r \<in> U"
    using table_ok_find [OF assms(1), of h]
    by (auto simp: get_routes_set routes_within_def list_all_iff split: option.splits)
qed

lemma table_within_success:
  assumes t: "table_within U (rtr_local_node_id rt) (rtr_table rt)" and k: "keeps_within U rnd (rtr_config rt)"
  shows "table_within U (rtr_local_node_id rt) (rtr_table (on_delivery_success rnd n h rtt rt))"
proof (cases "find (\<lambda>r. next_hop_node_id r = n) (get_routes h (rtr_table rt))")
  case None
  then show ?thesis using t by (simp add: on_delivery_success_def)
next
  case (Some r)
  show ?thesis
    using k found_route_ok [OF t Some] Some table_ok_remove_route [OF t, of h n]
    by (auto simp: on_delivery_success_def Let_def keeps_within_def table_on_success_def
        intro!: table_ok_update_route table_ok_add_route)
qed

lemma table_within_failure:
  assumes u: "table_within U (rtr_local_node_id rt) (rtr_table rt)" and k: "keeps_within U rnd (rtr_config rt)"
  shows "table_within U (rtr_local_node_id rt) (rtr_table (on_delivery_failure rnd n h rt))"
proof -
  have t: "table_within U (rtr_local_node_id rt) (table_on_failure h n (rtr_table rt))"
    using u by (simp add: table_on_failure_def table_ok_update_route)
  show ?thesis
  proof (cases "find (\<lambda>r. next_hop_node_id r = n) (get_routes h (table_on_failure h n (rtr_table rt)))")
    case None
    then show ?thesis using t by (simp add: on_delivery_failure_def)
  next
    case (Some r)
    show ?thesis
      using k found_route_ok [OF t Some] Some table_ok_remove_route [OF t, of h n]
      by (auto simp: on_delivery_failure_def Let_def keeps_within_def intro!: table_ok_add_route)
  qed
qed

lemma router_step_within:
  assumes "table_within U (rtr_local_node_id rt) (rtr_table rt)" "keeps_within U rnd (rtr_config rt)"
  shows "table_within U (rtr_local_node_id rt) (rtr_table (router_step rnd op rt))"
proof (cases op)
  case (Learn h n)
  then show ?thesis
    using assms by (auto simp: learn_route_def Let_def keeps_within_def intro!: table_ok_add_route)
next
  case Tick
  then show ?thesis using assms table_ok_decay [OF assms(1)] by (simp add: router_tick_def keeps_within_def)
qed (use assms table_within_success [OF assms] table_within_failure [OF assms] in
    \<open>auto simp: announce_path_def router_remove_node_def router_set_config_def set_announce_callback_def table_ok_remove_node\<close>)

lemma router_step_frame:
  "rtr_local_node_id (router_step rnd op rt) = rtr_local_node_id rt"
  "distinct (rtr_local_paths rt) \<Longrightarrow> distinct (rtr_local_paths (router_step rnd op rt))"
  "config_ok rnd (rtr_config rt) \<Longrightarrow> op_ok rnd op \<Longrightarrow> config_ok rnd (rtr_config (router_step rnd op rt))"
  by (cases op; simp add: announce_path_def learn_route_def router_remove_node_def on_delivery_success_def
      on_delivery_failure_def router_tick_def router_set_config_def set_announce_callback_def Let_def split: option.split)+

lemma router_step_ok:
  "rounding rnd \<Longrightarrow> router_ok rnd rt \<Longrightarrow> op_ok rnd op \<Longrightarrow> router_ok rnd (router_step rnd op rt)"
  by (simp add: router_ok_def router_step_frame router_step_within config_ok_keeps)

lemma router_run_ok:
  "rounding rnd \<Longrightarrow> router_ok rnd rt \<Longrightarrow> list_all (op_ok rnd) ops \<Longrightarrow> router_ok rnd (router_run rnd ops rt)"
  by (induction ops arbitrary: rt) (auto simp: router_run_def router_step_ok)

text \<open>The shape is kept under every configuration.\<close>

lemma router_run_shape:
  "table_within UNIV (rtr_local_node_id rt) (rtr_table rt) \<Longrightarrow> distinct (rtr_local_paths rt) \<Longrightarrow>
   table_within UNIV (rtr_local_node_id rt) (rtr_table (router_run rnd ops rt)) \<and> distinct (rtr_local_paths (router_run rnd ops rt)) \<and>
   rtr_local_node_id (router_run rnd ops rt) = rtr_local_node_id rt"
proof (induction ops arbitrary: rt)
  case (Cons op ops)
  then show ?case
    using Cons.IH [of "router_step rnd op rt"] router_step_within [of UNIV rt rnd op] by (simp add: router_run_def router_step_frame)
qed (simp add: router_run_def)

lemma new_router_ok: "config_ok rnd cfg \<Longrightarrow> router_ok rnd (new_router me cfg)"
  by (simp add: router_ok_def new_router_def table_within_def)

lemma exact_rounding: "rounding (\<lambda>x. x)"
  by (simp add: rounding_def mono_def)

lemma default_config_ok: "config_ok (\<lambda>x. x) (default_router_config (\<lambda>x. x))"
  by (simp add: config_ok_def default_router_config_def)

section \<open>Selection\<close>

definition hop_weight :: "u32 \<Rightarrow> route_table \<Rightarrow> u16 \<Rightarrow> real" where
  "hop_weight h t n = (case find_route h n t of None \<Rightarrow> 0 | Some r \<Rightarrow> weight r)"

lemma collect_hops_take:
  "length hops < max 1 n \<Longrightarrow>
   collect_hops n hops rs = hops @ map next_hop_node_id (take (max 1 n - length hops) rs)"
proof (induction n hops rs rule: collect_hops.induct)
  case (2 n hops r rs)
  show ?case
  proof (cases "n \<le> Suc (length hops)")
    case True
    then have "max 1 n - length hops = 1" using 2(2) by linarith
    then show ?thesis using True by simp
  next
    case False
    then have "max 1 n - length hops = Suc (n - Suc (length hops))" by linarith
    then show ?thesis using False 2(1) [OF refl] by (simp add: max_def)
  qed
qed simp

lemma select_conv_take:
  "select_next_hops h rt =
    map next_hop_node_id
      (take (max 1 (unat (max_routes_per_path (rtr_config rt))))
         (routes_above h (min_route_weight (rtr_config rt)) (rtr_table rt)))"
  by (simp add: select_next_hops_def collect_hops_take)

lemma find_distinct:
  "distinct (map f rs) \<Longrightarrow> r \<in> set rs \<Longrightarrow> find (\<lambda>x. f x = f r) rs = Some r"
  by (induction rs) (auto simp: image_iff)

lemma hop_weight_of:
  "um_find t h = Some rs \<Longrightarrow> distinct (map next_hop_node_id rs) \<Longrightarrow> r \<in> set rs \<Longrightarrow>
   hop_weight h t (next_hop_node_id r) = weight r"
  by (simp add: hop_weight_def find_route_def find_distinct)

lemma by_weight_sorted: "sorted_wrt (\<lambda>a b. weight b \<le> weight a) (by_weight rs)"
  using sorted_sort_key [of "\<lambda>r. - weight r" rs] by (simp add: by_weight_def sorted_wrt_map)

lemma sorted_wrt_take_drop:
  "sorted_wrt P xs \<Longrightarrow> x \<in> set (take n xs) \<Longrightarrow> y \<in> set (drop n xs) \<Longrightarrow> P x y"
  by (metis append_take_drop_id sorted_wrt_append)

section \<open>Feedback\<close>

lemma find_by_hop:
  "distinct (map next_hop_node_id rs) \<Longrightarrow>
   find (\<lambda>r. next_hop_node_id r = n) rs = Some r \<longleftrightarrow> r \<in> set rs \<and> next_hop_node_id r = n"
  using find_distinct [of next_hop_node_id rs r] by (auto simp: find_Some_iff dest: nth_mem)

lemma find_get_routes:
  assumes "table_ok me t"
  shows "find (\<lambda>r. next_hop_node_id r = n) (get_routes h t) = find_route h n t"
proof (cases "um_find t h")
  case (Some rs)
  have d: "distinct (map next_hop_node_id rs)" using table_ok_find [OF assms Some] by (simp add: routes_within_def)
  have "find (\<lambda>r. next_hop_node_id r = n) (by_weight rs) = Some r \<longleftrightarrow>
        find (\<lambda>r. next_hop_node_id r = n) rs = Some r" for r
    using d by (simp add: find_by_hop by_weight_distinct)
  then have "find (\<lambda>r. next_hop_node_id r = n) (by_weight rs) = find (\<lambda>r. next_hop_node_id r = n) rs"
    by (metis option.exhaust)
  then show ?thesis by (simp add: get_routes_def find_route_def Some)
qed (simp add: get_routes_def find_route_def)

lemma find_upd_first:
  "(\<And>r. P (f r) = P r) \<Longrightarrow> find P (upd_first P f rs) = map_option f (find P rs)"
  by (induction rs) auto

lemma find_update_route:
  "(\<And>r. next_hop_node_id (f r) = next_hop_node_id r) \<Longrightarrow>
   find_route h n (update_route h n f t) = map_option f (find_route h n t)"
  by (simp add: find_route_def update_route_def update_conv' find_upd_first split: option.split)

lemma find_filter_out: "find P (filter (\<lambda>x. \<not> P x) xs) = None"
  by (simp add: find_None_iff)

lemma find_remove_route: "find_route h n (snd (remove_route h n t)) = None"
proof (cases "um_find t h")
  case (Some rs)
  let ?kept = "filter (\<lambda>r. next_hop_node_id r \<noteq> n) rs"
  consider (same) "length ?kept = length rs" | (none) "length ?kept \<noteq> length rs" "?kept = []"
    | (some) "length ?kept \<noteq> length rs" "?kept \<noteq> []" by blast
  then show ?thesis
  proof cases
    case same
    then have "?kept = rs" by (metis filter_True length_filter_less less_irrefl)
    then have "find (\<lambda>r. next_hop_node_id r = n) rs = None"
      using find_filter_out [of "\<lambda>r. next_hop_node_id r = n" rs] by simp
    then show ?thesis using same Some by (simp add: find_route_def remove_route_def Let_def)
  next
    case none
    then show ?thesis using Some by (simp add: find_route_def remove_route_def Let_def delete_conv')
  next
    case some
    then show ?thesis using Some by (simp add: find_route_def remove_route_def Let_def update_conv' find_filter_out)
  qed
qed (simp add: find_route_def remove_route_def)

lemma find_app: "find P (xs @ ys) = (case find P xs of None \<Rightarrow> find P ys | Some x \<Rightarrow> Some x)"
  by (induction xs) auto

lemma find_add_route:
  "find_route h n t = None \<Longrightarrow> find_route h n (add_route h n w t) = Some (new_route n w)"
  by (auto simp: find_route_def add_route_def update_conv' new_route_def find_app split: option.splits)







section \<open>Properties\<close>

text \<open>
  C21. The table of a router. Whatever calls a router receives (announcements, learnt routes, delivery feedback, decay, disconnects) and
  however it is configured, its table holds at most one route per neighbour of a path, never one to the node itself and no
  path with an empty list, and the node announces each path once. If moreover every configuration it is given is one that keeps weights in range
  (weight bounds in order within [0, 1], decay factor in [0, 1], minimum route weight not negative and its double at most 1), every weight stays in [0, 1]. Both hold for
  any rounding of the floating-point unit.
\<close>

theorem router_invariant:
  assumes "rounding rnd" "um_find (rtr_table (router_run rnd ops (new_router me cfg))) h = Some rs"
  shows "rs \<noteq> [] \<and> distinct (map next_hop_node_id rs) \<and> me \<notin> next_hop_node_id ` set rs \<and>
    distinct (rtr_local_paths (router_run rnd ops (new_router me cfg))) \<and>
    (config_ok rnd cfg \<and> list_all (op_ok rnd) ops \<longrightarrow> (\<forall>r \<in> set rs. 0 \<le> weight r \<and> weight r \<le> 1))"
proof -
  let ?rt = "router_run rnd ops (new_router me cfg)"
  have shape: "table_within UNIV me (rtr_table ?rt)" "distinct (rtr_local_paths ?rt)" "rtr_local_node_id ?rt = me"
    using router_run_shape [of "new_router me cfg" rnd ops] by (auto simp: new_router_def table_within_def)
  have "\<forall>r \<in> set rs. 0 \<le> weight r \<and> weight r \<le> 1" if "config_ok rnd cfg" "list_all (op_ok rnd) ops"
    using router_run_ok [OF assms(1) new_router_ok [OF that(1)] that(2), of me] table_ok_find [OF _ assms(2), of "{0..1}" me] shape(3)
    by (auto simp: router_ok_def routes_within_def list_all_iff)
  then show ?thesis
    using table_ok_find [OF shape(1) assms(2)] shape(2) by (auto simp: routes_within_def list_all_iff)
qed

theorem router_invariant_witness:
  "\<exists>rs. um_find (rtr_table (router_run (\<lambda>x. x) [Learn 7 2, Learn 7 3, Tick, Delivery_failure 2 7, Delivery_success 3 7 90]
            (new_router 1 (default_router_config (\<lambda>x. x))))) 7 = Some rs \<and>
     length rs = 1 \<and> (\<forall>r \<in> set rs. 0 \<le> weight r \<and> weight r \<le> 1)"
proof -
  let ?rt = "router_run (\<lambda>x. x) [Learn 7 2, Learn 7 3, Tick, Delivery_failure 2 7, Delivery_success 3 7 90]
            (new_router 1 (default_router_config (\<lambda>x. x)))"
  obtain rs where rs: "um_find (rtr_table ?rt) 7 = Some rs" "length rs = 1"
    by (simp add: router_run_def learn_route_def get_routes_def new_router_def add_route_def find_route_def
        default_router_config_def new_route_def router_tick_def decay_all_def on_delivery_failure_def
        table_on_failure_def update_route_def by_weight_def remove_route_def Let_def on_delivery_success_def
        clamp_weight_def table_on_success_def)
  show ?thesis
    using rs router_invariant [OF exact_rounding rs(1)] default_config_ok by simp
qed

text \<open>A configuration out of range is not refused: with a minimum of 0.8 a learnt route starts with the weight 1.6.\<close>

lemma learnt_weight_above_one:
  "um_find (rtr_table (learn_route (\<lambda>x. x) h n
      (new_router me ((default_router_config (\<lambda>x. x))\<lparr>min_route_weight := 8 / 10\<rparr>)))) h = (if n = me then None else Some [new_route n (16 / 10)])"
  by (simp add: learn_route_def new_router_def add_route_def find_route_def get_routes_def Let_def)

text \<open>
  C22. Forwarding picks the best healthy neighbours: the selected hops are distinct neighbours with a route of at
  least the minimum weight, in descending weight, as many as there are up to the configured number (at least one),
  and a neighbour left out is either below the minimum or no better than every selected one.
\<close>

theorem select_next_hops_spec:
  assumes "table_ok me (rtr_table rt)" "um_find (rtr_table rt) h = Some rs"
  defines "hops \<equiv> select_next_hops h rt" and "hw \<equiv> hop_weight h (rtr_table rt)"
    and "limit \<equiv> max 1 (unat (max_routes_per_path (rtr_config rt)))"
    and "healthy \<equiv> min_route_weight (rtr_config rt)"
  shows "distinct hops \<and> set hops \<subseteq> next_hop_node_id ` set rs \<and> me \<notin> set hops \<and>
    length hops = min limit (length (filter (\<lambda>r. healthy \<le> weight r) rs)) \<and>
    (\<forall>n \<in> set hops. healthy \<le> hw n) \<and> sorted_wrt (\<lambda>a b. hw b \<le> hw a) hops \<and>
    (\<forall>n \<in> next_hop_node_id ` set rs - set hops.
       hw n < healthy \<or> (length hops = limit \<and> (\<forall>m \<in> set hops. hw n \<le> hw m)))"
proof -
  define cand where "cand = by_weight (filter (\<lambda>r. healthy \<le> weight r) rs)"
  have ok: "distinct (map next_hop_node_id rs)" "me \<notin> next_hop_node_id ` set rs"
    using table_ok_find [OF assms(1,2)] by (auto simp: routes_within_def list_all_iff)
  have hops: "hops = map next_hop_node_id (take limit cand)"
    by (simp add: hops_def select_conv_take routes_above_def assms(2) cand_def limit_def healthy_def)
  have cand: "set cand = {r \<in> set rs. healthy \<le> weight r}" "distinct (map next_hop_node_id cand)"
    "length cand = length (filter (\<lambda>r. healthy \<le> weight r) rs)"
    using ok(1) by (auto simp: cand_def by_weight_distinct distinct_map_filter) (simp add: by_weight_def)
  have hw: "r \<in> set rs \<Longrightarrow> hw (next_hop_node_id r) = weight r" for r
    unfolding hw_def by (rule hop_weight_of [OF assms(2) ok(1)])
  have sel: "q \<in> set rs \<and> healthy \<le> weight q" if "q \<in> set (take limit cand)" for q
    using in_set_takeD [OF that] by (simp add: cand(1))
  have "sorted_wrt (\<lambda>a b. hw b \<le> hw a) hops"
    unfolding hops sorted_wrt_map
    by (rule sorted_wrt_mono_rel [OF _ sorted_wrt_take [OF by_weight_sorted [of "filter (\<lambda>r. healthy \<le> weight r) rs"], folded cand_def]])
      (simp add: sel hw)
  moreover have "hw n < healthy \<or> (length hops = limit \<and> (\<forall>m \<in> set hops. hw n \<le> hw m))"
    if "n \<in> next_hop_node_id ` set rs - set hops" for n
  proof (cases "hw n < healthy")
    case False
    obtain r where r: "r \<in> set rs" "n = next_hop_node_id r" using \<open>n \<in> _\<close> by blast
    have "r \<in> set cand" "r \<notin> set (take limit cand)" using r False hw that by (auto simp: cand(1) hops)
    then have d: "r \<in> set (drop limit cand)" by (metis Un_iff append_take_drop_id set_append)
    then have "limit < length cand" by (cases "limit < length cand") auto
    moreover have "weight r \<le> weight q" if "q \<in> set (take limit cand)" for q
      using sorted_wrt_take_drop [OF by_weight_sorted, folded cand_def] that d unfolding cand_def by blast
    ultimately show ?thesis using r by (auto simp: hops sel hw)
  qed simp
  moreover have "distinct hops" using cand(2) by (simp add: hops flip: take_map)
  moreover have "set hops \<subseteq> next_hop_node_id ` set rs" "\<forall>n \<in> set hops. healthy \<le> hw n"
    by (auto simp: hops sel hw)
  ultimately show ?thesis using cand(3) ok(2) by (auto simp: hops min.commute)
qed

theorem select_next_hops_spec_witness:
  "\<exists>rt :: router. length (select_next_hops 7 rt) = 2 \<and> sorted_wrt (\<lambda>a b. hop_weight 7 (rtr_table rt) b \<le> hop_weight 7 (rtr_table rt) a) (select_next_hops 7 rt)"
proof -
  let ?rs = "[new_route 2 (1 / 20), new_route 3 (3 / 10), new_route 4 (1 / 2)]"
  let ?rt = "(new_router 1 (default_router_config (\<lambda>x. x)))\<lparr>rtr_table := [(7, ?rs)]\<rparr>"
  have ok: "table_ok 1 (rtr_table ?rt)" "um_find (rtr_table ?rt) 7 = Some ?rs"
    by (simp_all add: table_within_def routes_within_def new_route_def)
  have "length (select_next_hops 7 ?rt) = 2"
    using select_next_hops_spec [OF ok] by (simp add: new_router_def default_router_config_def new_route_def)
  then show ?thesis using select_next_hops_spec [OF ok] by blast
qed



text \<open>
  The limit on routes per path is not enforced by \<open>learn_route\<close>: once the worst route of a path has decayed below
  the minimum, every further neighbour is added instead of replacing it, and the list grows past the limit.
\<close>

lemma learn_route_exceeds_limit:
  "unat (max_routes_per_path (default_router_config (\<lambda>x. x))) <
   length (get_routes 7 (rtr_table (router_run (\<lambda>x. x) [Learn 7 5, Learn 7 6]
     ((new_router 1 (default_router_config (\<lambda>x. x)))\<lparr>rtr_table :=
        [(7, [new_route 2 (1 / 2), new_route 3 (1 / 2), new_route 4 (1 / 20)])]\<rparr>))))"
  by (simp add: router_run_def learn_route_def get_routes_def by_weight_def new_router_def default_router_config_def
      new_route_def add_route_def find_route_def Let_def)

text \<open>
  A successful delivery re-creates the route, so its counters never pass one and the moving average of the latency
  is always the last sample.
\<close>

lemma success_resets_statistics:
  assumes "router_ok rnd rt" "find_route h n (rtr_table rt) = Some r"
  shows "\<exists>q. find_route h n (rtr_table (on_delivery_success rnd n h rtt rt)) = Some q \<and>
    success_count q = 1 \<and> failure_count q = 0 \<and> latency_ema_us q = u32_to_double rtt"
proof -
  have "table_ok (rtr_local_node_id rt) (rtr_table rt)" using assms(1) by (simp add: router_ok_def)
  then show ?thesis
    using assms(2) by (simp add: on_delivery_success_def Let_def find_get_routes find_remove_route find_add_route
        table_on_success_def find_update_route new_route_def)
qed

end
