(* ===== verification/Capability.thy ===== *)
theory Capability
  imports State_Path
begin

text \<open>
  Signatures and capability tokens (\<^verbatim>\<open>security/crypto.h\<close>, \<^verbatim>\<open>crypto.cpp\<close>, \<^verbatim>\<open>security/capability.h\<close>, \<^verbatim>\<open>capability.cpp\<close>).

  The Ed25519 functions of Monocypher are the parameter \<open>ed\<close>, a record of the three functions the code calls; the
  documented behaviour the lemmas use is the predicate \<open>ed25519_laws\<close>. The entropy source is the parameter of
  \<open>keypair_generate\<close> (the exception it may throw is \<open>None\<close>). The store's unordered map is a list of entries in the
  order of iteration; a search that returns the first hit depends on that order, and no property below does.
\<close>

section \<open>Crypto\<close>

record ed25519 =
  ed_key_pair :: "bytes \<Rightarrow> bytes \<times> bytes"
  ed_sign :: "bytes \<Rightarrow> bytes \<Rightarrow> bytes"
  ed_check :: "bytes \<Rightarrow> bytes \<Rightarrow> bytes \<Rightarrow> int"

definition ED25519_SIGNATURE_SIZE :: nat where "ED25519_SIGNATURE_SIZE = 64"

definition ED25519_SEED_SIZE :: nat where "ED25519_SEED_SIZE = 32"

record keypair =
  kp_public_key :: bytes
  kp_secret_key :: bytes

definition keypair_from_seed :: "ed25519 \<Rightarrow> bytes \<Rightarrow> keypair" where
  "keypair_from_seed ed seed =
    (let (sk, pk) = ed_key_pair ed seed in \<lparr>kp_public_key = pk, kp_secret_key = sk\<rparr>)"

definition keypair_generate :: "ed25519 \<Rightarrow> (nat \<Rightarrow> bytes option) \<Rightarrow> keypair option" where
  "keypair_generate ed random_bytes = map_option (keypair_from_seed ed) (random_bytes ED25519_SEED_SIZE)"

definition crypto_sign :: "ed25519 \<Rightarrow> bytes \<Rightarrow> bytes \<Rightarrow> bytes" where
  "crypto_sign ed sk msg = ed_sign ed sk msg"

definition crypto_verify :: "ed25519 \<Rightarrow> bytes \<Rightarrow> bytes \<Rightarrow> bytes \<Rightarrow> bool" where
  "crypto_verify ed pk sig msg \<longleftrightarrow> ed_check ed sig pk msg = 0"

text \<open>Documented behaviour: signatures have 64 bytes, and one made with a key pair's secret key checks under its public key.\<close>

definition ed25519_laws :: "ed25519 \<Rightarrow> bool" where
  "ed25519_laws ed \<longleftrightarrow>
     (\<forall>sk m. length (ed_sign ed sk m) = 64) \<and>
     (\<forall>seed sk pk m. ed_key_pair ed seed = (sk, pk) \<longrightarrow> ed_check ed (ed_sign ed sk m) pk m = 0)"

section \<open>Tokens\<close>

definition CAP_NONE :: u8 where "CAP_NONE = 0x00"

definition CAP_READ :: u8 where "CAP_READ = 0x01"

definition CAP_WRITE :: u8 where "CAP_WRITE = 0x02"

definition CAP_SUBSCRIBE :: u8 where "CAP_SUBSCRIBE = 0x04"

definition CAP_GRANT :: u8 where "CAP_GRANT = 0x08"

definition CAP_ALL :: u8 where "CAP_ALL = 0x0F"

record capability_token =
  token_id :: u32
  issuer_id :: u32
  permissions :: u8
  path_pattern :: bytes
  expiry_us :: u32
  parent_token_id :: u32
  token_signature :: bytes

definition signable_bytes :: "capability_token \<Rightarrow> bytes" where
  "signable_bytes t =
    (let sz = 4 + 4 + 1 + 4 + 4 + 2 + length (path_pattern t);
         b0 = replicate sz 0;
         b1 = write_u32 b0 0 (token_id t);
         b2 = write_u32 b1 4 (issuer_id t);
         b3 = b2[8 := permissions t];
         b4 = write_u32 b3 9 (expiry_us t);
         b5 = write_u32 b4 13 (parent_token_id t);
         b6 = write_u16 b5 17 (of_nat (length (path_pattern t)))
     in if path_pattern t \<noteq> [] then put_bytes b6 19 (path_pattern t) else b6)"

definition token_encode :: "capability_token \<Rightarrow> bytes" where
  "token_encode t =
    (let signable = signable_bytes t;
         buf = replicate (length signable + ED25519_SIGNATURE_SIZE) 0
     in put_bytes (put_bytes buf 0 signable) (length signable) (token_signature t))"

definition token_decode :: "bytes \<Rightarrow> capability_token option" where
  "token_decode data =
    (if length data < 83 then None
     else
       let pat_len = unat (read_u16 (drop 17 data)) in
       if 19 + pat_len + ED25519_SIGNATURE_SIZE > length data then None
       else Some
         \<lparr>token_id = read_u32 data,
          issuer_id = read_u32 (drop 4 data),
          permissions = data ! 8,
          path_pattern = take pat_len (drop 19 data),
          expiry_us = read_u32 (drop 9 data),
          parent_token_id = read_u32 (drop 13 data),
          token_signature = take ED25519_SIGNATURE_SIZE (drop (19 + pat_len) data)\<rparr>)"

definition has_permission :: "capability_token \<Rightarrow> u8 \<Rightarrow> bool" where
  "has_permission t perm \<longleftrightarrow> and (permissions t) perm \<noteq> 0"

definition covers :: "(bytes \<Rightarrow> u32) \<Rightarrow> capability_token \<Rightarrow> state_path \<Rightarrow> bool" where
  "covers xxh t path = path_matches path (state_path_new xxh (path_pattern t))"

definition is_expired :: "capability_token \<Rightarrow> u32 \<Rightarrow> bool" where
  "is_expired t now_us = (if expiry_us t = 0 then False else expiry_us t < now_us)"

section \<open>Store\<close>

record capability_store =
  cst_keys :: keypair
  cst_node_id :: u32
  cst_next_token_id :: u32
  cst_tokens :: "(u32, capability_token) umap"
  cst_peer_keys :: "(u32, bytes) umap"

definition capability_store_new :: "keypair \<Rightarrow> u32 \<Rightarrow> capability_store" where
  "capability_store_new node_keys node_id =
    \<lparr>cst_keys = node_keys, cst_node_id = node_id, cst_next_token_id = 1, cst_tokens = [],
     cst_peer_keys = [(node_id, kp_public_key node_keys)]\<rparr>"

definition cap_issue ::
    "ed25519 \<Rightarrow> bytes \<Rightarrow> u8 \<Rightarrow> u32 \<Rightarrow> capability_store \<Rightarrow> capability_token \<times> capability_store" where
  "cap_issue ed pattern perms expiry st =
    (let t0 = \<lparr>token_id = cst_next_token_id st, issuer_id = cst_node_id st, permissions = perms,
               path_pattern = pattern, expiry_us = expiry, parent_token_id = 0, token_signature = []\<rparr>;
         t = t0\<lparr>token_signature := crypto_sign ed (kp_secret_key (cst_keys st)) (signable_bytes t0)\<rparr>
     in (t, st\<lparr>cst_next_token_id := cst_next_token_id st + 1,
               cst_tokens := um_put (token_id t) t (cst_tokens st)\<rparr>))"

definition invalid_token :: capability_token where
  "invalid_token =
    \<lparr>token_id = 0, issuer_id = 0, permissions = 0, path_pattern = [], expiry_us = 0, parent_token_id = 0,
     token_signature = replicate ED25519_SIGNATURE_SIZE 0\<rparr>"

definition cap_attenuate ::
    "ed25519 \<Rightarrow> (bytes \<Rightarrow> u32) \<Rightarrow> capability_token \<Rightarrow> bytes \<Rightarrow> u8 \<Rightarrow> u32 \<Rightarrow> capability_store \<Rightarrow>
     capability_token \<times> capability_store" where
  "cap_attenuate ed xxh parent narrower_path reduced expiry st =
    (if and reduced (not (permissions parent)) \<noteq> 0 then (invalid_token, st)
     else if expiry_us parent \<noteq> 0 \<and> (expiry = 0 \<or> expiry_us parent < expiry) then (invalid_token, st)
     else
       let parent_pattern = state_path_new xxh (path_pattern parent);
           child_pattern = state_path_new xxh narrower_path in
       if \<not> path_matches child_pattern parent_pattern \<and> narrower_path \<noteq> path_pattern parent \<and>
          length (sp_segments parent_pattern) \<noteq> length (sp_segments child_pattern)
       then (invalid_token, st)
       else
         let t0 = \<lparr>token_id = cst_next_token_id st, issuer_id = cst_node_id st, permissions = reduced,
                   path_pattern = narrower_path, expiry_us = expiry, parent_token_id = token_id parent,
                   token_signature = []\<rparr>;
             t = t0\<lparr>token_signature := crypto_sign ed (kp_secret_key (cst_keys st)) (signable_bytes t0)\<rparr>
         in (t, st\<lparr>cst_next_token_id := cst_next_token_id st + 1,
                   cst_tokens := um_put (token_id t) t (cst_tokens st)\<rparr>))"

definition verify_token :: "ed25519 \<Rightarrow> capability_token \<Rightarrow> bytes \<Rightarrow> bool" where
  "verify_token ed t issuer_pk = crypto_verify ed issuer_pk (token_signature t) (signable_bytes t)"

definition cap_store :: "capability_token \<Rightarrow> capability_store \<Rightarrow> capability_store" where
  "cap_store t st = st\<lparr>cst_tokens := um_put (token_id t) t (cst_tokens st)\<rparr>"

definition cap_revoke :: "u32 \<Rightarrow> capability_store \<Rightarrow> bool \<times> capability_store" where
  "cap_revoke tid st =
    (um_find (cst_tokens st) tid \<noteq> None, st\<lparr>cst_tokens := um_erase tid (cst_tokens st)\<rparr>)"

fun find_token :: "(bytes \<Rightarrow> u32) \<Rightarrow> state_path \<Rightarrow> u8 \<Rightarrow> u32 \<Rightarrow> (u32, capability_token) umap \<Rightarrow> capability_token option" where
  "find_token xxh path perm now_us [] = None"
| "find_token xxh path perm now_us ((tid, t) # ts) =
    (if is_expired t now_us then find_token xxh path perm now_us ts
     else if \<not> has_permission t perm then find_token xxh path perm now_us ts
     else if covers xxh t path then Some t
     else find_token xxh path perm now_us ts)"

definition find_capability :: "(bytes \<Rightarrow> u32) \<Rightarrow> state_path \<Rightarrow> u8 \<Rightarrow> u32 \<Rightarrow> capability_store \<Rightarrow> capability_token option" where
  "find_capability xxh path perm now_us st = find_token xxh path perm now_us (cst_tokens st)"

definition cap_count :: "capability_store \<Rightarrow> nat" where
  "cap_count st = length (cst_tokens st)"

fun gc_tokens :: "u32 \<Rightarrow> (u32, capability_token) umap \<Rightarrow> nat \<times> (u32, capability_token) umap" where
  "gc_tokens now_us [] = (0, [])"
| "gc_tokens now_us ((tid, t) # ts) =
    (let (removed, ts') = gc_tokens now_us ts
     in if is_expired t now_us then (Suc removed, ts') else (removed, (tid, t) # ts'))"

definition cap_gc :: "u32 \<Rightarrow> capability_store \<Rightarrow> nat \<times> capability_store" where
  "cap_gc now_us st =
    (let (removed, ts) = gc_tokens now_us (cst_tokens st) in (removed, st\<lparr>cst_tokens := ts\<rparr>))"

definition register_peer_key :: "u32 \<Rightarrow> bytes \<Rightarrow> capability_store \<Rightarrow> capability_store" where
  "register_peer_key nid pk st = st\<lparr>cst_peer_keys := um_put nid pk (cst_peer_keys st)\<rparr>"

definition peer_key :: "u32 \<Rightarrow> capability_store \<Rightarrow> bytes option" where
  "peer_key nid st = um_find (cst_peer_keys st) nid"

text \<open>One delegation after another, each on its own node: the store of the delegating node and the arguments it passes.\<close>

type_synonym delegation = "capability_store \<times> bytes \<times> u8 \<times> u32"

fun delegate_chain :: "ed25519 \<Rightarrow> (bytes \<Rightarrow> u32) \<Rightarrow> delegation list \<Rightarrow> capability_token \<Rightarrow> capability_token option" where
  "delegate_chain ed xxh [] t = Some t"
| "delegate_chain ed xxh ((st, path, perms, expiry) # ds) t =
    (let child = fst (cap_attenuate ed xxh t path perms expiry st)
     in if token_id child = 0 then None else delegate_chain ed xxh ds child)"

section \<open>Wire form\<close>

definition token_wire :: "capability_token \<Rightarrow> bytes" where
  "token_wire t =
    be32 (token_id t) @ be32 (issuer_id t) @ [permissions t] @ be32 (expiry_us t) @ be32 (parent_token_id t) @
    be16 (of_nat (length (path_pattern t))) @ path_pattern t"

lemma replicate_split: "replicate (n + m) x = replicate n x @ replicate m x"
  by (simp add: replicate_add)

lemma signable_bytes_wire: "signable_bytes t = token_wire t"
proof -
  define n where "n = length (path_pattern t)"
  have z: "replicate (4 + 4 + 1 + 4 + 4 + 2 + n) (0::u8) = replicate 4 0 @ replicate 4 0 @ replicate 1 0 @ replicate 4 0 @
      replicate 4 0 @ replicate 2 0 @ replicate n 0"
    by (simp only: replicate_split append_assoc)
  show ?thesis
    unfolding signable_bytes_def Let_def token_wire_def n_def [symmetric] z
    by (simp add: buf_simps put_bytes_def list_update_append n_def)
qed

lemma token_encode_wire:
  "length (token_signature t) = 64 \<Longrightarrow> token_encode t = token_wire t @ token_signature t"
  by (simp add: token_encode_def signable_bytes_wire Let_def ED25519_SIGNATURE_SIZE_def put_bytes_def)

lemma token_decode_wire:
  assumes "length (path_pattern t) < 2 ^ 16" "length (token_signature t) = 64"
  shows "token_decode (token_wire t @ token_signature t @ r) = Some t"
proof -
  have u: "unat (of_nat (length (path_pattern t)) :: u16) = length (path_pattern t)"
    using assms(1) by (simp add: unat_of_nat take_bit_nat_eq_self)
  let ?d = "token_wire t @ token_signature t @ r"
  have len: "length (token_wire t) = 19 + length (path_pattern t)" by (simp add: token_wire_def)
  then have sig: "drop (19 + length (path_pattern t)) ?d = token_signature t @ r" by simp
  have fields: "read_u32 ?d = token_id t" "read_u32 (drop 4 ?d) = issuer_id t" "?d ! 8 = permissions t"
    "read_u32 (drop 9 ?d) = expiry_us t" "read_u32 (drop 13 ?d) = parent_token_id t"
    "read_u16 (drop 17 ?d) = of_nat (length (path_pattern t))"
    "take (length (path_pattern t)) (drop 19 ?d) = path_pattern t"
    by (simp_all add: token_wire_def read_be16 read_be32 nth_append)
  show ?thesis
    unfolding token_decode_def fields u sig Let_def using assms(2) len
    by (simp add: ED25519_SIGNATURE_SIZE_def)
qed

lemma token_wire_inj:
  assumes "length (path_pattern t) < 2 ^ 16" "length (path_pattern t') < 2 ^ 16" "token_wire t = token_wire t'"
  shows "t\<lparr>token_signature := s\<rparr> = t'\<lparr>token_signature := s\<rparr>"
proof -
  let ?z = "replicate 64 0"
  have w: "token_wire (x\<lparr>token_signature := ?z\<rparr>) = token_wire x" for x by (simp add: token_wire_def)
  have "Some (t\<lparr>token_signature := ?z\<rparr>) = Some (t'\<lparr>token_signature := ?z\<rparr>)"
    using token_decode_wire [of "t\<lparr>token_signature := ?z\<rparr>" "[]"] token_decode_wire [of "t'\<lparr>token_signature := ?z\<rparr>" "[]"] assms
    by (simp add: w)
  then have "t\<lparr>token_signature := ?z\<rparr>\<lparr>token_signature := s\<rparr> = t'\<lparr>token_signature := ?z\<rparr>\<lparr>token_signature := s\<rparr>" by simp
  then show ?thesis by simp
qed

section \<open>Store lemmas\<close>

definition store_ok :: "capability_store \<Rightarrow> bool" where
  "store_ok st \<longleftrightarrow> um_ok (cst_tokens st) \<and> list_all (\<lambda>(tid, t). token_id t = tid) (cst_tokens st)"

definition grants :: "(bytes \<Rightarrow> u32) \<Rightarrow> state_path \<Rightarrow> u8 \<Rightarrow> u32 \<Rightarrow> capability_token \<Rightarrow> bool" where
  "grants xxh path perm now_us t \<longleftrightarrow> \<not> is_expired t now_us \<and> has_permission t perm \<and> covers xxh t path"

lemma find_token_find: "find_token xxh path perm now_us ts = find (grants xxh path perm now_us) (map snd ts)"
  by (induction xxh path perm now_us ts rule: find_token.induct) (auto simp: grants_def)

lemma find_token_Some:
  "find_token xxh path perm now_us ts = Some t \<Longrightarrow> t \<in> snd ` set ts \<and> grants xxh path perm now_us t"
  by (auto simp: find_token_find find_Some_iff in_set_conv_nth image_iff) (metis nth_mem)

lemma find_token_None:
  "find_token xxh path perm now_us ts = None \<longleftrightarrow> (\<forall>t \<in> snd ` set ts. \<not> grants xxh path perm now_us t)"
  by (simp add: find_token_find find_None_iff)

lemma gc_tokens_filter:
  "gc_tokens now_us ts = (length (filter (\<lambda>(tid, t). is_expired t now_us) ts), filter (\<lambda>(tid, t). \<not> is_expired t now_us) ts)"
  by (induction ts) (auto simp: split_beta)

lemma expired_later: "is_expired t now_us \<Longrightarrow> now_us \<le> later \<Longrightarrow> is_expired t later"
  by (auto simp: is_expired_def split: if_splits)

lemma store_ok_put:
  assumes "store_ok st" "cst_tokens st' = um_put (token_id t) t (cst_tokens st)"
  shows "store_ok st'"
proof -
  have "set (um_put (token_id t) t m) \<subseteq> insert (token_id t, t) (set m)" for m :: "(u32, capability_token) umap"
    by (induction m) auto
  then show ?thesis using assms by (auto simp: store_ok_def list_all_iff) fastforce
qed

lemma attenuate_cases:
  assumes "cap_attenuate ed xxh parent path perms expiry st = (t, st')"
  shows "(t = invalid_token \<and> st' = st) \<or>
    (and perms (not (permissions parent)) = 0 \<and>
     (expiry_us parent \<noteq> 0 \<longrightarrow> expiry \<noteq> 0 \<and> expiry \<le> expiry_us parent) \<and>
     (path = path_pattern parent \<or> length (parse_segments path) = length (parse_segments (path_pattern parent))) \<and>
     permissions t = perms \<and> expiry_us t = expiry \<and> path_pattern t = path \<and>
     token_id t = cst_next_token_id st \<and> parent_token_id t = token_id parent \<and> issuer_id t = cst_node_id st \<and>
     token_signature t = crypto_sign ed (kp_secret_key (cst_keys st)) (signable_bytes t) \<and>
     st' = st\<lparr>cst_next_token_id := cst_next_token_id st + 1, cst_tokens := um_put (token_id t) t (cst_tokens st)\<rparr>)"
  using assms unfolding cap_attenuate_def Let_def
  by (auto simp: state_path_new_def path_matches_def signable_bytes_wire token_wire_def split: if_splits)

lemma perm_subset: "and a (not b) = 0 \<longleftrightarrow> (\<forall>n. bit a n \<longrightarrow> bit b n)" for a b :: u8
  using bit_imp_le_length [of a] by (auto simp: bit_eq_iff bit_simps)

lemma perm_subset_has: "and (permissions c) (not (permissions t)) = 0 \<Longrightarrow> has_permission c p \<Longrightarrow> has_permission t p"
  unfolding has_permission_def perm_subset by (auto simp: bit_eq_iff bit_simps)

lemma delegate_step:
  assumes "fst (cap_attenuate ed xxh t path perms expiry st) = c" "token_id c \<noteq> 0"
  shows "and (permissions c) (not (permissions t)) = 0" "is_expired t now_us \<Longrightarrow> is_expired c now_us"
    "length (parse_segments (path_pattern c)) = length (parse_segments (path_pattern t))"
proof -
  obtain st' where "cap_attenuate ed xxh t path perms expiry st = (c, st')" using assms(1) by (metis prod.collapse)
  note step = attenuate_cases [OF this]
  have inv: "c \<noteq> invalid_token" using assms(2) by (auto simp: invalid_token_def)
  show "and (permissions c) (not (permissions t)) = 0"
    "length (parse_segments (path_pattern c)) = length (parse_segments (path_pattern t))"
    using step inv by auto
  show "is_expired c now_us" if "is_expired t now_us"
    using step inv that by (auto simp: is_expired_def split: if_splits)
qed

lemma delegate_chain_last:
  "delegate_chain ed xxh (ds @ [(st, path, perms, expiry)]) t = Some c \<Longrightarrow>
   \<exists>m. c = fst (cap_attenuate ed xxh m path perms expiry st) \<and> token_id c \<noteq> 0"
proof (induction ds arbitrary: t)
  case (Cons d ds)
  then show ?case by (cases d) (auto simp: Let_def split: if_splits)
qed (auto simp: Let_def split: if_splits)

lemma delegate_chain_narrows:
  "delegate_chain ed xxh ds t = Some c \<Longrightarrow>
   and (permissions c) (not (permissions t)) = 0 \<and> (\<forall>now_us. is_expired t now_us \<longrightarrow> is_expired c now_us) \<and>
   length (parse_segments (path_pattern c)) = length (parse_segments (path_pattern t))"
proof (induction ed xxh ds t rule: delegate_chain.induct)
  case (2 ed xxh st path perms expiry ds t)
  let ?m = "fst (cap_attenuate ed xxh t path perms expiry st)"
  have id: "token_id ?m \<noteq> 0" and rest: "delegate_chain ed xxh ds ?m = Some c"
    using "2.prems" by (auto simp: Let_def split: if_splits)
  note step = delegate_step [OF refl id]
  from "2.IH" [OF refl id rest] step show ?case by (auto simp: perm_subset)
qed (simp add: perm_subset)

lemma parse_join: "segs \<noteq> [] \<Longrightarrow> list_all segment_ok segs \<Longrightarrow> parse_segments (join_path segs) = segs"
  by (rule segments_of_joined_path [THEN conjunct1])

lemma match_stars: "match_loop (replicate n [STAR]) segs"
  by (induction n arbitrary: segs) simp_all

text \<open>A small signature scheme that satisfies the laws, for evaluating examples.\<close>

definition example_ed :: ed25519 where
  "example_ed =
    \<lparr>ed_key_pair = (\<lambda>seed. (seed, seed)),
     ed_sign = (\<lambda>sk m. take 64 (sk @ m @ replicate 64 0)),
     ed_check = (\<lambda>sig pk m. if sig = take 64 (pk @ m @ replicate 64 0) then 0 else - 1)\<rparr>"

lemma example_ed_laws: "ed25519_laws example_ed"
  by (auto simp: ed25519_laws_def example_ed_def min_def)

section \<open>Properties\<close>

text \<open>
  C19. A token survives its transfer with its meaning. A token issued by a node whose keys come from a seed is
  decoded by a receiver as exactly the issued token, whatever bytes follow it, verifies under the issuer's public
  key, and with it in the store every check of a path its pattern matches, for a permission it holds and before it expires, finds a token;
  and the signed bytes determine every field, so a token that verifies with another field changed would need
  another signature.
\<close>

theorem capability_token_transfer:
  assumes "ed25519_laws ed" "cst_keys st = keypair_from_seed ed seed" "length pattern < 2 ^ 16"
    and "cap_issue ed pattern perms expiry st = (t, st')"
  shows "token_decode (token_encode t @ r) = Some t \<and> verify_token ed t (kp_public_key (cst_keys st)) \<and>
    (\<forall>p perm now_us. path_matches p (state_path_new xxh pattern) \<and> and perms perm \<noteq> 0 \<and> \<not> is_expired t now_us \<longrightarrow>
       find_capability xxh p perm now_us st' \<noteq> None) \<and>
    (\<forall>t'. length (path_pattern t') < 2 ^ 16 \<and> signable_bytes t' = signable_bytes t \<longrightarrow>
       t' = t\<lparr>token_signature := token_signature t'\<rparr>)"
proof -
  have t: "path_pattern t = pattern" "permissions t = perms"
    "token_signature t = ed_sign ed (kp_secret_key (cst_keys st)) (signable_bytes t)"
    "cst_tokens st' = um_put (token_id t) t (cst_tokens st)"
    using assms(4) by (auto simp: cap_issue_def Let_def crypto_sign_def signable_bytes_wire token_wire_def)
  have l: "length (token_signature t) = 64" using assms(1) by (simp add: t(3) ed25519_laws_def)
  have "token_decode (token_encode t @ r) = Some t"
    using token_decode_wire [of t r] l assms(3) by (simp add: token_encode_wire t(1))
  moreover have "verify_token ed t (kp_public_key (cst_keys st))"
    using assms(1) by (simp add: verify_token_def crypto_verify_def t(3) assms(2) keypair_from_seed_def split_beta ed25519_laws_def)
  moreover have "find_capability xxh p perm now_us st' \<noteq> None"
    if "path_matches p (state_path_new xxh pattern)" "and perms perm \<noteq> 0" "\<not> is_expired t now_us" for p perm now_us
  proof -
    have "t \<in> snd ` set (cst_tokens st')"
      unfolding t(4) using map_of_SomeD [of "um_put (token_id t) t (cst_tokens st)" "token_id t" t]
      by (force simp: update_conv')
    moreover have "grants xxh p perm now_us t" using that t by (simp add: grants_def has_permission_def covers_def)
    ultimately show ?thesis unfolding find_capability_def find_token_None by blast
  qed
  moreover have "t' = t\<lparr>token_signature := token_signature t'\<rparr>"
    if "length (path_pattern t') < 2 ^ 16" "signable_bytes t' = signable_bytes t" for t'
    using token_wire_inj [of t' t "token_signature t'"] that assms(3) by (simp add: signable_bytes_wire t(1))
  ultimately show ?thesis by blast
qed

theorem capability_token_transfer_witness:
  "\<exists>t st'. cap_issue example_ed [0x2F, 0x61] CAP_READ 0 (capability_store_new (keypair_from_seed example_ed [1, 2]) 7) = (t, st') \<and>
     token_decode (token_encode t @ [9]) = Some t \<and> verify_token example_ed t [1, 2] \<and>
     find_capability (\<lambda>_. 0) (state_path_new (\<lambda>_. 0) [0x2F, 0x61]) CAP_READ 5 st' \<noteq> None"
proof -
  let ?st = "capability_store_new (keypair_from_seed example_ed [1, 2]) 7"
  obtain t st' where i: "cap_issue example_ed [0x2F, 0x61] CAP_READ 0 ?st = (t, st')" by fastforce
  have k: "cst_keys ?st = keypair_from_seed example_ed [1, 2]" by (simp add: capability_store_new_def)
  have pk: "kp_public_key (cst_keys ?st) = [1, 2]" by (simp add: capability_store_new_def keypair_from_seed_def example_ed_def)
  have e: "\<not> is_expired t 5" using i by (auto simp: cap_issue_def Let_def is_expired_def)
  have m: "path_matches p p" for p :: state_path by (simp add: path_matches_def match_loop_iff list_all2_same)
  note f = capability_token_transfer [OF example_ed_laws k _ i, of "[9]" "\<lambda>_. 0"]
  have "find_capability (\<lambda>_. 0) (state_path_new (\<lambda>_. 0) [0x2F, 0x61]) CAP_READ 5 st' \<noteq> None"
    using f m e by (simp add: CAP_READ_def)
  then show ?thesis using i f by (simp add: pk)
qed

text \<open>
  C20. Delegation never adds authority over operations or time: however often a capability is delegated, from node
  to node, the last token holds only permissions the first one holds and is expired whenever the first one is; it names the
  last delegating node as its issuer, and verifies under that node's public key if its keys come from a seed.
\<close>

theorem delegation_never_gains:
  assumes "ed25519_laws ed" "delegate_chain ed xxh (ds @ [(st, path, perms, expiry)]) t = Some c"
    and "cst_keys st = keypair_from_seed ed seed"
  shows "(\<forall>p. has_permission c p \<longrightarrow> has_permission t p) \<and> (\<forall>now_us. is_expired t now_us \<longrightarrow> is_expired c now_us) \<and>
    issuer_id c = cst_node_id st \<and> verify_token ed c (kp_public_key (cst_keys st))"
proof -
  obtain m where m: "c = fst (cap_attenuate ed xxh m path perms expiry st)" "token_id c \<noteq> 0"
    using delegate_chain_last [OF assms(2)] by blast
  then have "issuer_id c = cst_node_id st" "token_signature c = ed_sign ed (kp_secret_key (cst_keys st)) (signable_bytes c)"
    by (auto simp: cap_attenuate_def Let_def invalid_token_def crypto_sign_def signable_bytes_wire token_wire_def split: if_splits)
  moreover from this(2) have "verify_token ed c (kp_public_key (cst_keys st))"
    using assms(1) by (simp add: verify_token_def crypto_verify_def assms(3) keypair_from_seed_def split_beta ed25519_laws_def)
  ultimately show ?thesis using delegate_chain_narrows [OF assms(2)] perm_subset_has by blast
qed

theorem delegation_never_gains_witness:
  "\<exists>c. delegate_chain example_ed (\<lambda>_. 0)
      [(capability_store_new (keypair_from_seed example_ed [1]) 7, [0x61], CAP_READ, 20),
       (capability_store_new (keypair_from_seed example_ed [2]) 8, [0x61], CAP_READ, 10)]
      (invalid_token\<lparr>token_id := 3, permissions := CAP_ALL, path_pattern := [0x61], expiry_us := 30\<rparr>) = Some c \<and>
     is_expired c 31 \<and> issuer_id c = 8 \<and> verify_token example_ed c [2]"
proof -
  let ?t = "invalid_token\<lparr>token_id := 3, permissions := CAP_ALL, path_pattern := [0x61], expiry_us := 30\<rparr>"
  let ?st = "capability_store_new (keypair_from_seed example_ed [2]) 8"
  let ?ds = "[(capability_store_new (keypair_from_seed example_ed [1]) 7, [0x61::u8], CAP_READ, 20::u32)]"
  obtain c where c: "delegate_chain example_ed (\<lambda>_. 0) (?ds @ [(?st, [0x61], CAP_READ, 10)]) ?t = Some c"
    by (simp add: cap_attenuate_def invalid_token_def CAP_READ_def CAP_ALL_def capability_store_new_def Let_def)
  have k: "cst_keys ?st = keypair_from_seed example_ed [2]" "cst_node_id ?st = 8" "kp_public_key (keypair_from_seed example_ed [2]) = [2]"
    by (simp_all add: capability_store_new_def keypair_from_seed_def example_ed_def)
  have "is_expired ?t 31" by (simp add: is_expired_def invalid_token_def)
  then have "is_expired c 31 \<and> issuer_id c = 8 \<and> verify_token example_ed c [2]"
    using delegation_never_gains [OF example_ed_laws c k(1)] by (simp add: k)
  then show ?thesis using c by auto
qed

text \<open>
  Delegation does not respect the path. A holder of a capability over any one path may delegate, with the code
  accepting it, the pattern that has a wildcard for every segment of that path; the new token covers every path
  with that number of segments. The check in \<^verbatim>\<open>attenuate\<close> refuses a child that does not match its parent only when
  their numbers of segments differ, although the header asks for a subset of the parent's path.
\<close>

theorem delegation_path_escalation:
  fixes ed :: ed25519 and xxh :: "bytes \<Rightarrow> u32"
  assumes "segs \<noteq> []" "parse_segments (path_pattern parent) = segs" "length (sp_segments p) = length segs"
    and "and perms (not (permissions parent)) = 0" "expiry_us parent = 0 \<or> (expiry \<noteq> 0 \<and> expiry \<le> expiry_us parent)"
    and "cst_next_token_id st \<noteq> 0"
  defines "child \<equiv> fst (cap_attenuate ed xxh parent (join_path (replicate (length segs) [STAR])) perms expiry st)"
  shows "token_id child \<noteq> 0 \<and> permissions child = perms \<and> covers xxh child p"
proof -
  let ?stars = "replicate (length segs) [STAR]"
  have "list_all segment_ok ?stars" by (simp add: list_all_iff segment_ok_def STAR_def SLASH_def)
  then have stars: "parse_segments (join_path ?stars) = ?stars" using assms(1) by (simp add: parse_join)
  have child: "child = fst (cap_attenuate ed xxh parent (join_path ?stars) perms expiry st)" by (simp add: child_def)
  have "token_id child = cst_next_token_id st" "permissions child = perms" "path_pattern child = join_path ?stars"
    using assms(2,4,5) by (auto simp: child cap_attenuate_def Let_def state_path_new_def stars)
  then show ?thesis
    using assms(3,6) by (simp add: covers_def path_matches_def state_path_new_def stars match_stars)
qed

theorem delegation_path_escalation_witness:
  "\<exists>parent child. child = fst (cap_attenuate example_ed (\<lambda>_. 0) parent (join_path (replicate 2 [STAR])) CAP_WRITE 0
        (capability_store_new (keypair_from_seed example_ed [1]) 7)) \<and>
     \<not> covers (\<lambda>_. 0) parent (state_path_new (\<lambda>_. 0) (join_path [[0x75], [0x62]])) \<and>
     covers (\<lambda>_. 0) child (state_path_new (\<lambda>_. 0) (join_path [[0x75], [0x62]]))"
proof -
  let ?parent = "invalid_token\<lparr>token_id := 3, permissions := CAP_WRITE, path_pattern := join_path [[0x75], [0x61]]\<rparr>"
  let ?p = "state_path_new (\<lambda>_. 0) (join_path [[0x75], [0x62]])"
  have segs: "parse_segments (join_path [[0x75], [0x61]]) = [[0x75], [0x61]]" "parse_segments (join_path [[0x75], [0x62]]) = [[0x75], [0x62]]"
    by (simp_all add: parse_join segment_ok_def SLASH_def)
  have "covers (\<lambda>_. 0) (fst (cap_attenuate example_ed (\<lambda>_. 0) ?parent (join_path (replicate (length [[0x75::u8], [0x61]]) [STAR])) CAP_WRITE 0
        (capability_store_new (keypair_from_seed example_ed [1]) 7))) ?p"
    by (rule delegation_path_escalation [THEN conjunct2, THEN conjunct2])
      (simp_all add: segs state_path_new_def invalid_token_def CAP_WRITE_def capability_store_new_def)
  moreover have "\<not> covers (\<lambda>_. 0) ?parent ?p"
    by (simp add: covers_def path_matches_def state_path_new_def segs STAR_def)
  ultimately show ?thesis by (intro exI conjI [OF refl]) (simp_all add: numeral_2_eq_2)
qed

text \<open>
  The access decision. A check finds a stored token exactly when some stored token is unexpired, holds the
  permission and covers the path, and what it returns is such a token; removing expired tokens changes no decision
  at that or a later time; and after a revocation no check returns the revoked token, whatever the calls before.
\<close>

theorem access_decision_spec:
  assumes "store_ok st"
  shows "(find_capability xxh p perm now_us st = None \<longleftrightarrow> (\<forall>t \<in> snd ` set (cst_tokens st). \<not> grants xxh p perm now_us t)) \<and>
    (\<forall>t. find_capability xxh p perm now_us st = Some t \<longrightarrow> um_find (cst_tokens st) (token_id t) = Some t \<and> grants xxh p perm now_us t) \<and>
    (\<forall>earlier \<le> now_us. find_capability xxh p perm now_us (snd (cap_gc earlier st)) = find_capability xxh p perm now_us st) \<and>
    (\<forall>tid t. find_capability xxh p perm now_us (snd (cap_revoke tid st)) = Some t \<longrightarrow> token_id t \<noteq> tid)"
proof -
  have d: "um_ok (cst_tokens st)" and id: "(tid, t) \<in> set (cst_tokens st) \<Longrightarrow> token_id t = tid" for tid t
    using assms by (auto simp: store_ok_def list_all_iff)
  have "um_find (cst_tokens st) (token_id t) = Some t \<and> grants xxh p perm now_us t"
    if "find_capability xxh p perm now_us st = Some t" for t
    using find_token_Some [OF that [unfolded find_capability_def]] id d by (auto simp: map_of_eq_Some_iff)
  moreover have "find_token xxh p perm now_us (filter (\<lambda>(tid, t). \<not> is_expired t earlier) ts) = find_token xxh p perm now_us ts"
    if "earlier \<le> now_us" for earlier ts
    using that by (induction ts) (auto simp: expired_later)
  moreover have "token_id t \<noteq> tid" if "find_capability xxh p perm now_us (snd (cap_revoke tid st)) = Some t" for tid t
    using find_token_Some [OF that [unfolded find_capability_def]] id by (auto simp: cap_revoke_def um_erase_conv_filter)
  ultimately show ?thesis
    by (simp add: find_capability_def find_token_None cap_gc_def gc_tokens_filter)
qed

theorem access_decision_spec_witness:
  "find_capability (\<lambda>_. 0) (state_path_new (\<lambda>_. 0) [0x61]) CAP_READ 5
     (snd (cap_revoke 3 (cap_store (invalid_token\<lparr>token_id := 3, permissions := CAP_ALL, path_pattern := [0x61]\<rparr>)
        (capability_store_new (keypair_from_seed example_ed [1]) 7)))) \<noteq>
   Some (invalid_token\<lparr>token_id := 3, permissions := CAP_ALL, path_pattern := [0x61]\<rparr>)"
proof -
  let ?st = "cap_store (invalid_token\<lparr>token_id := 3, permissions := CAP_ALL, path_pattern := [0x61]\<rparr>)
        (capability_store_new (keypair_from_seed example_ed [1]) 7)"
  have "store_ok ?st" by (simp add: store_ok_def cap_store_def capability_store_new_def)
  from access_decision_spec [OF this, of "\<lambda>_. 0" "state_path_new (\<lambda>_. 0) [0x61]" CAP_READ 5]
  have r: "token_id t \<noteq> 3" if "find_capability (\<lambda>_. 0) (state_path_new (\<lambda>_. 0) [0x61]) CAP_READ 5 (snd (cap_revoke 3 ?st)) = Some t" for t
    using that by blast
  show ?thesis using r by force
qed

text \<open>The operations of a store keep every token under its own id.\<close>

lemma store_ops_ok:
  assumes "store_ok st"
  shows "store_ok (snd (cap_issue ed pattern perms expiry st))"
    "store_ok (snd (cap_attenuate ed xxh parent path perms expiry st))"
    "store_ok (cap_store t st)" "store_ok (snd (cap_revoke tid st))" "store_ok (snd (cap_gc now_us st))"
    "store_ok (register_peer_key nid pk st)" "store_ok (capability_store_new keys nid)"
proof -
  show "store_ok (snd (cap_issue ed pattern perms expiry st))"
    by (rule store_ok_put [OF assms, of _ "fst (cap_issue ed pattern perms expiry st)"]) (simp add: cap_issue_def Let_def)
  obtain t st' where a: "cap_attenuate ed xxh parent path perms expiry st = (t, st')" by fastforce
  show "store_ok (snd (cap_attenuate ed xxh parent path perms expiry st))"
    using attenuate_cases [OF a] assms store_ok_put [OF assms, of st' t] by (auto simp: a)
  show "store_ok (cap_store t st)" for t by (rule store_ok_put [OF assms, of _ t]) (simp add: cap_store_def)
qed (use assms in \<open>auto simp: store_ok_def cap_revoke_def cap_gc_def gc_tokens_filter um_erase_conv_filter
      register_peer_key_def capability_store_new_def list_all_iff distinct_map_filter\<close>)

end
