(* ===== verification/Relay.thy ===== *)
theory Relay
  imports State_Registry Resolution
begin

text \<open>
  The relay (\<^verbatim>\<open>relay/aggregator.h\<close>, \<^verbatim>\<open>aggregator.cpp\<close>, \<^verbatim>\<open>relay/relay_node.h\<close>, \<^verbatim>\<open>relay_node.cpp\<close>): deltas of a path are merged
  into one replica per path and forwarded as its snapshot.

  A callback is a flag that says whether it is set, and the calls of it are part of the result, in order: the
  aggregator's emissions, which the relay node puts in its queue, and the messages the node forwards. A call that
  reads the steady clock several times gets its readings as a function of the number of readings taken before.

  The locale \<open>relayed_crdt\<close> says what the relay needs of a CRDT; its lemmas show that what a relay forwards is worth
  what it received, and they are used through the interpretations for counters and registers.
\<close>

section \<open>Aggregator\<close>

record aggregator_config =
  ac_max_batch_size :: u32
  ac_max_batch_age_us :: u64

definition aggregator_config_default :: aggregator_config where
  "aggregator_config_default = \<lparr>ac_max_batch_size = 10, ac_max_batch_age_us = 50000\<rparr>"

record bucket =
  bk_crdt_type :: crdt_type
  bk_crdt :: crdt
  bk_delta_count :: u32
  bk_first_ingest :: nat

record aggregator =
  ag_config :: aggregator_config
  ag_buckets :: "(u32, bucket) umap"
  ag_emit_cb :: bool
  ag_total_ingested :: u64
  ag_total_emitted :: u64

type_synonym relay_msg = "u32 \<times> crdt_type \<times> bytes"

definition aggregator_new :: "aggregator_config \<Rightarrow> aggregator" where
  "aggregator_new config =
    \<lparr>ag_config = config, ag_buckets = [], ag_emit_cb = False, ag_total_ingested = 0, ag_total_emitted = 0\<rparr>"

definition set_emit_callback :: "aggregator \<Rightarrow> aggregator" where
  "set_emit_callback a = a\<lparr>ag_emit_cb := True\<rparr>"

definition aggregator_set_config :: "aggregator_config \<Rightarrow> aggregator \<Rightarrow> aggregator" where
  "aggregator_set_config cfg a = a\<lparr>ag_config := cfg\<rparr>"

definition relay_create_crdt :: "crdt_type \<Rightarrow> crdt option" where
  "relay_create_crdt type =
    (case type of
       CRDT_LWW_REGISTER \<Rightarrow> Some (Crdt_Lww (lww_new 0))
     | CRDT_G_COUNTER \<Rightarrow> Some (Crdt_GCounter (gc_new 0))
     | CRDT_PN_COUNTER \<Rightarrow> Some (Crdt_PnCounter (pn_new 0))
     | CRDT_OR_SET \<Rightarrow> Some (Crdt_OrSet (or_new 0))
     | _ \<Rightarrow> None)"

definition flush_bucket :: "u32 \<Rightarrow> bucket \<Rightarrow> aggregator \<Rightarrow> aggregator \<times> relay_msg list" where
  "flush_bucket path_hash b a =
    (if bk_delta_count b = 0 then (a, [])
     else
       let snapshot = crdt_snapshot (bk_crdt b)
       in if snapshot \<noteq> [] \<and> ag_emit_cb a
          then (a\<lparr>ag_total_emitted := ag_total_emitted a + 1\<rparr>, [(path_hash, bk_crdt_type b, snapshot)])
          else (a, []))"

text \<open>The tail of \<^verbatim>\<open>ingest\<close>: the bucket just changed is flushed when it is full.\<close>

definition put_bucket :: "u32 \<Rightarrow> bucket \<Rightarrow> aggregator \<Rightarrow> aggregator \<times> relay_msg list" where
  "put_bucket path_hash b a =
    (let a1 = a\<lparr>ag_buckets := um_put path_hash b (ag_buckets a)\<rparr>
     in if ac_max_batch_size (ag_config a) \<le> bk_delta_count b
        then let (a2, es) = flush_bucket path_hash b a1
             in (a2\<lparr>ag_buckets := um_erase path_hash (ag_buckets a2)\<rparr>, es)
        else (a1, []))"

definition ingest :: "nat \<Rightarrow> u32 \<Rightarrow> crdt_type \<Rightarrow> bytes \<Rightarrow> aggregator \<Rightarrow> aggregator \<times> relay_msg list" where
  "ingest now path_hash crdt_type data a0 =
    (let a = a0\<lparr>ag_total_ingested := ag_total_ingested a0 + 1\<rparr>
     in case um_find (ag_buckets a) path_hash of
          None \<Rightarrow>
            (case relay_create_crdt crdt_type of
               None \<Rightarrow> (a, [])
             | Some c \<Rightarrow>
                 put_bucket path_hash
                   \<lparr>bk_crdt_type = crdt_type, bk_crdt = fst (crdt_merge data c), bk_delta_count = 1,
                    bk_first_ingest = now\<rparr> a)
        | Some b \<Rightarrow>
            put_bucket path_hash
              (b\<lparr>bk_crdt := fst (crdt_merge data (bk_crdt b)), bk_delta_count := bk_delta_count b + 1\<rparr>) a)"

fun flush_loop :: "(u32 \<times> bucket) list \<Rightarrow> aggregator \<Rightarrow> nat \<Rightarrow> aggregator \<times> relay_msg list \<times> nat" where
  "flush_loop [] a cnt = (a, [], cnt)"
| "flush_loop ((h, b) # bs) a cnt =
    (if bk_delta_count b > 0
     then let (a1, es) = flush_bucket h b a; (a2, es', cnt') = flush_loop bs a1 (cnt + 1) in (a2, es @ es', cnt')
     else flush_loop bs a cnt)"

definition aggregator_flush :: "aggregator \<Rightarrow> aggregator \<times> relay_msg list \<times> nat" where
  "aggregator_flush a =
    (let (a1, es, cnt) = flush_loop (ag_buckets a) a 0 in (a1\<lparr>ag_buckets := []\<rparr>, es, cnt))"

definition bucket_ready :: "nat \<Rightarrow> aggregator_config \<Rightarrow> bucket \<Rightarrow> bool" where
  "bucket_ready now cfg b =
    (if ac_max_batch_size cfg \<le> bk_delta_count b then True
     else if ac_max_batch_age_us cfg > 0
     then ac_max_batch_age_us cfg \<le> (of_nat ((now - bk_first_ingest b) div 1000) :: u64)
     else False)"

definition ready_hashes :: "nat \<Rightarrow> aggregator \<Rightarrow> u32 list" where
  "ready_hashes now a = map fst (filter (\<lambda>(h, b). bucket_ready now (ag_config a) b) (ag_buckets a))"

fun flush_hashes :: "u32 list \<Rightarrow> aggregator \<Rightarrow> aggregator \<times> relay_msg list" where
  "flush_hashes [] a = (a, [])"
| "flush_hashes (h # hs) a =
    (case um_find (ag_buckets a) h of
       None \<Rightarrow> flush_hashes hs a
     | Some b \<Rightarrow>
         let (a1, es) = flush_bucket h b a;
             (a2, es') = flush_hashes hs (a1\<lparr>ag_buckets := um_erase h (ag_buckets a1)\<rparr>)
         in (a2, es @ es'))"

definition flush_if_ready :: "nat \<Rightarrow> aggregator \<Rightarrow> aggregator \<times> relay_msg list \<times> nat" where
  "flush_if_ready now a =
    (let to_flush = ready_hashes now a; (a1, es) = flush_hashes to_flush a in (a1, es, length to_flush))"

definition aggregator_reset :: "aggregator \<Rightarrow> aggregator" where
  "aggregator_reset a = a\<lparr>ag_buckets := [], ag_total_ingested := 0, ag_total_emitted := 0\<rparr>"

section \<open>Relay node\<close>

record relay_config =
  rcf_aggregator :: aggregator_config
  rcf_forward_tier :: resolution_tier
  rcf_resolution :: resolution_config
  rcf_store_local :: bool

record relay_node =
  rl_node_id :: u16
  rl_config :: relay_config
  rl_aggregator :: aggregator
  rl_filter :: delta_filter
  rl_forward_cb :: bool
  rl_forward_queue :: "relay_msg list"
  rl_downstream_nodes :: "u16 list"
  rl_last_source :: "(u32, u16) umap"
  rl_deltas_received :: u64
  rl_deltas_forwarded :: u64
  rl_deltas_filtered :: u64
  rl_loops_prevented :: u64

definition relay_new :: "u16 \<Rightarrow> relay_config \<Rightarrow> relay_node" where
  "relay_new node_id config =
    \<lparr>rl_node_id = node_id, rl_config = config,
     rl_aggregator = set_emit_callback (aggregator_new (rcf_aggregator config)),
     rl_filter = delta_filter_new (rcf_forward_tier config) (rcf_resolution config),
     rl_forward_cb = False, rl_forward_queue = [], rl_downstream_nodes = [], rl_last_source = [],
     rl_deltas_received = 0, rl_deltas_forwarded = 0, rl_deltas_filtered = 0, rl_loops_prevented = 0\<rparr>"

definition set_forward_callback :: "relay_node \<Rightarrow> relay_node" where
  "set_forward_callback r = r\<lparr>rl_forward_cb := True\<rparr>"

definition relay_set_config :: "relay_config \<Rightarrow> relay_node \<Rightarrow> relay_node" where
  "relay_set_config cfg r =
    r\<lparr>rl_config := cfg,
      rl_aggregator := aggregator_set_config (rcf_aggregator cfg) (rl_aggregator r),
      rl_filter := set_config (rcf_resolution cfg) (set_tier (rcf_forward_tier cfg) (rl_filter r))\<rparr>"

definition on_aggregator_emit :: "nat \<Rightarrow> relay_msg \<Rightarrow> relay_node \<Rightarrow> relay_node" where
  "on_aggregator_emit now msg r =
    (let (path_hash, type, data) = msg;
         (flt, pass) =
           (if rcf_forward_tier (rl_config r) \<noteq> TIER_FULL then should_forward now path_hash data (rl_filter r)
            else (rl_filter r, True));
         r1 = r\<lparr>rl_filter := flt\<rparr>
     in if pass then r1\<lparr>rl_forward_queue := rl_forward_queue r1 @ [msg]\<rparr>
        else r1\<lparr>rl_deltas_filtered := rl_deltas_filtered r1 + 1\<rparr>)"

fun emit_all :: "(nat \<Rightarrow> nat) \<Rightarrow> nat \<Rightarrow> relay_msg list \<Rightarrow> relay_node \<Rightarrow> relay_node" where
  "emit_all clock i [] r = r"
| "emit_all clock i (m # ms) r = emit_all clock (i + 1) ms (on_aggregator_emit (clock i) m r)"

definition receive_delta ::
    "(nat \<Rightarrow> nat) \<Rightarrow> u32 \<Rightarrow> crdt_type \<Rightarrow> bytes \<Rightarrow> u16 \<Rightarrow> relay_node \<Rightarrow> relay_node" where
  "receive_delta clock path_hash type data source_node r =
    (let r1 = r\<lparr>rl_deltas_received := rl_deltas_received r + 1,
                rl_last_source := um_put path_hash source_node (rl_last_source r)\<rparr>;
         (a, es) = ingest (clock 0) path_hash type data (rl_aggregator r1)
     in emit_all clock 1 es (r1\<lparr>rl_aggregator := a\<rparr>))"

text \<open>The loop over the queue at the end of \<^verbatim>\<open>tick\<close> and \<^verbatim>\<open>flush\<close>.\<close>

definition forward_pending :: "relay_node \<Rightarrow> relay_node \<times> relay_msg list" where
  "forward_pending r =
    (let out = (if rl_forward_cb r then rl_forward_queue r else [])
     in (r\<lparr>rl_deltas_forwarded := rl_deltas_forwarded r + of_nat (length out), rl_forward_queue := []\<rparr>, out))"

definition relay_tick :: "(nat \<Rightarrow> nat) \<Rightarrow> relay_node \<Rightarrow> relay_node \<times> relay_msg list" where
  "relay_tick clock r =
    (let (a, es, cnt) = flush_if_ready (clock 0) (rl_aggregator r)
     in forward_pending (emit_all clock 1 es (r\<lparr>rl_aggregator := a\<rparr>)))"

definition relay_flush :: "(nat \<Rightarrow> nat) \<Rightarrow> relay_node \<Rightarrow> relay_node \<times> relay_msg list \<times> nat" where
  "relay_flush clock r =
    (let (a, es, flushed) = aggregator_flush (rl_aggregator r);
         (r1, out) = forward_pending (emit_all clock 0 es (r\<lparr>rl_aggregator := a\<rparr>))
     in (r1, out, flushed))"

definition add_downstream :: "u16 \<Rightarrow> relay_node \<Rightarrow> relay_node" where
  "add_downstream node_id r = r\<lparr>rl_downstream_nodes := List.insert node_id (rl_downstream_nodes r)\<rparr>"

definition remove_downstream :: "u16 \<Rightarrow> relay_node \<Rightarrow> relay_node" where
  "remove_downstream node_id r = r\<lparr>rl_downstream_nodes := removeAll node_id (rl_downstream_nodes r)\<rparr>"

definition is_downstream :: "u16 \<Rightarrow> relay_node \<Rightarrow> bool" where
  "is_downstream node_id r = (node_id \<in> set (rl_downstream_nodes r))"

text \<open>The calls a relay receives and what it forwards.\<close>

datatype relay_op =
    Receive "nat \<Rightarrow> nat" u32 crdt_type bytes u16
  | Relay_Tick "nat \<Rightarrow> nat"
  | Relay_Flush "nat \<Rightarrow> nat"
  | Add_Downstream u16
  | Remove_Downstream u16

fun relay_step :: "relay_op \<Rightarrow> relay_node \<Rightarrow> relay_node \<times> relay_msg list" where
  "relay_step (Receive clock h t d src) r = (receive_delta clock h t d src r, [])"
| "relay_step (Relay_Tick clock) r = relay_tick clock r"
| "relay_step (Relay_Flush clock) r = (let (r', out, n) = relay_flush clock r in (r', out))"
| "relay_step (Add_Downstream n) r = (add_downstream n r, [])"
| "relay_step (Remove_Downstream n) r = (remove_downstream n r, [])"

fun relay_run :: "relay_op list \<Rightarrow> relay_node \<Rightarrow> relay_node \<times> relay_msg list" where
  "relay_run [] r = (r, [])"
| "relay_run (op # ops) r =
    (let (r1, out1) = relay_step op r; (r2, out2) = relay_run ops r1 in (r2, out1 @ out2))"

definition path_msgs :: "u32 \<Rightarrow> relay_msg list \<Rightarrow> bytes list" where
  "path_msgs h msgs = map (\<lambda>(p, t, d). d) (filter (\<lambda>(p, t, d). p = h) msgs)"

fun received_msgs :: "u32 \<Rightarrow> relay_op list \<Rightarrow> bytes list" where
  "received_msgs h [] = []"
| "received_msgs h (Receive clock p t d src # ops) = (if p = h then d # received_msgs h ops else received_msgs h ops)"
| "received_msgs h (op # ops) = received_msgs h ops"

fun op_types :: "u32 \<Rightarrow> crdt_type \<Rightarrow> relay_op \<Rightarrow> bool" where
  "op_types h ctype (Receive clock p t d src) = (p = h \<longrightarrow> t = ctype)"
| "op_types h ctype op = True"

section \<open>What the aggregator emits for a path\<close>

definition bucket_msgs :: "bucket \<Rightarrow> bytes list" where
  "bucket_msgs b = (if bk_delta_count b = 0 \<or> crdt_snapshot (bk_crdt b) = [] then [] else [crdt_snapshot (bk_crdt b)])"

lemma path_msgs_append [simp]: "path_msgs h (xs @ ys) = path_msgs h xs @ path_msgs h ys"
  by (simp add: path_msgs_def)

lemma path_msgs_Nil [simp]: "path_msgs h [] = []"
  by (simp add: path_msgs_def)

lemma flush_bucket_frame [simp]:
  "ag_buckets (fst (flush_bucket h b a)) = ag_buckets a" "ag_config (fst (flush_bucket h b a)) = ag_config a"
  "ag_emit_cb (fst (flush_bucket h b a)) = ag_emit_cb a"
  by (auto simp: flush_bucket_def Let_def)

lemma flush_bucket_msgs:
  "ag_emit_cb a \<Longrightarrow> path_msgs p (snd (flush_bucket h b a)) = (if p = h then bucket_msgs b else [])"
  by (auto simp: flush_bucket_def Let_def bucket_msgs_def path_msgs_def)

lemma flush_loop_frame [simp]:
  "ag_config (fst (flush_loop bs a n)) = ag_config a" "ag_emit_cb (fst (flush_loop bs a n)) = ag_emit_cb a"
  by (induction bs arbitrary: a n) (simp_all add: split_paired_all split_beta Let_def)

lemma flush_loop_msgs:
  "um_ok bs \<Longrightarrow> ag_emit_cb a \<Longrightarrow>
   path_msgs p (fst (snd (flush_loop bs a n))) = (case um_find bs p of None \<Rightarrow> [] | Some b \<Rightarrow> bucket_msgs b)"
proof (induction bs arbitrary: a n)
  case (Cons e bs)
  obtain h b where e: "e = (h, b)" by (cases e)
  have none: "um_find bs h = None" using Cons.prems(1) by (simp add: map_of_eq_None_iff e)
  show ?case
  proof (cases "bk_delta_count b > 0")
    case True
    then show ?thesis using Cons none flush_bucket_msgs [of a p h b] by (simp add: e split_beta Let_def)
  next
    case False
    then have "bk_delta_count b = 0" by (simp add: word_gt_0)
    then show ?thesis using Cons none by (auto simp: e bucket_msgs_def)
  qed
qed simp

lemma flush_hashes_frame [simp]:
  "ag_config (fst (flush_hashes hs a)) = ag_config a" "ag_emit_cb (fst (flush_hashes hs a)) = ag_emit_cb a"
  by (induction hs arbitrary: a) (auto simp: split_beta Let_def split: option.split)

lemma flush_hashes_buckets:
  "ag_buckets (fst (flush_hashes hs a)) = filter (\<lambda>(h, b). h \<notin> set hs) (ag_buckets a)"
proof (induction hs arbitrary: a)
  case (Cons h hs)
  show ?case
  proof (cases "um_find (ag_buckets a) h")
    case None
    then have "h \<notin> fst ` set (ag_buckets a)" by (simp add: map_of_eq_None_iff)
    then show ?thesis using None Cons by (auto simp: split_beta intro!: filter_cong)
  next
    case (Some b)
    then show ?thesis using Cons
      by (auto simp: split_beta Let_def um_erase_conv_filter conj_commute intro!: filter_cong)
  qed
qed simp

lemma flush_hashes_msgs:
  "ag_emit_cb a \<Longrightarrow>
   path_msgs p (snd (flush_hashes hs a)) =
     (case um_find (ag_buckets a) p of None \<Rightarrow> [] | Some b \<Rightarrow> if p \<in> set hs then bucket_msgs b else [])"
proof (induction hs arbitrary: a)
  case (Cons h hs)
  show ?case
  proof (cases "um_find (ag_buckets a) h")
    case None
    then show ?thesis using Cons by (auto split: option.split)
  next
    case (Some b)
    let ?a = "fst (flush_bucket h b a)\<lparr>ag_buckets := um_erase h (ag_buckets a)\<rparr>"
    have "path_msgs p (snd (flush_hashes hs ?a)) =
        (case um_find (um_erase h (ag_buckets a)) p of None \<Rightarrow> [] | Some b \<Rightarrow> if p \<in> set hs then bucket_msgs b else [])"
      using Cons.IH [of ?a] Cons.prems by simp
    then show ?thesis using Some Cons.prems
      by (auto simp: split_beta Let_def flush_bucket_msgs delete_conv' split: option.split)
  qed
qed (simp split: option.split)

lemma um_find_filter_keys:
  "um_find (filter (\<lambda>(h, b). P h) m) h = (if P h then um_find m h else None)"
  by (induction m) auto

lemma emit_all_full:
  "rcf_forward_tier (rl_config r) = TIER_FULL \<Longrightarrow>
   emit_all clock i es r = r\<lparr>rl_forward_queue := rl_forward_queue r @ es\<rparr>"
proof (induction es arbitrary: i r)
  case (Cons m es)
  then show ?case by (cases m) (simp add: on_aggregator_emit_def Let_def)
qed simp

section \<open>A relay is transparent\<close>

locale relayed_crdt = join_crdt apply_msg absf eff join ok good snap small
  for apply_msg :: "bytes \<Rightarrow> 's \<Rightarrow> 's"
    and absf :: "'s \<Rightarrow> 'a"
    and eff :: "bytes \<Rightarrow> 'a"
    and join :: "'a \<Rightarrow> 'a \<Rightarrow> 'a"
    and ok :: "'s \<Rightarrow> bool"
    and good :: "bytes \<Rightarrow> bool"
    and snap :: "'s \<Rightarrow> bytes"
    and small :: "'s \<Rightarrow> bool" +
  fixes wrap :: "'s \<Rightarrow> crdt"
    and ctype :: crdt_type
    and empty_crdt :: 's
  assumes wrap_merge: "fst (crdt_merge m (wrap s)) = wrap (apply_msg m s)"
    and wrap_snapshot: "crdt_snapshot (wrap s) = snap s"
    and snap_nonempty: "snap s \<noteq> []"
    and wrap_create: "relay_create_crdt ctype = Some (wrap empty_crdt)"
    and ok_empty: "ok empty_crdt"
    and join_empty: "join (absf empty_crdt) a = a"
begin

text \<open>The worth of a list of messages, and of what a relay still holds for a path.\<close>

definition effs :: "bytes list \<Rightarrow> 'a" where
  "effs ms = fold (\<lambda>m a. join a (eff m)) ms (absf empty_crdt)"

definition merged :: "bytes list \<Rightarrow> 's" where
  "merged ms = fold apply_msg ms empty_crdt"

definition bucket_val :: "u32 \<Rightarrow> aggregator \<Rightarrow> 'a" where
  "bucket_val h a = (case um_find (ag_buckets a) h of None \<Rightarrow> absf empty_crdt | Some b \<Rightarrow> eff (crdt_snapshot (bk_crdt b)))"

definition holds :: "u32 \<Rightarrow> relay_node \<Rightarrow> 'a" where
  "holds h r = join (effs (path_msgs h (rl_forward_queue r))) (bucket_val h (rl_aggregator r))"

definition bounded :: "bytes set \<Rightarrow> bool" where
  "bounded M \<longleftrightarrow> (\<forall>m \<in> M. good m) \<and> (\<forall>ms. set ms \<subseteq> M \<longrightarrow> small (merged ms))"

definition bucket_inv :: "bytes set \<Rightarrow> bucket \<Rightarrow> bool" where
  "bucket_inv M b \<longleftrightarrow> (\<exists>ms. set ms \<subseteq> M \<and> bk_crdt b = wrap (merged ms)) \<and> bk_delta_count b \<noteq> 0"

definition agg_inv :: "u32 \<Rightarrow> bytes set \<Rightarrow> aggregator \<Rightarrow> bool" where
  "agg_inv h M a \<longleftrightarrow> um_ok (ag_buckets a) \<and> ag_emit_cb a \<and>
     (\<forall>b. um_find (ag_buckets a) h = Some b \<longrightarrow> bucket_inv M b \<and> bk_delta_count b < ac_max_batch_size (ag_config a))"

definition relay_inv :: "u32 \<Rightarrow> bytes set \<Rightarrow> relay_node \<Rightarrow> bool" where
  "relay_inv h M r \<longleftrightarrow>
     agg_inv h M (rl_aggregator r) \<and> rl_forward_cb r \<and> rcf_forward_tier (rl_config r) = TIER_FULL \<and>
     list_all good (path_msgs h (rl_forward_queue r))"

lemma join_empty_right: "join a (absf empty_crdt) = a"
  by (metis join_commute join_empty)

lemma fold_join: "fold (\<lambda>m a. join a (eff m)) ms x = join x (effs ms)"
proof (induction ms arbitrary: x)
  case Nil
  show ?case by (simp add: effs_def join_empty_right)
next
  case (Cons m ms)
  have "effs (m # ms) = join (eff m) (effs ms)" using Cons [of "eff m"] by (simp add: effs_def join_empty)
  then show ?case by (simp add: Cons join_assoc)
qed

lemma effs_append: "effs (xs @ ys) = join (effs xs) (effs ys)"
  using fold_join [of ys "effs xs"] by (simp add: effs_def)

lemma effs_Nil: "effs [] = absf empty_crdt"
  by (simp add: effs_def)

lemma effs_single: "effs [m] = eff m"
  by (simp add: effs_def join_empty)

lemmas effs_simps = effs_append effs_Nil effs_single join_empty join_empty_right

lemma eff_bucket:
  assumes "bounded M" "set ms \<subseteq> M"
  shows "eff (snap (merged ms)) = effs ms"
proof -
  have g: "\<forall>m \<in> set ms. good m" using assms by (auto simp: bounded_def)
  have "ok (merged ms)" unfolding merged_def by (rule ok_fold [OF ok_empty g])
  moreover have "small (merged ms)" using assms by (simp add: bounded_def)
  ultimately have "eff (snap (merged ms)) = absf (merged ms)" using eff_snap by blast
  also have "\<dots> = effs ms" by (simp add: merged_def absf_fold [OF ok_empty g] effs_def)
  finally show ?thesis .
qed

lemma bucket_msgs_inv: "bucket_inv M b \<Longrightarrow> bucket_msgs b = [crdt_snapshot (bk_crdt b)]"
  by (auto simp: bucket_inv_def bucket_msgs_def wrap_snapshot snap_nonempty)

lemma bucket_inv_merge:
  assumes "bounded M" "m \<in> M" "set ms \<subseteq> M" "c = wrap (merged ms)"
  shows "\<exists>ns. set ns \<subseteq> M \<and> fst (crdt_merge m c) = wrap (merged ns)"
    "eff (crdt_snapshot (fst (crdt_merge m c))) = join (eff (crdt_snapshot c)) (eff m)"
proof -
  have c: "fst (crdt_merge m c) = wrap (merged (ms @ [m]))" by (simp add: assms(4) wrap_merge merged_def)
  have s: "set (ms @ [m]) \<subseteq> M" using assms by simp
  show "\<exists>ns. set ns \<subseteq> M \<and> fst (crdt_merge m c) = wrap (merged ns)" using c s by blast
  show "eff (crdt_snapshot (fst (crdt_merge m c))) = join (eff (crdt_snapshot c)) (eff m)"
    unfolding c wrap_snapshot eff_bucket [OF assms(1) s] unfolding assms(4) wrap_snapshot eff_bucket [OF assms(1,3)]
    by (simp only: effs_simps)
qed

lemma put_bucket_here:
  assumes "agg_inv h M a" "bucket_inv M b"
  shows "agg_inv h M (fst (put_bucket h b a))"
    "join (effs (path_msgs h (snd (put_bucket h b a)))) (bucket_val h (fst (put_bucket h b a))) = eff (crdt_snapshot (bk_crdt b))"
proof -
  have cb: "ag_emit_cb a" "um_ok (ag_buckets a)" using assms(1) by (auto simp: agg_inv_def)
  show "agg_inv h M (fst (put_bucket h b a))"
    using cb assms(2)
    by (auto simp: put_bucket_def Let_def split_beta agg_inv_def delete_conv' update_conv' simp del: map_of_eq_Some_iff)
  show "join (effs (path_msgs h (snd (put_bucket h b a)))) (bucket_val h (fst (put_bucket h b a))) = eff (crdt_snapshot (bk_crdt b))"
    using cb bucket_msgs_inv [OF assms(2)]
    by (simp add: put_bucket_def Let_def split_beta flush_bucket_msgs bucket_val_def delete_conv' update_conv' effs_simps)
qed

lemma put_bucket_other:
  assumes "agg_inv h M a" "p \<noteq> h"
  shows "agg_inv h M (fst (put_bucket p b a))" "path_msgs h (snd (put_bucket p b a)) = []"
    "bucket_val h (fst (put_bucket p b a)) = bucket_val h a"
  using assms
  by (auto simp: put_bucket_def Let_def split_beta agg_inv_def delete_conv' update_conv' flush_bucket_msgs bucket_val_def
      simp del: map_of_eq_Some_iff)

lemma agg_inv_count:
  "agg_inv h M (a\<lparr>ag_total_ingested := n\<rparr>) = agg_inv h M a" "bucket_val h (a\<lparr>ag_total_ingested := n\<rparr>) = bucket_val h a"
  by (simp_all add: agg_inv_def bucket_val_def)

lemma ingest_other:
  assumes "agg_inv h M a" "p \<noteq> h"
  shows "agg_inv h M (fst (ingest now p t d a))" "path_msgs h (snd (ingest now p t d a)) = []"
    "bucket_val h (fst (ingest now p t d a)) = bucket_val h a"
  using put_bucket_other [of h M "a\<lparr>ag_total_ingested := ag_total_ingested a + 1\<rparr>" p] assms
  by (simp_all add: ingest_def Let_def agg_inv_count split: option.split)

lemma count_nonzero: "(b :: u32) < c \<Longrightarrow> b + 1 \<noteq> 0"
  by (metis eq_neg_iff_add_eq_0 max_word_max not_less)

lemma bucket_good:
  assumes "bounded M" "bucket_inv M b"
  shows "list_all good (bucket_msgs b)"
proof -
  obtain ms where ms: "set ms \<subseteq> M" "bk_crdt b = wrap (merged ms)" using assms(2) by (auto simp: bucket_inv_def)
  then have "ok (merged ms)" "small (merged ms)"
    using assms(1) ok_fold [OF ok_empty, of ms] by (auto simp: bounded_def merged_def)
  then have "good (snap (merged ms))" using eff_snap by blast
  then show ?thesis by (simp add: bucket_msgs_inv [OF assms(2)] ms(2) wrap_snapshot)
qed

lemma put_bucket_good:
  "bounded M \<Longrightarrow> agg_inv h M a \<Longrightarrow> bucket_inv M b \<Longrightarrow> list_all good (path_msgs h (snd (put_bucket h b a)))"
  using bucket_good by (auto simp: put_bucket_def Let_def split_beta flush_bucket_msgs agg_inv_def)

lemma flushed_inv:
  assumes "bounded M" "agg_inv h M a"
  shows "agg_inv h M (fst (flush_hashes hs a))" "list_all good (path_msgs h (snd (flush_hashes hs a)))"
    "join (effs (path_msgs h (snd (flush_hashes hs a)))) (bucket_val h (fst (flush_hashes hs a))) = bucket_val h a"
proof -
  have cb: "ag_emit_cb a" "um_ok (ag_buckets a)" using assms(2) by (auto simp: agg_inv_def)
  have b: "bucket_inv M b" if "um_find (ag_buckets a) h = Some b" for b using that assms(2) by (auto simp: agg_inv_def)
  show "agg_inv h M (fst (flush_hashes hs a))"
    using assms(2) by (auto simp: agg_inv_def flush_hashes_buckets um_find_filter_keys distinct_map_filter
        simp del: map_of_eq_Some_iff split: if_splits)
  show "list_all good (path_msgs h (snd (flush_hashes hs a)))"
    using b bucket_good [OF assms(1)] by (auto simp: flush_hashes_msgs [OF cb(1)] split: option.split)
  show "join (effs (path_msgs h (snd (flush_hashes hs a)))) (bucket_val h (fst (flush_hashes hs a))) = bucket_val h a"
    using b by (auto simp: flush_hashes_msgs [OF cb(1)] bucket_val_def flush_hashes_buckets um_find_filter_keys
        bucket_msgs_inv effs_simps simp del: map_of_eq_Some_iff split: option.split)
qed

lemma emptied_inv:
  assumes "bounded M" "agg_inv h M a"
  shows "agg_inv h M (fst (aggregator_flush a))" "list_all good (path_msgs h (fst (snd (aggregator_flush a))))"
    "effs (path_msgs h (fst (snd (aggregator_flush a)))) = bucket_val h a" "ag_buckets (fst (aggregator_flush a)) = []"
proof -
  have cb: "ag_emit_cb a" "um_ok (ag_buckets a)" using assms(2) by (auto simp: agg_inv_def)
  have b: "bucket_inv M b" if "um_find (ag_buckets a) h = Some b" for b using that assms(2) by (auto simp: agg_inv_def)
  show "agg_inv h M (fst (aggregator_flush a))" "ag_buckets (fst (aggregator_flush a)) = []"
    using cb by (simp_all add: aggregator_flush_def split_beta agg_inv_def)
  show "list_all good (path_msgs h (fst (snd (aggregator_flush a))))"
    using b bucket_good [OF assms(1)]
    by (auto simp: aggregator_flush_def split_beta flush_loop_msgs [OF cb(2,1)] split: option.split)
  show "effs (path_msgs h (fst (snd (aggregator_flush a)))) = bucket_val h a"
    using b by (auto simp: aggregator_flush_def split_beta flush_loop_msgs [OF cb(2,1)] bucket_val_def
        bucket_msgs_inv effs_simps simp del: map_of_eq_Some_iff split: option.split)
qed

lemma ingest_bucket:
  assumes "bounded M" "agg_inv h M a" "d \<in> M"
  shows "\<exists>b. ingest now h ctype d a = put_bucket h b (a\<lparr>ag_total_ingested := ag_total_ingested a + 1\<rparr>) \<and> bucket_inv M b \<and>
      eff (crdt_snapshot (bk_crdt b)) = join (bucket_val h a) (eff d)"
proof (cases "um_find (ag_buckets a) h")
  case None
  let ?b = "\<lparr>bk_crdt_type = ctype, bk_crdt = fst (crdt_merge d (wrap empty_crdt)), bk_delta_count = 1, bk_first_ingest = now\<rparr>"
  have e: "wrap empty_crdt = wrap (merged [])" by (simp add: merged_def)
  have v: "eff (crdt_snapshot (wrap empty_crdt)) = absf empty_crdt"
    using eff_bucket [OF assms(1), of "[]"] by (simp add: wrap_snapshot merged_def effs_Nil)
  note m = bucket_inv_merge [OF assms(1,3) _ e]
  have "bucket_inv M ?b" "eff (crdt_snapshot (bk_crdt ?b)) = join (bucket_val h a) (eff d)"
    using m by (simp_all add: bucket_inv_def bucket_val_def None v)
  then show ?thesis using None by (auto simp: ingest_def Let_def wrap_create)
next
  case (Some b)
  let ?b = "b\<lparr>bk_crdt := fst (crdt_merge d (bk_crdt b)), bk_delta_count := bk_delta_count b + 1\<rparr>"
  obtain ms where ms: "set ms \<subseteq> M" "bk_crdt b = wrap (merged ms)" and c: "bk_delta_count b < ac_max_batch_size (ag_config a)"
    using assms(2) Some by (auto simp: agg_inv_def bucket_inv_def)
  have "bucket_inv M ?b" "eff (crdt_snapshot (bk_crdt ?b)) = join (bucket_val h a) (eff d)"
    using bucket_inv_merge [OF assms(1,3) ms] count_nonzero [OF c] by (simp_all add: bucket_inv_def bucket_val_def Some)
  then show ?thesis using Some by (auto simp: ingest_def Let_def)
qed

lemma ingest_here:
  assumes "bounded M" "agg_inv h M a" "d \<in> M"
  shows "agg_inv h M (fst (ingest now h ctype d a))" "list_all good (path_msgs h (snd (ingest now h ctype d a)))"
    "join (effs (path_msgs h (snd (ingest now h ctype d a)))) (bucket_val h (fst (ingest now h ctype d a))) =
      join (bucket_val h a) (eff d)"
proof -
  let ?a = "a\<lparr>ag_total_ingested := ag_total_ingested a + 1\<rparr>"
  have a: "agg_inv h M ?a" using assms(2) by (simp add: agg_inv_count)
  obtain b where b: "ingest now h ctype d a = put_bucket h b ?a" "bucket_inv M b"
    and v: "eff (crdt_snapshot (bk_crdt b)) = join (bucket_val h a) (eff d)" using ingest_bucket [OF assms] by blast
  show "agg_inv h M (fst (ingest now h ctype d a))" unfolding b(1) by (rule put_bucket_here(1) [OF a b(2)])
  show "list_all good (path_msgs h (snd (ingest now h ctype d a)))" unfolding b(1) by (rule put_bucket_good [OF assms(1) a b(2)])
  show "join (effs (path_msgs h (snd (ingest now h ctype d a)))) (bucket_val h (fst (ingest now h ctype d a))) =
      join (bucket_val h a) (eff d)"
    unfolding b(1) put_bucket_here(2) [OF a b(2)] by (rule v)
qed

lemma receive_step:
  assumes "bounded M" "relay_inv h M r" "p = h \<longrightarrow> t = ctype \<and> d \<in> M"
  shows "relay_inv h M (receive_delta clock p t d src r)"
    "holds h (receive_delta clock p t d src r) = join (holds h r) (effs (if p = h then [d] else []))"
proof -
  let ?i = "ingest (clock 0) p t d (rl_aggregator r)"
  have inv: "agg_inv h M (rl_aggregator r)" "rcf_forward_tier (rl_config r) = TIER_FULL" using assms(2) by (auto simp: relay_inv_def)
  have i: "agg_inv h M (fst ?i) \<and> list_all good (path_msgs h (snd ?i)) \<and>
      join (effs (path_msgs h (snd ?i))) (bucket_val h (fst ?i)) = join (bucket_val h (rl_aggregator r)) (effs (if p = h then [d] else []))"
  proof (cases "p = h")
    case True
    then show ?thesis using ingest_here [OF assms(1) inv(1), of d "clock 0"] assms(3) by (simp add: effs_simps)
  next
    case False
    then show ?thesis using ingest_other [OF inv(1) False, of "clock 0" t d] by (simp add: effs_simps)
  qed
  have r: "receive_delta clock p t d src r =
      r\<lparr>rl_deltas_received := rl_deltas_received r + 1, rl_last_source := um_put p src (rl_last_source r),
        rl_aggregator := fst ?i, rl_forward_queue := rl_forward_queue r @ snd ?i\<rparr>"
    using inv(2) by (simp add: receive_delta_def Let_def split_beta emit_all_full)
  show "relay_inv h M (receive_delta clock p t d src r)" using assms(2) i by (simp add: r relay_inv_def)
  show "holds h (receive_delta clock p t d src r) = join (holds h r) (effs (if p = h then [d] else []))"
    using i by (simp add: r holds_def effs_append join_assoc)
qed

lemma tick_step:
  assumes "bounded M" "relay_inv h M r"
  shows "relay_inv h M (fst (relay_tick clock r))" "list_all good (path_msgs h (snd (relay_tick clock r)))"
    "join (effs (path_msgs h (snd (relay_tick clock r)))) (holds h (fst (relay_tick clock r))) = holds h r"
proof -
  define hs where "hs = ready_hashes (clock 0) (rl_aggregator r)"
  have inv: "agg_inv h M (rl_aggregator r)" "rcf_forward_tier (rl_config r) = TIER_FULL" "rl_forward_cb r"
    using assms(2) by (auto simp: relay_inv_def)
  note f = flushed_inv [OF assms(1) inv(1), of hs]
  have out: "snd (relay_tick clock r) = rl_forward_queue r @ snd (flush_hashes hs (rl_aggregator r))"
    "rl_forward_queue (fst (relay_tick clock r)) = []" "rl_aggregator (fst (relay_tick clock r)) = fst (flush_hashes hs (rl_aggregator r))"
    "rl_config (fst (relay_tick clock r)) = rl_config r" "rl_forward_cb (fst (relay_tick clock r)) = rl_forward_cb r"
    using inv(2,3) by (simp_all add: relay_tick_def flush_if_ready_def Let_def split_beta forward_pending_def emit_all_full hs_def)
  show "relay_inv h M (fst (relay_tick clock r))" "list_all good (path_msgs h (snd (relay_tick clock r)))"
    using assms(2) f(1,2) by (simp_all add: relay_inv_def out)
  show "join (effs (path_msgs h (snd (relay_tick clock r)))) (holds h (fst (relay_tick clock r))) = holds h r"
    using f(3) by (simp add: holds_def out effs_simps join_assoc)
qed

lemma flush_step:
  assumes "bounded M" "relay_inv h M r"
  shows "relay_inv h M (fst (relay_flush clock r))" "list_all good (path_msgs h (fst (snd (relay_flush clock r))))"
    "effs (path_msgs h (fst (snd (relay_flush clock r)))) = holds h r"
    "holds h (fst (relay_flush clock r)) = absf empty_crdt"
proof -
  have inv: "agg_inv h M (rl_aggregator r)" "rcf_forward_tier (rl_config r) = TIER_FULL" "rl_forward_cb r"
    using assms(2) by (auto simp: relay_inv_def)
  note f = emptied_inv [OF assms(1) inv(1)]
  have out: "fst (snd (relay_flush clock r)) = rl_forward_queue r @ fst (snd (aggregator_flush (rl_aggregator r)))"
    "rl_forward_queue (fst (relay_flush clock r)) = []" "rl_aggregator (fst (relay_flush clock r)) = fst (aggregator_flush (rl_aggregator r))"
    "rl_config (fst (relay_flush clock r)) = rl_config r" "rl_forward_cb (fst (relay_flush clock r)) = rl_forward_cb r"
    using inv(2,3) by (simp_all add: relay_flush_def Let_def split_beta forward_pending_def emit_all_full)
  show "relay_inv h M (fst (relay_flush clock r))" "list_all good (path_msgs h (fst (snd (relay_flush clock r))))"
    using assms(2) f(1,2) by (simp_all add: relay_inv_def out)
  show "effs (path_msgs h (fst (snd (relay_flush clock r)))) = holds h r" "holds h (fst (relay_flush clock r)) = absf empty_crdt"
    using f(3,4) by (simp_all add: holds_def out effs_simps bucket_val_def)
qed

lemma step_sim:
  assumes "bounded M" "relay_inv h M r" "op_types h ctype op" "set (received_msgs h [op]) \<subseteq> M"
  shows "relay_inv h M (fst (relay_step op r)) \<and> list_all good (path_msgs h (snd (relay_step op r))) \<and>
    join (effs (path_msgs h (snd (relay_step op r)))) (holds h (fst (relay_step op r))) = join (holds h r) (effs (received_msgs h [op]))"
proof (cases op)
  case (Receive clock p t d src)
  then show ?thesis using receive_step [OF assms(1,2), of p t d clock src] assms(3,4) by (auto simp: effs_simps)
next
  case (Relay_Tick clock)
  then show ?thesis using tick_step [OF assms(1,2), of clock] by (simp add: effs_simps)
next
  case (Relay_Flush clock)
  then show ?thesis using flush_step [OF assms(1,2), of clock] by (simp add: effs_simps split_beta)
qed (use assms(2) in \<open>simp_all add: add_downstream_def remove_downstream_def relay_inv_def holds_def effs_simps\<close>)

lemma run_sim:
  assumes "bounded M" "relay_inv h M r" "list_all (op_types h ctype) ops" "set (received_msgs h ops) \<subseteq> M"
  shows "relay_inv h M (fst (relay_run ops r)) \<and> list_all good (path_msgs h (snd (relay_run ops r))) \<and>
    join (effs (path_msgs h (snd (relay_run ops r)))) (holds h (fst (relay_run ops r))) = join (holds h r) (effs (received_msgs h ops))"
  using assms(2-4)
proof (induction ops arbitrary: r)
  case (Cons op ops)
  have split: "received_msgs h (op # ops) = received_msgs h [op] @ received_msgs h ops" by (cases op) simp_all
  let ?r = "fst (relay_step op r)"
  have "set (received_msgs h [op]) \<subseteq> M" using Cons.prems(3) unfolding split by simp
  then have st: "relay_inv h M ?r" "list_all good (path_msgs h (snd (relay_step op r)))"
    "join (effs (path_msgs h (snd (relay_step op r)))) (holds h ?r) = join (holds h r) (effs (received_msgs h [op]))"
    using step_sim [OF assms(1) Cons.prems(1), of op] Cons.prems(2) by simp_all
  have ih: "relay_inv h M (fst (relay_run ops ?r))" "list_all good (path_msgs h (snd (relay_run ops ?r)))"
    "join (effs (path_msgs h (snd (relay_run ops ?r)))) (holds h (fst (relay_run ops ?r))) = join (holds h ?r) (effs (received_msgs h ops))"
    using Cons.IH [OF st(1)] Cons.prems(2,3) unfolding split by simp_all
  have run: "relay_run (op # ops) r = (fst (relay_run ops ?r), snd (relay_step op r) @ snd (relay_run ops ?r))"
    by (simp add: split_beta)
  show ?case
    unfolding run split using st(2) ih by (simp add: effs_append join_assoc) (simp only: st(3) flip: join_assoc)
qed (simp add: effs_simps)

lemma run_append:
  "relay_run (xs @ ys) r =
    (fst (relay_run ys (fst (relay_run xs r))), snd (relay_run xs r) @ snd (relay_run ys (fst (relay_run xs r))))"
  by (induction xs arbitrary: r) (simp_all add: split_beta)

lemma received_append: "received_msgs h (xs @ ys) = received_msgs h xs @ received_msgs h ys"
  by (induction h xs rule: received_msgs.induct) simp_all

lemma relay_inv_new:
  "rcf_forward_tier cfg = TIER_FULL \<Longrightarrow> relay_inv h M (set_forward_callback (relay_new n cfg))"
  "holds h (set_forward_callback (relay_new n cfg)) = absf empty_crdt"
  by (simp_all add: relay_inv_def agg_inv_def set_forward_callback_def relay_new_def set_emit_callback_def
      aggregator_new_def holds_def bucket_val_def effs_simps)

lemma transparent:
  fixes n :: u16 and clock :: "nat \<Rightarrow> nat"
  assumes "rcf_forward_tier cfg = TIER_FULL" "list_all (op_types h ctype) ops" "bounded (set (received_msgs h ops))" "ok s"
  defines "out \<equiv> snd (relay_run (ops @ [Relay_Flush clock]) (set_forward_callback (relay_new n cfg)))"
  shows "absf (fold apply_msg (path_msgs h out) s) = absf (fold apply_msg (received_msgs h ops) s)"
    "ok (fold apply_msg (path_msgs h out) s)" "ok (fold apply_msg (received_msgs h ops) s)"
proof -
  let ?r = "set_forward_callback (relay_new n cfg)" and ?M = "set (received_msgs h ops)" and ?all = "ops @ [Relay_Flush clock]"
  note inv = relay_inv_new(1) [OF assms(1), of h ?M n]
  have "list_all (op_types h ctype) ?all" "set (received_msgs h ?all) \<subseteq> ?M" using assms(2) by (simp_all add: received_append)
  note sim = run_sim [OF assms(3) inv this]
  have "holds h (fst (relay_run ?all ?r)) = absf empty_crdt"
    using flush_step(4) [OF assms(3), of h "fst (relay_run ops ?r)" clock] run_sim [OF assms(3) inv assms(2) order_refl]
    by (simp add: run_append split_beta)
  then have eq: "effs (path_msgs h out) = effs (received_msgs h ops)" and g: "list_all good (path_msgs h out)"
    using sim by (simp_all add: out_def relay_inv_new(2) effs_simps received_append)
  have g': "\<forall>m \<in> set (path_msgs h out). good m" "\<forall>m \<in> set (received_msgs h ops). good m"
    using g assms(3) by (auto simp: list_all_iff bounded_def)
  show "absf (fold apply_msg (path_msgs h out) s) = absf (fold apply_msg (received_msgs h ops) s)"
    by (simp add: absf_fold [OF assms(4) g'(1)] absf_fold [OF assms(4) g'(2)] fold_join eq)
  show "ok (fold apply_msg (path_msgs h out) s)" "ok (fold apply_msg (received_msgs h ops) s)"
    using ok_fold [OF assms(4)] g' by blast+
qed

end

text \<open>
  A fresh counter, the relay's included, has an entry of its own node with count 0, so the snapshot of a relay names
  node 0. Counters are therefore compared by the count of every node, where a node without an entry counts 0.
\<close>

definition zeroed :: "(u16 \<rightharpoonup> u64) \<Rightarrow> u16 \<Rightarrow> u64" where
  "zeroed f = (\<lambda>k. case f k of None \<Rightarrow> 0 | Some v \<Rightarrow> v)"

definition max_at :: "(u16 \<Rightarrow> u64) \<Rightarrow> (u16 \<Rightarrow> u64) \<Rightarrow> u16 \<Rightarrow> u64" where
  "max_at f g = (\<lambda>k. max (f k) (g k))"

lemma zeroed_join: "zeroed (join_max f g) = max_at (zeroed f) (zeroed g)"
  by (rule ext) (simp add: zeroed_def join_max_def max_at_def split: option.split)

lemma max_at_assoc: "max_at (max_at f g) k = max_at f (max_at g k)"
  by (simp add: max_at_def ac_simps)

lemma max_at_commute: "max_at f g = max_at g f"
  by (simp add: max_at_def max.commute)

lemma max_at_idem: "max_at f f = f"
  by (simp add: max_at_def)

lemma max_at_zero: "max_at (\<lambda>_. 0) f = f"
  by (simp add: max_at_def)

lemma gc_snapshot_nonempty: "gc_snapshot c \<noteq> []"
  by (simp add: gc_snapshot_wire)

lemma zeroed_new: "zeroed (gc_counts (gc_new n)) = (\<lambda>_. 0)"
  by (rule ext) (simp add: zeroed_def gc_counts_def gc_new_def gc_default_def)

interpretation relayed_gcounter: relayed_crdt "\<lambda>m c. fst (gc_merge m c)" "\<lambda>c. zeroed (gc_counts c)"
  "\<lambda>m. zeroed (gc_msg_counts m)" max_at gc_ok "\<lambda>m. True" gc_snapshot gc_small Crdt_GCounter CRDT_G_COUNTER "gc_new 0"
  by (unfold_locales; (rule max_at_assoc max_at_commute max_at_idem)?)
    (simp_all add: split_beta gc_snapshot_nonempty relay_create_crdt_def zeroed_new max_at_zero gc_merge_counts zeroed_join
      gcounter.eff_snap)

definition pn_totals :: "(u16 \<rightharpoonup> u64) \<times> (u16 \<rightharpoonup> u64) \<Rightarrow> (u16 \<Rightarrow> u64) \<times> (u16 \<Rightarrow> u64)" where
  "pn_totals p = map_prod zeroed zeroed p"

definition pn_max :: "(u16 \<Rightarrow> u64) \<times> (u16 \<Rightarrow> u64) \<Rightarrow> (u16 \<Rightarrow> u64) \<times> (u16 \<Rightarrow> u64) \<Rightarrow> (u16 \<Rightarrow> u64) \<times> (u16 \<Rightarrow> u64)" where
  "pn_max a b = (max_at (fst a) (fst b), max_at (snd a) (snd b))"

lemma pn_max_laws:
  "pn_max (pn_max p q) r = pn_max p (pn_max q r)" "pn_max p p = p" "pn_max (\<lambda>_. 0, \<lambda>_. 0) p = p"
  by (simp_all add: pn_max_def max_at_assoc max_at_idem max_at_zero)

lemma pn_max_commute: "pn_max p q = pn_max q p"
  unfolding pn_max_def by (rule arg_cong2 [of _ _ _ _ Pair]; rule max_at_commute)

lemma pn_totals_join: "pn_totals (pn_join p q) = pn_max (pn_totals p) (pn_totals q)"
  by (simp add: pn_totals_def pn_max_def pn_join_def zeroed_join)

lemma pn_totals_new: "pn_totals (pn_counts (pn_new n)) = (\<lambda>_. 0, \<lambda>_. 0)"
  by (simp add: pn_totals_def pn_counts_def pn_new_def zeroed_new)

lemma pn_new_facts: "pn_ok (pn_new n)" "pn_snapshot c \<noteq> []"
  by (simp_all add: pn_ok_def pn_new_def pn_snapshot_def gc_snapshot_nonempty)

interpretation relayed_pncounter: relayed_crdt "\<lambda>m c. fst (pn_merge m c)" "\<lambda>c. pn_totals (pn_counts c)"
  "\<lambda>m. pn_totals (pn_msg_counts m)" pn_max pn_ok "\<lambda>m. True" pn_snapshot pn_small Crdt_PnCounter CRDT_PN_COUNTER "pn_new 0"
  by (unfold_locales; (rule pn_max_commute)?)
    (simp_all add: pn_max_laws split_beta relay_create_crdt_def pn_merge_counts pn_totals_join pn_totals_new
      pncounter.eff_snap pn_new_facts)

text \<open>A relay's fresh register is empty with the least stamp, so a history has the empty value there.\<close>

interpretation relayed_lww: relayed_crdt "\<lambda>m r. fst (lww_merge m r)" lww_stamp lww_msg_stamp max
  "lww_of_history (W((0, 0) := []))" "lww_msg_of_history (W((0, 0) := []))" lww_snapshot "\<lambda>r. True"
  Crdt_Lww CRDT_LWW_REGISTER "lww_new 0" for W
  by unfold_locales
    (auto simp: split_beta lww_snapshot_def lww_encode_wire be32_def relay_create_crdt_def lww_new_def lww_default_def
      lww_of_history_def lww_stamp_def max_def less_eq_prod_def)

section \<open>Properties\<close>

lemma gc_entries_card: "gc_ok c \<Longrightarrow> length (gc_entries c) = card (dom (gc_counts c))"
  by (simp add: gc_ok_def gc_counts_def dom_map_of_conv_image_fst distinct_card flip: set_map)

lemma dom_join_max: "dom (join_max f g) = dom f \<union> dom g"
  by (auto simp: join_max_def split: option.splits)

lemma dom_gc_fold: "dom (gc_counts (fold (\<lambda>m c. fst (gc_merge m c)) ms c)) = dom (gc_counts c) \<union> (\<Union>m \<in> set ms. dom (gc_msg_counts m))"
  by (induction ms arbitrary: c) (auto simp: gc_merge_counts dom_join_max)

text \<open>The nodes a list of counter messages names, with the relay's own.\<close>

definition named_nodes :: "bytes set \<Rightarrow> u16 set" where
  "named_nodes M = insert 0 (\<Union>m \<in> M. dom (gc_msg_counts m))"

lemma gc_bounded:
  assumes "card (named_nodes M) < 256"
  shows "relayed_gcounter.bounded M"
proof -
  have "gc_small (relayed_gcounter.merged ms)" if "set ms \<subseteq> M" for ms
  proof -
    let ?c = "relayed_gcounter.merged ms"
    have "gc_ok ?c" unfolding relayed_gcounter.merged_def by (rule gcounter.ok_fold) simp_all
    moreover have "dom (gc_counts ?c) = named_nodes (set ms)"
      using dom_gc_fold [of ms "gc_new 0"] unfolding relayed_gcounter.merged_def named_nodes_def
      by (simp add: gc_counts_def gc_new_def gc_default_def)
    moreover have "card (named_nodes (set ms)) \<le> card (named_nodes M)"
      using that by (intro card_mono) (auto simp: named_nodes_def)
    ultimately show ?thesis using assms by (simp add: gc_small_def gc_entries_card)
  qed
  then show ?thesis by (simp add: relayed_gcounter.bounded_def)
qed

lemma gc_value_total:
  assumes "gc_ok c"
  shows "gc_value c = (\<Sum>k \<in> UNIV. zeroed (gc_counts c) k)"
proof -
  let ?es = "gc_entries c"
  have d: "distinct ?es" "inj_on fst (set ?es)" using assms by (auto simp: gc_ok_def distinct_map)
  have "gc_value c = (\<Sum>e \<in> set ?es. zeroed (gc_counts c) (fst e))"
    using assms d(1) by (simp add: gc_value_sum sum_list_distinct_conv_sum_set)
      (rule sum.cong [OF refl], auto simp: zeroed_def gc_counts_def gc_ok_def map_of_is_SomeI)
  also have "\<dots> = (\<Sum>k \<in> fst ` set ?es. zeroed (gc_counts c) k)" using d(2) by (simp add: sum.reindex)
  also have "\<dots> = (\<Sum>k \<in> UNIV. zeroed (gc_counts c) k)"
    by (rule sum.mono_neutral_left) (force simp: zeroed_def gc_counts_def split: option.split dest: map_of_SomeD)+
  finally show ?thesis .
qed

text \<open>
  C13. A relay implements forwarding each delta. Whatever deltas of any paths reach a relay that forwards at full
  resolution, with ticks, flushes and batches of any size in between, a downstream grow-only counter that merges
  what the relay forwards for a path, once the relay has been flushed, has for every node the count, and in total
  the value, it would have had it merged every delta of that path itself. The deltas of the path and the relay name
  fewer than 256 nodes, the limit of the snapshot's count byte.
\<close>

theorem relay_transparent:
  fixes n :: u16 and clock :: "nat \<Rightarrow> nat"
  assumes "rcf_forward_tier cfg = TIER_FULL" "list_all (op_types h CRDT_G_COUNTER) ops" "gc_ok c"
    and "card (named_nodes (set (received_msgs h ops))) < 256"
  defines "out \<equiv> snd (relay_run (ops @ [Relay_Flush clock]) (set_forward_callback (relay_new n cfg)))"
    and "merge_all \<equiv> fold (\<lambda>m c. fst (gc_merge m c))"
  shows "zeroed (gc_counts (merge_all (path_msgs h out) c)) = zeroed (gc_counts (merge_all (received_msgs h ops) c)) \<and>
    gc_value (merge_all (path_msgs h out) c) = gc_value (merge_all (received_msgs h ops) c)"
proof -
  note t = relayed_gcounter.transparent(1,2) [OF assms(1,2) gc_bounded [OF assms(4)] assms(3), of clock n,
      folded out_def merge_all_def] relayed_gcounter.transparent(3) [OF assms(1,2) gc_bounded [OF assms(4)] assms(3), folded merge_all_def]
  show ?thesis using t by (simp add: gc_value_total)
qed

theorem relay_transparent_witness:
  "\<exists>out. out = snd (relay_run ([Receive (\<lambda>i. 0) 7 CRDT_G_COUNTER (snd (gc_delta (gc_increment 3 (gc_new 1)))) 1,
          Receive (\<lambda>i. 0) 7 CRDT_G_COUNTER (snd (gc_delta (gc_increment 4 (gc_new 2)))) 2] @ [Relay_Flush (\<lambda>i. 0)])
        (set_forward_callback (relay_new 9 \<lparr>rcf_aggregator = aggregator_config_default, rcf_forward_tier = TIER_FULL,
           rcf_resolution = resolution_config_default, rcf_store_local = False\<rparr>))) \<and>
     gc_value (fold (\<lambda>m c. fst (gc_merge m c)) (path_msgs 7 out) (gc_new 5)) = 7"
proof -
  let ?cfg = "\<lparr>rcf_aggregator = aggregator_config_default, rcf_forward_tier = TIER_FULL,
           rcf_resolution = resolution_config_default, rcf_store_local = False\<rparr>"
  let ?d1 = "snd (gc_delta (gc_increment 3 (gc_new 1)))" and ?d2 = "snd (gc_delta (gc_increment 4 (gc_new 2)))"
  let ?ops = "[Receive (\<lambda>i. 0) 7 CRDT_G_COUNTER ?d1 1, Receive (\<lambda>i. 0) 7 CRDT_G_COUNTER ?d2 2]"
  have "gc_dirty (gc_increment 3 (gc_new 1))" "gc_dirty (gc_increment 4 (gc_new 2))" by code_simp+
  moreover have "gc_counts (gc_increment 3 (gc_new 1)) (gc_node_id (gc_increment 3 (gc_new 1))) = Some 3"
    "gc_counts (gc_increment 4 (gc_new 2)) (gc_node_id (gc_increment 4 (gc_new 2))) = Some 4"
    "gc_node_id (gc_increment 3 (gc_new 1)) = 1" "gc_node_id (gc_increment 4 (gc_new 2)) = 2"
    unfolding gc_counts_def by code_simp+
  ultimately have "gc_msg_counts ?d1 = [1 \<mapsto> 3]" "gc_msg_counts ?d2 = [2 \<mapsto> 4]" by (simp_all add: gc_delta_counts)
  then have c: "card (named_nodes (set (received_msgs 7 ?ops))) < 256"
    by (simp add: named_nodes_def)
  have v: "gc_value (fold (\<lambda>m c. fst (gc_merge m c)) (received_msgs 7 ?ops) (gc_new 5)) = 7" by code_simp
  have "gc_value (fold (\<lambda>m c. fst (gc_merge m c))
      (path_msgs 7 (snd (relay_run (?ops @ [Relay_Flush (\<lambda>i. 0)]) (set_forward_callback (relay_new 9 ?cfg))))) (gc_new 5)) =
      gc_value (fold (\<lambda>m c. fst (gc_merge m c)) (received_msgs 7 ?ops) (gc_new 5))"
    by (rule relay_transparent [THEN conjunct2]) (use c in simp_all)
  then show ?thesis unfolding v by blast
qed

text \<open>The same for registers: the downstream register ends with the value of the latest write that reached the relay.\<close>

lemma relay_transparent_lww:
  assumes "rcf_forward_tier cfg = TIER_FULL" "list_all (op_types h CRDT_LWW_REGISTER) ops"
    and "\<forall>m \<in> set (received_msgs h ops). lww_msg_of_history (W((0, 0) := [])) m" "lww_of_history (W((0, 0) := [])) s"
  shows "lww_value (fold (\<lambda>m r. fst (lww_merge m r))
      (path_msgs h (snd (relay_run (ops @ [Relay_Flush clock]) (set_forward_callback (relay_new n cfg))))) s) =
    lww_value (fold (\<lambda>m r. fst (lww_merge m r)) (received_msgs h ops) s)"
proof -
  have b: "relayed_lww.bounded W (set (received_msgs h ops))" using assms(3) by (simp add: relayed_lww.bounded_def)
  note t = relayed_lww.transparent(1,2) [OF assms(1,2) b assms(4), of clock n] relayed_lww.transparent(3) [OF assms(1,2) b assms(4)]
  show ?thesis by (rule lww_same [OF t(2,3,1)])
qed

lemma relay_transparent_pn:
  assumes "rcf_forward_tier cfg = TIER_FULL" "list_all (op_types h CRDT_PN_COUNTER) ops" "pn_ok c"
    and "relayed_pncounter.bounded (set (received_msgs h ops))"
  shows "pn_totals (pn_counts (fold (\<lambda>m c. fst (pn_merge m c))
      (path_msgs h (snd (relay_run (ops @ [Relay_Flush clock]) (set_forward_callback (relay_new n cfg))))) c)) =
    pn_totals (pn_counts (fold (\<lambda>m c. fst (pn_merge m c)) (received_msgs h ops) c))"
  using relayed_pncounter.transparent(1) [OF assms(1,2,4,3), of clock n] .

text \<open>
  The downstream list and the last source of a path are never consulted: what a relay forwards does not depend on
  them, so a delta also goes back to the node it came from.
\<close>

lemma downstream_irrelevant:
  "snd (relay_tick clock (add_downstream d r)) = snd (relay_tick clock r)"
  "fst (snd (relay_flush clock (add_downstream d r))) = fst (snd (relay_flush clock r))"
proof -
  have e: "emit_all clock i es (r\<lparr>rl_downstream_nodes := ds\<rparr>) = (emit_all clock i es r)\<lparr>rl_downstream_nodes := ds\<rparr>" for i es ds r
  proof (induction es arbitrary: i r)
    case (Cons m es)
    have "on_aggregator_emit (clock i) m (r\<lparr>rl_downstream_nodes := ds\<rparr>) =
        (on_aggregator_emit (clock i) m r)\<lparr>rl_downstream_nodes := ds\<rparr>"
      by (cases m) (simp add: on_aggregator_emit_def Let_def split_beta)
    then show ?case by (simp add: Cons)
  qed simp
  have u: "r\<lparr>rl_downstream_nodes := ds, rl_aggregator := a\<rparr> = r\<lparr>rl_aggregator := a, rl_downstream_nodes := ds\<rparr>" for r ds a
    by simp
  show "snd (relay_tick clock (add_downstream d r)) = snd (relay_tick clock r)"
    by (simp add: relay_tick_def add_downstream_def split_beta u e forward_pending_def Let_def del: relay_node.update_defs)
  show "fst (snd (relay_flush clock (add_downstream d r))) = fst (snd (relay_flush clock r))"
    by (simp add: relay_flush_def add_downstream_def split_beta u e forward_pending_def Let_def)
qed

end
