(* ===== verification/Transports.thy ===== *)
theory Transports
  imports Connection
begin

text \<open>
  Transports that hold their packets in memory: the in-process bus (\<^verbatim>\<open>transport/loopback_transport.h\<close>,
  \<^verbatim>\<open>loopback_transport.cpp\<close>) and the bridge to an embedding program (\<^verbatim>\<open>transport/external_transport.h\<close>,
  \<^verbatim>\<open>external_transport.cpp\<close>).

  A call returns the source's result code with the new state. The bytes written to a caller's buffer are the received
  bytes. A blocking \<^verbatim>\<open>recv_from\<close> that does not return is not distinguished from one that returns without a packet:
  both leave the queue as it is. The pointer argument of \<^verbatim>\<open>send_to\<close> is never null.

  The locale \<open>datagram_queue\<close> is what both promise of a queue; its lemma is that packets leave in the order they
  came, none lost and none doubled.
\<close>

section \<open>Queues\<close>

locale datagram_queue =
  fixes push :: "'p \<Rightarrow> 's \<Rightarrow> 's"
    and pop :: "'s \<Rightarrow> ('p \<times> 's) option"
    and contents :: "'s \<Rightarrow> 'p list"
    and ok :: "'s \<Rightarrow> bool"
    and good :: "'p \<Rightarrow> bool"
  assumes contents_push: "ok s \<Longrightarrow> good p \<Longrightarrow> ok (push p s) \<and> contents (push p s) = contents s @ [p]"
    and pop_None: "ok s \<Longrightarrow> pop s = None \<longleftrightarrow> contents s = []"
    and pop_Some: "ok s \<Longrightarrow> pop s = Some (p, s') \<Longrightarrow> ok s' \<and> contents s = p # contents s'"
begin

fun pops :: "nat \<Rightarrow> 's \<Rightarrow> 'p list \<times> 's" where
  "pops 0 s = ([], s)"
| "pops (Suc n) s =
    (case pop s of None \<Rightarrow> ([], s) | Some (p, s') \<Rightarrow> let (ps, t) = pops n s' in (p # ps, t))"

lemma contents_pushes:
  "ok s \<Longrightarrow> \<forall>p \<in> set ps. good p \<Longrightarrow> ok (fold push ps s) \<and> contents (fold push ps s) = contents s @ ps"
  by (induction ps arbitrary: s) (simp_all add: contents_push)

lemma pops_take: "ok s \<Longrightarrow> fst (pops n s) = take n (contents s) \<and> contents (snd (pops n s)) = drop n (contents s)"
proof (induction n arbitrary: s)
  case (Suc n)
  show ?case
  proof (cases "pop s")
    case None
    then show ?thesis using pop_None [OF Suc.prems] by simp
  next
    case (Some ps)
    obtain p s' where ps: "ps = (p, s')" by (cases ps)
    then have "ok s' \<and> contents s = p # contents s'" using Some pop_Some [OF Suc.prems] by simp
    then show ?thesis using Some Suc.IH [of s'] by (simp add: ps split_beta)
  qed
qed simp

lemma fifo:
  "ok s \<Longrightarrow> \<forall>p \<in> set ps. good p \<Longrightarrow> fst (pops (length (contents s) + length ps) (fold push ps s)) = contents s @ ps"
  by (simp add: pops_take contents_pushes)

end

definition to_int :: "nat \<Rightarrow> int" where
  "to_int n = sint (of_nat n :: u32)"

section \<open>External transport\<close>

record ext_packet =
  xp_data :: bytes
  xp_endpoint :: endpoint

record external_transport =
  xt_local :: endpoint
  xt_bound :: bool
  xt_recv_queue :: "ext_packet list"
  xt_send_queue :: "ext_packet list"

definition external_new :: external_transport where
  "external_new = \<lparr>xt_local = \<lparr>ep_address = [], ep_port = 0\<rparr>, xt_bound = False, xt_recv_queue = [], xt_send_queue = []\<rparr>"

definition ext_bind :: "endpoint \<Rightarrow> external_transport \<Rightarrow> external_transport \<times> bool" where
  "ext_bind loc t = (t\<lparr>xt_local := loc, xt_bound := True\<rparr>, True)"

definition ext_close :: "external_transport \<Rightarrow> external_transport" where
  "ext_close t = t\<lparr>xt_bound := False, xt_recv_queue := [], xt_send_queue := []\<rparr>"

definition ext_send_to :: "bytes \<Rightarrow> endpoint \<Rightarrow> external_transport \<Rightarrow> external_transport \<times> int" where
  "ext_send_to data remote t =
    (if \<not> xt_bound t \<or> data = [] then (t, - 1)
     else (t\<lparr>xt_send_queue := xt_send_queue t @ [\<lparr>xp_data = data, xp_endpoint = remote\<rparr>]\<rparr>, to_int (length data)))"

definition ext_recv_from :: "nat \<Rightarrow> external_transport \<Rightarrow> external_transport \<times> int \<times> (bytes \<times> endpoint) option" where
  "ext_recv_from buf_len t =
    (if \<not> xt_bound t then (t, - 1, None)
     else case xt_recv_queue t of
       [] \<Rightarrow> (t, - 1, None)
     | pkt # rest \<Rightarrow>
         let copy_len = min buf_len (length (xp_data pkt))
         in (t\<lparr>xt_recv_queue := rest\<rparr>, to_int copy_len, Some (take copy_len (xp_data pkt), xp_endpoint pkt)))"

definition push_recv :: "bytes \<Rightarrow> endpoint \<Rightarrow> external_transport \<Rightarrow> external_transport" where
  "push_recv data from t = t\<lparr>xt_recv_queue := xt_recv_queue t @ [\<lparr>xp_data = data, xp_endpoint = from\<rparr>]\<rparr>"

definition pop_send :: "external_transport \<Rightarrow> external_transport \<times> ext_packet option" where
  "pop_send t =
    (case xt_send_queue t of
       [] \<Rightarrow> (t, None)
     | pkt # rest \<Rightarrow> (t\<lparr>xt_send_queue := rest\<rparr>, Some pkt))"

definition send_queue_size :: "external_transport \<Rightarrow> nat" where
  "send_queue_size t = length (xt_send_queue t)"

definition recv_queue_size :: "external_transport \<Rightarrow> nat" where
  "recv_queue_size t = length (xt_recv_queue t)"

section \<open>Loopback bus\<close>

record lb_packet =
  lp_data :: bytes
  lp_from :: endpoint
  lp_to :: endpoint

type_synonym loopback_bus = "(bytes, lb_packet list) umap"

definition COLON :: u8 where "COLON = 0x3A"

fun to_digits :: "nat \<Rightarrow> bytes" where
  "to_digits n = (if n < 10 then [of_nat (48 + n)] else to_digits (n div 10) @ [of_nat (48 + n mod 10)])"

declare to_digits.simps [simp del]

definition bus_key :: "endpoint \<Rightarrow> bytes" where
  "bus_key ep = ep_address ep @ [COLON] @ to_digits (unat (ep_port ep))"

definition bus_deliver :: "lb_packet \<Rightarrow> loopback_bus \<Rightarrow> loopback_bus" where
  "bus_deliver pkt bus =
    (let k = bus_key (lp_to pkt)
     in um_put k ((case um_find bus k of None \<Rightarrow> [] | Some q \<Rightarrow> q) @ [pkt]) bus)"

text \<open>The lookups of \<^verbatim>\<open>receive\<close> with \<^verbatim>\<open>operator[]\<close> leave an empty queue where there was none.\<close>

definition bus_receive :: "endpoint \<Rightarrow> loopback_bus \<Rightarrow> loopback_bus \<times> lb_packet option" where
  "bus_receive ep bus =
    (let k = bus_key ep
     in case um_find bus k of
          None \<Rightarrow> (um_put k [] bus, None)
        | Some [] \<Rightarrow> (bus, None)
        | Some (p # q) \<Rightarrow> (um_put k q bus, Some p))"

definition bus_remove_endpoint :: "endpoint \<Rightarrow> loopback_bus \<Rightarrow> loopback_bus" where
  "bus_remove_endpoint ep bus = um_erase (bus_key ep) bus"

record loopback_transport =
  lt_local :: endpoint
  lt_bound :: bool

definition loopback_new :: loopback_transport where
  "loopback_new = \<lparr>lt_local = \<lparr>ep_address = [], ep_port = 0\<rparr>, lt_bound = False\<rparr>"

definition lb_bind :: "endpoint \<Rightarrow> loopback_transport \<Rightarrow> loopback_transport \<times> bool" where
  "lb_bind loc t = (t\<lparr>lt_local := loc, lt_bound := True\<rparr>, True)"

definition lb_close :: "loopback_transport \<Rightarrow> loopback_bus \<Rightarrow> loopback_transport \<times> loopback_bus" where
  "lb_close t bus =
    (if lt_bound t then (t\<lparr>lt_bound := False\<rparr>, bus_remove_endpoint (lt_local t) bus) else (t, bus))"

definition lb_send_to :: "bytes \<Rightarrow> endpoint \<Rightarrow> loopback_transport \<Rightarrow> loopback_bus \<Rightarrow> loopback_bus \<times> int" where
  "lb_send_to data remote t bus =
    (if \<not> lt_bound t then (bus, - 1)
     else (bus_deliver \<lparr>lp_data = data, lp_from = lt_local t, lp_to = remote\<rparr> bus, to_int (length data)))"

definition lb_recv_from ::
    "nat \<Rightarrow> loopback_transport \<Rightarrow> loopback_bus \<Rightarrow> loopback_bus \<times> int \<times> (bytes \<times> endpoint) option" where
  "lb_recv_from buf_len t bus =
    (if \<not> lt_bound t then (bus, - 1, None)
     else case bus_receive (lt_local t) bus of
       (bus', None) \<Rightarrow> (bus', - 1, None)
     | (bus', Some pkt) \<Rightarrow>
         let copy_len = min buf_len (length (lp_data pkt))
         in (bus', to_int copy_len, Some (take copy_len (lp_data pkt), lp_from pkt)))"

text \<open>Several transports on one bus: the calls on them, in order, and what they send and receive.\<close>

datatype lb_op = LBind nat endpoint | LClose nat | LSend nat bytes endpoint | LRecv nat nat

datatype lb_event = Sent endpoint endpoint bytes | Got endpoint endpoint bytes | Removed endpoint

type_synonym lb_world = "loopback_transport list \<times> loopback_bus"

fun lb_step :: "lb_op \<Rightarrow> lb_world \<Rightarrow> lb_world \<times> lb_event list" where
  "lb_step (LBind i ep) (ts, bus) = ((ts[i := fst (lb_bind ep (ts ! i))], bus), [])"
| "lb_step (LClose i) (ts, bus) =
    (let t = ts ! i; (t', bus') = lb_close t bus
     in ((ts[i := t'], bus'), if lt_bound t then [Removed (lt_local t)] else []))"
| "lb_step (LSend i d to) (ts, bus) =
    (let t = ts ! i; (bus', r) = lb_send_to d to t bus
     in ((ts, bus'), if lt_bound t then [Sent (lt_local t) to d] else []))"
| "lb_step (LRecv i n) (ts, bus) =
    (let t = ts ! i; (bus', r, got) = lb_recv_from n t bus
     in ((ts, bus'), case got of None \<Rightarrow> [] | Some (d, from) \<Rightarrow> [Got (lt_local t) from d]))"

fun lb_run :: "lb_op list \<Rightarrow> lb_world \<Rightarrow> lb_world \<times> lb_event list" where
  "lb_run [] w = (w, [])"
| "lb_run (op # ops) w = (let (w1, es1) = lb_step op w; (w2, es2) = lb_run ops w1 in (w2, es1 @ es2))"

fun sent_to :: "endpoint \<Rightarrow> lb_event list \<Rightarrow> (endpoint \<times> bytes) list" where
  "sent_to e [] = []"
| "sent_to e (Sent from to d # es) = (if to = e then (from, d) # sent_to e es else sent_to e es)"
| "sent_to e (_ # es) = sent_to e es"

fun got_at :: "endpoint \<Rightarrow> lb_event list \<Rightarrow> (endpoint \<times> bytes) list" where
  "got_at e [] = []"
| "got_at e (Got at from d # es) = (if at = e then (from, d) # got_at e es else got_at e es)"
| "got_at e (_ # es) = got_at e es"

text \<open>Receive buffers hold every packet that is sent.\<close>

fun op_fits :: "nat \<Rightarrow> lb_op \<Rightarrow> bool" where
  "op_fits n (LSend i d to) = (length d \<le> n)"
| "op_fits n (LRecv i b) = (n \<le> b)"
| "op_fits n op = True"

section \<open>Keys of endpoints\<close>

lemma digit_unat: "k < 10 \<Longrightarrow> unat (of_nat (48 + k) :: u8) = 48 + k"
  by (simp only: unat_of_nat) simp

lemma digits_no_colon: "COLON \<notin> set (to_digits n)"
proof (induction n rule: to_digits.induct)
  case (1 n)
  have d: "COLON \<noteq> of_nat (48 + k)" if "k < 10" for k
    using digit_unat [OF that] that by (auto simp: COLON_def simp del: of_nat_add)
  then show ?case using 1 d [of n] d [of "n mod 10"] by (subst to_digits.simps) (simp del: of_nat_add)
qed

lemma digits_value: "foldl (\<lambda>a d. 10 * a + (unat d - 48)) 0 (to_digits n) = n"
proof (induction n rule: to_digits.induct)
  case (1 n)
  show ?case
  proof (cases "n < 10")
    case True
    then show ?thesis using digit_unat [of n] by (subst to_digits.simps) (simp del: of_nat_add)
  next
    case False
    then show ?thesis using 1 digit_unat [of "n mod 10"] by (subst to_digits.simps) (simp del: of_nat_add)
  qed
qed

lemma split_at_last:
  assumes "xs @ [c] @ ys = xs' @ [c] @ ys'" "c \<notin> set ys" "c \<notin> set ys'"
  shows "xs = xs' \<and> ys = ys'"
proof -
  have "takeWhile (\<lambda>x. x \<noteq> c) (rev (zs @ [c] @ ws)) = rev ws" if "c \<notin> set ws" for zs ws
    using that by (simp add: takeWhile_append)
  with assms show ?thesis by (metis append_same_eq append_assoc rev_is_rev_conv)
qed

lemma bus_key_inj: "bus_key e = bus_key f \<longleftrightarrow> e = f"
proof
  assume "bus_key e = bus_key f"
  then have a: "ep_address e = ep_address f" and d: "to_digits (unat (ep_port e)) = to_digits (unat (ep_port f))"
    using split_at_last [OF _ digits_no_colon digits_no_colon] unfolding bus_key_def by metis+
  then have "unat (ep_port e) = unat (ep_port f)" using digits_value by metis
  then have "ep_port e = ep_port f" by (rule unsigned_word_eqI)
  with a show "e = f" by (simp add: endpoint.equality)
qed simp

section \<open>The queues of the transports\<close>

definition ext_push_recv :: "ext_packet \<Rightarrow> external_transport \<Rightarrow> external_transport" where
  "ext_push_recv p t = push_recv (xp_data p) (xp_endpoint p) t"

definition ext_pop_recv :: "nat \<Rightarrow> external_transport \<Rightarrow> (ext_packet \<times> external_transport) option" where
  "ext_pop_recv n t =
    (case ext_recv_from n t of
       (t', r, Some (d, from)) \<Rightarrow> Some (\<lparr>xp_data = d, xp_endpoint = from\<rparr>, t')
     | _ \<Rightarrow> None)"

definition ext_push_send :: "ext_packet \<Rightarrow> external_transport \<Rightarrow> external_transport" where
  "ext_push_send p t = fst (ext_send_to (xp_data p) (xp_endpoint p) t)"

definition ext_pop_send :: "external_transport \<Rightarrow> (ext_packet \<times> external_transport) option" where
  "ext_pop_send t = (case pop_send t of (t', Some p) \<Rightarrow> Some (p, t') | _ \<Rightarrow> None)"

definition bus_queue :: "endpoint \<Rightarrow> loopback_bus \<Rightarrow> lb_packet list" where
  "bus_queue e bus = (case um_find bus (bus_key e) of None \<Rightarrow> [] | Some q \<Rightarrow> q)"

definition bus_pop :: "endpoint \<Rightarrow> loopback_bus \<Rightarrow> (lb_packet \<times> loopback_bus) option" where
  "bus_pop e bus = (case bus_receive e bus of (bus', Some p) \<Rightarrow> Some (p, bus') | _ \<Rightarrow> None)"

text \<open>Packets from the embedding program, read with buffers of \<open>n\<close> bytes.\<close>

interpretation ext_recv_q: datagram_queue ext_push_recv "ext_pop_recv n" xt_recv_queue
  "\<lambda>t. xt_bound t \<and> (\<forall>p \<in> set (xt_recv_queue t). length (xp_data p) \<le> n)" "\<lambda>p. length (xp_data p) \<le> n" for n
  by unfold_locales
    (auto simp: ext_push_recv_def push_recv_def ext_pop_recv_def ext_recv_from_def Let_def split: list.splits)

interpretation ext_send_q: datagram_queue ext_push_send ext_pop_send xt_send_queue xt_bound "\<lambda>p. xp_data p \<noteq> []"
  by unfold_locales (auto simp: ext_push_send_def ext_send_to_def ext_pop_send_def pop_send_def split: list.splits)

interpretation bus_q: datagram_queue bus_deliver "bus_pop e" "bus_queue e" "\<lambda>bus. True" "\<lambda>p. lp_to p = e" for e
  by unfold_locales
    (auto simp: bus_deliver_def bus_pop_def bus_queue_def bus_receive_def Let_def update_conv' split: option.splits list.splits)

section \<open>Properties\<close>

lemma bus_queue_deliver:
  "bus_queue e (bus_deliver p bus) = bus_queue e bus @ (if lp_to p = e then [p] else [])"
  by (auto simp: bus_queue_def bus_deliver_def Let_def update_conv' bus_key_inj)

lemma bus_queue_receive:
  "bus_receive f bus = (bus', r) \<Longrightarrow>
   bus_queue e bus = (if f = e then (case r of None \<Rightarrow> [] | Some p \<Rightarrow> [p]) else []) @ bus_queue e bus'"
  by (cases "f = e")
    (auto simp: bus_queue_def bus_receive_def Let_def update_conv' bus_key_inj split: option.splits list.splits)

lemma bus_queue_remove: "f \<noteq> e \<Longrightarrow> bus_queue e (bus_remove_endpoint f bus) = bus_queue e bus"
  by (simp add: bus_queue_def bus_remove_endpoint_def delete_conv' bus_key_inj)

definition queued :: "endpoint \<Rightarrow> loopback_bus \<Rightarrow> (endpoint \<times> bytes) list" where
  "queued e bus = map (\<lambda>p. (lp_from p, lp_data p)) (bus_queue e bus)"

definition bus_fits :: "nat \<Rightarrow> endpoint \<Rightarrow> loopback_bus \<Rightarrow> bool" where
  "bus_fits n e bus \<longleftrightarrow> (\<forall>p \<in> set (bus_queue e bus). length (lp_data p) \<le> n)"

lemma lb_step_queue:
  assumes "lb_step op (ts, bus) = ((ts', bus'), es)" "op_fits n op" "bus_fits n e bus" "Removed e \<notin> set es"
  shows "queued e bus @ sent_to e es = got_at e es @ queued e bus' \<and> bus_fits n e bus'"
proof (cases op)
  case (LBind i ep)
  then show ?thesis using assms by auto
next
  case (LClose i)
  then show ?thesis
    using assms by (auto simp: Let_def lb_close_def queued_def bus_fits_def bus_queue_remove split: if_splits)
next
  case (LSend i d to)
  then show ?thesis
    using assms by (auto simp: Let_def lb_send_to_def queued_def bus_fits_def bus_queue_deliver split: if_splits)
next
  case (LRecv i b)
  let ?t = "ts ! i"
  obtain bus1 r where r: "bus_receive (lt_local ?t) bus = (bus1, r)" by fastforce
  note q = bus_queue_receive [OF r, of e]
  consider (unbound) "\<not> lt_bound ?t" | (none) "lt_bound ?t" "r = None" | (some) p where "lt_bound ?t" "r = Some p"
    by (cases r) auto
  then show ?thesis
  proof cases
    case unbound
    then show ?thesis using assms LRecv by (auto simp: lb_recv_from_def)
  next
    case none
    then have "bus' = bus1" "es = []" using assms(1) LRecv r by (simp_all add: lb_recv_from_def)
    moreover have "bus_queue e bus = bus_queue e bus1" using q none by simp
    ultimately show ?thesis using assms(3) by (simp add: queued_def bus_fits_def)
  next
    case (some p)
    then have e: "bus' = bus1" "es = [Got (lt_local ?t) (lp_from p) (take (min b (length (lp_data p))) (lp_data p))]"
      using assms(1) LRecv r by (auto simp: lb_recv_from_def Let_def)
    show ?thesis
    proof (cases "lt_local ?t = e")
      case True
      then have "length (lp_data p) \<le> n" using assms(3) q some by (simp add: bus_fits_def)
      then have "length (lp_data p) \<le> b" using assms(2) LRecv by simp
      then show ?thesis using q some True assms(3) by (simp add: e queued_def bus_fits_def)
    next
      case False
      then show ?thesis using q assms(3) by (simp add: e queued_def bus_fits_def)
    qed
  qed
qed

lemma sent_to_append: "sent_to e (xs @ ys) = sent_to e xs @ sent_to e ys"
  by (induction e xs rule: sent_to.induct) simp_all

lemma got_at_append: "got_at e (xs @ ys) = got_at e xs @ got_at e ys"
  by (induction e xs rule: got_at.induct) simp_all

lemma lb_run_queue:
  "lb_run ops (ts, bus) = ((ts', bus'), es) \<Longrightarrow> list_all (op_fits n) ops \<Longrightarrow> bus_fits n e bus \<Longrightarrow> Removed e \<notin> set es \<Longrightarrow>
   queued e bus @ sent_to e es = got_at e es @ queued e bus'"
proof (induction ops arbitrary: ts bus es)
  case (Cons op ops)
  obtain ts1 bus1 es1 where s: "lb_step op (ts, bus) = ((ts1, bus1), es1)" by (metis surj_pair)
  obtain es2 where r: "lb_run ops (ts1, bus1) = ((ts', bus'), es2)" and es: "es = es1 @ es2"
    using Cons.prems(1) s by (cases "lb_run ops (ts1, bus1)") auto
  have st: "queued e bus @ sent_to e es1 = got_at e es1 @ queued e bus1" "bus_fits n e bus1"
    using lb_step_queue [OF s, of n e] Cons.prems by (simp_all add: es)
  have "queued e bus1 @ sent_to e es2 = got_at e es2 @ queued e bus'"
    using Cons.IH [OF r] Cons.prems st(2) by (simp add: es)
  then show ?case using st(1) unfolding es sent_to_append got_at_append
    by (metis append_assoc)
qed simp

text \<open>
  C32. The loopback bus delivers. With any number of transports on one bus, bound, sending and receiving in any
  interleaving, what has been received at an endpoint, followed by what still waits there, is exactly what was sent
  to that endpoint, with its senders and in the order of sending, as long as no transport bound to it is closed and
  receive buffers are at least as long as the packets. In particular distinct endpoints never share a queue,
  although queues are found by the printed address and port.
\<close>

theorem loopback_delivers:
  assumes "lb_run ops (ts, []) = ((ts', bus'), es)" "list_all (op_fits n) ops" "Removed e \<notin> set es"
  shows "sent_to e es = got_at e es @ queued e bus'"
  using lb_run_queue [OF assms(1,2) _ assms(3)] by (simp add: queued_def bus_queue_def bus_fits_def)

theorem loopback_delivers_witness:
  "\<exists>ts' bus' es.
     lb_run [LBind 0 \<lparr>ep_address = [1], ep_port = 7\<rparr>, LBind 1 \<lparr>ep_address = [1], ep_port = 77\<rparr>,
             LSend 0 [5, 6] \<lparr>ep_address = [1], ep_port = 77\<rparr>, LRecv 1 9]
       ([loopback_new, loopback_new], []) = ((ts', bus'), es) \<and>
     got_at \<lparr>ep_address = [1], ep_port = 77\<rparr> es @ queued \<lparr>ep_address = [1], ep_port = 77\<rparr> bus' =
       [(\<lparr>ep_address = [1], ep_port = 7\<rparr>, [5, 6])]"
proof -
  let ?a = "\<lparr>ep_address = [1], ep_port = 7\<rparr>" and ?b = "\<lparr>ep_address = [1], ep_port = 77\<rparr>"
  let ?ops = "[LBind 0 ?a, LBind 1 ?b, LSend 0 [5, 6] ?b, LRecv 1 9]"
  obtain ts' bus' es where r: "lb_run ?ops ([loopback_new, loopback_new], []) = ((ts', bus'), es)" by (metis surj_pair)
  have es: "sent_to ?b es = [(?a, [5, 6])]" "Removed ?b \<notin> set es"
    using r by (auto simp: loopback_new_def lb_bind_def lb_send_to_def lb_recv_from_def Let_def split_beta split: option.splits prod.splits)
  have "sent_to ?b es = got_at ?b es @ queued ?b bus'"
    by (rule loopback_delivers [OF r, of 2]) (use es in simp_all)
  then show ?thesis using r es by metis
qed

text \<open>
  The bridge of an external transport keeps the order both ways: packets pushed by the embedding program reach
  \<^verbatim>\<open>recv_from\<close>, and packets given to \<^verbatim>\<open>send_to\<close> reach \<^verbatim>\<open>pop_send\<close>, in the order they came.
\<close>

lemma external_bridge_fifo:
  assumes "xt_bound t" "xt_recv_queue t = []" "xt_send_queue t = []"
  shows "\<forall>p \<in> set ps. length (xp_data p) \<le> n \<Longrightarrow> fst (ext_recv_q.pops n (length ps) (fold ext_push_recv ps t)) = ps"
    "\<forall>p \<in> set ps. xp_data p \<noteq> [] \<Longrightarrow> fst (ext_send_q.pops (length ps) (fold ext_push_send ps t)) = ps"
  using ext_recv_q.fifo [of t n ps] ext_send_q.fifo [of t ps] assms by simp_all

lemma bus_fifo:
  "\<forall>p \<in> set ps. lp_to p = e \<Longrightarrow> bus_queue e bus = [] \<Longrightarrow> fst (bus_q.pops e (length ps) (fold bus_deliver ps bus)) = ps"
  using bus_q.fifo [of ps e bus] by simp

end
