(* ===== verification/Async.thy ===== *)
theory Async
  imports Transports "HOL-Library.Multiset"
begin

text \<open>
  The thread pool around a transport (\<^verbatim>\<open>transport/async_transport.h\<close>, \<^verbatim>\<open>async_transport.cpp\<close>), as a step relation. A
  send thread is at one of the points between its accesses to shared state; a step is one such access by one thread,
  so every interleaving of the program is a sequence of steps. The wrapped transport is called outside the lock, and
  its result is whatever it returns. A job is numbered when it is queued, and the calls of completion callbacks are
  a log of number, bytes sent and error.

  \<^verbatim>\<open>stop\<close> clears the running flag, waits for the threads and drains the queue under the lock; the three are steps of
  their own. \<^verbatim>\<open>start\<close> is not called while \<^verbatim>\<open>stop\<close> runs.
\<close>

record send_job =
  jb_id :: nat
  jb_data :: bytes
  jb_remote :: endpoint
  jb_has_callback :: bool

datatype worker_pc =
    At_top
  | At_wait
  | Has_job send_job
  | Has_result send_job int
  | Exited

datatype stop_pc = Not_stopping | Joining | Draining

record async_transport =
  at_num_threads :: nat
  at_running :: bool
  at_workers :: "worker_pc list"
  at_send_queue :: "send_job list"
  at_stop :: stop_pc
  at_next_id :: nat
  at_log :: "(nat \<times> int \<times> int) list"
  at_packets_sent :: u64
  at_bytes_sent :: u64
  at_packets_received :: u64
  at_bytes_received :: u64
  at_recv_handler :: bool

definition async_new :: "nat \<Rightarrow> async_transport" where
  "async_new num_threads =
    \<lparr>at_num_threads = (if num_threads < 1 then 1 else num_threads), at_running = False, at_workers = [], at_send_queue = [],
     at_stop = Not_stopping, at_next_id = 0, at_log = [], at_packets_sent = 0, at_bytes_sent = 0,
     at_packets_received = 0, at_bytes_received = 0, at_recv_handler = False\<rparr>"

text \<open>The number of send threads \<^verbatim>\<open>start\<close> creates: all but the receiving one, and at least one.\<close>

definition send_threads :: "nat \<Rightarrow> nat" where
  "send_threads n = (n - 1) + (if n = 1 then 1 else 0)"

definition async_start :: "async_transport \<Rightarrow> async_transport" where
  "async_start a =
    (if at_running a then a
     else a\<lparr>at_running := True, at_workers := at_workers a @ replicate (send_threads (at_num_threads a)) At_top\<rparr>)"

definition async_send :: "bytes \<Rightarrow> endpoint \<Rightarrow> bool \<Rightarrow> async_transport \<Rightarrow> async_transport" where
  "async_send data remote has_cb a =
    a\<lparr>at_send_queue := at_send_queue a @
        [\<lparr>jb_id = at_next_id a, jb_data = data, jb_remote = remote, jb_has_callback = has_cb\<rparr>],
      at_next_id := Suc (at_next_id a)\<rparr>"

definition async_set_recv_handler :: "async_transport \<Rightarrow> async_transport" where
  "async_set_recv_handler a = a\<lparr>at_recv_handler := True\<rparr>"

definition count_sent :: "int \<Rightarrow> async_transport \<Rightarrow> async_transport" where
  "count_sent result a =
    (if result > 0
     then a\<lparr>at_packets_sent := at_packets_sent a + 1, at_bytes_sent := at_bytes_sent a + of_int result\<rparr> else a)"

text \<open>The synchronous \<^verbatim>\<open>send_to\<close>, given what the wrapped transport returns.\<close>

definition async_send_to :: "int \<Rightarrow> async_transport \<Rightarrow> async_transport \<times> int" where
  "async_send_to result a = (count_sent result a, result)"

text \<open>One turn of \<^verbatim>\<open>recv_loop\<close>: the new state and the call of the handler.\<close>

definition recv_turn :: "int \<Rightarrow> bytes \<Rightarrow> endpoint \<Rightarrow> async_transport \<Rightarrow> async_transport \<times> (bytes \<times> endpoint) option" where
  "recv_turn n buf from a =
    (if n > 0
     then (a\<lparr>at_packets_received := at_packets_received a + 1, at_bytes_received := at_bytes_received a + of_int n\<rparr>,
           if at_recv_handler a then Some (take (nat n) buf, from) else None)
     else (a, None))"

definition complete :: "send_job \<Rightarrow> int \<Rightarrow> int \<Rightarrow> async_transport \<Rightarrow> async_transport" where
  "complete job result err a = (if jb_has_callback job then a\<lparr>at_log := at_log a @ [(jb_id job, result, err)]\<rparr> else a)"

definition set_worker :: "nat \<Rightarrow> worker_pc \<Rightarrow> async_transport \<Rightarrow> async_transport" where
  "set_worker i pc a = a\<lparr>at_workers := (at_workers a)[i := pc]\<rparr>"

text \<open>A step of send thread \<open>i\<close>; \<open>result\<close> is what the wrapped transport returns, when it is called.\<close>

definition worker_step :: "int \<Rightarrow> nat \<Rightarrow> async_transport \<Rightarrow> async_transport" where
  "worker_step result i a =
    (case at_workers a ! i of
       At_top \<Rightarrow> set_worker i (if at_running a then At_wait else Exited) a
     | At_wait \<Rightarrow>
         (case at_send_queue a of
            [] \<Rightarrow> set_worker i (if at_running a then At_top else Exited) a
          | job # rest \<Rightarrow> set_worker i (Has_job job) (a\<lparr>at_send_queue := rest\<rparr>))
     | Has_job job \<Rightarrow> set_worker i (Has_result job result) (count_sent result a)
     | Has_result job r \<Rightarrow> set_worker i At_top (complete job r (if r > 0 then 0 else - 1) a)
     | Exited \<Rightarrow> a)"

definition stop_request :: "async_transport \<Rightarrow> async_transport" where
  "stop_request a = (if at_running a then a\<lparr>at_running := False, at_stop := Joining\<rparr> else a)"

definition stop_join :: "async_transport \<Rightarrow> async_transport" where
  "stop_join a = a\<lparr>at_workers := [], at_stop := Draining\<rparr>"

definition stop_drain :: "async_transport \<Rightarrow> async_transport" where
  "stop_drain a =
    (fold (\<lambda>job a. complete job (- 1) (- 1) a) (at_send_queue a) a)\<lparr>at_send_queue := [], at_stop := Not_stopping\<rparr>"

text \<open>The steps of the system, each with the jobs it accepts.\<close>

inductive async_step :: "async_transport \<Rightarrow> send_job list \<Rightarrow> async_transport \<Rightarrow> bool" where
  start: "at_stop a = Not_stopping \<Longrightarrow> async_step a [] (async_start a)"
| send: "async_step a [\<lparr>jb_id = at_next_id a, jb_data = data, jb_remote = remote, jb_has_callback = has_cb\<rparr>]
     (async_send data remote has_cb a)"
| sync_send: "async_step a [] (fst (async_send_to result a))"
| recv: "at_running a \<Longrightarrow> async_step a [] (fst (recv_turn n buf from a))"
| handler: "async_step a [] (async_set_recv_handler a)"
| work: "i < length (at_workers a) \<Longrightarrow> at_workers a ! i \<noteq> Exited \<Longrightarrow> async_step a [] (worker_step result i a)"
| request: "async_step a [] (stop_request a)"
| join: "at_stop a = Joining \<Longrightarrow> list_all (\<lambda>w. w = Exited) (at_workers a) \<Longrightarrow> async_step a [] (stop_join a)"
| drain: "at_stop a = Draining \<Longrightarrow> async_step a [] (stop_drain a)"

text \<open>A run from construction, with all jobs accepted so far.\<close>

inductive async_run :: "nat \<Rightarrow> send_job list \<Rightarrow> async_transport \<Rightarrow> bool" for n where
  init: "async_run n [] (async_new n)"
| step: "async_run n jobs a \<Longrightarrow> async_step a js b \<Longrightarrow> async_run n (jobs @ js) b"

inductive_cases async_stepE: "async_step a js b"

datatype async_backend = THREAD_POOL | IO_URING | IOCP | BEST

text \<open>The backend of a build without io_uring on a system other than Windows.\<close>

definition best_async_backend :: async_backend where
  "best_async_backend = THREAD_POOL"

definition create_async_transport :: "async_backend \<Rightarrow> nat \<Rightarrow> async_transport" where
  "create_async_transport backend num_threads = async_new num_threads"

section \<open>Every job is reported once\<close>

fun worker_jobs :: "worker_pc \<Rightarrow> send_job list" where
  "worker_jobs (Has_job job) = [job]"
| "worker_jobs (Has_result job r) = [job]"
| "worker_jobs _ = []"

definition in_flight :: "async_transport \<Rightarrow> send_job list" where
  "in_flight a = at_send_queue a @ concat (map worker_jobs (at_workers a))"

definition cb_ids :: "send_job list \<Rightarrow> nat list" where
  "cb_ids jobs = map jb_id (filter jb_has_callback jobs)"

definition balance :: "async_transport \<Rightarrow> nat multiset" where
  "balance a = mset (cb_ids (in_flight a)) + mset (map fst (at_log a))"

definition async_inv :: "send_job list \<Rightarrow> async_transport \<Rightarrow> bool" where
  "async_inv jobs a \<longleftrightarrow>
     balance a = mset (cb_ids jobs) \<and>
     distinct (map jb_id jobs) \<and> (\<forall>j \<in> set jobs. jb_id j < at_next_id a) \<and>
     (at_stop a = Joining \<longrightarrow> \<not> at_running a) \<and>
     (at_stop a = Draining \<longrightarrow> \<not> at_running a \<and> at_workers a = []) \<and>
     (at_stop a = Not_stopping \<and> \<not> at_running a \<longrightarrow> at_workers a = [])"

lemma cb_ids_append [simp]: "cb_ids (xs @ ys) = cb_ids xs @ cb_ids ys"
  by (simp add: cb_ids_def)

lemma cb_ids_Nil [simp]: "cb_ids [] = []"
  by (simp add: cb_ids_def)

lemma cb_ids_Cons: "cb_ids (j # js) = cb_ids [j] @ cb_ids js"
  by (simp add: cb_ids_def)

definition held :: "worker_pc list \<Rightarrow> nat multiset" where
  "held ws = mset (cb_ids (concat (map worker_jobs ws)))"

lemma held_append: "held (xs @ ys) = held xs + held ys"
  by (simp add: held_def)

lemma held_update:
  assumes "i < length ws"
  shows "held (ws[i := pc]) + mset (cb_ids (worker_jobs (ws ! i))) = held ws + mset (cb_ids (worker_jobs pc))"
proof -
  obtain xs ys where ws: "ws = xs @ ws ! i # ys" "length xs = i" using assms by (metis id_take_nth_drop length_take less_or_eq_imp_le min.absorb2)
  have "ws[i := pc] = xs @ pc # ys" using ws by (metis list_update_length)
  then show ?thesis
    using held_append [of xs "ws ! i # ys"] held_append [of xs "pc # ys"] ws(1) by (simp add: held_def) 
qed

lemma balance_parts:
  "balance a = mset (cb_ids (at_send_queue a)) + held (at_workers a) + mset (map fst (at_log a))"
  by (simp add: balance_def in_flight_def held_def)

lemma complete_frame [simp]:
  "at_send_queue (complete j r e a) = at_send_queue a" "at_workers (complete j r e a) = at_workers a"
  "at_next_id (complete j r e a) = at_next_id a" "at_running (complete j r e a) = at_running a"
  "at_stop (complete j r e a) = at_stop a"
  by (simp_all add: complete_def)

lemma complete_log: "mset (map fst (at_log (complete j r e a))) = mset (map fst (at_log a)) + mset (cb_ids [j])"
  by (simp add: complete_def cb_ids_def)

lemma count_sent_frame [simp]:
  "at_send_queue (count_sent r a) = at_send_queue a" "at_workers (count_sent r a) = at_workers a"
  "at_next_id (count_sent r a) = at_next_id a" "at_running (count_sent r a) = at_running a"
  "at_stop (count_sent r a) = at_stop a" "at_log (count_sent r a) = at_log a"
  by (simp_all add: count_sent_def)

lemma set_worker_frame [simp]:
  "at_send_queue (set_worker i pc a) = at_send_queue a" "at_workers (set_worker i pc a) = (at_workers a)[i := pc]"
  "at_next_id (set_worker i pc a) = at_next_id a" "at_running (set_worker i pc a) = at_running a"
  "at_stop (set_worker i pc a) = at_stop a" "at_log (set_worker i pc a) = at_log a"
  by (simp_all add: set_worker_def)

lemma worker_step_frame:
  "at_next_id (worker_step r i a) = at_next_id a" "at_running (worker_step r i a) = at_running a"
  "at_stop (worker_step r i a) = at_stop a" "length (at_workers (worker_step r i a)) = length (at_workers a)"
  by (simp_all add: worker_step_def split: worker_pc.split list.split)

lemma worker_step_balance:
  assumes "i < length (at_workers a)"
  shows "balance (worker_step r i a) = balance a"
proof (cases "at_workers a ! i")
  case At_top
  then show ?thesis using held_update [OF assms, of "if at_running a then At_wait else Exited"]
    by (simp add: worker_step_def balance_parts split: if_splits)
next
  case At_wait
  show ?thesis
  proof (cases "at_send_queue a")
    case Nil
    then show ?thesis using At_wait held_update [OF assms, of "if at_running a then At_top else Exited"]
      by (simp add: worker_step_def balance_parts split: if_splits)
  next
    case (Cons job rest)
    then show ?thesis using At_wait held_update [OF assms, of "Has_job job"] cb_ids_Cons [of job rest]
      by (simp add: worker_step_def balance_parts)
  qed
next
  case (Has_job job)
  then show ?thesis using held_update [OF assms, of "Has_result job r"] by (simp add: worker_step_def balance_parts)
next
  case (Has_result job q)
  then show ?thesis using held_update [OF assms, of At_top]
    by (simp add: worker_step_def balance_parts) (simp add: complete_log add.commute flip: mset_map)
next
  case Exited
  then show ?thesis by (simp add: worker_step_def)
qed

lemma drain_log:
  "mset (map fst (at_log (fold (\<lambda>job a. complete job r e a) js a))) = mset (map fst (at_log a)) + mset (cb_ids js)"
proof (induction js arbitrary: a)
  case (Cons j js)
  show ?case using Cons [of "complete j r e a"] cb_ids_Cons [of j js] complete_log [of j r e a] by simp
qed simp

lemma drain_frame [simp]:
  "at_workers (fold (\<lambda>job a. complete job r e a) js a) = at_workers a"
  "at_next_id (fold (\<lambda>job a. complete job r e a) js a) = at_next_id a"
  "at_running (fold (\<lambda>job a. complete job r e a) js a) = at_running a"
  by (induction js arbitrary: a) simp_all

lemma held_idle: "held (replicate n At_top) = {#}" "held [] = {#}"
  by (induction n) (simp_all add: held_def)

lemma held_exited: "list_all (\<lambda>w. w = Exited) ws \<Longrightarrow> held ws = {#}"
  by (induction ws) (simp_all add: held_def)

lemma async_inv_step: "async_step a js b \<Longrightarrow> async_inv jobs a \<Longrightarrow> async_inv (jobs @ js) b"
proof (induction rule: async_step.induct)
  case (start a)
  then show ?case by (auto simp: async_start_def async_inv_def balance_parts held_append held_idle)
next
  case (send a data remote has_cb)
  then show ?case by (auto simp: async_send_def async_inv_def balance_parts ac_simps)
next
  case (sync_send a result)
  then show ?case by (simp add: async_send_to_def async_inv_def balance_parts)
next
  case (recv a n buf src)
  then show ?case by (simp add: recv_turn_def async_inv_def balance_parts)
next
  case (handler a)
  then show ?case by (simp add: async_set_recv_handler_def async_inv_def balance_parts)
next
  case (work i a result)
  then show ?case using worker_step_balance [OF work(1), of result] worker_step_frame [of result i a]
    by (auto simp: async_inv_def)
next
  case (request a)
  then show ?case by (auto simp: stop_request_def async_inv_def balance_parts)
next
  case (join a)
  then show ?case by (auto simp: stop_join_def async_inv_def balance_parts held_exited held_idle)
next
  case (drain a)
  then show ?case using drain_log [of "- 1" "- 1" "at_send_queue a" a]
    by (auto simp: stop_drain_def async_inv_def balance_parts held_idle ac_simps)
qed

lemma async_run_inv: "async_run n jobs a \<Longrightarrow> async_inv jobs a"
proof (induction rule: async_run.induct)
  case init
  then show ?case by (simp add: async_inv_def async_new_def balance_parts held_idle)
qed (rule async_inv_step)

section \<open>Stopping\<close>

text \<open>The steps a thread has still to make once the running flag is cleared.\<close>

fun exit_rank :: "worker_pc \<Rightarrow> nat" where
  "exit_rank At_wait = 4"
| "exit_rank (Has_job job) = 3"
| "exit_rank (Has_result job r) = 2"
| "exit_rank At_top = 1"
| "exit_rank Exited = 0"

definition pool_rank :: "async_transport \<Rightarrow> nat" where
  "pool_rank a = sum_list (map exit_rank (at_workers a))"

text \<open>What may run while \<^verbatim>\<open>stop\<close> waits for the threads: their steps, and calls of \<^verbatim>\<open>async_send\<close> by clients.\<close>

datatype stop_op = Work int nat | Client bytes endpoint bool

fun stop_op_step :: "stop_op \<Rightarrow> async_transport \<Rightarrow> async_transport" where
  "stop_op_step (Work result i) a = worker_step result i a"
| "stop_op_step (Client data remote has_cb) a = async_send data remote has_cb a"

fun stop_schedule :: "stop_op list \<Rightarrow> async_transport \<Rightarrow> bool" where
  "stop_schedule [] a = True"
| "stop_schedule (Work result i # ops) a =
    (i < length (at_workers a) \<and> at_workers a ! i \<noteq> Exited \<and> stop_schedule ops (worker_step result i a))"
| "stop_schedule (Client data remote has_cb # ops) a = stop_schedule ops (async_send data remote has_cb a)"

fun work_steps :: "stop_op list \<Rightarrow> nat" where
  "work_steps [] = 0"
| "work_steps (Work result i # ops) = Suc (work_steps ops)"
| "work_steps (Client data remote has_cb # ops) = work_steps ops"

lemma sum_list_update_less:
  assumes "i < length ws" "exit_rank pc < exit_rank (ws ! i)"
  shows "sum_list (map exit_rank (ws[i := pc])) < sum_list (map exit_rank ws)"
proof -
  obtain xs ys where ws: "ws = xs @ ws ! i # ys" "length xs = i"
    using assms(1) by (metis id_take_nth_drop length_take less_or_eq_imp_le min.absorb2)
  then have "ws[i := pc] = xs @ pc # ys" by (metis list_update_length)
  then have "sum_list (map exit_rank (ws[i := pc])) = sum_list (map exit_rank xs) + exit_rank pc + sum_list (map exit_rank ys)"
    by simp
  moreover have "sum_list (map exit_rank ws) = sum_list (map exit_rank xs) + exit_rank (ws ! i) + sum_list (map exit_rank ys)"
    by (subst ws(1)) simp
  ultimately show ?thesis using assms(2) by simp
qed

lemma worker_step_rank:
  assumes "\<not> at_running a" "i < length (at_workers a)" "at_workers a ! i \<noteq> Exited"
  shows "pool_rank (worker_step r i a) < pool_rank a"
  unfolding pool_rank_def worker_step_def using assms
  by (cases "at_workers a ! i") (auto intro!: sum_list_update_less split: list.split)

lemma schedule_bound:
  "\<not> at_running a \<Longrightarrow> stop_schedule ops a \<Longrightarrow> work_steps ops + pool_rank (fold stop_op_step ops a) \<le> pool_rank a"
proof (induction ops arbitrary: a)
  case (Cons op ops)
  show ?case
  proof (cases op)
    case (Work r i)
    then have "work_steps ops + pool_rank (fold stop_op_step ops (worker_step r i a)) \<le> pool_rank (worker_step r i a)"
      using Cons by (simp add: worker_step_frame)
    then show ?thesis using worker_step_rank [of a i r] Cons.prems Work by simp
  next
    case (Client d e c)
    then show ?thesis using Cons.IH [of "async_send d e c a"] Cons.prems by (simp add: async_send_def pool_rank_def)
  qed
qed simp

lemma rank_bound: "sum_list (map exit_rank ws) \<le> 4 * length ws"
proof (induction ws)
  case (Cons w ws)
  have "exit_rank w \<le> 4" by (cases w) simp_all
  then show ?case using Cons by simp
qed simp

lemma schedule_append: "stop_schedule (xs @ ys) a \<longleftrightarrow> stop_schedule xs a \<and> stop_schedule ys (fold stop_op_step xs a)"
  by (induction xs a rule: stop_schedule.induct) simp_all

lemma fold_not_running: "at_running (fold stop_op_step ops a) = at_running a"
proof (induction ops arbitrary: a)
  case (Cons op ops)
  show ?case by (cases op) (simp_all add: Cons worker_step_frame async_send_def)
qed simp

lemma all_exit:
  "\<not> at_running a \<Longrightarrow> \<exists>ops. stop_schedule ops a \<and> list_all (\<lambda>w. w = Exited) (at_workers (fold stop_op_step ops a))"
proof (induction "pool_rank a" arbitrary: a rule: less_induct)
  case less
  show ?case
  proof (cases "list_all (\<lambda>w. w = Exited) (at_workers a)")
    case True
    then show ?thesis by (intro exI [of _ "[]"]) simp
  next
    case False
    then obtain i where i: "i < length (at_workers a)" "at_workers a ! i \<noteq> Exited" by (auto simp: list_all_length)
    let ?b = "worker_step 0 i a"
    obtain ops where "stop_schedule ops ?b" "list_all (\<lambda>w. w = Exited) (at_workers (fold stop_op_step ops ?b))"
      using less(1) [OF worker_step_rank [OF less(2) i]] less(2) by (auto simp: worker_step_frame)
    then show ?thesis using i by (intro exI [of _ "Work 0 i # ops"]) simp
  qed
qed

section \<open>Properties\<close>

text \<open>
  C14. Every queued send is reported exactly once. In every interleaving of the send threads, the clients and
  \<^verbatim>\<open>stop\<close>, no completion callback runs twice or for a job that was not queued, and when \<^verbatim>\<open>stop\<close> drains the queue
  and returns, every job queued before that with a callback has been reported, whether it was sent, failed or was
  still waiting.
\<close>

theorem async_exactly_once:
  assumes "async_run n jobs a"
  shows "distinct (map fst (at_log a)) \<and> set (map fst (at_log a)) \<subseteq> set (cb_ids jobs) \<and>
    (at_stop a = Draining \<longrightarrow>
       distinct (map fst (at_log (stop_drain a))) \<and> set (map fst (at_log (stop_drain a))) = set (cb_ids jobs))"
proof -
  have inv: "async_inv jobs a" by (rule async_run_inv [OF assms])
  have d: "distinct (cb_ids jobs)" using inv by (simp add: async_inv_def cb_ids_def distinct_map_filter)
  have "mset (cb_ids (in_flight a) @ map fst (at_log a)) = mset (cb_ids jobs)"
    using inv by (simp add: async_inv_def balance_def)
  then have "distinct (cb_ids (in_flight a) @ map fst (at_log a))" "set (cb_ids (in_flight a) @ map fst (at_log a)) = set (cb_ids jobs)"
    using d by (metis mset_eq_imp_distinct_iff, metis mset_eq_setD)
  then have "distinct (map fst (at_log a))" "set (map fst (at_log a)) \<subseteq> set (cb_ids jobs)" by auto
  moreover have "distinct (map fst (at_log (stop_drain a))) \<and> set (map fst (at_log (stop_drain a))) = set (cb_ids jobs)"
    if "at_stop a = Draining"
  proof -
    have "at_workers a = []" using inv that by (simp add: async_inv_def)
    then have "mset (map fst (at_log (stop_drain a))) = mset (cb_ids jobs)"
      using inv drain_log [of "- 1" "- 1" "at_send_queue a" a]
      by (simp add: async_inv_def balance_parts held_idle stop_drain_def add.commute)
    then show ?thesis using d by (metis mset_eq_imp_distinct_iff mset_eq_setD)
  qed
  ultimately show ?thesis by blast
qed

theorem async_exactly_once_witness:
  "\<exists>a. at_stop a = Draining \<and> set (map fst (at_log (stop_drain a))) = {0}"
proof -
  let ?ep = "\<lparr>ep_address = [], ep_port = 7\<rparr>"
  let ?a1 = "async_start (async_new 1)"
  let ?a2 = "async_send [5] ?ep True ?a1"
  let ?a3 = "stop_request ?a2"
  let ?a4 = "worker_step 0 0 ?a3"
  let ?a5 = "stop_join ?a4"
  let ?job = "\<lparr>jb_id = at_next_id ?a1, jb_data = [5], jb_remote = ?ep, jb_has_callback = True\<rparr>"
  note defs = async_start_def async_new_def send_threads_def async_send_def stop_request_def worker_step_def set_worker_def stop_join_def
  have "async_run 1 ([] @ []) ?a1" by (rule async_run.step [OF async_run.init async_step.start]) (simp add: async_new_def)
  then have "async_run 1 (([] @ []) @ [?job]) ?a2" by (rule async_run.step [OF _ async_step.send])
  then have "async_run 1 ((([] @ []) @ [?job]) @ []) ?a3" by (rule async_run.step [OF _ async_step.request])
  then have "async_run 1 (((([] @ []) @ [?job]) @ []) @ []) ?a4" by (rule async_run.step [OF _ async_step.work]) (simp_all add: defs)
  then have r: "async_run 1 ((((([] @ []) @ [?job]) @ []) @ []) @ []) ?a5" by (rule async_run.step [OF _ async_step.join]) (simp_all add: defs)
  have d: "at_stop ?a5 = Draining" by (simp add: stop_join_def)
  then have "set (map fst (at_log (stop_drain ?a5))) = set (cb_ids ((((([] @ []) @ [?job]) @ []) @ []) @ []))"
    using async_exactly_once [OF r] by blast
  also have "\<dots> = {0}" by (simp add: cb_ids_def async_start_def async_new_def)
  finally show ?thesis using d by blast
qed

text \<open>
  C27. \<^verbatim>\<open>stop\<close> returns. From the moment it waits for the send threads, these together make at most four times as many
  steps as there are threads, whatever they were doing, whatever the wrapped transport returns and however many jobs clients still queue; and from every
  state on the way all threads can run to their end, which is what \<^verbatim>\<open>stop\<close> waits for.
\<close>

theorem stop_terminates:
  assumes "async_run n jobs a" "at_stop a = Joining" "stop_schedule ops a"
  shows "work_steps ops \<le> 4 * length (at_workers a) \<and>
    (\<exists>more. stop_schedule (ops @ more) a \<and> list_all (\<lambda>w. w = Exited) (at_workers (fold stop_op_step (ops @ more) a)))"
proof -
  have nr: "\<not> at_running a" using async_run_inv [OF assms(1)] assms(2) by (simp add: async_inv_def)
  have "work_steps ops \<le> 4 * length (at_workers a)"
    using schedule_bound [OF nr assms(3)] rank_bound [of "at_workers a"] by (simp add: pool_rank_def)
  moreover obtain more where "stop_schedule more (fold stop_op_step ops a)"
    "list_all (\<lambda>w. w = Exited) (at_workers (fold stop_op_step more (fold stop_op_step ops a)))"
    using all_exit [of "fold stop_op_step ops a"] nr by (auto simp: fold_not_running)
  ultimately show ?thesis using assms(3) by (auto simp: schedule_append)
qed

theorem stop_terminates_witness:
  "\<exists>a more. at_stop a = Joining \<and> length (at_workers a) = 1 \<and>
     list_all (\<lambda>w. w = Exited) (at_workers (fold stop_op_step ([Work 0 0] @ more) a))"
proof -
  let ?a1 = "async_start (async_new 1)"
  let ?a2 = "stop_request ?a1"
  note defs = async_start_def async_new_def send_threads_def stop_request_def
  have "async_run 1 ([] @ []) ?a1" by (rule async_run.step [OF async_run.init async_step.start]) (simp add: async_new_def)
  then have r: "async_run 1 (([] @ []) @ []) ?a2" by (rule async_run.step [OF _ async_step.request])
  have j: "at_stop ?a2 = Joining" "length (at_workers ?a2) = 1" "stop_schedule [Work 0 0] ?a2" by (simp_all add: defs)
  show ?thesis using stop_terminates [OF r j(1,3)] j(1,2) by blast
qed

text \<open>A job queued after \<^verbatim>\<open>stop\<close> has returned stays in the queue: its callback is not called until the next \<^verbatim>\<open>start\<close>.\<close>

lemma send_after_stop:
  assumes "async_run n jobs a" "at_stop a = Not_stopping" "\<not> at_running a"
  shows "at_workers (async_send d e c a) = [] \<and> at_log (stop_request (async_send d e c a)) = at_log a \<and>
    at_send_queue (stop_request (async_send d e c a)) \<noteq> []"
  using async_run_inv [OF assms(1)] assms(2,3) by (simp add: async_inv_def async_send_def stop_request_def)

end
