(* ===== verification/Sockets.thy ===== *)
theory Sockets
  imports Transports "HOL-Library.Multiset"
begin

text \<open>
  The UDP transport (\<^verbatim>\<open>transport/udp_transport.h\<close>, \<^verbatim>\<open>udp_transport.cpp\<close>) as it is compiled for POSIX systems, and the textual
  IPv4 addresses all socket transports share.

  The kernel is outside: the results of the system calls are arguments of an operation, and the operation returns, beside
  its result, the system calls it makes, in order. A datagram that arrives is \<open>Some\<close> of its bytes and its source.
\<close>

section \<open>Addresses\<close>

type_synonym in_addr = "u8 \<times> u8 \<times> u8 \<times> u8"

definition DOT :: u8 where "DOT = 0x2E"

definition INADDR_ANY :: in_addr where "INADDR_ANY = (0, 0, 0, 0)"

definition inet_ntop :: "in_addr \<Rightarrow> bytes" where
  "inet_ntop a =
    (case a of (a1, a2, a3, a4) \<Rightarrow>
       to_digits (unat a1) @ [DOT] @ to_digits (unat a2) @ [DOT] @ to_digits (unat a3) @ [DOT] @ to_digits (unat a4))"

text \<open>
  \<^verbatim>\<open>inet_pton\<close> of the C library reads four decimal numbers up to 255, without leading zeros, separated by dots, and
  stops at the end of the C string. It leaves the target alone when it fails.
\<close>

fun pton_scan :: "bytes \<Rightarrow> nat list \<Rightarrow> nat option \<Rightarrow> in_addr option" where
  "pton_scan [] octets cur =
    (case (octets, cur) of
       ([a, b, c], Some d) \<Rightarrow> Some (of_nat a, of_nat b, of_nat c, of_nat d)
     | _ \<Rightarrow> None)"
| "pton_scan (ch # s) octets cur =
    (if 0x30 \<le> ch \<and> ch \<le> 0x39 then
       (case cur of
          None \<Rightarrow> pton_scan s octets (Some (unat ch - 48))
        | Some v \<Rightarrow> if v = 0 \<or> v * 10 + (unat ch - 48) > 255 then None
                    else pton_scan s octets (Some (v * 10 + (unat ch - 48))))
     else if ch = DOT then
       (case cur of
          None \<Rightarrow> None
        | Some v \<Rightarrow> if length octets = 3 then None else pton_scan s (octets @ [v]) None)
     else None)"

definition inet_pton :: "bytes \<Rightarrow> in_addr option" where
  "inet_pton s = pton_scan (takeWhile (\<lambda>c. c \<noteq> 0) s) [] None"

record sockaddr =
  sa_addr :: in_addr
  sa_port :: u16

definition ANY_TEXT :: bytes where "ANY_TEXT = [0x30, 0x2E, 0x30, 0x2E, 0x30, 0x2E, 0x30]"

text \<open>The address an endpoint is bound to, and the address a datagram is sent to: the result of \<^verbatim>\<open>inet_pton\<close> is not looked at.\<close>

definition bind_addr :: "endpoint \<Rightarrow> sockaddr" where
  "bind_addr local_ep =
    \<lparr>sa_addr = (if ep_address local_ep = [] \<or> ep_address local_ep = ANY_TEXT then INADDR_ANY
                else case inet_pton (ep_address local_ep) of None \<Rightarrow> INADDR_ANY | Some a \<Rightarrow> a),
     sa_port = ep_port local_ep\<rparr>"

definition remote_addr :: "endpoint \<Rightarrow> sockaddr" where
  "remote_addr remote =
    \<lparr>sa_addr = (case inet_pton (ep_address remote) of None \<Rightarrow> INADDR_ANY | Some a \<Rightarrow> a), sa_port = ep_port remote\<rparr>"

definition endpoint_of :: "sockaddr \<Rightarrow> endpoint" where
  "endpoint_of sa = \<lparr>ep_address = inet_ntop (sa_addr sa), ep_port = sa_port sa\<rparr>"

section \<open>The UDP transport\<close>

datatype syscall =
    Sys_socket int
  | Sys_reuseaddr int
  | Sys_bind int sockaddr
  | Sys_close int
  | Sys_sendto int bytes sockaddr
  | Sys_poll int
  | Sys_rcvtimeo int int int
  | Sys_recvfrom int nat

definition INVALID_SOCK :: int where "INVALID_SOCK = - 1"

record udp_transport =
  udp_sock :: int

definition udp_new :: udp_transport where
  "udp_new = \<lparr>udp_sock = INVALID_SOCK\<rparr>"

definition udp_is_open :: "udp_transport \<Rightarrow> bool" where
  "udp_is_open u \<longleftrightarrow> udp_sock u \<noteq> INVALID_SOCK"

definition set_recv_timeout :: "int \<Rightarrow> int \<Rightarrow> syscall list" where
  "set_recv_timeout s timeout_ms =
    (let t = (if timeout_ms < 0 then 0 else timeout_ms) in [Sys_rcvtimeo s (t div 1000) (t mod 1000 * 1000)])"

definition udp_close :: "udp_transport \<Rightarrow> udp_transport \<times> syscall list" where
  "udp_close u =
    (if udp_sock u \<noteq> INVALID_SOCK then (u\<lparr>udp_sock := INVALID_SOCK\<rparr>, [Sys_close (udp_sock u)]) else (u, []))"

definition udp_bind :: "endpoint \<Rightarrow> int \<Rightarrow> int \<Rightarrow> udp_transport \<Rightarrow> udp_transport \<times> bool \<times> syscall list" where
  "udp_bind local_ep socket_ret bind_ret u =
    (let (u1, closing) = (if udp_sock u \<noteq> INVALID_SOCK then udp_close u else (u, []));
         u2 = u1\<lparr>udp_sock := socket_ret\<rparr>
     in if udp_sock u2 = INVALID_SOCK then (u2, False, closing @ [Sys_socket socket_ret])
        else
          let calls = closing @ [Sys_socket socket_ret, Sys_reuseaddr (udp_sock u2), Sys_bind (udp_sock u2) (bind_addr local_ep)]
          in if bind_ret \<noteq> 0
             then let (u3, closing') = udp_close u2 in (u3, False, calls @ closing')
             else (u2, True, calls))"

definition udp_send_to :: "bytes \<Rightarrow> endpoint \<Rightarrow> int \<Rightarrow> udp_transport \<Rightarrow> int \<times> syscall list" where
  "udp_send_to data remote sendto_ret u =
    (if udp_sock u = INVALID_SOCK then (- 1, [])
     else (sendto_ret, [Sys_sendto (udp_sock u) data (remote_addr remote)]))"

text \<open>
  The result with the bytes in the caller's buffer and, when something was received, the source. \<^verbatim>\<open>recvfrom\<close> cuts a datagram
  to the size of the buffer.
\<close>

definition udp_recv_from ::
    "nat \<Rightarrow> int \<Rightarrow> int \<Rightarrow> (bytes \<times> sockaddr) option \<Rightarrow> udp_transport \<Rightarrow> int \<times> bytes \<times> endpoint option \<times> syscall list" where
  "udp_recv_from buf_len timeout_ms poll_ret rx u =
    (if udp_sock u = INVALID_SOCK then (- 1, [], None, [])
     else if timeout_ms = 0 \<and> poll_ret \<le> 0 then (- 1, [], None, [Sys_poll (udp_sock u)])
     else
       let calls = (if timeout_ms = 0 then [Sys_poll (udp_sock u)]
                    else if timeout_ms > 0 then set_recv_timeout (udp_sock u) timeout_ms
                    else set_recv_timeout (udp_sock u) (- 1)) @ [Sys_recvfrom (udp_sock u) buf_len]
       in case rx of
            None \<Rightarrow> (- 1, [], None, calls)
          | Some (data, addr) \<Rightarrow>
              let result = int (length (take buf_len data))
              in (result, take buf_len data, if result > 0 then Some (endpoint_of addr) else None, calls))"

section \<open>Addresses survive printing\<close>

lemma unat_digit: "d < 10 \<Longrightarrow> unat (of_nat (48 + d) :: u8) = 48 + d"
  by (simp add: unat_of_nat take_bit_nat_eq_self del: of_nat_add)

lemma scan_digit:
  assumes "d < 10"
  shows "pton_scan (of_nat (48 + d) # s) octets cur =
    (case cur of
       None \<Rightarrow> pton_scan s octets (Some d)
     | Some v \<Rightarrow> if v = 0 \<or> v * 10 + d > 255 then None else pton_scan s octets (Some (v * 10 + d)))"
proof -
  have "(0x30 :: u8) \<le> of_nat (48 + d)" "(of_nat (48 + d) :: u8) \<le> 0x39"
    using assms unat_digit [OF assms] by (simp_all add: word_le_nat_alt del: of_nat_add)
  then show ?thesis using unat_digit [OF assms] by (simp del: of_nat_add split: option.split)
qed

lemma scan_digits:
  assumes "n < 256"
  shows "pton_scan (to_digits n @ s) octets None = pton_scan s octets (Some n)"
proof -
  consider "n < 10" | "10 \<le> n" "n < 100" | "100 \<le> n" by linarith
  then show ?thesis
  proof cases
    case 1
    then show ?thesis by (simp add: to_digits.simps [of n] scan_digit del: of_nat_add pton_scan.simps)
  next
    case 2
    have "n div 10 < 10" using 2 by simp
    then have "to_digits n = [of_nat (48 + n div 10), of_nat (48 + n mod 10)]"
      using 2 by (simp add: to_digits.simps [of n] to_digits.simps [of "n div 10"])
    moreover have "n div 10 < 10" "n mod 10 < 10" "n div 10 * 10 + n mod 10 = n" "n div 10 \<noteq> 0" using 2 by auto
    ultimately show ?thesis using 2 by (simp add: scan_digit del: of_nat_add pton_scan.simps)
  next
    case 3
    have "\<not> n < 10" "\<not> n div 10 < 10" "n div 10 div 10 < 10" using 3 assms by auto
    then have "to_digits n = [of_nat (48 + n div 10 div 10), of_nat (48 + n div 10 mod 10), of_nat (48 + n mod 10)]"
      by (simp add: to_digits.simps [of n] to_digits.simps [of "n div 10"] to_digits.simps [of "n div 10 div 10"])
    moreover have "n div 10 div 10 < 10" "n div 10 mod 10 < 10" "n mod 10 < 10" "n div 10 div 10 \<noteq> 0" "n div 10 \<noteq> 0"
      using 3 assms by auto
    moreover have "n div 10 div 10 * 10 + n div 10 mod 10 = n div 10" "n div 10 * 10 + n mod 10 = n" by simp_all
    moreover have "n div 10 \<le> 255" using assms by simp
    ultimately show ?thesis using assms by (auto simp: scan_digit simp del: of_nat_add pton_scan.simps)
  qed
qed

lemma scan_dot: "length octets < 3 \<Longrightarrow> pton_scan (DOT # s) octets (Some n) = pton_scan s (octets @ [n]) None"
  by (simp add: DOT_def)

lemma to_digits_nonzero: "list_all (\<lambda>c. c \<noteq> 0) (to_digits n)"
proof (induction n rule: to_digits.induct)
  case (1 n)
  have "(of_nat (48 + d) :: u8) \<noteq> 0" if "d < 10" for d
    using unat_digit [OF that] by (auto simp del: of_nat_add)
  then show ?case using 1 by (simp add: to_digits.simps [of n] del: of_nat_add)
qed

lemma inet_pton_ntop [simp]: "inet_pton (inet_ntop a) = Some a"
proof -
  obtain a1 a2 a3 a4 where a: "a = (a1, a2, a3, a4)" by (metis prod_cases4)
  have b: "unat (b :: u8) < 256" for b using unsigned_less [of b] by simp
  have "list_all (\<lambda>c. c \<noteq> 0) (inet_ntop a)"
    by (simp add: a inet_ntop_def to_digits_nonzero DOT_def)
  then have "inet_pton (inet_ntop a) = pton_scan (inet_ntop a) [] None"
    by (simp add: inet_pton_def list_all_iff takeWhile_eq_all_conv [THEN iffD2])
  moreover have "pton_scan (to_digits (unat a4)) [unat a1, unat a2, unat a3] None = Some a"
    using scan_digits [OF b, of a4 "[]"] by (simp add: a)
  ultimately show ?thesis
    by (simp add: inet_ntop_def a scan_digits [OF b] scan_dot del: pton_scan.simps)
qed

lemma remote_addr_endpoint_of [simp]: "remote_addr (endpoint_of sa) = sa"
  by (simp add: remote_addr_def endpoint_of_def)

section \<open>Descriptors\<close>

text \<open>The operations of a UDP transport, with the answers of the kernel.\<close>

datatype udp_op =
    Udp_Bind endpoint int int
  | Udp_Close
  | Udp_Send bytes endpoint int
  | Udp_Recv nat int int "(bytes \<times> sockaddr) option"

fun udp_step :: "udp_op \<Rightarrow> udp_transport \<Rightarrow> udp_transport \<times> syscall list" where
  "udp_step (Udp_Bind ep s b) u = (let (u', ok, calls) = udp_bind ep s b u in (u', calls))"
| "udp_step Udp_Close u = udp_close u"
| "udp_step (Udp_Send data ep r) u = (u, snd (udp_send_to data ep r u))"
| "udp_step (Udp_Recv n t p rx) u = (u, snd (snd (snd (udp_recv_from n t p rx u))))"

fun udp_run :: "udp_op list \<Rightarrow> udp_transport \<Rightarrow> udp_transport \<times> syscall list" where
  "udp_run [] u = (u, [])"
| "udp_run (op # ops) u = (let (u1, cs) = udp_step op u; (u2, cs') = udp_run ops u1 in (u2, cs @ cs'))"

text \<open>
  What the kernel allows: given the open descriptors, the descriptors open after a system call, or \<open>None\<close> if the call
  names one that is not open. A failed \<^verbatim>\<open>socket\<close> opens nothing.
\<close>

fun open_after :: "syscall \<Rightarrow> int multiset \<Rightarrow> int multiset option" where
  "open_after (Sys_socket s) fds = Some (if s = INVALID_SOCK then fds else add_mset s fds)"
| "open_after (Sys_close s) fds = (if s \<in># fds then Some (fds - {#s#}) else None)"
| "open_after (Sys_reuseaddr s) fds = (if s \<in># fds then Some fds else None)"
| "open_after (Sys_bind s a) fds = (if s \<in># fds then Some fds else None)"
| "open_after (Sys_sendto s d a) fds = (if s \<in># fds then Some fds else None)"
| "open_after (Sys_poll s) fds = (if s \<in># fds then Some fds else None)"
| "open_after (Sys_rcvtimeo s a b) fds = (if s \<in># fds then Some fds else None)"
| "open_after (Sys_recvfrom s n) fds = (if s \<in># fds then Some fds else None)"

fun opens_after :: "syscall list \<Rightarrow> int multiset \<Rightarrow> int multiset option" where
  "opens_after [] fds = Some fds"
| "opens_after (c # cs) fds = Option.bind (open_after c fds) (opens_after cs)"

lemma opens_after_append: "opens_after (cs @ ds) fds = Option.bind (opens_after cs fds) (opens_after ds)"
  by (induction cs arbitrary: fds) (simp_all split: bind_split)

definition udp_held :: "udp_transport \<Rightarrow> int multiset" where
  "udp_held u = (if udp_sock u = INVALID_SOCK then {#} else {#udp_sock u#})"

lemma udp_step_udp_held: "opens_after (snd (udp_step op u)) (udp_held u) = Some (udp_held (fst (udp_step op u)))"
  by (cases op) (auto simp: udp_held_def udp_bind_def udp_close_def udp_send_to_def udp_recv_from_def set_recv_timeout_def Let_def
      split: option.split)

lemma udp_run_held: "opens_after (snd (udp_run ops u)) (udp_held u) = Some (udp_held (fst (udp_run ops u)))"
  by (induction ops arbitrary: u) (simp_all add: split_beta Let_def opens_after_append udp_step_udp_held)

text \<open>
  C30. A UDP transport handles its sockets properly. Whatever is called and whatever the kernel answers, no system call names a descriptor that is not
  open, at most one descriptor is open at a time, it is the one the object holds, and after the destructor's \<^verbatim>\<open>close\<close> none is
  left. And a datagram can be answered: whatever a transport receives, a datagram sent to the endpoint it reports goes to the address it came from.
\<close>

theorem udp_descriptors:
  "opens_after (snd (udp_run ops udp_new)) {#} = Some (udp_held (fst (udp_run ops udp_new))) \<and>
   opens_after (snd (udp_run (ops @ [Udp_Close]) udp_new)) {#} = Some {#} \<and>
   (udp_recv_from n t p (Some (data, addr)) u = (r, got, Some ep, calls) \<longrightarrow>
      snd (udp_send_to reply ep r' u) = [Sys_sendto (udp_sock u) reply addr])"
proof -
  have start: "udp_held udp_new = {#}" by (simp add: udp_held_def udp_new_def)
  have "udp_held (fst (udp_run (ops @ [Udp_Close]) u)) = {#}" for u
    by (induction ops arbitrary: u) (auto simp: split_beta Let_def udp_held_def udp_close_def)
  moreover have "udp_recv_from n t p (Some (data, addr)) u = (r, got, Some ep, calls) \<longrightarrow>
      snd (udp_send_to reply ep r' u) = [Sys_sendto (udp_sock u) reply addr]"
    by (auto simp: udp_recv_from_def udp_send_to_def Let_def split: if_splits)
  ultimately show ?thesis using udp_run_held [of _ udp_new] start by metis
qed

theorem udp_descriptors_witness:
  "let u = fst (udp_run [Udp_Bind \<lparr>ep_address = [], ep_port = 9\<rparr> 5 0] udp_new); a = \<lparr>sa_addr = (10, 0, 0, 255), sa_port = 7\<rparr>;
       ep = \<lparr>ep_address = [49, 48, 46, 48, 46, 48, 46, 50, 53, 53], ep_port = 7\<rparr>
   in opens_after (snd (udp_run [Udp_Bind \<lparr>ep_address = [], ep_port = 9\<rparr> 5 0, Udp_Close] udp_new)) {#} = Some {#} \<and>
      snd (udp_send_to [2] ep 1 u) = [Sys_sendto 5 [2] a]"
proof -
  let ?u = "fst (udp_run [Udp_Bind \<lparr>ep_address = [], ep_port = 9\<rparr> 5 0] udp_new)" and ?a = "\<lparr>sa_addr = (10, 0, 0, 255), sa_port = 7\<rparr>"
  have s: "udp_sock ?u = 5" by (simp add: udp_bind_def udp_new_def INVALID_SOCK_def)
  have "inet_ntop (10, 0, 0, 255) = [49, 48, 46, 48, 46, 48, 46, 50, 53, 53]" by code_simp
  then have "udp_recv_from 100 (- 1) 0 (Some ([1], ?a)) ?u =
      (1, [1], Some \<lparr>ep_address = [49, 48, 46, 48, 46, 48, 46, 50, 53, 53], ep_port = 7\<rparr>,
       set_recv_timeout 5 (- 1) @ [Sys_recvfrom 5 100])"
    using s by (simp add: udp_recv_from_def INVALID_SOCK_def endpoint_of_def)
  then show ?thesis
    using udp_descriptors [of "[Udp_Bind \<lparr>ep_address = [], ep_port = 9\<rparr> 5 0]" 100 "- 1" 0 "[1]" ?a ?u 1 "[1]" _ _ "[2]" 1] s
    by simp
qed

text \<open>An address that is none binds every interface: the result of \<^verbatim>\<open>inet_pton\<close> is ignored.\<close>

lemma bind_bad_address:
  assumes "inet_pton (ep_address ep) = None"
  shows "sa_addr (bind_addr ep) = INADDR_ANY \<and> sa_addr (remote_addr ep) = INADDR_ANY"
  using assms by (simp add: bind_addr_def remote_addr_def)

end
