(* ===== verification/Completion.thy ===== *)
theory Completion
  imports Sockets
begin

text \<open>
  The two transports that work on a completion queue of the kernel: io_uring on Linux (\<^verbatim>\<open>transport/iouring_transport.h\<close>,
  \<^verbatim>\<open>iouring_transport.cpp\<close>, compiled with \<^verbatim>\<open>PROTOCOLL_ENABLE_IOURING\<close>) and I/O completion ports on Windows
  (\<^verbatim>\<open>transport/iocp_transport.h\<close>, \<^verbatim>\<open>iocp_transport.cpp\<close>).

  An operation object is allocated by the code, handed to the kernel, and comes back with its completion; \<open>iu_ring\<close> and
  \<open>ic_port\<close> hold the objects the kernel has. An object is named by the order of its allocation. The answers of the kernel
  (a free submission entry, the result of a call, which operation completes and how) are arguments. A thread is at the head of
  its loop, waiting for a completion, about to submit, or ended; between its steps other threads run. Callbacks are returned as events.

  The locale \<open>completion_port\<close> is what both promise: each send that was accepted with a callback is reported, or with the
  kernel, or was with it when the queue was closed or replaced; and only one of these.
\<close>

section \<open>Reports of sends\<close>

fun machine_run :: "('i \<Rightarrow> 's \<Rightarrow> 's \<times> nat list) \<Rightarrow> 'i list \<Rightarrow> 's \<Rightarrow> 's \<times> nat list" where
  "machine_run step [] s = (s, [])"
| "machine_run step (i # is) s = (let (s1, rs) = step i s; (s2, rs') = machine_run step is s1 in (s2, rs @ rs'))"



datatype io_worker = At_head | Waiting | Submitting | Ended

datatype io_event =
    Io_sent nat int int
  | Io_received bytes endpoint int

section \<open>io_uring\<close>

datatype uring_op_type = UOP_RECV | UOP_SEND

record uring_op =
  uo_id :: nat
  uo_type :: uring_op_type
  uo_data :: bytes
  uo_addr :: sockaddr
  uo_has_cb :: bool

record iouring_transport =
  iu_queue_depth :: u32
  iu_running :: bool
  iu_recv_handler :: bool
  iu_sock_fd :: int
  iu_local_ep :: endpoint
  iu_recv_ops :: "nat list"
  iu_ring_initialized :: bool
  iu_packets_sent :: u64
  iu_packets_received :: u64
  iu_bytes_sent :: u64
  iu_bytes_received :: u64
  iu_thread :: io_worker
  iu_sq :: "uring_op list"
  iu_ring :: "uring_op list"
  iu_next_op :: nat

definition iouring_new :: "u32 \<Rightarrow> iouring_transport" where
  "iouring_new queue_depth =
    \<lparr>iu_queue_depth = queue_depth, iu_running = False, iu_recv_handler = False, iu_sock_fd = - 1,
     iu_local_ep = \<lparr>ep_address = [], ep_port = 0\<rparr>, iu_recv_ops = [], iu_ring_initialized = False, iu_packets_sent = 0,
     iu_packets_received = 0, iu_bytes_sent = 0, iu_bytes_received = 0, iu_thread = Ended,
     iu_sq = [], iu_ring = [], iu_next_op = 0\<rparr>"

text \<open>
  A new ring takes the place of an old one and of the operations in it. \<open>iu_sq\<close> holds the entries that are prepared and not
  yet submitted.
\<close>

definition iouring_bind ::
    "endpoint \<Rightarrow> int \<Rightarrow> int \<Rightarrow> int \<Rightarrow> iouring_transport \<Rightarrow> iouring_transport \<times> bool \<times> syscall list" where
  "iouring_bind local_ep socket_ret bind_ret queue_ret t =
    (let t1 = t\<lparr>iu_sock_fd := socket_ret\<rparr>
     in if socket_ret < 0 then (t1, False, [Sys_socket socket_ret])
        else
          let calls = [Sys_socket socket_ret, Sys_bind socket_ret (bind_addr local_ep)]
          in if bind_ret < 0 then (t1\<lparr>iu_sock_fd := - 1\<rparr>, False, calls @ [Sys_close socket_ret])
             else if queue_ret < 0
             then (t1\<lparr>iu_local_ep := local_ep, iu_sock_fd := - 1\<rparr>, False, calls @ [Sys_close socket_ret])
             else (t1\<lparr>iu_local_ep := local_ep, iu_ring_initialized := True, iu_sq := [], iu_ring := []\<rparr>, True, calls))"

text \<open>\<^verbatim>\<open>io_uring_submit\<close>, whichever thread calls it, gives all prepared entries to the kernel.\<close>

definition iouring_submit :: "iouring_transport \<Rightarrow> iouring_transport" where
  "iouring_submit t = t\<lparr>iu_ring := iu_ring t @ iu_sq t, iu_sq := []\<rparr>"

definition recv_op :: "nat \<Rightarrow> uring_op" where
  "recv_op k = \<lparr>uo_id = k, uo_type = UOP_RECV, uo_data = [], uo_addr = \<lparr>sa_addr = INADDR_ANY, sa_port = 0\<rparr>, uo_has_cb = False\<rparr>"

text \<open>\<open>sqe i\<close> tells whether there is a submission entry for the \<open>i\<close>-th receive operation.\<close>

definition iouring_start_prepare :: "(nat \<Rightarrow> bool) \<Rightarrow> iouring_transport \<Rightarrow> iouring_transport" where
  "iouring_start_prepare sqe t =
    (let n = min (unat (iu_queue_depth t)) 64; ops = [iu_next_op t..<iu_next_op t + n]
     in t\<lparr>iu_running := True, iu_recv_ops := ops, iu_next_op := iu_next_op t + n,
          iu_sq := iu_sq t @ map recv_op (filter (\<lambda>k. sqe (k - iu_next_op t)) ops)\<rparr>)"

definition iouring_start_thread :: "iouring_transport \<Rightarrow> iouring_transport" where
  "iouring_start_thread t = t\<lparr>iu_thread := At_head\<rparr>"

definition iouring_start :: "(nat \<Rightarrow> bool) \<Rightarrow> iouring_transport \<Rightarrow> iouring_transport" where
  "iouring_start sqe t =
    (if iu_running t then t else iouring_start_thread (iouring_submit (iouring_start_prepare sqe t)))"

text \<open>
  \<^verbatim>\<open>stop\<close> asks the event thread to end and wakes it with an operation without data, if there is an entry for it; then it waits for the
  thread and frees the receive operations.
\<close>

definition iouring_stop_request :: "bool \<Rightarrow> iouring_transport \<Rightarrow> iouring_transport" where
  "iouring_stop_request sqe t =
    (if \<not> iu_running t then t
     else let t1 = t\<lparr>iu_running := False\<rparr> in if iu_ring_initialized t1 \<and> sqe then iouring_submit t1 else t1)"

definition iouring_stop_join :: "iouring_transport \<Rightarrow> iouring_transport" where
  "iouring_stop_join t = t\<lparr>iu_recv_ops := []\<rparr>"

text \<open>The rest of \<^verbatim>\<open>close\<close>, after \<^verbatim>\<open>stop\<close>. Leaving the ring cancels what is in it.\<close>

definition iouring_close :: "iouring_transport \<Rightarrow> iouring_transport \<times> syscall list" where
  "iouring_close t =
    (let (t2, calls) = (if iu_sock_fd t \<ge> 0 then (t\<lparr>iu_sock_fd := - 1\<rparr>, [Sys_close (iu_sock_fd t)]) else (t, []))
     in (if iu_ring_initialized t2 then t2\<lparr>iu_ring_initialized := False, iu_sq := [], iu_ring := []\<rparr> else t2, calls))"

definition iouring_set_recv_handler :: "iouring_transport \<Rightarrow> iouring_transport" where
  "iouring_set_recv_handler t = t\<lparr>iu_recv_handler := True\<rparr>"

text \<open>\<^verbatim>\<open>async_send\<close> prepares an entry and submits it, or reports that there is none.\<close>

definition iouring_send_prepare ::
    "bytes \<Rightarrow> endpoint \<Rightarrow> bool \<Rightarrow> bool \<Rightarrow> iouring_transport \<Rightarrow> iouring_transport \<times> io_event list" where
  "iouring_send_prepare data remote has_cb sqe t =
    (let op = \<lparr>uo_id = iu_next_op t, uo_type = UOP_SEND, uo_data = take (min (length data) MAX_PACKET_SIZE) data,
               uo_addr = remote_addr remote, uo_has_cb = has_cb\<rparr>;
         t1 = t\<lparr>iu_next_op := iu_next_op t + 1\<rparr>
     in if sqe then (t1\<lparr>iu_sq := iu_sq t1 @ [op]\<rparr>, [])
        else (t1, if has_cb then [Io_sent (uo_id op) (- 1) (- 1)] else []))"

definition iouring_async_send ::
    "bytes \<Rightarrow> endpoint \<Rightarrow> bool \<Rightarrow> bool \<Rightarrow> iouring_transport \<Rightarrow> iouring_transport \<times> io_event list" where
  "iouring_async_send data remote has_cb sqe t =
    (let (t1, events) = iouring_send_prepare data remote has_cb sqe t in (if sqe then iouring_submit t1 else t1, events))"

definition iouring_send_to :: "bytes \<Rightarrow> endpoint \<Rightarrow> int \<Rightarrow> iouring_transport \<Rightarrow> iouring_transport \<times> int \<times> syscall list" where
  "iouring_send_to data remote result t =
    (if iu_sock_fd t < 0 then (t, - 1, [])
     else (if result > 0
           then t\<lparr>iu_packets_sent := iu_packets_sent t + 1, iu_bytes_sent := iu_bytes_sent t + of_int result\<rparr>
           else t, result, [Sys_sendto (iu_sock_fd t) data (remote_addr remote)]))"

text \<open>
  The steps of \<^verbatim>\<open>event_loop\<close>: its condition, and the completion of the \<open>k\<close>-th operation in the ring or of none (a failed
  wait, or the operation without data that \<^verbatim>\<open>stop\<close> submits). \<open>data\<close> and \<open>addr\<close> are what a receive operation received; it is
  prepared again, and submitted by the next step.
\<close>

definition iouring_head :: "iouring_transport \<Rightarrow> iouring_transport" where
  "iouring_head t = (if iu_thread t = At_head then t\<lparr>iu_thread := (if iu_running t then Waiting else Ended)\<rparr> else t)"

definition iouring_event ::
    "nat \<Rightarrow> int \<Rightarrow> bytes \<Rightarrow> sockaddr \<Rightarrow> bool \<Rightarrow> iouring_transport \<Rightarrow> iouring_transport \<times> io_event list" where
  "iouring_event k result data addr sqe t =
    (if iu_thread t \<noteq> Waiting then (t, [])
     else if length (iu_ring t) \<le> k then (t\<lparr>iu_thread := At_head\<rparr>, [])
     else
       let op = iu_ring t ! k;
           t1 = t\<lparr>iu_thread := At_head, iu_ring := take k (iu_ring t) @ drop (Suc k) (iu_ring t)\<rparr>
       in case uo_type op of
            UOP_RECV \<Rightarrow>
              (let t2 = (if result > 0
                         then t1\<lparr>iu_packets_received := iu_packets_received t1 + 1,
                                 iu_bytes_received := iu_bytes_received t1 + of_int result\<rparr>
                         else t1);
                   events = (if result > 0 \<and> iu_recv_handler t1
                             then [Io_received (take (nat result) data) (endpoint_of addr) 0] else [])
               in (if iu_running t2 \<and> sqe then t2\<lparr>iu_sq := iu_sq t2 @ [op], iu_thread := Submitting\<rparr> else t2, events))
          | UOP_SEND \<Rightarrow>
              (if result > 0
               then t1\<lparr>iu_packets_sent := iu_packets_sent t1 + 1, iu_bytes_sent := iu_bytes_sent t1 + of_int result\<rparr>
               else t1,
               if uo_has_cb op
               then [Io_sent (uo_id op) (if result > 0 then result else - 1) (if result > 0 then 0 else - 1)] else []))"

definition iouring_event_submit :: "iouring_transport \<Rightarrow> iouring_transport" where
  "iouring_event_submit t = (if iu_thread t = Submitting then (iouring_submit t)\<lparr>iu_thread := At_head\<rparr> else t)"

section \<open>Completion ports\<close>

datatype io_op_type = IOP_RECV | IOP_SEND | IOP_QUIT

record io_operation =
  io_id :: nat
  io_type :: io_op_type
  io_data :: bytes
  io_has_cb :: bool

record iocp_transport =
  ic_num_workers :: nat
  ic_running :: bool
  ic_iocp :: int
  ic_sock :: int
  ic_local_ep :: endpoint
  ic_recv_ops :: "nat list"
  ic_workers :: "io_worker list"
  ic_recv_handler :: bool
  ic_packets_sent :: u64
  ic_packets_received :: u64
  ic_bytes_sent :: u64
  ic_bytes_received :: u64
  ic_port :: "io_operation list"
  ic_sentinels :: nat
  ic_next_op :: nat

definition INVALID_HANDLE_VALUE :: int where "INVALID_HANDLE_VALUE = - 1"

definition INVALID_SOCKET :: int where "INVALID_SOCKET = - 1"


text \<open>
  \<open>port_ret\<close> and \<open>assoc_ret\<close> are what \<^verbatim>\<open>CreateIoCompletionPort\<close> returns, a handle or NULL (0). A new port takes the place of
  an old one and of what is queued there.
\<close>

definition iocp_bind ::
    "endpoint \<Rightarrow> int \<Rightarrow> int \<Rightarrow> int \<Rightarrow> int \<Rightarrow> iocp_transport \<Rightarrow> iocp_transport \<times> bool \<times> syscall list" where
  "iocp_bind local_ep socket_ret bind_ret port_ret assoc_ret t =
    (let t1 = t\<lparr>ic_sock := socket_ret\<rparr>
     in if socket_ret = INVALID_SOCKET then (t1, False, [Sys_socket socket_ret])
        else
          let calls = [Sys_socket socket_ret, Sys_bind socket_ret (bind_addr local_ep)];
              failed = [Sys_close socket_ret]
          in if bind_ret = - 1 then (t1\<lparr>ic_sock := INVALID_SOCKET\<rparr>, False, calls @ failed)
             else
               let t2 = t1\<lparr>ic_local_ep := local_ep, ic_iocp := port_ret, ic_port := [], ic_sentinels := 0\<rparr>
               in if port_ret = INVALID_HANDLE_VALUE then (t2\<lparr>ic_sock := INVALID_SOCKET\<rparr>, False, calls @ failed)
                  else if assoc_ret = 0
                  then (t2\<lparr>ic_iocp := INVALID_HANDLE_VALUE, ic_sock := INVALID_SOCKET\<rparr>, False, calls @ failed)
                  else (t2, True, calls))"







text \<open>What \<^verbatim>\<open>GetQueuedCompletionStatus\<close> gives a worker: nothing in time, a sentinel, or the \<open>k\<close>-th operation.\<close>

datatype completion = No_completion | Sentinel | Completed nat bool nat bytes sockaddr bool

definition iocp_complete ::
    "nat \<Rightarrow> bool \<Rightarrow> nat \<Rightarrow> bytes \<Rightarrow> sockaddr \<Rightarrow> bool \<Rightarrow> iocp_transport \<Rightarrow> iocp_transport \<times> io_event list" where
  "iocp_complete k success n data addr posted t =
    (let op = ic_port t ! k; t1 = t\<lparr>ic_port := take k (ic_port t) @ drop (Suc k) (ic_port t)\<rparr>; ok = (success \<and> n > 0)
     in case io_type op of
          IOP_RECV \<Rightarrow>
            (let t2 = (if ok
                       then t1\<lparr>ic_packets_received := ic_packets_received t1 + 1,
                               ic_bytes_received := ic_bytes_received t1 + of_nat n\<rparr>
                       else t1)
             in (if ic_running t2 \<and> posted then t2\<lparr>ic_port := ic_port t2 @ [op]\<rparr> else t2,
                 if ok \<and> ic_recv_handler t1 then [Io_received (take n data) (endpoint_of addr) 0] else []))
        | IOP_SEND \<Rightarrow>
            (if ok
             then t1\<lparr>ic_packets_sent := ic_packets_sent t1 + 1, ic_bytes_sent := ic_bytes_sent t1 + of_nat n\<rparr>
             else t1,
             if io_has_cb op then [Io_sent (io_id op) (if success then int n else - 1) (if success then 0 else - 1)] else [])
        | IOP_QUIT \<Rightarrow> (t1, []))"

text \<open>The steps of worker \<open>w\<close>: the condition of its loop, and what it does with a completion.\<close>

definition iocp_worker_head :: "nat \<Rightarrow> iocp_transport \<Rightarrow> iocp_transport" where
  "iocp_worker_head w t =
    (if w < length (ic_workers t) \<and> ic_workers t ! w = At_head
     then t\<lparr>ic_workers := (ic_workers t)[w := (if ic_running t then Waiting else Ended)]\<rparr> else t)"

definition iocp_worker_step :: "nat \<Rightarrow> completion \<Rightarrow> iocp_transport \<Rightarrow> iocp_transport \<times> io_event list" where
  "iocp_worker_step w c t =
    (if length (ic_workers t) \<le> w \<or> ic_workers t ! w \<noteq> Waiting then (t, [])
     else
       let t1 = t\<lparr>ic_workers := (ic_workers t)[w := At_head]\<rparr>
       in case c of
            No_completion \<Rightarrow> (t1, [])
          | Sentinel \<Rightarrow>
              if ic_sentinels t = 0 then (t1, [])
              else (t\<lparr>ic_workers := (ic_workers t)[w := Ended], ic_sentinels := ic_sentinels t - 1\<rparr>, [])
          | Completed k success n data addr posted \<Rightarrow>
              if length (ic_port t) \<le> k then (t1, []) else iocp_complete k success n data addr posted t1)"


section \<open>Both keep the contract\<close>

definition sent_ids :: "io_event list \<Rightarrow> nat list" where
  "sent_ids es = List.map_filter (\<lambda>e. case e of Io_sent k n err \<Rightarrow> Some k | Io_received d ep err \<Rightarrow> None) es"

lemma sent_ids_simps [simp]:
  "sent_ids [] = []" "sent_ids (Io_sent k n err # es) = k # sent_ids es" "sent_ids (Io_received d ep err # es) = sent_ids es"
  by (simp_all add: sent_ids_def List.map_filter_def)

lemma mset_take_drop: "k < length xs \<Longrightarrow> add_mset (xs ! k) (mset (take k xs @ drop (Suc k) xs)) = mset xs"
  by (metis add_mset_add_single id_take_nth_drop mset.simps(2) mset_append union_mset_add_mset_right)


text \<open>
  The inputs of the io_uring machine: calls of clients and what the event thread does, in any order. Between preparing an entry and
  submitting it other threads run, and may submit it themselves. That \<^verbatim>\<open>io_uring_get_sqe\<close> and the filling of the entry are not
  interrupted is assumed: liburing asks it of its callers. Preparing an entry of a ring that \<^verbatim>\<open>bind\<close> has not
  initialised is undefined, and no part of a run.
\<close>

datatype uring_input =
    Uring_Bind endpoint int int int
  | Uring_Start_prepare "nat \<Rightarrow> bool"
  | Uring_Start_thread
  | Uring_Stop_request bool
  | Uring_Stop_join
  | Uring_Close
  | Uring_Handler
  | Uring_Send_prepare bytes endpoint bool bool
  | Uring_Submit
  | Uring_Send_to bytes endpoint int
  | Uring_Head
  | Uring_Event nat int bytes sockaddr bool
  | Uring_Event_submit

fun uring_step :: "uring_input \<Rightarrow> iouring_transport \<Rightarrow> iouring_transport \<times> nat list" where
  "uring_step (Uring_Bind ep s b q) t = (fst (iouring_bind ep s b q t), [])"
| "uring_step (Uring_Start_prepare sqe) t =
    (if \<not> iu_ring_initialized t \<or> iu_running t then (t, []) else (iouring_start_prepare sqe t, []))"
| "uring_step Uring_Start_thread t = (iouring_start_thread t, [])"
| "uring_step (Uring_Stop_request sqe) t = (iouring_stop_request sqe t, [])"
| "uring_step Uring_Stop_join t = (iouring_stop_join t, [])"
| "uring_step Uring_Close t = (fst (iouring_close t), [])"
| "uring_step Uring_Handler t = (iouring_set_recv_handler t, [])"
| "uring_step (Uring_Send_prepare d ep cb sqe) t =
    (if \<not> iu_ring_initialized t then (t, []) else let (t', es) = iouring_send_prepare d ep cb sqe t in (t', sent_ids es))"
| "uring_step Uring_Submit t = (iouring_submit t, [])"
| "uring_step (Uring_Send_to d ep r) t = (fst (iouring_send_to d ep r t), [])"
| "uring_step Uring_Head t = (iouring_head t, [])"
| "uring_step (Uring_Event k r d a sqe) t = (let (t', es) = iouring_event k r d a sqe t in (t', sent_ids es))"
| "uring_step Uring_Event_submit t = (iouring_event_submit t, [])"





lemma uring_event_next [simp]: "iu_next_op (fst (iouring_event k r d a sqe t)) = iu_next_op t"
  by (simp add: iouring_event_def Let_def split: uring_op_type.split)

lemmas uring_call_defs = iouring_bind_def iouring_start_prepare_def iouring_start_thread_def iouring_stop_request_def
  iouring_stop_join_def iouring_close_def iouring_set_recv_handler_def iouring_send_prepare_def iouring_submit_def
  iouring_send_to_def iouring_head_def iouring_event_submit_def









lemma iocp_worker_next [simp]: "ic_next_op (fst (iocp_worker_step w c t)) = ic_next_op t"
  by (simp add: iocp_worker_step_def iocp_complete_def Let_def split: completion.split io_op_type.split)



section \<open>Properties\<close>















text \<open>Stopping the workers of a completion port: every step of a worker that has not ended brings the end nearer, whatever it is given.\<close>

fun worker_rank :: "io_worker \<Rightarrow> nat" where
  "worker_rank Ended = 0" | "worker_rank At_head = 1" | "worker_rank Waiting = 2" | "worker_rank Submitting = 2"

definition pool_ranks :: "iocp_transport \<Rightarrow> nat" where
  "pool_ranks t = sum_list (map worker_rank (ic_workers t))"

lemma rank_update:
  assumes "w < length ws" "worker_rank x < worker_rank (ws ! w)"
  shows "sum_list (map worker_rank (ws[w := x])) < sum_list (map worker_rank ws)"
  using assms elem_le_sum_list [of w "map worker_rank ws"] by (simp add: map_update sum_list_update)

lemma iocp_stop_progress:
  assumes "\<not> ic_running t" "w < length (ic_workers t)"
  shows "ic_workers t ! w = Waiting \<Longrightarrow> pool_ranks (fst (iocp_worker_step w c t)) < pool_ranks t"
    and "ic_workers t ! w = At_head \<Longrightarrow> pool_ranks (iocp_worker_head w t) < pool_ranks t"
    and "pool_ranks t = 0 \<longleftrightarrow> (\<forall>w \<in> set (ic_workers t). w = Ended)"
proof -
  have r: "worker_rank x = 0 \<longleftrightarrow> x = Ended" for x by (cases x) auto
  have "ic_workers (fst (iocp_complete k s n d a p t')) = ic_workers t'" for k s n d a p t'
    by (simp add: iocp_complete_def Let_def split: io_op_type.split)
  then show "ic_workers t ! w = Waiting \<Longrightarrow> pool_ranks (fst (iocp_worker_step w c t)) < pool_ranks t"
    using assms rank_update [of w "ic_workers t"]
    by (auto simp: iocp_worker_step_def pool_ranks_def Let_def split: completion.split)
  show "ic_workers t ! w = At_head \<Longrightarrow> pool_ranks (iocp_worker_head w t) < pool_ranks t"
    using assms rank_update [of w "ic_workers t" Ended] by (simp add: iocp_worker_head_def pool_ranks_def)
  show "pool_ranks t = 0 \<longleftrightarrow> (\<forall>w \<in> set (ic_workers t). w = Ended)" by (simp add: pool_ranks_def r)
qed

text \<open>
  Stopping frees the receive operations while the kernel still has them. After a restart the first completion can be one
  of these: its buffer and address, read by the event loop, belong to an operation that is no longer allocated.
\<close>

lemma uring_use_after_stop:
  fixes ep :: endpoint
  defines "stopped \<equiv> machine_run uring_step
      [Uring_Bind ep 3 0 0, Uring_Handler, Uring_Start_prepare (\<lambda>i. True), Uring_Submit, Uring_Start_thread, Uring_Head,
       Uring_Stop_request True, Uring_Event 2 0 [] \<lparr>sa_addr = INADDR_ANY, sa_port = 0\<rparr> True, Uring_Head, Uring_Stop_join] (iouring_new 2)"
  defines "t \<equiv> iouring_head (iouring_start (\<lambda>i. True) (fst stopped))"
  shows "iu_thread (fst stopped) = Ended \<and> uo_id (iu_ring t ! 0) \<notin> set (iu_recv_ops t) \<and>
    snd (iouring_event 0 1 [7] a True t) = [Io_received [7] (endpoint_of a) 0]"
  by (simp add: stopped_def t_def iouring_new_def uring_call_defs iouring_start_def iouring_event_def recv_op_def upt_rec)

text \<open>A second \<^verbatim>\<open>bind\<close> forgets the first socket without closing it.\<close>

lemma uring_bind_leaks:
  fixes d :: u32 and ep :: endpoint
  assumes "0 \<le> s1" "0 \<le> s2"
  defines "b1 \<equiv> iouring_bind ep s1 0 0 (iouring_new d)"
  defines "b2 \<equiv> iouring_bind ep s2 0 0 (fst b1)"
  shows "opens_after (snd (snd b1) @ snd (snd b2) @ snd (iouring_close (fst b2))) {#} = Some {#s1#}"
  using assms(1,2) by (auto simp: b1_def b2_def iouring_bind_def iouring_close_def INVALID_SOCK_def)

text \<open>A receive operation that finds no submission entry is not submitted again, and only a restart replaces it.\<close>

definition recv_count :: "iouring_transport \<Rightarrow> nat" where
  "recv_count t = length (filter (\<lambda>op. uo_type op = UOP_RECV) (iu_ring t @ iu_sq t))"

lemma recv_count_event: "recv_count (fst (iouring_event k r d a sqe t)) \<le> recv_count t"
proof (cases "iu_thread t = Waiting \<and> k < length (iu_ring t)")
  case True
  then have k: "k < length (iu_ring t)" by simp
  define rest where "rest = take k (iu_ring t) @ drop (Suc k) (iu_ring t)"
  have "size (filter_mset (\<lambda>op. uo_type op = UOP_RECV) (mset (iu_ring t))) =
      size (filter_mset (\<lambda>op. uo_type op = UOP_RECV) (add_mset (iu_ring t ! k) (mset rest)))"
    unfolding rest_def using mset_take_drop [OF k] by simp
  then have "length (filter (\<lambda>op. uo_type op = UOP_RECV) (iu_ring t)) =
      length (filter (\<lambda>op. uo_type op = UOP_RECV) rest) + (if uo_type (iu_ring t ! k) = UOP_RECV then 1 else 0)"
    by (simp flip: mset_filter)
  moreover have "iu_ring (fst (iouring_event k r d a sqe t)) = rest \<and>
      (iu_sq (fst (iouring_event k r d a sqe t)) = iu_sq t \<or>
       iu_sq (fst (iouring_event k r d a sqe t)) = iu_sq t @ [iu_ring t ! k] \<and> uo_type (iu_ring t ! k) = UOP_RECV)"
    using True by (cases "uo_type (iu_ring t ! k)") (simp_all add: iouring_event_def rest_def Let_def)
  ultimately show ?thesis by (auto simp: recv_count_def)
qed (auto simp: iouring_event_def recv_count_def)

lemma uring_recv_ops_shrink:
  assumes "\<forall>sqe. i \<noteq> Uring_Start_prepare sqe"
  shows "recv_count (fst (uring_step i t)) \<le> recv_count t"
proof (cases i)
  case (Uring_Event k r d a sqe)
  show ?thesis using recv_count_event [of k r d a sqe t] by (simp add: Uring_Event split_beta)
qed (use assms in \<open>simp_all add: split_beta Let_def uring_call_defs recv_count_def\<close>)

text \<open>
  \<^verbatim>\<open>CreateIoCompletionPort\<close> reports a failure by NULL; the first check compares with another value, and \<^verbatim>\<open>bind\<close> reports success
  with no port.
\<close>

lemma iocp_null_port_accepted:
  assumes "s \<noteq> INVALID_SOCKET" "assoc \<noteq> 0"
  shows "case iocp_bind ep s 0 0 assoc t of (t', ok, calls) \<Rightarrow> ok \<and> ic_iocp t' = 0"
  using assms by (simp add: iocp_bind_def INVALID_HANDLE_VALUE_def Let_def)

end
