(* ===== verification/Dpdk.thy ===== *)
theory Dpdk
  imports Sockets
begin

text \<open>
  The kernel-bypass transport (\<^verbatim>\<open>transport/dpdk_transport.h\<close>, \<^verbatim>\<open>dpdk_transport.cpp\<close>, compiled with \<^verbatim>\<open>PROTOCOLL_ENABLE_DPDK\<close>),
  which writes Ethernet, IPv4 and UDP headers itself.

  DPDK is outside: the results of its calls are arguments, and so is the IPv4 checksum, a function of the header. A write
  behind the end of a packet buffer is \<open>None\<close>.
\<close>

section \<open>Configuration\<close>

record dpdk_config =
  dk_port_id :: u16
  dk_nb_rx_desc :: u16
  dk_nb_tx_desc :: u16
  dk_mbuf_pool_size :: u32
  dk_mbuf_cache_size :: u32
  dk_burst_size :: u16
  dk_src_mac :: bytes
  dk_src_ip :: bytes

definition dpdk_config_default :: dpdk_config where
  "dpdk_config_default =
    \<lparr>dk_port_id = 0, dk_nb_rx_desc = 1024, dk_nb_tx_desc = 1024, dk_mbuf_pool_size = 8192, dk_mbuf_cache_size = 256,
     dk_burst_size = 32, dk_src_mac = [], dk_src_ip = []\<rparr>"

record dpdk_impl =
  di_mbuf_pool :: bool
  di_port_id :: u16
  di_src_mac :: bytes
  di_src_ip :: in_addr
  di_src_port :: u16

record dpdk_transport =
  dp_config :: dpdk_config
  dp_bound :: bool
  dp_packets_sent :: u64
  dp_packets_received :: u64
  dp_bytes_sent :: u64
  dp_bytes_received :: u64
  dp_rx_drops :: u64
  dp_tx_drops :: u64
  dp_impl :: dpdk_impl
  dp_local_ep :: endpoint

definition dpdk_new :: "dpdk_config \<Rightarrow> dpdk_transport" where
  "dpdk_new config =
    \<lparr>dp_config = config, dp_bound = False, dp_packets_sent = 0, dp_packets_received = 0, dp_bytes_sent = 0,
     dp_bytes_received = 0, dp_rx_drops = 0, dp_tx_drops = 0,
     dp_impl = \<lparr>di_mbuf_pool = False, di_port_id = 0, di_src_mac = replicate 6 0, di_src_ip = INADDR_ANY, di_src_port = 0\<rparr>,
     dp_local_ep = \<lparr>ep_address = [], ep_port = 0\<rparr>\<rparr>"

text \<open>
  The conversion \<^verbatim>\<open>%x\<close> of \<^verbatim>\<open>sscanf\<close>: white space, an optional sign and prefix, hexadecimal digits. The C standard does not
  define the result for more than 32 bits; here it wraps.
\<close>

definition hex_value :: "u8 \<Rightarrow> nat option" where
  "hex_value c =
    (if 0x30 \<le> c \<and> c \<le> 0x39 then Some (unat c - 0x30)
     else if 0x41 \<le> c \<and> c \<le> 0x46 then Some (unat c - 0x37)
     else if 0x61 \<le> c \<and> c \<le> 0x66 then Some (unat c - 0x57)
     else None)"

definition is_space :: "u8 \<Rightarrow> bool" where
  "is_space c \<longleftrightarrow> c = 0x20 \<or> (0x09 \<le> c \<and> c \<le> 0x0D)"

definition strip_0x :: "bytes \<Rightarrow> bytes" where
  "strip_0x s = (case s of a # b # r \<Rightarrow> if a = 0x30 \<and> (b = 0x78 \<or> b = 0x58) then r else s | _ \<Rightarrow> s)"

definition scan_hex :: "bytes \<Rightarrow> (u32 \<times> bytes) option" where
  "scan_hex s =
    (let s1 = dropWhile is_space s;
         neg = (s1 \<noteq> [] \<and> hd s1 = 0x2D);
         s2 = strip_0x (if s1 \<noteq> [] \<and> (hd s1 = 0x2D \<or> hd s1 = 0x2B) then tl s1 else s1);
         ds = takeWhile (\<lambda>c. hex_value c \<noteq> None) s2;
         v = of_nat (fold (\<lambda>c n. n * 16 + the (hex_value c)) ds 0)
     in if ds = [] then None else Some (if neg then - v else v, drop (length ds) s2))"

fun scan_mac :: "nat \<Rightarrow> bytes \<Rightarrow> bytes option" where
  "scan_mac 0 s = Some []"
| "scan_mac (Suc n) s =
    (case scan_hex s of
       None \<Rightarrow> None
     | Some (v, r) \<Rightarrow>
         if n = 0 then Some [ucast v]
         else case r of
           [] \<Rightarrow> None
         | c # r' \<Rightarrow> if c = COLON then map_option (\<lambda>m. ucast v # m) (scan_mac n r') else None)"

definition parse_mac :: "bytes \<Rightarrow> bytes option" where
  "parse_mac mac_str = (if mac_str = [] then Some (replicate 6 0) else scan_mac 6 (takeWhile (\<lambda>c. c \<noteq> 0) mac_str))"

section \<open>Operations\<close>

text \<open>The flag is the global \<^verbatim>\<open>g_eal_initialized\<close>.\<close>

definition init_eal :: "int \<Rightarrow> bool \<Rightarrow> bool \<times> bool" where
  "init_eal ret initialized = (if initialized then (True, True) else if ret < 0 then (initialized, False) else (True, True))"

definition dpdk_bind ::
    "bool \<Rightarrow> endpoint \<Rightarrow> bool \<Rightarrow> int \<Rightarrow> int \<Rightarrow> int \<Rightarrow> int \<Rightarrow> dpdk_transport \<Rightarrow> dpdk_transport \<times> bool" where
  "dpdk_bind eal local_ep pool configure rx_setup tx_setup dev_start t =
    (if \<not> eal then (t, False)
     else if dp_bound t then (t, False)
     else
       let cfg = dp_config t; i1 = (dp_impl t)\<lparr>di_port_id := dk_port_id cfg\<rparr>
       in case parse_mac (dk_src_mac cfg) of
            None \<Rightarrow> (t\<lparr>dp_impl := i1\<rparr>, False)
          | Some mac \<Rightarrow>
              let ip_str = (if dk_src_ip cfg = [] then ep_address local_ep else dk_src_ip cfg);
                  ip = (if ip_str = [] then di_src_ip i1
                        else case inet_pton ip_str of None \<Rightarrow> di_src_ip i1 | Some a \<Rightarrow> a);
                  t2 = t\<lparr>dp_impl := i1\<lparr>di_src_mac := mac, di_src_ip := ip, di_src_port := ep_port local_ep, di_mbuf_pool := pool\<rparr>\<rparr>
              in if \<not> pool \<or> configure < 0 \<or> rx_setup < 0 \<or> tx_setup < 0 \<or> dev_start < 0 then (t2, False)
                 else (t2\<lparr>dp_local_ep := local_ep, dp_bound := True\<rparr>, True))"

definition dpdk_close :: "dpdk_transport \<Rightarrow> dpdk_transport" where
  "dpdk_close t = (if \<not> dp_bound t then t else t\<lparr>dp_bound := False\<rparr>)"

definition ETH_HDR_LEN :: nat where "ETH_HDR_LEN = 14"

definition IP_HDR_LEN :: nat where "IP_HDR_LEN = 20"

definition UDP_HDR_LEN :: nat where "UDP_HDR_LEN = 8"

definition addr_bytes :: "in_addr \<Rightarrow> bytes" where
  "addr_bytes a = (case a of (a1, a2, a3, a4) \<Rightarrow> [a1, a2, a3, a4])"

definition ip_header :: "u16 \<Rightarrow> u8 \<times> u8 \<Rightarrow> in_addr \<Rightarrow> in_addr \<Rightarrow> bytes" where
  "ip_header total_length cksum src dst =
    [0x45, 0] @ be16 total_length @ [0, 0, 0, 0, 64, 17, fst cksum, snd cksum] @ addr_bytes src @ addr_bytes dst"

text \<open>The frame written for a payload of \<open>len\<close> bytes.\<close>

definition dpdk_frame :: "(bytes \<Rightarrow> u8 \<times> u8) \<Rightarrow> dpdk_impl \<Rightarrow> endpoint \<Rightarrow> bytes \<Rightarrow> bytes" where
  "dpdk_frame cksum impl remote data =
    (let len = length data;
         eth_hdr = replicate 6 0xFF @ di_src_mac impl @ [0x08, 0x00];
         dst = (case inet_pton (ep_address remote) of None \<Rightarrow> INADDR_ANY | Some a \<Rightarrow> a);
         total = of_nat (IP_HDR_LEN + UDP_HDR_LEN + len);
         ip_hdr = ip_header total (cksum (ip_header total (0, 0) (di_src_ip impl) dst)) (di_src_ip impl) dst;
         udp_hdr = be16 (di_src_port impl) @ be16 (ep_port remote) @ be16 (of_nat (UDP_HDR_LEN + len)) @ [0, 0]
     in eth_hdr @ ip_hdr @ udp_hdr @ data)"

text \<open>
  \<open>alloc\<close>, \<open>tailroom\<close> and \<open>sent\<close> are whether a buffer could be allocated, whether it has room for a number of bytes, and
  whether the device took the frame. \<^verbatim>\<open>rte_pktmbuf_append\<close> is asked for the length modulo \<open>2^16\<close>.
\<close>

definition dpdk_send_to ::
    "(bytes \<Rightarrow> u8 \<times> u8) \<Rightarrow> bool \<Rightarrow> (u16 \<Rightarrow> bool) \<Rightarrow> bool \<Rightarrow> bytes \<Rightarrow> endpoint \<Rightarrow> dpdk_transport \<Rightarrow>
     (dpdk_transport \<times> int \<times> bytes option) option" where
  "dpdk_send_to cksum alloc tailroom sent data remote t =
    (let dropped = t\<lparr>dp_tx_drops := dp_tx_drops t + 1\<rparr>
     in if \<not> dp_bound t \<or> \<not> di_mbuf_pool (dp_impl t) then Some (t, - 1, None)
        else if \<not> alloc then Some (dropped, - 1, None)
        else
          let len = length data; total_len = ETH_HDR_LEN + IP_HDR_LEN + UDP_HDR_LEN + len; room = (of_nat total_len :: u16)
          in if \<not> tailroom room then Some (dropped, - 1, None)
             else if unat room < total_len then None
             else
               let frame = dpdk_frame cksum (dp_impl t) remote data
               in if \<not> sent then Some (dropped, - 1, None)
                  else Some (t\<lparr>dp_packets_sent := dp_packets_sent t + 1, dp_bytes_sent := dp_bytes_sent t + of_nat len\<rparr>,
                             int len, Some frame))"

definition dpdk_recv_from :: "nat \<Rightarrow> bytes option \<Rightarrow> dpdk_transport \<Rightarrow> dpdk_transport \<times> int \<times> bytes \<times> endpoint option" where
  "dpdk_recv_from buf_len rx t =
    (if \<not> dp_bound t then (t, - 1, [], None)
     else case rx of
       None \<Rightarrow> (t, - 1, [], None)
     | Some pkt \<Rightarrow>
         let total_hdr = ETH_HDR_LEN + IP_HDR_LEN + UDP_HDR_LEN
         in if length pkt < total_hdr then (t\<lparr>dp_rx_drops := dp_rx_drops t + 1\<rparr>, - 1, [], None)
            else
              let src = (pkt ! 26, pkt ! 27, pkt ! 28, pkt ! 29);
                  from_ep = \<lparr>ep_address = inet_ntop src, ep_port = read_u16 (drop (ETH_HDR_LEN + IP_HDR_LEN) pkt)\<rparr>;
                  payload = take (min (length pkt - total_hdr) buf_len) (drop total_hdr pkt)
              in (t\<lparr>dp_packets_received := dp_packets_received t + 1,
                    dp_bytes_received := dp_bytes_received t + of_nat (length payload)\<rparr>,
                  int (length payload), payload, Some from_ep))"

section \<open>Properties\<close>

lemma scan_mac_length: "scan_mac n s = Some m \<Longrightarrow> length m = n"
  by (induction n s arbitrary: m rule: scan_mac.induct) (auto split: option.splits list.splits if_splits)

lemma parse_mac_length: "parse_mac s = Some m \<Longrightarrow> length m = 6"
  by (auto simp: parse_mac_def scan_mac_length split: if_splits)

lemmas hdr_len_defs = ETH_HDR_LEN_def IP_HDR_LEN_def UDP_HDR_LEN_def

lemma addr_bytes_simps [simp]: "length (addr_bytes a) = 4" "addr_bytes (a1, a2, a3, a4) = [a1, a2, a3, a4]"
  by (simp_all add: addr_bytes_def split: prod.split)

lemma ip_header_length [simp]: "length (ip_header n c src dst) = 20"
  by (simp add: ip_header_def)

lemma ip_header_src: "take 4 (drop 12 (ip_header n c src dst)) = addr_bytes src"
  by (simp add: ip_header_def)

lemma frame_parts:
  assumes "length (di_src_mac impl) = 6"
  shows "length (dpdk_frame cksum impl remote data) = 42 + length data"
    "take 4 (drop 26 (dpdk_frame cksum impl remote data)) = addr_bytes (di_src_ip impl)"
    "take 2 (drop 34 (dpdk_frame cksum impl remote data)) = be16 (di_src_port impl)"
    "drop 42 (dpdk_frame cksum impl remote data) = data"
  using assms by (simp_all add: dpdk_frame_def Let_def hdr_len_defs ip_header_src)

lemma dpdk_bind_impl:
  assumes "dpdk_bind True ep pool c r x d (dpdk_new cfg) = (s, True)" "dk_src_ip cfg = []" "ep_address ep = inet_ntop a"
  shows "dp_bound s \<and> di_mbuf_pool (dp_impl s) \<and> length (di_src_mac (dp_impl s)) = 6 \<and> di_src_ip (dp_impl s) = a \<and>
    di_src_port (dp_impl s) = ep_port ep"
proof -
  have "inet_ntop a \<noteq> []" by (auto simp: inet_ntop_def split: prod.split)
  then show ?thesis
    using assms by (auto simp: dpdk_bind_def dpdk_new_def Let_def dest: parse_mac_length split: option.splits if_splits)
qed

lemma recv_frame:
  assumes "dp_bound q" "length f = 42 + n" "take 4 (drop 26 f) = addr_bytes a" "take 2 (drop 34 f) = be16 p"
  shows "dpdk_recv_from buf_len (Some (f @ pad)) q =
    (q\<lparr>dp_packets_received := dp_packets_received q + 1,
       dp_bytes_received := dp_bytes_received q + of_nat (length (take buf_len (drop 42 f @ pad)))\<rparr>,
     int (length (take buf_len (drop 42 f @ pad))), take buf_len (drop 42 f @ pad),
     Some \<lparr>ep_address = inet_ntop a, ep_port = p\<rparr>)"
proof -
  obtain a1 a2 a3 a4 where a: "a = (a1, a2, a3, a4)" by (metis prod_cases4)
  have nth: "(f @ pad) ! (26 + k) = take 4 (drop 26 f) ! k" if "k < 4" for k
    using that assms(2) by (simp add: nth_append)
  have src: "(f @ pad) ! 26 = a1" "(f @ pad) ! 27 = a2" "(f @ pad) ! 28 = a3" "(f @ pad) ! 29 = a4"
    using nth [of 0] nth [of 1] nth [of 2] nth [of 3] by (simp_all add: assms(3) a)
  have "drop 34 (f @ pad) = take 2 (drop 34 f) @ drop 36 f @ pad"
    using assms(2) append_take_drop_id [of 2 "drop 34 f"] by simp
  then have "read_u16 (drop 34 (f @ pad)) = p" by (simp add: assms(4) read_be16)
  moreover have "take (min (n + length pad) buf_len) (drop 42 f @ pad) = take buf_len (drop 42 f @ pad)"
    using assms(2) by (simp add: min_def)
  ultimately show ?thesis
    using assms(1,2) src by (simp add: dpdk_recv_from_def hdr_len_defs a Let_def)
qed

text \<open>
  C31. A frame carries its payload and its sender. A transport bound at a numeric address sends; whoever receives the frame, with whatever bytes the link
  appends to it, gets the payload followed by those bytes, cut to the buffer, and the endpoint the sender is bound
  at. A frame that links pad to their minimum size is therefore delivered longer than it was sent: the length in the UDP header is
  written and never read.
\<close>

theorem dpdk_delivery:
  fixes a :: in_addr and buf_len :: nat and pad :: bytes
  assumes "dpdk_bind True ep pool c r x d (dpdk_new cfg) = (s, True)" "dk_src_ip cfg = []" "ep_address ep = inet_ntop a"
    and "dpdk_send_to cksum alloc tailroom sent data remote s = Some (s', n, Some frame)" "dp_bound q"
  defines "got \<equiv> take buf_len (data @ pad)"
  shows "n = int (length data) \<and>
    dpdk_recv_from buf_len (Some (frame @ pad)) q =
      (q\<lparr>dp_packets_received := dp_packets_received q + 1, dp_bytes_received := dp_bytes_received q + of_nat (length got)\<rparr>,
       int (length got), got, Some ep)"
proof -
  note b = dpdk_bind_impl [OF assms(1,2,3)]
  have f: "frame = dpdk_frame cksum (dp_impl s) remote data" and n: "n = int (length data)"
    using assms(4) by (auto simp: dpdk_send_to_def Let_def split: if_splits)
  have mac: "length (di_src_mac (dp_impl s)) = 6" using b by blast
  have "\<lparr>ep_address = inet_ntop a, ep_port = di_src_port (dp_impl s)\<rparr> = ep" using b assms(3) by simp
  then show ?thesis
    using recv_frame [OF assms(5) frame_parts(1,2,3) [OF mac], of buf_len cksum remote data pad] b n
    by (simp add: f got_def frame_parts(4) [OF mac])
qed

theorem dpdk_delivery_witness:
  "let ep = \<lparr>ep_address = inet_ntop (10, 0, 0, 1), ep_port = 9000\<rparr>;
       s = fst (dpdk_bind True ep True 0 0 0 0 (dpdk_new dpdk_config_default))
   in \<exists>s' frame. dpdk_send_to (\<lambda>h. (0, 0)) True (\<lambda>n. True) True [1, 2] ep s = Some (s', 2, Some frame) \<and>
        snd (snd (dpdk_recv_from 100 (Some (frame @ [0, 0])) s)) = ([1, 2, 0, 0], Some ep)"
proof -
  let ?ep = "\<lparr>ep_address = inet_ntop (10, 0, 0, 1), ep_port = 9000\<rparr>"
  let ?b = "dpdk_bind True ?ep True 0 0 0 0 (dpdk_new dpdk_config_default)"
  have "snd ?b" by (simp add: dpdk_bind_def dpdk_new_def dpdk_config_default_def parse_mac_def Let_def)
  then have h: "?b = (fst ?b, True)" by (metis prod.collapse)
  note i = dpdk_bind_impl [OF h _ endpoint.select_convs(1)]
  have ip: "dk_src_ip dpdk_config_default = []" by (simp add: dpdk_config_default_def)
  obtain s' frame where send: "dpdk_send_to (\<lambda>h. (0, 0)) True (\<lambda>n. True) True [1, 2] ?ep (fst ?b) = Some (s', 2, Some frame)"
    using i [OF ip] by (simp add: dpdk_send_to_def Let_def hdr_len_defs)
  show ?thesis
    using dpdk_delivery [OF h ip _ send, where a = "(10, 0, 0, 1)" and q = "fst ?b" and pad = "[0, 0]" and buf_len = 100] i [OF ip] send by (simp add: Let_def)
qed

text \<open>Nothing of a received frame is checked but its size: not the type, the protocol, the destination, nor the lengths.\<close>

lemma dpdk_unfiltered:
  assumes "dp_bound q" "42 \<le> length f"
  shows "fst (snd (snd (dpdk_recv_from buf_len (Some f) q))) = take buf_len (drop 42 f)"
  using assms by (simp add: dpdk_recv_from_def Let_def hdr_len_defs min_def)

text \<open>A payload of 65494 bytes or more wraps the requested length, and the headers and the payload are written behind the buffer.\<close>

lemma dpdk_oversized_send:
  assumes "dp_bound t" "di_mbuf_pool (dp_impl t)" "65494 \<le> length data"
  shows "dpdk_send_to cksum True (\<lambda>n. True) sent data remote t = None"
proof -
  have "unat (of_nat (42 + length data) :: u16) < 42 + length data"
  proof -
    have "unat (of_nat (42 + length data) :: u16) < 2 ^ LENGTH(16)" by (rule unsigned_less)
    then show ?thesis using assms(3) by (simp del: of_nat_add)
  qed
  then show ?thesis using assms(1,2) by (simp add: dpdk_send_to_def Let_def hdr_len_defs)
qed

end
