(* ===== verification/Peer.thy ===== *)
theory Peer
  imports Handshake State_Registry Resolution Subscription Capability Routing
begin

text \<open>
  The peer (\<^verbatim>\<open>peer.h\<close>, \<^verbatim>\<open>peer.cpp\<close>): one node with its identity, connections, state, router, subscriptions and
  capabilities, and the calls that connect, send and receive.

  The record \<open>peer_env\<close> holds the code the peer calls outside the repository: the hash, the signature functions and the
  rounding of doubles. The transport is virtual: what a call sends is part of its result, as packets with their
  destination in order; whether a send succeeded and what was received (\<open>None\<close> when the result is not positive) are
  arguments. A call's readings of the steady clock are \<open>clk 0\<close>, \<open>clk 1\<close> and so on. Calls of the signature-failure
  and update callbacks are the events of the result. The receive buffer is no state: it is written before it is read
  in every call. A frame's payload has the length its header announces.
\<close>

record peer_env =
  env_xxh :: "bytes \<Rightarrow> u32"
  env_ed :: ed25519
  env_rnd :: "real \<Rightarrow> real"

datatype handshake_state = HS_NONE | HS_CONNECTING | HS_ACCEPTING

record peer =
  pr_node_id :: u16
  pr_local_ep :: endpoint
  pr_conn_mgr :: connection_manager
  pr_state :: state_registry
  pr_router :: router
  pr_sub_mgr :: subscription_manager
  pr_keys :: keypair
  pr_cap_store :: capability_store
  pr_peer_keys :: "(u16, bytes) umap"
  pr_access_control :: bool
  pr_on_sig_failure :: bool
  pr_delta_filters :: "(u16, delta_filter) umap"
  pr_hs_state :: handshake_state
  pr_hs_remote :: endpoint
  pr_next_auto_node_id :: u16

type_synonym sends = "(bytes \<times> endpoint) list"

datatype peer_event = Sig_failure u16 u32 | State_update state_path bytes

definition peer_new :: "peer_env \<Rightarrow> u16 \<Rightarrow> keypair \<Rightarrow> peer" where
  "peer_new env node_id keys =
    \<lparr>pr_node_id = node_id, pr_local_ep = \<lparr>ep_address = [], ep_port = 0\<rparr>, pr_conn_mgr = connection_manager_new,
     pr_state = registry_new node_id, pr_router = new_router node_id (default_router_config (env_rnd env)),
     pr_sub_mgr = subscription_manager_new, pr_keys = keys, pr_cap_store = capability_store_new keys (ucast node_id),
     pr_peer_keys = [], pr_access_control = False, pr_on_sig_failure = False, pr_delta_filters = [],
     pr_hs_state = HS_NONE, pr_hs_remote = \<lparr>ep_address = [], ep_port = 0\<rparr>, pr_next_auto_node_id = 1000\<rparr>"

definition peer_register_key :: "u16 \<Rightarrow> bytes \<Rightarrow> peer \<Rightarrow> peer" where
  "peer_register_key node_id pk p =
    p\<lparr>pr_peer_keys := um_put node_id pk (pr_peer_keys p),
      pr_cap_store := register_peer_key (ucast node_id) pk (pr_cap_store p)\<rparr>"

definition set_access_control :: "bool \<Rightarrow> peer \<Rightarrow> peer" where
  "set_access_control enabled p = p\<lparr>pr_access_control := enabled\<rparr>"

definition on_signature_failure :: "peer \<Rightarrow> peer" where
  "on_signature_failure p = p\<lparr>pr_on_sig_failure := True\<rparr>"

definition set_local_endpoint :: "endpoint \<Rightarrow> peer \<Rightarrow> peer" where
  "set_local_endpoint ep p = p\<lparr>pr_local_ep := ep\<rparr>"

section \<open>Connections\<close>

text \<open>The slot of the single-connection calls: added, or found when it is there.\<close>

definition slot0 :: "nat \<Rightarrow> connection_manager \<Rightarrow> connection_manager \<times> managed_connection option" where
  "slot0 now m = (case cm_add now 0 m of (m1, Some mc) \<Rightarrow> (m1, Some mc) | (m1, None) \<Rightarrow> (m1, cm_get 0 m1))"

text \<open>Initiating on a slot: the id, \<^verbatim>\<open>initiate\<close>, the CONNECT packet and its sending.\<close>

definition initiate_on ::
    "peer_env \<Rightarrow> (nat \<Rightarrow> nat) \<Rightarrow> u16 \<Rightarrow> managed_connection \<Rightarrow> endpoint \<Rightarrow> connection_manager \<Rightarrow>
     connection_manager \<times> sends \<times> bool" where
  "initiate_on env clk key mc remote m =
    (let (m1, cid) = next_conn_id m; (c1, ok) = conn_initiate (clk 1) cid remote (mc_conn mc)
     in if \<not> ok then (m1, [], False)
        else let (c2, pkt) = build_connect_packet (env_xxh env) (clk 2) c1
             in (cm_set key (mc\<lparr>mc_conn := c2\<rparr>) m1, [(pkt, remote)], True))"

text \<open>Handing a received packet to the handshake of a slot.\<close>

definition process_on ::
    "peer_env \<Rightarrow> bytes \<Rightarrow> u16 \<Rightarrow> connection_manager \<Rightarrow> connection_manager \<times> handshake_event option" where
  "process_on env data key m =
    (case cm_get key m of
       None \<Rightarrow> (m, None)
     | Some mc \<Rightarrow>
         let (ev, c) = process_packet (env_xxh env) data (mc_conn mc) in (cm_set key (mc\<lparr>mc_conn := c\<rparr>) m, Some ev))"

text \<open>Answering a CONNECT on a slot: the id, \<^verbatim>\<open>accept\<close> and the ACCEPT packet; the result is the new state.\<close>

definition accept_on ::
    "peer_env \<Rightarrow> (nat \<Rightarrow> nat) \<Rightarrow> u16 \<Rightarrow> endpoint \<Rightarrow> connection_manager \<Rightarrow>
     connection_manager \<times> sends \<times> connection_state option" where
  "accept_on env clk key from m =
    (let (m1, cid) = next_conn_id m
     in case cm_get key m1 of
          None \<Rightarrow> (m1, [], None)
        | Some mc \<Rightarrow>
            let c1 = fst (conn_accept (clk 1) cid 0 from (mc_conn mc));
                (c2, pkt) = build_accept_packet (env_xxh env) (clk 2) (clk 3) c1
            in (cm_set key (mc\<lparr>mc_conn := c2\<rparr>) m1, [(pkt, from)], Some (cn_state c2)))"

definition result_is :: "handshake_result \<Rightarrow> handshake_event option \<Rightarrow> bool" where
  "result_is r ev = (case ev of None \<Rightarrow> False | Some e \<Rightarrow> he_result e = r)"

definition peer_connect ::
    "peer_env \<Rightarrow> (nat \<Rightarrow> nat) \<Rightarrow> endpoint \<Rightarrow> bool \<Rightarrow> (bytes \<times> endpoint) option \<Rightarrow> peer \<Rightarrow> peer \<times> sends \<times> bool" where
  "peer_connect env clk remote sent_ok rx p =
    (case slot0 (clk 0) (pr_conn_mgr p) of
       (m0, None) \<Rightarrow> (p\<lparr>pr_conn_mgr := m0\<rparr>, [], False)
     | (m0, Some mc) \<Rightarrow>
         let (m1, out, started) = initiate_on env clk 0 mc remote m0; p1 = p\<lparr>pr_conn_mgr := m1\<rparr>
         in if \<not> started then (p1, out, False)
            else if \<not> sent_ok then (p1, out, False)
            else case rx of
              None \<Rightarrow> (p1, out, False)
            | Some (data, from) \<Rightarrow>
                let (m2, ev) = process_on env data 0 m1
                in (p1\<lparr>pr_conn_mgr := m2\<rparr>, out, result_is HR_ACCEPT_RECEIVED ev))"

definition accept_from ::
    "peer_env \<Rightarrow> (nat \<Rightarrow> nat) \<Rightarrow> (bytes \<times> endpoint) option \<Rightarrow> peer \<Rightarrow> peer \<times> sends \<times> bool" where
  "accept_from env clk rx p =
    (case slot0 (clk 0) (pr_conn_mgr p) of
       (m0, None) \<Rightarrow> (p\<lparr>pr_conn_mgr := m0\<rparr>, [], False)
     | (m0, Some mc) \<Rightarrow>
         (case rx of
            None \<Rightarrow> (p\<lparr>pr_conn_mgr := m0\<rparr>, [], False)
          | Some (data, from) \<Rightarrow>
              let (m1, ev) = process_on env data 0 m0
              in if \<not> result_is HR_CONNECT_RECEIVED ev then (p\<lparr>pr_conn_mgr := m1\<rparr>, [], False)
                 else let (m2, out, st) = accept_on env clk 0 from m1
                      in (p\<lparr>pr_conn_mgr := m2\<rparr>, out, st = Some CS_CONNECTED)))"

definition peer_is_connected :: "peer \<Rightarrow> bool" where
  "peer_is_connected p = has_connections (pr_conn_mgr p)"

text \<open>Closing one connection, when it is connected.\<close>

definition close_on ::
    "peer_env \<Rightarrow> (nat \<Rightarrow> nat) \<Rightarrow> close_reason \<Rightarrow> u16 \<Rightarrow> connection_manager \<Rightarrow> connection_manager \<times> sends" where
  "close_on env clk reason key m =
    (case cm_get key m of
       None \<Rightarrow> (m, [])
     | Some mc \<Rightarrow>
         if cn_state (mc_conn mc) = CS_CONNECTED
         then let c1 = fst (conn_close (mc_conn mc)); (c2, pkt) = build_close_packet (env_xxh env) (clk 0) reason c1
              in (cm_set key (mc\<lparr>mc_conn := c2\<rparr>) m, [(pkt, cn_remote c2)])
         else (m, []))"

definition peer_disconnect :: "peer_env \<Rightarrow> (nat \<Rightarrow> nat) \<Rightarrow> close_reason \<Rightarrow> peer \<Rightarrow> peer \<times> sends" where
  "peer_disconnect env clk reason p =
    (case cm_primary (pr_conn_mgr p) of
       None \<Rightarrow> (p, [])
     | Some (key, mc) \<Rightarrow>
         let (m, out) = close_on env clk reason key (pr_conn_mgr p) in (p\<lparr>pr_conn_mgr := m\<rparr>, out))"

definition connect_start ::
    "peer_env \<Rightarrow> (nat \<Rightarrow> nat) \<Rightarrow> endpoint \<Rightarrow> bool \<Rightarrow> peer \<Rightarrow> peer \<times> sends \<times> bool" where
  "connect_start env clk remote sent_ok p =
    (case slot0 (clk 0) (pr_conn_mgr p) of
       (m0, None) \<Rightarrow> (p\<lparr>pr_conn_mgr := m0\<rparr>, [], False)
     | (m0, Some mc) \<Rightarrow>
         let (m1, out, started) = initiate_on env clk 0 mc remote m0; p1 = p\<lparr>pr_conn_mgr := m1\<rparr>
         in if \<not> started \<or> \<not> sent_ok then (p1, out, False)
            else (p1\<lparr>pr_hs_state := HS_CONNECTING, pr_hs_remote := remote\<rparr>, out, True))"

definition connect_poll :: "peer_env \<Rightarrow> (bytes \<times> endpoint) option \<Rightarrow> peer \<Rightarrow> peer \<times> bool" where
  "connect_poll env rx p =
    (if pr_hs_state p \<noteq> HS_CONNECTING then (p, False)
     else case cm_get 0 (pr_conn_mgr p) of
       None \<Rightarrow> (p, False)
     | Some mc \<Rightarrow>
         if cn_state (mc_conn mc) = CS_CONNECTED then (p\<lparr>pr_hs_state := HS_NONE\<rparr>, True)
         else case rx of
           None \<Rightarrow> (p, False)
         | Some (data, from) \<Rightarrow>
             let (m1, ev) = process_on env data 0 (pr_conn_mgr p); p1 = p\<lparr>pr_conn_mgr := m1\<rparr>
             in if result_is HR_ACCEPT_RECEIVED ev then (p1\<lparr>pr_hs_state := HS_NONE\<rparr>, True) else (p1, False))"

definition accept_start :: "(nat \<Rightarrow> nat) \<Rightarrow> peer \<Rightarrow> peer \<times> bool" where
  "accept_start clk p =
    (case slot0 (clk 0) (pr_conn_mgr p) of
       (m0, None) \<Rightarrow> (p\<lparr>pr_conn_mgr := m0\<rparr>, False)
     | (m0, Some mc) \<Rightarrow> (p\<lparr>pr_conn_mgr := m0, pr_hs_state := HS_ACCEPTING\<rparr>, True))"

definition accept_poll ::
    "peer_env \<Rightarrow> (nat \<Rightarrow> nat) \<Rightarrow> (bytes \<times> endpoint) option \<Rightarrow> peer \<Rightarrow> peer \<times> sends \<times> bool" where
  "accept_poll env clk rx p =
    (if pr_hs_state p \<noteq> HS_ACCEPTING then (p, [], False)
     else case cm_get 0 (pr_conn_mgr p) of
       None \<Rightarrow> (p, [], False)
     | Some mc \<Rightarrow>
         if cn_state (mc_conn mc) = CS_CONNECTED then (p\<lparr>pr_hs_state := HS_NONE\<rparr>, [], True)
         else case rx of
           None \<Rightarrow> (p, [], False)
         | Some (data, from) \<Rightarrow>
             let (m1, ev) = process_on env data 0 (pr_conn_mgr p)
             in if \<not> result_is HR_CONNECT_RECEIVED ev then (p\<lparr>pr_conn_mgr := m1\<rparr>, [], False)
                else let (m2, out, st) = accept_on env clk 0 from m1; p2 = p\<lparr>pr_conn_mgr := m2\<rparr>
                     in if st = Some CS_CONNECTED then (p2\<lparr>pr_hs_state := HS_NONE\<rparr>, out, True) else (p2, out, False))"

definition connect_to ::
    "peer_env \<Rightarrow> (nat \<Rightarrow> nat) \<Rightarrow> u16 \<Rightarrow> endpoint \<Rightarrow> bool \<Rightarrow> (bytes \<times> endpoint) option \<Rightarrow> peer \<Rightarrow> peer \<times> sends \<times> bool" where
  "connect_to env clk remote_node_id remote sent_ok rx p =
    (case cm_add (clk 0) remote_node_id (pr_conn_mgr p) of
       (m0, None) \<Rightarrow> (p\<lparr>pr_conn_mgr := m0\<rparr>, [], False)
     | (m0, Some mc) \<Rightarrow>
         let (m1, out, started) = initiate_on env clk remote_node_id mc remote m0;
             failed = (\<lambda>m. (p\<lparr>pr_conn_mgr := fst (cm_remove remote_node_id m)\<rparr>, out, False))
         in if \<not> started \<or> \<not> sent_ok then failed m1
            else case rx of
              None \<Rightarrow> failed m1
            | Some (data, from) \<Rightarrow>
                let (m2, ev) = process_on env data remote_node_id m1
                in if result_is HR_ACCEPT_RECEIVED ev then (p\<lparr>pr_conn_mgr := m2\<rparr>, out, True) else failed m2)"

definition accept_node ::
    "peer_env \<Rightarrow> (nat \<Rightarrow> nat) \<Rightarrow> u16 \<Rightarrow> (bytes \<times> endpoint) option \<Rightarrow> peer \<Rightarrow> peer \<times> sends \<times> bool" where
  "accept_node env clk remote_node_id rx p =
    (case cm_add (clk 0) remote_node_id (pr_conn_mgr p) of
       (m0, None) \<Rightarrow> (p\<lparr>pr_conn_mgr := m0\<rparr>, [], False)
     | (m0, Some mc) \<Rightarrow>
         let failed = (\<lambda>m out. (p\<lparr>pr_conn_mgr := fst (cm_remove remote_node_id m)\<rparr>, out, False))
         in case rx of
              None \<Rightarrow> failed m0 []
            | Some (data, from) \<Rightarrow>
                let (m1, ev) = process_on env data remote_node_id m0
                in if \<not> result_is HR_CONNECT_RECEIVED ev then failed m1 []
                   else let (m2, out, st) = accept_on env clk remote_node_id from m1
                        in if st \<noteq> Some CS_CONNECTED then failed m2 out else (p\<lparr>pr_conn_mgr := m2\<rparr>, out, True))"

definition disconnect_node :: "peer_env \<Rightarrow> (nat \<Rightarrow> nat) \<Rightarrow> u16 \<Rightarrow> close_reason \<Rightarrow> peer \<Rightarrow> peer \<times> sends" where
  "disconnect_node env clk remote_node_id reason p =
    (let (m, out) = close_on env clk reason remote_node_id (pr_conn_mgr p)
     in (p\<lparr>pr_conn_mgr := fst (cm_remove remote_node_id m),
           pr_delta_filters := um_erase remote_node_id (pr_delta_filters p),
           pr_router := router_remove_node remote_node_id (pr_router p)\<rparr>, out))"

definition is_connected_to :: "u16 \<Rightarrow> peer \<Rightarrow> bool" where
  "is_connected_to remote_node_id p =
    (case cm_get remote_node_id (pr_conn_mgr p) of None \<Rightarrow> False | Some mc \<Rightarrow> cn_state (mc_conn mc) = CS_CONNECTED)"

definition connected_nodes :: "peer \<Rightarrow> u16 list" where
  "connected_nodes p = cm_connected_nodes (pr_conn_mgr p)"

definition set_connection_resolution :: "u16 \<Rightarrow> resolution_tier \<Rightarrow> resolution_config \<Rightarrow> peer \<Rightarrow> peer" where
  "set_connection_resolution remote_node_id tier config p =
    p\<lparr>pr_delta_filters := um_put remote_node_id (delta_filter_new tier config) (pr_delta_filters p)\<rparr>"

definition peer_subscribe :: "state_path \<Rightarrow> resolution_tier \<Rightarrow> int \<Rightarrow> u32 \<Rightarrow> peer \<Rightarrow> peer \<times> u32" where
  "peer_subscribe pattern tier initial_credits freshness_us p =
    (let (sm, sub_id) = subscribe (pr_node_id p) pattern initial_credits freshness_us (pr_sub_mgr p);
         sm' = (case get_subscription sub_id sm of
                  None \<Rightarrow> sm
                | Some s \<Rightarrow> sm\<lparr>sm_subs := um_put sub_id (s\<lparr>sub_tier := tier\<rparr>) (sm_subs sm)\<rparr>)
     in (p\<lparr>pr_sub_mgr := sm'\<rparr>, sub_id))"

section \<open>State\<close>

definition peer_declare :: "state_path \<Rightarrow> crdt_type \<Rightarrow> reliability \<Rightarrow> peer \<Rightarrow> peer \<times> bool" where
  "peer_declare path type rel p =
    (let (g, ok) = registry_declare path type rel (pr_state p); p1 = p\<lparr>pr_state := g\<rparr>
     in (if ok then p1\<lparr>pr_router := snd (announce_path (sp_hash path) (pr_router p1))\<rparr> else p1, ok))"

text \<open>A cast of a region's CRDT to the class of its declared type is a match on its constructor.\<close>

definition peer_set_lww :: "(nat \<Rightarrow> nat) \<Rightarrow> state_path \<Rightarrow> bytes \<Rightarrow> peer \<Rightarrow> peer \<times> bool" where
  "peer_set_lww clk path data p =
    (case registry_get (sp_hash path) (pr_state p) of
       None \<Rightarrow> (p, False)
     | Some region \<Rightarrow>
         if sr_crdt_type region \<noteq> CRDT_LWW_REGISTER then (p, False)
         else case sr_crdt region of
           Crdt_Lww r \<Rightarrow>
             let ts = (case cm_primary (pr_conn_mgr p) of None \<Rightarrow> 0 | Some (key, mc) \<Rightarrow> elapsed_us (clk 0) (mc_conn mc));
                 region' = region\<lparr>sr_crdt := Crdt_Lww (lww_set data ts r),
                                  sr_version := fst (vv_increment (pr_node_id p) (sr_version region))\<rparr>
             in (p\<lparr>pr_state := (pr_state p)\<lparr>reg_regions := um_put (sp_hash path) region' (reg_regions (pr_state p))\<rparr>\<rparr>, True)
         | _ \<Rightarrow> (p, True))"

definition peer_increment_counter :: "state_path \<Rightarrow> u64 \<Rightarrow> peer \<Rightarrow> peer \<times> bool" where
  "peer_increment_counter path amount p =
    (case registry_get (sp_hash path) (pr_state p) of
       None \<Rightarrow> (p, False)
     | Some region \<Rightarrow>
         if sr_crdt_type region \<noteq> CRDT_G_COUNTER then (p, False)
         else case sr_crdt region of
           Crdt_GCounter c \<Rightarrow>
             let region' = region\<lparr>sr_crdt := Crdt_GCounter (gc_increment amount c),
                                  sr_version := fst (vv_increment (pr_node_id p) (sr_version region))\<rparr>
             in (p\<lparr>pr_state := (pr_state p)\<lparr>reg_regions := um_put (sp_hash path) region' (reg_regions (pr_state p))\<rparr>\<rparr>, True)
         | _ \<Rightarrow> (p, True))"

section \<open>Signed frames\<close>

definition build_signed_delta :: "peer_env \<Rightarrow> peer \<Rightarrow> pending_delta \<Rightarrow> bytes" where
  "build_signed_delta env p d =
    (let content_size = STATE_DELTA_BASE_WIRE_SIZE + length (pdl_data d);
         payload = replicate (content_size + SIGNATURE_SIZE) 0;
         sdf = \<lparr>sdf_path_hash = pdl_path_hash d, sdf_crdt_type = pdl_crdt_type d,
                sdf_reliability = pdl_reliability d, sdf_author_node_id = pr_node_id p\<rparr>;
         b1 = (case state_delta_encode sdf payload of None \<Rightarrow> payload | Some b \<Rightarrow> b);
         b2 = (if pdl_data d \<noteq> [] then put_bytes b1 STATE_DELTA_BASE_WIRE_SIZE (pdl_data d) else b1);
         sig = crypto_sign (env_ed env) (kp_secret_key (pr_keys p)) (take content_size b2)
     in put_bytes b2 content_size sig)"

definition verify_frame_signature :: "peer_env \<Rightarrow> peer \<Rightarrow> bytes \<Rightarrow> u16 \<Rightarrow> nat \<Rightarrow> bool" where
  "verify_frame_signature env p payload author_node_id base_size =
    (if length payload < base_size + SIGNATURE_SIZE then False
     else case um_find (pr_peer_keys p) author_node_id of
       None \<Rightarrow> False
     | Some pk \<Rightarrow>
         let content_len = length payload - SIGNATURE_SIZE;
             sig = take SIGNATURE_SIZE (drop content_len payload)
         in crypto_verify (env_ed env) pk sig (take content_len payload))"

section \<open>Sending\<close>

text \<open>
  A packet is finished twice in \<^verbatim>\<open>send_deltas_to\<close>: number and timestamp, \<^verbatim>\<open>finalize\<close>, the sending and the entry in the send
  tracker. Clock readings are counted from \<open>k\<close>.
\<close>

definition finish_packet ::
    "peer_env \<Rightarrow> (nat \<Rightarrow> nat) \<Rightarrow> nat \<Rightarrow> managed_connection \<Rightarrow> packet_encoder \<Rightarrow>
     managed_connection \<times> packet_encoder \<times> (bytes \<times> endpoint)" where
  "finish_packet env clk k mc enc =
    (let (c, pkt_num) = next_send_packet_number (mc_conn mc);
         (enc', pkt) = finalize (env_xxh env) (set_timestamp (elapsed_us (clk k) c) (set_packet_number pkt_num enc))
     in (mc\<lparr>mc_conn := c,
            mc_send_tracker := on_packet_sent pkt_num (elapsed_us (clk (k + 1)) c) (of_nat (length pkt)) (mc_send_tracker mc)\<rparr>,
         enc', (pkt, cn_remote c)))"

definition data_encoder :: "managed_connection \<Rightarrow> packet_encoder \<Rightarrow> packet_encoder" where
  "data_encoder mc enc = set_connection_id (cn_remote_conn_id (mc_conn mc)) (set_packet_type PT_DATA enc)"

definition add_delta :: "bytes \<Rightarrow> packet_encoder \<Rightarrow> packet_encoder \<times> bool" where
  "add_delta frame_payload enc = add_frame FT_STATE_DELTA (Some frame_payload) (of_nat (length frame_payload)) enc"

fun send_loop ::
    "peer_env \<Rightarrow> peer \<Rightarrow> (nat \<Rightarrow> nat) \<Rightarrow> nat \<Rightarrow> managed_connection \<Rightarrow> packet_encoder \<Rightarrow> pending_delta list \<Rightarrow>
     managed_connection \<times> packet_encoder \<times> nat \<times> sends" where
  "send_loop env p clk k mc enc [] = (mc, enc, k, [])"
| "send_loop env p clk k mc enc (d # ds) =
    (let frame_payload = build_signed_delta env p d; (enc1, added) = add_delta frame_payload enc
     in if added then send_loop env p clk k mc enc1 ds
        else let (mc2, enc2, pkt) = finish_packet env clk k mc enc1;
                 enc3 = fst (add_delta frame_payload (data_encoder mc2 enc2));
                 (mc4, enc4, k4, out) = send_loop env p clk (k + 2) mc2 enc3 ds
             in (mc4, enc4, k4, pkt # out))"

definition send_deltas_to ::
    "peer_env \<Rightarrow> peer \<Rightarrow> (nat \<Rightarrow> nat) \<Rightarrow> nat \<Rightarrow> managed_connection \<Rightarrow> pending_delta list \<Rightarrow>
     managed_connection \<times> nat \<times> sends \<times> int" where
  "send_deltas_to env p clk k mc deltas =
    (let (mc1, enc1, k1, out) = send_loop env p clk k mc (data_encoder mc packet_encoder_new) deltas
     in if payload_size enc1 > 0
        then let (mc2, enc2, pkt) = finish_packet env clk k1 mc1 enc1
             in (mc2, k1 + 2, out @ [pkt], int (length deltas))
        else (mc1, k1, out, int (length deltas)))"

text \<open>The deltas that pass the filter of a connection.\<close>

fun filter_deltas ::
    "(nat \<Rightarrow> nat) \<Rightarrow> nat \<Rightarrow> delta_filter \<Rightarrow> pending_delta list \<Rightarrow> delta_filter \<times> nat \<times> pending_delta list" where
  "filter_deltas clk k flt [] = (flt, k, [])"
| "filter_deltas clk k flt (d # ds) =
    (let (flt1, ok) = should_forward (clk k) (pdl_path_hash d) (pdl_data d) flt;
         (flt2, k2, fs) = filter_deltas clk (k + 1) flt1 ds
     in (flt2, k2, if ok then d # fs else fs))"

text \<open>The body of the loop over the connections in \<^verbatim>\<open>flush\<close>.\<close>

definition flush_connection ::
    "peer_env \<Rightarrow> peer \<Rightarrow> (nat \<Rightarrow> nat) \<Rightarrow> nat \<Rightarrow> pending_delta list \<Rightarrow> (u16, delta_filter) umap \<Rightarrow> managed_connection \<Rightarrow>
     managed_connection \<times> (u16, delta_filter) umap \<times> nat \<times> sends \<times> int" where
  "flush_connection env p clk k deltas filters mc =
    (if cn_state (mc_conn mc) \<noteq> CS_CONNECTED then (mc, filters, k, [], 0)
     else case um_find filters (mc_remote_node_id mc) of
       None \<Rightarrow> let (mc', k', out, sent) = send_deltas_to env p clk k mc deltas in (mc', filters, k', out, sent)
     | Some flt \<Rightarrow>
         let (flt', k1, filtered) = filter_deltas clk k flt deltas;
             filters' = um_put (mc_remote_node_id mc) flt' filters
         in if filtered = [] then (mc, filters', k1, [], 0)
            else let (mc', k', out, sent) = send_deltas_to env p clk k1 mc filtered in (mc', filters', k', out, sent))"

fun flush_loop ::
    "peer_env \<Rightarrow> peer \<Rightarrow> (nat \<Rightarrow> nat) \<Rightarrow> nat \<Rightarrow> pending_delta list \<Rightarrow> (u16, delta_filter) umap \<Rightarrow>
     (u16, managed_connection) umap \<Rightarrow> (u16, managed_connection) umap \<times> (u16, delta_filter) umap \<times> sends \<times> int" where
  "flush_loop env p clk k deltas filters [] = ([], filters, [], 0)"
| "flush_loop env p clk k deltas filters ((key, mc) # rest) =
    (let (mc', filters1, k1, out, sent) = flush_connection env p clk k deltas filters mc;
         (rest', filters2, out', sent') = flush_loop env p clk k1 deltas filters1 rest
     in ((key, mc') # rest', filters2, out @ out', sent + sent'))"

definition peer_flush :: "peer_env \<Rightarrow> (nat \<Rightarrow> nat) \<Rightarrow> peer \<Rightarrow> peer \<times> sends \<times> int" where
  "peer_flush env clk p =
    (if \<not> has_connections (pr_conn_mgr p) then (p, [], -1)
     else
       let (g, deltas) = collect_deltas (pr_state p); p1 = p\<lparr>pr_state := g\<rparr>
       in if deltas = [] then (p1, [], 0)
          else
            let (conns, filters, out, sent) =
                  flush_loop env p1 clk 0 deltas (pr_delta_filters p1) (cm_conns (pr_conn_mgr p1))
            in (p1\<lparr>pr_conn_mgr := (pr_conn_mgr p1)\<lparr>cm_conns := conns\<rparr>, pr_delta_filters := filters\<rparr>, out, sent))"

fun forward_hops ::
    "peer_env \<Rightarrow> peer \<Rightarrow> (nat \<Rightarrow> nat) \<Rightarrow> nat \<Rightarrow> u16 \<Rightarrow> pending_delta \<Rightarrow> u16 list \<Rightarrow> connection_manager \<Rightarrow>
     connection_manager \<times> nat \<times> sends" where
  "forward_hops env p clk k source d [] m = (m, k, [])"
| "forward_hops env p clk k source d (hop # hops) m =
    (if hop = source then forward_hops env p clk k source d hops m
     else case cm_get hop m of
       None \<Rightarrow> forward_hops env p clk k source d hops m
     | Some mc \<Rightarrow>
         if cn_state (mc_conn mc) = CS_CONNECTED
         then let (mc', k1, out, sent) = send_deltas_to env p clk k mc [d];
                  (m2, k2, out') = forward_hops env p clk k1 source d hops (cm_set hop mc' m)
              in (m2, k2, out @ out')
         else forward_hops env p clk k source d hops m)"

fun forward_loop ::
    "peer_env \<Rightarrow> peer \<Rightarrow> (nat \<Rightarrow> nat) \<Rightarrow> nat \<Rightarrow> u16 \<Rightarrow> pending_delta list \<Rightarrow> connection_manager \<Rightarrow> connection_manager \<times> sends" where
  "forward_loop env p clk k source [] m = (m, [])"
| "forward_loop env p clk k source (d # ds) m =
    (let (m1, k1, out) = forward_hops env p clk k source d (select_next_hops (pdl_path_hash d) (pr_router p)) m;
         (m2, out') = forward_loop env p clk k1 source ds m1
     in (m2, out @ out'))"

definition forward_deltas :: "peer_env \<Rightarrow> (nat \<Rightarrow> nat) \<Rightarrow> u16 \<Rightarrow> pending_delta list \<Rightarrow> peer \<Rightarrow> peer \<times> sends" where
  "forward_deltas env clk source_node_id deltas p =
    (let (m, out) = forward_loop env p clk 0 source_node_id deltas (pr_conn_mgr p) in (p\<lparr>pr_conn_mgr := m\<rparr>, out))"

definition send_ack :: "peer_env \<Rightarrow> nat \<Rightarrow> managed_connection \<Rightarrow> managed_connection \<times> (bytes \<times> endpoint)" where
  "send_ack env now mc =
    (let ack = fst (build_ack 0 (mc_recv_tracker mc));
         zeros = replicate ACK_BASE_WIRE_SIZE 0;
         buf = (case ack_encode ack zeros of None \<Rightarrow> zeros | Some b \<Rightarrow> b);
         (c, n) = next_send_packet_number (mc_conn mc);
         enc = encoder_for PT_CONTROL (cn_remote_conn_id c) n (elapsed_us now c);
         enc1 = fst (add_frame FT_ACK (Some buf) (of_nat ACK_BASE_WIRE_SIZE) enc)
     in (mc\<lparr>mc_conn := c\<rparr>, (snd (finalize (env_xxh env) enc1), cn_remote c)))"

section \<open>Receiving\<close>

text \<open>
  One frame of a DATA packet: the peer after it, the callbacks it made and whether it counts as a change. \<open>now\<close> is the
  clock reading of the frame, \<open>mc\<close> the connection the packet is attributed to.
\<close>

definition delta_update_events :: "(state_path \<times> bytes) option \<Rightarrow> peer_event list" where
  "delta_update_events cb = (case cb of None \<Rightarrow> [] | Some (path, snap) \<Rightarrow> [State_update path snap])"

definition sig_failure_events :: "peer \<Rightarrow> u16 \<Rightarrow> u32 \<Rightarrow> peer_event list" where
  "sig_failure_events p author path_hash = (if pr_on_sig_failure p then [Sig_failure author path_hash] else [])"

text \<open>With access control on, a declared region needs a WRITE capability in the store.\<close>

definition write_allowed :: "peer_env \<Rightarrow> peer \<Rightarrow> u32 \<Rightarrow> u32 \<Rightarrow> bool" where
  "write_allowed env p now_us path_hash =
    (if \<not> pr_access_control p then True
     else case registry_get path_hash (pr_state p) of
       None \<Rightarrow> True
     | Some region \<Rightarrow> find_capability (env_xxh env) (sr_path region) CAP_WRITE now_us (pr_cap_store p) \<noteq> None)"

definition delta_frame :: "peer_env \<Rightarrow> nat \<Rightarrow> managed_connection \<Rightarrow> bytes \<Rightarrow> peer \<Rightarrow> peer \<times> peer_event list \<times> bool" where
  "delta_frame env now mc payload p =
    (if length payload < STATE_DELTA_MIN_WIRE_SIZE
     then (p, if length payload \<ge> 4 then sig_failure_events p 0 (read_u32 payload) else [], False)
     else case state_delta_decode payload of
       None \<Rightarrow> (p, [], False)
     | Some sdf \<Rightarrow>
         if \<not> verify_frame_signature env p payload (sdf_author_node_id sdf) STATE_DELTA_BASE_WIRE_SIZE
         then (p, sig_failure_events p (sdf_author_node_id sdf) (sdf_path_hash sdf), False)
         else
           let content_len = length payload - SIGNATURE_SIZE;
               delta_data = take (content_len - STATE_DELTA_BASE_WIRE_SIZE) (drop STATE_DELTA_BASE_WIRE_SIZE payload)
           in if \<not> write_allowed env p (elapsed_us now (mc_conn mc)) (sdf_path_hash sdf) then (p, [], False)
              else
                let (g, changed, cb) = apply_delta (sdf_path_hash sdf) delta_data (pr_state p);
                    p1 = p\<lparr>pr_state := g\<rparr>
                in (if changed
                    then p1\<lparr>pr_router := on_delivery_success (env_rnd env) (mc_remote_node_id mc) (sdf_path_hash sdf)
                                          (cn_srtt_us (mc_conn mc)) (pr_router p1)\<rparr>
                    else p1,
                    delta_update_events cb, changed))"

definition snapshot_frame :: "peer_env \<Rightarrow> bytes \<Rightarrow> peer \<Rightarrow> peer \<times> peer_event list \<times> bool" where
  "snapshot_frame env payload p =
    (if length payload < STATE_SNAPSHOT_MIN_WIRE_SIZE then (p, [], False)
     else case state_snapshot_decode payload of
       None \<Rightarrow> (p, [], False)
     | Some ssf \<Rightarrow>
         if \<not> verify_frame_signature env p payload (ssf_author_node_id ssf) STATE_SNAPSHOT_BASE_WIRE_SIZE
         then (p, [], False)
         else
           let content_len = length payload - SIGNATURE_SIZE;
               snap_data = take (content_len - STATE_SNAPSHOT_BASE_WIRE_SIZE) (drop STATE_SNAPSHOT_BASE_WIRE_SIZE payload);
               (g, changed, cb) = apply_snapshot (ssf_path_hash ssf) snap_data (pr_state p)
           in (p\<lparr>pr_state := g\<rparr>, delta_update_events cb, changed))"

definition grant_frame :: "peer_env \<Rightarrow> bytes \<Rightarrow> peer \<Rightarrow> peer" where
  "grant_frame env payload p =
    (case token_decode payload of
       None \<Rightarrow> p
     | Some token \<Rightarrow>
         case peer_key (issuer_id token) (pr_cap_store p) of
           None \<Rightarrow> p
         | Some issuer_pk \<Rightarrow>
             if verify_token (env_ed env) token issuer_pk then p\<lparr>pr_cap_store := cap_store token (pr_cap_store p)\<rparr> else p)"

definition revoke_frame :: "bytes \<Rightarrow> peer \<Rightarrow> peer" where
  "revoke_frame payload p =
    (case capability_revoke_decode payload of
       None \<Rightarrow> p
     | Some crf \<Rightarrow> p\<lparr>pr_cap_store := snd (cap_revoke (crf_token_id crf) (pr_cap_store p))\<rparr>)"

definition announce_frame :: "peer_env \<Rightarrow> bytes \<Rightarrow> peer \<Rightarrow> peer" where
  "announce_frame env payload p =
    (if length payload \<ge> 6
     then let path_hash = read_u32 payload;
              announcing_node = (ucast (payload ! 4) :: u16) OR push_bit 8 (ucast (payload ! 5))
          in p\<lparr>pr_router := learn_route (env_rnd env) path_hash announcing_node (pr_router p)\<rparr>
     else p)"

definition data_frame :: "peer_env \<Rightarrow> nat \<Rightarrow> managed_connection \<Rightarrow> frame \<Rightarrow> peer \<Rightarrow> peer \<times> peer_event list \<times> bool" where
  "data_frame env now mc f p =
    (case fh_type (fr_header f) of
       FT_STATE_DELTA \<Rightarrow> delta_frame env now mc (fr_payload f) p
     | FT_STATE_SNAPSHOT \<Rightarrow> snapshot_frame env (fr_payload f) p
     | FT_CAPABILITY_GRANT \<Rightarrow> (grant_frame env (fr_payload f) p, [], False)
     | FT_CAPABILITY_REVOKE \<Rightarrow> (revoke_frame (fr_payload f) p, [], False)
     | FT_ROUTE_ANNOUNCE \<Rightarrow> (announce_frame env (fr_payload f) p, [], False)
     | _ \<Rightarrow> (p, [], False))"

fun process_data_frames ::
    "peer_env \<Rightarrow> (nat \<Rightarrow> nat) \<Rightarrow> nat \<Rightarrow> managed_connection \<Rightarrow> frame list \<Rightarrow> peer \<Rightarrow> peer \<times> peer_event list \<times> int" where
  "process_data_frames env clk k mc [] p = (p, [], 0)"
| "process_data_frames env clk k mc (f # fs) p =
    (let (p1, ev, changed) = data_frame env (clk k) mc f p;
         (p2, ev', n) = process_data_frames env clk (k + 1) mc fs p1
     in (p2, ev @ ev', if changed then n + 1 else n))"

text \<open>The last connected entry of the table whose remote endpoint is the sender.\<close>

definition match_endpoint :: "endpoint \<Rightarrow> connection_manager \<Rightarrow> (u16 \<times> managed_connection) option" where
  "match_endpoint from m =
    fold (\<lambda>e found. if cn_remote (mc_conn (snd e)) = from \<and> cn_state (mc_conn (snd e)) = CS_CONNECTED then Some e else found)
      (cm_conns m) None"

text \<open>A HANDSHAKE packet from an unknown endpoint.\<close>

definition auto_accept :: "peer_env \<Rightarrow> (nat \<Rightarrow> nat) \<Rightarrow> bytes \<Rightarrow> endpoint \<Rightarrow> peer \<Rightarrow> peer \<times> sends" where
  "auto_accept env clk data from p =
    (let auto_id = pr_next_auto_node_id p; p1 = p\<lparr>pr_next_auto_node_id := auto_id + 1\<rparr>
     in case cm_add (clk 0) auto_id (pr_conn_mgr p1) of
          (m0, None) \<Rightarrow> (p1\<lparr>pr_conn_mgr := m0\<rparr>, [])
        | (m0, Some mc) \<Rightarrow>
            let (m1, ev) = process_on env data auto_id m0
            in if result_is HR_CONNECT_RECEIVED ev
               then let (m2, out, st) = accept_on env clk auto_id from m1 in (p1\<lparr>pr_conn_mgr := m2\<rparr>, out)
               else (p1\<lparr>pr_conn_mgr := fst (cm_remove auto_id m1),
                        pr_next_auto_node_id := pr_next_auto_node_id p1 - 1\<rparr>, []))"

text \<open>A packet attributed to the connection \<open>mc\<close> with the key \<open>key\<close>.\<close>

definition poll_packet ::
    "peer_env \<Rightarrow> (nat \<Rightarrow> nat) \<Rightarrow> bytes \<Rightarrow> endpoint \<Rightarrow> packet_decoder \<Rightarrow> u16 \<Rightarrow> managed_connection \<Rightarrow> peer \<Rightarrow>
     peer \<times> sends \<times> peer_event list \<times> int" where
  "poll_packet env clk data from dec key mc p =
    (let num = ph_packet_number (pd_header dec);
         mc1 = mc\<lparr>mc_conn := update_recv_packet_number num (mc_conn mc),
                  mc_recv_tracker := on_packet_received num (mc_recv_tracker mc)\<rparr>;
         p1 = p\<lparr>pr_conn_mgr := cm_set key mc1 (pr_conn_mgr p)\<rparr>
     in if ph_packet_type (pd_header dec) = PT_HANDSHAKE
        then let (ev, c) = process_packet (env_xxh env) data (mc_conn mc1)
             in if he_result ev = HR_PING_RECEIVED
                then let (c', pong) = build_pong_packet (env_xxh env) (clk 0) (pf_ping_id (he_ping ev)) (pf_timestamp_us (he_ping ev)) c
                     in (p1\<lparr>pr_conn_mgr := cm_set key (mc1\<lparr>mc_conn := c'\<rparr>) (pr_conn_mgr p1)\<rparr>, [(pong, from)], [], 0)
                else (p1\<lparr>pr_conn_mgr := cm_set key (mc1\<lparr>mc_conn := c\<rparr>) (pr_conn_mgr p1)\<rparr>, [], [], 0)
        else if ph_packet_type (pd_header dec) = PT_DATA
        then let (p2, evs, changes) = process_data_frames env clk 0 mc1 (all_frames dec) p1 in (p2, [], evs, changes)
        else (p1, [], [], 0))"

definition peer_poll ::
    "peer_env \<Rightarrow> (nat \<Rightarrow> nat) \<Rightarrow> (bytes \<times> endpoint) option \<Rightarrow> peer \<Rightarrow> peer \<times> sends \<times> peer_event list \<times> int" where
  "peer_poll env clk rx p =
    (if \<not> has_connections (pr_conn_mgr p) then (p, [], [], -1)
     else case rx of
       None \<Rightarrow> (p, [], [], 0)
     | Some (data, from) \<Rightarrow>
         let (dec, parsed) = packet_decoder_parse data packet_decoder_new
         in if \<not> parsed then (p, [], [], 0)
            else if \<not> verify_checksum (env_xxh env) dec then (p, [], [], 0)
            else case match_endpoint from (pr_conn_mgr p) of
              Some (key, mc) \<Rightarrow> poll_packet env clk data from dec key mc p
            | None \<Rightarrow>
                if ph_packet_type (pd_header dec) = PT_HANDSHAKE
                then let (p', out) = auto_accept env clk data from p in (p', out, [], 0)
                else case cm_primary (pr_conn_mgr p) of
                  None \<Rightarrow> (p, [], [], 0)
                | Some (key, mc) \<Rightarrow> poll_packet env clk data from dec key mc p)"

section \<open>Runs of one peer\<close>

text \<open>The calls of the public interface with the clock readings, send results and receptions of each call.\<close>

datatype peer_op =
    PO_Register_key u16 bytes
  | PO_Access_control bool
  | PO_On_signature_failure
  | PO_Connect "nat \<Rightarrow> nat" endpoint bool "(bytes \<times> endpoint) option"
  | PO_Accept_from "nat \<Rightarrow> nat" "(bytes \<times> endpoint) option"
  | PO_Disconnect "nat \<Rightarrow> nat" close_reason
  | PO_Connect_start "nat \<Rightarrow> nat" endpoint bool
  | PO_Connect_poll "(bytes \<times> endpoint) option"
  | PO_Accept_start "nat \<Rightarrow> nat"
  | PO_Accept_poll "nat \<Rightarrow> nat" "(bytes \<times> endpoint) option"
  | PO_Connect_to "nat \<Rightarrow> nat" u16 endpoint bool "(bytes \<times> endpoint) option"
  | PO_Accept_node "nat \<Rightarrow> nat" u16 "(bytes \<times> endpoint) option"
  | PO_Disconnect_node "nat \<Rightarrow> nat" u16 close_reason
  | PO_Resolution u16 resolution_tier resolution_config
  | PO_Subscribe state_path resolution_tier int u32
  | PO_Declare state_path crdt_type reliability
  | PO_Set_lww "nat \<Rightarrow> nat" state_path bytes
  | PO_Increment state_path u64
  | PO_Issue bytes u8 u32
  | PO_Flush "nat \<Rightarrow> nat"
  | PO_Poll "nat \<Rightarrow> nat" "(bytes \<times> endpoint) option"

fun peer_step :: "peer_env \<Rightarrow> peer_op \<Rightarrow> peer \<Rightarrow> peer" where
  "peer_step env (PO_Register_key n pk) p = peer_register_key n pk p"
| "peer_step env (PO_Access_control b) p = set_access_control b p"
| "peer_step env PO_On_signature_failure p = on_signature_failure p"
| "peer_step env (PO_Connect clk ep ok rx) p = fst (peer_connect env clk ep ok rx p)"
| "peer_step env (PO_Accept_from clk rx) p = fst (accept_from env clk rx p)"
| "peer_step env (PO_Disconnect clk r) p = fst (peer_disconnect env clk r p)"
| "peer_step env (PO_Connect_start clk ep ok) p = fst (connect_start env clk ep ok p)"
| "peer_step env (PO_Connect_poll rx) p = fst (connect_poll env rx p)"
| "peer_step env (PO_Accept_start clk) p = fst (accept_start clk p)"
| "peer_step env (PO_Accept_poll clk rx) p = fst (accept_poll env clk rx p)"
| "peer_step env (PO_Connect_to clk n ep ok rx) p = fst (connect_to env clk n ep ok rx p)"
| "peer_step env (PO_Accept_node clk n rx) p = fst (accept_node env clk n rx p)"
| "peer_step env (PO_Disconnect_node clk n r) p = fst (disconnect_node env clk n r p)"
| "peer_step env (PO_Resolution n t cfg) p = set_connection_resolution n t cfg p"
| "peer_step env (PO_Subscribe pat t cr fr) p = fst (peer_subscribe pat t cr fr p)"
| "peer_step env (PO_Declare path t r) p = fst (peer_declare path t r p)"
| "peer_step env (PO_Set_lww clk path data) p = fst (peer_set_lww clk path data p)"
| "peer_step env (PO_Increment path a) p = fst (peer_increment_counter path a p)"
| "peer_step env (PO_Issue pat perms expiry) p =
     p\<lparr>pr_cap_store := snd (cap_issue (env_ed env) pat perms expiry (pr_cap_store p))\<rparr>"
| "peer_step env (PO_Flush clk) p = fst (peer_flush env clk p)"
| "peer_step env (PO_Poll clk rx) p = fst (peer_poll env clk rx p)"

definition peer_run :: "peer_env \<Rightarrow> peer_op list \<Rightarrow> peer \<Rightarrow> peer" where
  "peer_run env ops p = fold (peer_step env) ops p"

section \<open>Invariant\<close>

definition conns_ok :: "connection_manager \<Rightarrow> bool" where
  "conns_ok m \<longleftrightarrow> um_ok (cm_conns m) \<and> (\<forall>e \<in> set (cm_conns m). mc_remote_node_id (snd e) = fst e)"

definition peer_ok :: "peer_env \<Rightarrow> peer \<Rightarrow> bool" where
  "peer_ok env p \<longleftrightarrow>
     conns_ok (pr_conn_mgr p) \<and> registry_ok (pr_state p) \<and> router_ok (env_rnd env) (pr_router p) \<and>
     store_ok (pr_cap_store p) \<and> um_ok (pr_delta_filters p) \<and> reg_node_id (pr_state p) = pr_node_id p \<and>
     rtr_local_node_id (pr_router p) = pr_node_id p"

lemma conns_ok_set [intro]:
  "conns_ok m \<Longrightarrow> mc_remote_node_id mc = key \<Longrightarrow> conns_ok (cm_set key mc m)"
  using set_um_put [of key mc "cm_conns m"] by (auto simp: conns_ok_def cm_set_def)

lemma conns_ok_remove [intro]: "conns_ok m \<Longrightarrow> conns_ok (fst (cm_remove key m))"
  by (auto simp: conns_ok_def cm_remove_def um_erase_conv_filter distinct_map_filter)

lemma conns_ok_next_id [simp]: "conns_ok (fst (next_conn_id m)) = conns_ok m" "cm_get k (fst (next_conn_id m)) = cm_get k m"
  by (simp_all add: conns_ok_def next_conn_id_def cm_get_def split_beta)

lemma conns_ok_get: "conns_ok m \<Longrightarrow> cm_get key m = Some mc \<Longrightarrow> mc_remote_node_id mc = key"
  by (auto simp: conns_ok_def cm_get_def dest!: map_of_SomeD simp del: map_of_eq_Some_iff)

lemma conns_ok_add:
  "conns_ok m \<Longrightarrow> cm_add now key m = (m', r) \<Longrightarrow> conns_ok m' \<and> (\<forall>mc. r = Some mc \<longrightarrow> mc_remote_node_id mc = key)"
  using set_um_put [of key _ "cm_conns m"]
  by (fastforce simp: cm_add_def conns_ok_def Let_def split: option.splits)

lemma conns_ok_slot0:
  "conns_ok m \<Longrightarrow> slot0 now m = (m', r) \<Longrightarrow> conns_ok m' \<and> (\<forall>mc. r = Some mc \<longrightarrow> mc_remote_node_id mc = 0)"
  by (auto simp: slot0_def dest: conns_ok_add conns_ok_get split: prod.splits option.splits)

lemma conns_ok_update:
  "conns_ok m \<Longrightarrow> cm_get key m' = Some mc \<Longrightarrow> conns_ok m' \<Longrightarrow> conns_ok (cm_set key (mc\<lparr>mc_conn := c\<rparr>) m)"
  using conns_ok_get [of m' key mc] by auto

lemma conns_ok_process: "conns_ok m \<Longrightarrow> conns_ok (fst (process_on env data key m))"
  by (auto simp: process_on_def Let_def conns_ok_update split: option.split prod.split)

lemma conns_ok_initiate:
  "conns_ok m \<Longrightarrow> mc_remote_node_id mc = key \<Longrightarrow> conns_ok (fst (initiate_on env clk key mc remote m))"
  by (auto simp: initiate_on_def split_beta Let_def)

lemma conns_ok_accept: "conns_ok m \<Longrightarrow> conns_ok (fst (accept_on env clk key from m))"
  by (auto simp: accept_on_def split_beta Let_def conns_ok_update split: option.split)

lemma conns_ok_close: "conns_ok m \<Longrightarrow> conns_ok (fst (close_on env clk reason key m))"
  by (auto simp: close_on_def split_beta Let_def conns_ok_update split: option.split)

text \<open>A call that touches the connections only, and keeps them well formed, keeps the invariant.\<close>

lemma peer_ok_conns:
  "peer_ok env p \<Longrightarrow> conns_ok m \<Longrightarrow> peer_ok env (p\<lparr>pr_conn_mgr := m\<rparr>)"
  "peer_ok env (p\<lparr>pr_hs_state := h\<rparr>) = peer_ok env p" "peer_ok env (p\<lparr>pr_hs_remote := r\<rparr>) = peer_ok env p"
  "peer_ok env (p\<lparr>pr_next_auto_node_id := n\<rparr>) = peer_ok env p"
  by (simp_all add: peer_ok_def)

lemmas handshake_keeps = conns_ok_process conns_ok_initiate conns_ok_accept conns_ok_close conns_ok_remove peer_ok_conns

lemma peer_ok_D:
  assumes "peer_ok env p"
  shows "conns_ok (pr_conn_mgr p)" "registry_ok (pr_state p)" "router_ok (env_rnd env) (pr_router p)"
  using assms by (simp_all add: peer_ok_def)

lemma single_calls_ok:
  assumes ok: "peer_ok env p"
  shows "peer_ok env (fst (peer_connect env clk remote sent_ok rx p))" "peer_ok env (fst (accept_from env clk rx p))"
    "peer_ok env (fst (connect_start env clk remote sent_ok p))" "peer_ok env (fst (accept_start clk p))"
proof -
  obtain m r where s: "slot0 (clk 0) (pr_conn_mgr p) = (m, r)" by fastforce
  have m: "conns_ok m" "\<And>mc. r = Some mc \<Longrightarrow> mc_remote_node_id mc = 0"
    using conns_ok_slot0 [OF _ s] peer_ok_D(1) [OF ok] by auto
  have i: "conns_ok (fst (initiate_on env clk 0 mc remote m))" if "r = Some mc" for mc
    by (rule conns_ok_initiate [OF m(1) m(2) [OF that]])
  show "peer_ok env (fst (peer_connect env clk remote sent_ok rx p))" "peer_ok env (fst (accept_from env clk rx p))"
    "peer_ok env (fst (connect_start env clk remote sent_ok p))" "peer_ok env (fst (accept_start clk p))"
    using ok m i by (auto simp: peer_connect_def accept_from_def connect_start_def accept_start_def s split_beta Let_def
        handshake_keeps split: option.split)
qed

lemma multi_calls_ok:
  assumes ok: "peer_ok env p"
  shows "peer_ok env (fst (connect_to env clk n remote sent_ok rx p))" "peer_ok env (fst (accept_node env clk n rx p))"
proof -
  obtain m r where s: "cm_add (clk 0) n (pr_conn_mgr p) = (m, r)" by fastforce
  have m: "conns_ok m" "\<And>mc. r = Some mc \<Longrightarrow> mc_remote_node_id mc = n"
    using conns_ok_add [OF _ s] peer_ok_D(1) [OF ok] by auto
  have i: "conns_ok (fst (initiate_on env clk n mc remote m))" if "r = Some mc" for mc
    by (rule conns_ok_initiate [OF m(1) m(2) [OF that]])
  show "peer_ok env (fst (connect_to env clk n remote sent_ok rx p))" "peer_ok env (fst (accept_node env clk n rx p))"
    using ok m i by (auto simp: connect_to_def accept_node_def s split_beta Let_def handshake_keeps split: option.split)
qed

lemma polled_calls_ok:
  assumes ok: "peer_ok env p"
  shows "peer_ok env (fst (connect_poll env rx p))" "peer_ok env (fst (accept_poll env clk rx p))"
    "peer_ok env (fst (peer_disconnect env clk reason p))"
  using ok peer_ok_D(1) [OF ok]
  by (auto simp: connect_poll_def accept_poll_def peer_disconnect_def split_beta Let_def handshake_keeps split: option.split)

lemma router_calls_ok:
  assumes "rounding rnd" "router_ok rnd rt"
  shows "router_ok rnd (snd (announce_path h rt))" "router_ok rnd (learn_route rnd h n rt)"
    "router_ok rnd (router_remove_node n rt)" "router_ok rnd (on_delivery_success rnd n h rtt rt)"
    "rtr_local_node_id (snd (announce_path h rt)) = rtr_local_node_id rt"
    "rtr_local_node_id (learn_route rnd h n rt) = rtr_local_node_id rt"
    "rtr_local_node_id (router_remove_node n rt) = rtr_local_node_id rt"
    "rtr_local_node_id (on_delivery_success rnd n h rtt rt) = rtr_local_node_id rt"
  using router_step_ok [OF assms, of "Announce h"] router_step_ok [OF assms, of "Learn h n"]
    router_step_ok [OF assms, of "Remove_node n"] router_step_ok [OF assms, of "Delivery_success n h rtt"]
    router_step_frame(1) [of rnd "Announce h" rt] router_step_frame(1) [of rnd "Learn h n" rt]
    router_step_frame(1) [of rnd "Remove_node n" rt] router_step_frame(1) [of rnd "Delivery_success n h rtt" rt]
  by simp_all

lemma disconnect_node_ok:
  "rounding (env_rnd env) \<Longrightarrow> peer_ok env p \<Longrightarrow> peer_ok env (fst (disconnect_node env clk n reason p))"
  using conns_ok_remove [OF conns_ok_close [of "pr_conn_mgr p" env clk reason n], of n]
  by (auto simp: disconnect_node_def split_beta Let_def peer_ok_def router_calls_ok)

lemma reg_node_id_apply [simp]:
  "reg_node_id (fst (apply_delta h d g)) = reg_node_id g" "reg_node_id (fst (apply_snapshot h d g)) = reg_node_id g"
  "reg_node_id (fst (registry_declare path t rel g)) = reg_node_id g"
  "reg_node_id (fst (collect_deltas g)) = reg_node_id g"
  by (simp_all add: apply_delta_def apply_snapshot_def registry_declare_def collect_deltas_def split_beta Let_def
      split: option.split)

lemma peer_declare_ok:
  "rounding (env_rnd env) \<Longrightarrow> peer_ok env p \<Longrightarrow> peer_ok env (fst (peer_declare path t rel p))"
  by (auto simp: peer_declare_def split_beta Let_def peer_ok_def router_calls_ok registry_ok_declare)

text \<open>A local write replaces the CRDT of a region by one of the same type.\<close>

lemma registry_ok_put:
  assumes "registry_ok g" "registry_get h g = Some r" "crdt_has_type (sr_crdt_type r) c" "crdt_ok c"
  shows "registry_ok (g\<lparr>reg_regions := um_put h (r\<lparr>sr_crdt := c, sr_version := v\<rparr>) (reg_regions g)\<rparr>)"
proof -
  have "(h, r) \<in> set (reg_regions g)" using assms(2) by (simp add: registry_get_def map_of_SomeD)
  then have "sp_hash (sr_path r) = h" using assms(1) by (auto simp: registry_ok_def region_ok_def)
  then show ?thesis
    using assms set_um_put [of h "r\<lparr>sr_crdt := c, sr_version := v\<rparr>" "reg_regions g"]
    by (fastforce simp: registry_ok_def region_ok_def)
qed

lemma registry_crdt:
  assumes "registry_ok g" "registry_get h g = Some r"
  shows "crdt_has_type (sr_crdt_type r) (sr_crdt r)" "crdt_ok (sr_crdt r)"
  using assms by (auto simp: registry_ok_def region_ok_def registry_get_def dest!: map_of_SomeD simp del: map_of_eq_Some_iff)

lemma local_writes_ok:
  assumes ok: "peer_ok env p"
  shows "peer_ok env (fst (peer_set_lww clk path data p))" "peer_ok env (fst (peer_increment_counter path a p))"
proof -
  have g: "registry_ok (pr_state p)" by (rule peer_ok_D(2) [OF ok])
  have put: "peer_ok env (p\<lparr>pr_state := (pr_state p)\<lparr>reg_regions := um_put h (r\<lparr>sr_crdt := c, sr_version := v\<rparr>) (reg_regions (pr_state p))\<rparr>\<rparr>)"
    if "registry_get h (pr_state p) = Some r" "crdt_has_type (sr_crdt_type r) c" "crdt_ok c" for h r c v
    using ok registry_ok_put [OF g that] by (simp add: peer_ok_def)
  show "peer_ok env (fst (peer_set_lww clk path data p))"
    using ok registry_crdt [OF g]
    by (auto simp: peer_set_lww_def Let_def split: option.split crdt.split intro!: put)
  show "peer_ok env (fst (peer_increment_counter path a p))"
    using ok registry_crdt [OF g]
    by (fastforce simp: peer_increment_counter_def Let_def gc_inv_increment split: option.split crdt.split intro!: put)
qed

text \<open>Sending changes the packet number and the send tracker of a connection only.\<close>

lemma finish_packet_mc:
  "mc_remote_node_id (fst (finish_packet env clk k mc enc)) = mc_remote_node_id mc"
  "mc_conn (fst (finish_packet env clk k mc enc)) = (mc_conn mc)\<lparr>cn_send_pkt_num := cn_send_pkt_num (mc_conn mc) + 1\<rparr>"
  by (simp_all add: finish_packet_def next_send_packet_number_def Let_def split_beta)

lemma send_loop_mc: "mc_remote_node_id (fst (send_loop env p clk k mc enc ds)) = mc_remote_node_id mc"
  by (induction ds arbitrary: k mc enc) (simp_all add: split_beta Let_def finish_packet_mc)

lemma send_deltas_mc: "mc_remote_node_id (fst (send_deltas_to env p clk k mc ds)) = mc_remote_node_id mc"
  by (simp add: send_deltas_to_def split_beta Let_def finish_packet_mc send_loop_mc)

lemma flush_connection_mc:
  assumes "flush_connection env p clk k deltas filters mc = (mc', filters', k', out, sent)"
  shows "mc_remote_node_id mc' = mc_remote_node_id mc" "um_ok filters \<Longrightarrow> um_ok filters'"
  using assms
  by (auto simp: flush_connection_def Let_def split_beta send_deltas_mc split: if_splits option.splits)

lemma flush_loop_conns:
  assumes "flush_loop env p clk k deltas filters conns = (conns', filters', out, sent)"
  shows "map fst conns' = map fst conns \<and> map (\<lambda>e. mc_remote_node_id (snd e)) conns' = map (\<lambda>e. mc_remote_node_id (snd e)) conns \<and>
    (um_ok filters \<longrightarrow> um_ok filters')"
  using assms
proof (induction conns arbitrary: k filters conns' filters' out sent)
  case (Cons e conns)
  obtain key mc where e: "e = (key, mc)" by fastforce
  obtain mc' f1 k1 o1 s1 where c: "flush_connection env p clk k deltas filters mc = (mc', f1, k1, o1, s1)"
    by (metis prod_cases5)
  obtain c2 f2 o2 s2 where r: "flush_loop env p clk k1 deltas f1 conns = (c2, f2, o2, s2)" by (metis prod_cases4)
  show ?case using Cons.prems Cons.IH [OF r] flush_connection_mc [OF c] by (auto simp: e c r)
qed simp

lemma peer_flush_ok:
  assumes ok: "peer_ok env p"
  shows "peer_ok env (fst (peer_flush env clk p))"
proof -
  obtain g ds where g: "collect_deltas (pr_state p) = (g, ds)" by fastforce
  let ?p = "p\<lparr>pr_state := g\<rparr>"
  have p1: "peer_ok env ?p"
    using ok registry_ok_collect [of "pr_state p"] reg_node_id_apply(4) [of "pr_state p"] by (simp add: peer_ok_def g)
  obtain cs fs out n where f: "flush_loop env ?p clk 0 ds (pr_delta_filters p) (cm_conns (pr_conn_mgr p)) = (cs, fs, out, n)"
    by (metis prod_cases4)
  have keys: "map fst cs = map fst (cm_conns (pr_conn_mgr p))"
    "map (\<lambda>e. mc_remote_node_id (snd e)) cs = map (\<lambda>e. mc_remote_node_id (snd e)) (cm_conns (pr_conn_mgr p))"
    and fok: "um_ok (pr_delta_filters p) \<longrightarrow> um_ok fs"
    using flush_loop_conns [OF f] by auto
  have iff: "(\<forall>e \<in> set xs. mc_remote_node_id (snd e) = fst e) \<longleftrightarrow> map (\<lambda>e. mc_remote_node_id (snd e)) xs = map fst xs"
    for xs :: "(u16, managed_connection) umap" by (induction xs) auto
  have "conns_ok ((pr_conn_mgr p)\<lparr>cm_conns := cs\<rparr>)"
    using peer_ok_D(1) [OF ok] keys unfolding conns_ok_def iff by simp
  with p1 fok ok show ?thesis by (auto simp: peer_flush_def g f peer_ok_def Let_def)
qed

text \<open>Receiving.\<close>

lemma peer_ok_apply:
  assumes "rounding (env_rnd env)" "peer_ok env p"
  shows "peer_ok env (p\<lparr>pr_state := fst (apply_delta h d (pr_state p))\<rparr>)"
    "peer_ok env (p\<lparr>pr_state := fst (apply_snapshot h d (pr_state p))\<rparr>)"
    "peer_ok env (p\<lparr>pr_state := fst (apply_delta h d (pr_state p)), pr_router := on_delivery_success (env_rnd env) n h rtt (pr_router p)\<rparr>)"
  using assms by (auto simp: peer_ok_def registry_ok_apply router_calls_ok apply_snapshot_def)

lemma data_frame_ok:
  assumes r: "rounding (env_rnd env)" and ok: "peer_ok env p"
  shows "peer_ok env (fst (data_frame env now mc f p))"
proof -
  have "peer_ok env (fst (delta_frame env now mc pl p))" for pl
    using ok peer_ok_apply [OF r ok] by (auto simp: delta_frame_def split_beta Let_def split: option.split)
  moreover have "peer_ok env (fst (snapshot_frame env pl p))" for pl
    using ok peer_ok_apply [OF r ok] by (auto simp: snapshot_frame_def split_beta Let_def split: option.split)
  moreover have "peer_ok env (grant_frame env pl p)" "peer_ok env (revoke_frame pl p)" "peer_ok env (announce_frame env pl p)" for pl
    using ok r store_ops_ok(3,4) [of "pr_cap_store p"]
    by (auto simp: grant_frame_def revoke_frame_def announce_frame_def peer_ok_def Let_def router_calls_ok split: option.split)
  ultimately show ?thesis using ok by (simp add: data_frame_def split: frame_type.split)
qed

lemma process_data_frames_ok:
  "rounding (env_rnd env) \<Longrightarrow> peer_ok env p \<Longrightarrow> peer_ok env (fst (process_data_frames env clk k mc fs p))"
  by (induction fs arbitrary: k p) (auto simp: split_beta data_frame_ok)

lemma match_endpoint_member:
  "match_endpoint from m = Some e \<Longrightarrow>
   e \<in> set (cm_conns m) \<and> cn_remote (mc_conn (snd e)) = from \<and> cn_state (mc_conn (snd e)) = CS_CONNECTED"
proof -
  let ?Q = "\<lambda>e. cn_remote (mc_conn (snd e)) = from \<and> cn_state (mc_conn (snd e)) = CS_CONNECTED"
  have "fold (\<lambda>e found. if ?Q e then Some e else found) xs acc = Some e \<Longrightarrow> (e \<in> set xs \<and> ?Q e) \<or> acc = Some e" for xs acc
    by (induction xs arbitrary: acc) (auto split: if_splits)
  then show "match_endpoint from m = Some e \<Longrightarrow> e \<in> set (cm_conns m) \<and> ?Q e" by (auto simp: match_endpoint_def)
qed

lemma poll_packet_ok:
  assumes "rounding (env_rnd env)" "peer_ok env p" "mc_remote_node_id mc = key"
  shows "peer_ok env (fst (poll_packet env clk data from dec key mc p))"
  using assms(2,3) peer_ok_D(1) [OF assms(2)]
  by (auto simp: poll_packet_def split_beta Let_def intro!: process_data_frames_ok [OF assms(1)] peer_ok_conns(1) conns_ok_set)

lemma auto_accept_ok:
  assumes ok: "peer_ok env p"
  shows "peer_ok env (fst (auto_accept env clk data from p))"
proof -
  obtain m r where s: "cm_add (clk 0) (pr_next_auto_node_id p) (pr_conn_mgr p) = (m, r)" by fastforce
  have "conns_ok m" using conns_ok_add [OF _ s] peer_ok_D(1) [OF ok] by auto
  then show ?thesis using ok by (auto simp: auto_accept_def s split_beta Let_def handshake_keeps split: option.split)
qed

lemma cm_primary_member: "cm_primary m = Some e \<Longrightarrow> e \<in> set (cm_conns m)"
  by (auto simp: cm_primary_def split: list.splits)

lemma peer_poll_ok:
  assumes "rounding (env_rnd env)" "peer_ok env p"
  shows "peer_ok env (fst (peer_poll env clk rx p))"
proof -
  have packet: "peer_ok env (fst (poll_packet env clk data ep dec (fst e) (snd e) p))"
    if "e \<in> set (cm_conns (pr_conn_mgr p))" for data dec ep e
    using poll_packet_ok [OF assms, of "snd e" "fst e"] peer_ok_D(1) [OF assms(2)] that by (simp add: conns_ok_def)
  then show ?thesis
    using assms(2) auto_accept_ok [OF assms(2)] packet [OF match_endpoint_member [THEN conjunct1]] packet [OF cm_primary_member]
    by (simp add: peer_poll_def split_beta Let_def split: option.split)
qed

lemma peer_step_ok:
  assumes "rounding (env_rnd env)" "peer_ok env p"
  shows "peer_ok env (peer_step env op p)"
proof (cases op)
  case (PO_Subscribe pat t cr fr)
  then show ?thesis using assms(2) by (simp add: peer_subscribe_def split_beta Let_def peer_ok_def)
qed (use assms in \<open>simp_all add: single_calls_ok multi_calls_ok polled_calls_ok disconnect_node_ok peer_declare_ok
    local_writes_ok peer_flush_ok peer_poll_ok\<close>, simp_all add: peer_ok_def peer_register_key_def set_access_control_def
    on_signature_failure_def set_connection_resolution_def store_ops_ok)

lemma peer_new_ok:
  "config_ok (env_rnd env) (default_router_config (env_rnd env)) \<Longrightarrow> peer_ok env (peer_new env n keys)"
  by (simp add: peer_ok_def peer_new_def conns_ok_def connection_manager_new_def registry_ok_def registry_new_def
      router_ok_def new_router_def table_within_def store_ok_def capability_store_new_def)

lemma peer_run_ok:
  "rounding (env_rnd env) \<Longrightarrow> peer_ok env p \<Longrightarrow> peer_ok env (peer_run env ops p)"
  by (induction ops arbitrary: p) (auto simp: peer_run_def peer_step_ok)

text \<open>
  C8. Invariant of a peer. Whatever calls of the interface a new peer receives, with whatever packets, clock readings and send results, every
  region is stored under the hash of its path and holds a CRDT of its declared type (so the casts of the write
  calls are right) that satisfies its own invariant; every connection is stored under its remote node id; no route leads to
  the peer itself and every route weight stays in the unit interval; every token is stored under its own id.
\<close>

theorem peer_invariant:
  assumes "rounding (env_rnd env)" "config_ok (env_rnd env) (default_router_config (env_rnd env))"
  shows "let p = peer_run env ops (peer_new env n keys)
    in (\<forall>h r. registry_get h (pr_state p) = Some r \<longrightarrow>
          sp_hash (sr_path r) = h \<and> crdt_has_type (sr_crdt_type r) (sr_crdt r) \<and> crdt_ok (sr_crdt r)) \<and>
       (\<forall>k mc. cm_get k (pr_conn_mgr p) = Some mc \<longrightarrow> mc_remote_node_id mc = k) \<and>
       (\<forall>h rs. um_find (rtr_table (pr_router p)) h = Some rs \<longrightarrow>
          (\<forall>r \<in> set rs. next_hop_node_id r \<noteq> pr_node_id p \<and> 0 \<le> weight r \<and> weight r \<le> 1)) \<and>
       (\<forall>i t. um_find (cst_tokens (pr_cap_store p)) i = Some t \<longrightarrow> token_id t = i)"
proof -
  define p where "p = peer_run env ops (peer_new env n keys)"
  have ok: "peer_ok env p" unfolding p_def by (rule peer_run_ok [OF assms(1) peer_new_ok [OF assms(2)]])
  have regions: "sp_hash (sr_path r) = h" if "registry_get h (pr_state p) = Some r" for h r
    using ok that by (auto simp: peer_ok_def registry_ok_def region_ok_def registry_get_def dest!: map_of_SomeD simp del: map_of_eq_Some_iff)
  have routes: "routes_ok (pr_node_id p) rs" if "um_find (rtr_table (pr_router p)) h = Some rs" for h rs
    by (rule table_ok_find [OF _ that]) (use ok in \<open>auto simp: peer_ok_def router_ok_def\<close>)
  have tokens: "token_id t = i" if "um_find (cst_tokens (pr_cap_store p)) i = Some t" for i t
    using ok that by (auto simp: peer_ok_def store_ok_def list_all_iff dest!: map_of_SomeD simp del: map_of_eq_Some_iff)
  show ?thesis
    using regions routes tokens registry_crdt [OF peer_ok_D(2) [OF ok]] conns_ok_get [OF peer_ok_D(1) [OF ok]]
    unfolding p_def [symmetric] Let_def by (simp add: routes_within_def list_all_iff del: map_of_eq_Some_iff)
qed

theorem peer_invariant_witness:
  "let env = \<lparr>env_xxh = (\<lambda>b. 5), env_ed = example_ed, env_rnd = (\<lambda>x. x)\<rparr>; path = state_path_new (\<lambda>b. 5) [47, 97];
       p = peer_run env [PO_Declare path CRDT_G_COUNTER REL_RELIABLE, PO_Increment path 3, PO_Poll (\<lambda>_. 0) None]
             (peer_new env 1 (keypair_from_seed example_ed [7]))
   in \<forall>r. registry_get 5 (pr_state p) = Some r \<longrightarrow> crdt_has_type (sr_crdt_type r) (sr_crdt r)"
proof -
  let ?env = "\<lparr>env_xxh = (\<lambda>b. 5), env_ed = example_ed, env_rnd = (\<lambda>x. x)\<rparr>"
  have "rounding (env_rnd ?env)" "config_ok (env_rnd ?env) (default_router_config (env_rnd ?env))"
    using exact_rounding default_config_ok by simp_all
  from peer_invariant [OF this] show ?thesis by (simp only: Let_def) blast
qed

end
