(* ===== verification/Peer_Sync.thy ===== *)
theory Peer_Sync
  imports Peer "HOL-Library.Sublist"
begin

text \<open>
  What the calls of two peers do together. \<open>frame_update\<close> is the specification of the receiving side: the author, the path
  hash and the data of a frame that carries a valid signature of a registered author. The lemmas show that \<^verbatim>\<open>poll\<close> changes the
  state by such updates only, and that the packets of \<^verbatim>\<open>flush\<close>, delivered in any order, any number of times or not at all,
  apply at the receiver exactly the deltas that were collected.
\<close>

text \<open>The bytes in front of the last 64 are signed by the registered key of the author.\<close>

definition authentic :: "peer_env \<Rightarrow> (u16, bytes) umap \<Rightarrow> u16 \<Rightarrow> bytes \<Rightarrow> bool" where
  "authentic env keys author payload \<longleftrightarrow>
     (case um_find keys author of
        None \<Rightarrow> False
      | Some pk \<Rightarrow> crypto_verify (env_ed env) pk (drop (length payload - 64) payload) (take (length payload - 64) payload))"

definition frame_update :: "peer_env \<Rightarrow> (u16, bytes) umap \<Rightarrow> frame \<Rightarrow> (u16 \<times> u32 \<times> bytes) option" where
  "frame_update env keys f =
    (let pl = fr_payload f; t = fh_type (fr_header f);
         base = (if t = FT_STATE_DELTA then 8 else 7); author = read_u16 (drop (base - 2) pl)
     in if (t = FT_STATE_DELTA \<or> t = FT_STATE_SNAPSHOT) \<and> base + 64 \<le> length pl \<and> authentic env keys author pl
        then Some (author, read_u32 pl, drop base (take (length pl - 64) pl)) else None)"

text \<open>What the signed bytes of a frame say: author, path hash and data.\<close>

definition signed_update :: "frame_type \<Rightarrow> bytes \<Rightarrow> u16 \<times> u32 \<times> bytes" where
  "signed_update t content =
    (let base = (if t = FT_STATE_DELTA then 8 else 7)
     in (read_u16 (drop (base - 2) content), read_u32 content, drop base content))"

definition frame_updates :: "peer_env \<Rightarrow> (u16, bytes) umap \<Rightarrow> frame list \<Rightarrow> (u16 \<times> u32 \<times> bytes) list" where
  "frame_updates env keys fs = List.map_filter (frame_update env keys) fs"

definition apply_updates :: "(u16 \<times> u32 \<times> bytes) list \<Rightarrow> state_registry \<Rightarrow> state_registry" where
  "apply_updates us g = fold (\<lambda>(a, h, d) g. fst (apply_delta h d g)) us g"

text \<open>The frames of a received packet, if it is a packet with a right checksum that carries data.\<close>

definition data_frames :: "(bytes \<Rightarrow> u32) \<Rightarrow> bytes \<Rightarrow> frame list" where
  "data_frames xxh data =
    (let (dec, ok) = packet_decoder_parse data packet_decoder_new
     in if ok \<and> verify_checksum xxh dec \<and> ph_packet_type (pd_header dec) = PT_DATA then all_frames dec else [])"

definition polls :: "peer_env \<Rightarrow> ((nat \<Rightarrow> nat) \<times> bytes \<times> endpoint) list \<Rightarrow> peer \<Rightarrow> peer" where
  "polls env rxs p = fold (\<lambda>(clk, rx) p. fst (peer_poll env clk (Some rx) p)) rxs p"

definition delta_updates :: "u16 \<Rightarrow> pending_delta list \<Rightarrow> (u16 \<times> u32 \<times> bytes) list" where
  "delta_updates author ds = map (\<lambda>d. (author, pdl_path_hash d, pdl_data d)) ds"

section \<open>Receiving\<close>

lemma verify_frame_signature_iff:
  "base + 64 \<le> length pl \<Longrightarrow> verify_frame_signature env p pl author base = authentic env (pr_peer_keys p) author pl"
  by (simp add: verify_frame_signature_def authentic_def SIGNATURE_SIZE_def Let_def split: option.split)

lemma drop_take_base: "drop b (take (n - 64) pl) = take (n - 64 - b) (drop b pl)"
  by (simp add: drop_take)

lemma delta_frame_state:
  assumes "fh_type (fr_header f) = FT_STATE_DELTA"
  shows "pr_state (fst (delta_frame env now mc (fr_payload f) p)) =
    (case frame_update env (pr_peer_keys p) f of
       None \<Rightarrow> pr_state p
     | Some (a, h, d) \<Rightarrow>
         if write_allowed env p (elapsed_us now (mc_conn mc)) h then fst (apply_delta h d (pr_state p)) else pr_state p)"
  using assms verify_frame_signature_iff [of 8 "fr_payload f" env p]
  by (auto simp: delta_frame_def frame_update_def Let_def split_beta STATE_DELTA_MIN_WIRE_SIZE_def STATE_DELTA_BASE_WIRE_SIZE_def
      SIGNATURE_SIZE_def state_delta_decode_def drop_take_base)

lemma snapshot_frame_state:
  assumes "fh_type (fr_header f) = FT_STATE_SNAPSHOT"
  shows "pr_state (fst (snapshot_frame env (fr_payload f) p)) =
    (case frame_update env (pr_peer_keys p) f of
       None \<Rightarrow> pr_state p | Some (a, h, d) \<Rightarrow> fst (apply_delta h d (pr_state p)))"
  using assms verify_frame_signature_iff [of 7 "fr_payload f" env p]
  by (auto simp: snapshot_frame_def frame_update_def Let_def split_beta STATE_SNAPSHOT_MIN_WIRE_SIZE_def
      STATE_SNAPSHOT_BASE_WIRE_SIZE_def SIGNATURE_SIZE_def state_snapshot_decode_def apply_snapshot_def drop_take_base)

lemma data_frame_state:
  "pr_state (fst (data_frame env now mc f p)) =
    (case frame_update env (pr_peer_keys p) f of
       None \<Rightarrow> pr_state p
     | Some (a, h, d) \<Rightarrow>
         if fh_type (fr_header f) = FT_STATE_DELTA \<and> \<not> write_allowed env p (elapsed_us now (mc_conn mc)) h then pr_state p
         else fst (apply_delta h d (pr_state p)))"
proof (cases "fh_type (fr_header f) = FT_STATE_DELTA \<or> fh_type (fr_header f) = FT_STATE_SNAPSHOT")
  case True
  then show ?thesis
    using delta_frame_state [of f env now mc p] snapshot_frame_state [of f env p]
    by (auto simp: data_frame_def split: option.split)
next
  case False
  then have "frame_update env (pr_peer_keys p) f = None" by (simp add: frame_update_def Let_def)
  with False show ?thesis
    by (simp add: data_frame_def grant_frame_def revoke_frame_def announce_frame_def Let_def
        split: frame_type.split option.split)
qed

lemma data_frame_keeps [simp]:
  "pr_peer_keys (fst (data_frame env now mc f p)) = pr_peer_keys p"
  "pr_access_control (fst (data_frame env now mc f p)) = pr_access_control p"
  "pr_conn_mgr (fst (data_frame env now mc f p)) = pr_conn_mgr p"
  "pr_on_sig_failure (fst (data_frame env now mc f p)) = pr_on_sig_failure p"
  by (auto simp: data_frame_def delta_frame_def snapshot_frame_def grant_frame_def revoke_frame_def announce_frame_def
      split_beta Let_def split: frame_type.split option.split)

lemma process_data_frames_keeps [simp]:
  "pr_peer_keys (fst (process_data_frames env clk k mc fs p)) = pr_peer_keys p"
  "pr_access_control (fst (process_data_frames env clk k mc fs p)) = pr_access_control p"
  "pr_conn_mgr (fst (process_data_frames env clk k mc fs p)) = pr_conn_mgr p"
  by (induction fs arbitrary: k p) (simp_all add: split_beta)

lemma apply_updates_simps [simp]:
  "apply_updates [] g = g" "apply_updates ((a, h, d) # us) g = apply_updates us (fst (apply_delta h d g))"
  by (simp_all add: apply_updates_def)

lemma apply_updates_append: "apply_updates (us @ vs) g = apply_updates vs (apply_updates us g)"
  by (simp add: apply_updates_def)

lemma frame_updates_simps [simp]:
  "frame_updates env keys [] = []"
  "frame_updates env keys (f # fs) =
    (case frame_update env keys f of None \<Rightarrow> frame_updates env keys fs | Some u \<Rightarrow> u # frame_updates env keys fs)"
  by (simp_all add: frame_updates_def map_filter_simps split: option.split)

text \<open>The frames of a packet apply a part of its authentic updates, all of them without access control.\<close>

lemma process_data_frames_state:
  "\<exists>us. subseq us (frame_updates env (pr_peer_keys p) fs) \<and>
     pr_state (fst (process_data_frames env clk k mc fs p)) = apply_updates us (pr_state p) \<and>
     (\<not> pr_access_control p \<longrightarrow> us = frame_updates env (pr_peer_keys p) fs)"
proof (induction fs arbitrary: k p)
  case (Cons f fs)
  let ?p = "fst (data_frame env (clk k) mc f p)"
  obtain us where us: "subseq us (frame_updates env (pr_peer_keys p) fs)"
    "pr_state (fst (process_data_frames env clk (k + 1) mc fs ?p)) = apply_updates us (pr_state ?p)"
    "\<not> pr_access_control p \<Longrightarrow> us = frame_updates env (pr_peer_keys p) fs"
    using Cons.IH [of ?p "k + 1"] by auto
  have state: "pr_state (fst (process_data_frames env clk k mc (f # fs) p)) = apply_updates us (pr_state ?p)"
    using us(2) by (simp add: split_beta)
  show ?case
  proof (cases "frame_update env (pr_peer_keys p) f")
    case None
    then have "pr_state ?p = pr_state p" by (simp add: data_frame_state)
    with us state None show ?thesis by (auto intro!: exI [of _ us])
  next
    case (Some u)
    obtain a h d where u: "u = (a, h, d)" by (metis prod_cases3)
    show ?thesis
    proof (cases "fh_type (fr_header f) = FT_STATE_DELTA \<and> \<not> write_allowed env p (elapsed_us (clk k) (mc_conn mc)) h")
      case True
      then have "pr_state ?p = pr_state p" "pr_access_control p"
        using Some by (simp_all add: data_frame_state u write_allowed_def split: if_splits)
      with us state Some show ?thesis by (auto intro!: exI [of _ us])
    next
      case False
      then have "pr_state ?p = fst (apply_delta h d (pr_state p))" using Some by (auto simp: data_frame_state u)
      with us state Some show ?thesis by (intro exI [of _ "u # us"]) (auto simp: u)
    qed
  qed
qed (intro exI [of _ "[]"], simp)

lemma poll_packet_state:
  assumes "packet_decoder_parse data packet_decoder_new = (dec, True)" "verify_checksum (env_xxh env) dec"
  shows "\<exists>us. subseq us (frame_updates env (pr_peer_keys p) (data_frames (env_xxh env) data)) \<and>
     pr_state (fst (poll_packet env clk data ep dec key mc p)) = apply_updates us (pr_state p) \<and>
     (\<not> pr_access_control p \<longrightarrow> us = frame_updates env (pr_peer_keys p) (data_frames (env_xxh env) data))"
proof (cases "ph_packet_type (pd_header dec) = PT_DATA")
  case True
  let ?num = "ph_packet_number (pd_header dec)"
  let ?mc = "mc\<lparr>mc_conn := update_recv_packet_number ?num (mc_conn mc), mc_recv_tracker := on_packet_received ?num (mc_recv_tracker mc)\<rparr>"
  let ?p = "p\<lparr>pr_conn_mgr := cm_set key ?mc (pr_conn_mgr p)\<rparr>"
  have "fst (poll_packet env clk data ep dec key mc p) = fst (process_data_frames env clk 0 ?mc (all_frames dec) ?p)"
    using True by (simp add: poll_packet_def Let_def split_beta)
  then show ?thesis
    using process_data_frames_state [of env ?p "all_frames dec" clk 0 ?mc] True assms by (simp add: data_frames_def)
next
  case False
  then have "data_frames (env_xxh env) data = []" using assms by (simp add: data_frames_def)
  moreover have "pr_state (fst (poll_packet env clk data ep dec key mc p)) = pr_state p"
    using False by (simp add: poll_packet_def Let_def split_beta)
  ultimately show ?thesis by (intro exI [of _ "[]"]) simp
qed

lemma data_frames_bad:
  "\<not> snd (packet_decoder_parse data packet_decoder_new) \<Longrightarrow> data_frames xxh data = []"
  "\<not> verify_checksum xxh (fst (packet_decoder_parse data packet_decoder_new)) \<Longrightarrow> data_frames xxh data = []"
  by (auto simp: data_frames_def split_beta)

lemma has_connections_primary: "has_connections m \<Longrightarrow> cm_primary m \<noteq> None"
  by (auto simp: has_connections_def cm_primary_def split: list.splits)

lemma auto_accept_keeps [simp]:
  "pr_state (fst (auto_accept env clk data ep p)) = pr_state p"
  "pr_peer_keys (fst (auto_accept env clk data ep p)) = pr_peer_keys p"
  "pr_access_control (fst (auto_accept env clk data ep p)) = pr_access_control p"
  by (simp_all add: auto_accept_def split_beta Let_def split: prod.split option.split)

text \<open>The effect of one call of \<^verbatim>\<open>poll\<close> on the state.\<close>

lemma peer_poll_state:
  assumes conn: "has_connections (pr_conn_mgr p)"
  shows "\<exists>us. subseq us (frame_updates env (pr_peer_keys p) (data_frames (env_xxh env) data)) \<and>
     pr_state (fst (peer_poll env clk (Some (data, ep)) p)) = apply_updates us (pr_state p) \<and>
     (\<not> pr_access_control p \<longrightarrow> us = frame_updates env (pr_peer_keys p) (data_frames (env_xxh env) data))"
    (is "\<exists>us. ?P (peer_poll env clk (Some (data, ep)) p) us")
proof -
  obtain dec ok where parse: "packet_decoder_parse data packet_decoder_new = (dec, ok)" by fastforce
  show ?thesis
  proof (cases "ok \<and> verify_checksum (env_xxh env) dec")
    case False
    then have "data_frames (env_xxh env) data = []" by (auto simp: data_frames_def parse)
    moreover have "peer_poll env clk (Some (data, ep)) p = (p, [], [], 0)"
      using False conn by (auto simp: peer_poll_def parse)
    ultimately show ?thesis by (intro exI [of _ "[]"]) simp
  next
    case True
    then have packet: "\<exists>us. ?P (poll_packet env clk data ep dec key mc p) us" for key mc
      using poll_packet_state [of data dec env] parse by simp
    show ?thesis
    proof (cases "match_endpoint ep (pr_conn_mgr p) = None \<and> ph_packet_type (pd_header dec) = PT_HANDSHAKE")
      case handshake: True
      then have "data_frames (env_xxh env) data = []" using parse by (simp add: data_frames_def)
      moreover have "pr_state (fst (peer_poll env clk (Some (data, ep)) p)) = pr_state p"
        using handshake True conn by (simp add: peer_poll_def parse split_beta)
      ultimately show ?thesis by (intro exI [of _ "[]"]) simp
    next
      case False
      obtain key mc where "peer_poll env clk (Some (data, ep)) p = poll_packet env clk data ep dec key mc p"
        using False True conn has_connections_primary [OF conn]
        by (cases "match_endpoint ep (pr_conn_mgr p)") (auto simp: peer_poll_def parse)
      then show ?thesis using packet [of key mc] by simp
    qed
  qed
qed

text \<open>A call of \<^verbatim>\<open>poll\<close> as a run over the frames of the packet, for state, events and result.\<close>

lemma peer_poll_frames:
  assumes conn: "has_connections (pr_conn_mgr p)" and "peer_poll env clk (Some (data, ep)) p = (p', out, evs, n)"
  shows "\<exists>mc m p2. process_data_frames env clk 0 mc (data_frames (env_xxh env) data) (p\<lparr>pr_conn_mgr := m\<rparr>) = (p2, evs, n) \<and>
    pr_state p' = pr_state p2"
proof -
  obtain dec ok where parse: "packet_decoder_parse data packet_decoder_new = (dec, ok)" by fastforce
  show ?thesis
  proof (cases "ok \<and> verify_checksum (env_xxh env) dec \<and> ph_packet_type (pd_header dec) = PT_DATA")
    case True
    then have f: "data_frames (env_xxh env) data = all_frames dec" by (simp add: data_frames_def parse)
    obtain key mc where "peer_poll env clk (Some (data, ep)) p = poll_packet env clk data ep dec key mc p"
      using True conn has_connections_primary [OF conn]
      by (cases "match_endpoint ep (pr_conn_mgr p)") (auto simp: peer_poll_def parse)
    then show ?thesis using assms(2) True by (auto simp: poll_packet_def Let_def f split: prod.splits)
  next
    case False
    then have "data_frames (env_xxh env) data = []" by (auto simp: data_frames_def parse)
    moreover have "pr_state p' = pr_state p \<and> evs = [] \<and> n = 0"
      using False conn assms(2)
      by (auto simp: peer_poll_def poll_packet_def parse split_beta Let_def split: if_splits option.splits)
    ultimately show ?thesis by simp
  qed
qed

lemma frame_update_authentic:
  assumes "frame_update env keys f = Some (a, h, d)"
  shows "\<exists>pk content sig. fh_type (fr_header f) \<in> {FT_STATE_DELTA, FT_STATE_SNAPSHOT} \<and> fr_payload f = content @ sig \<and>
    length sig = 64 \<and> signed_update (fh_type (fr_header f)) content = (a, h, d) \<and> um_find keys a = Some pk \<and> crypto_verify (env_ed env) pk sig content"
proof -
  let ?pl = "fr_payload f"
  have l: "71 \<le> length ?pl" and t: "fh_type (fr_header f) \<in> {FT_STATE_DELTA, FT_STATE_SNAPSHOT}"
    and auth: "authentic env keys a ?pl"
    using assms by (auto simp: frame_update_def Let_def split: if_splits)
  have u: "signed_update (fh_type (fr_header f)) (take (length ?pl - 64) ?pl) = (a, h, d)"
    using assms by (auto simp: frame_update_def signed_update_def Let_def read_u32_def load_le32_def read_u16_def load_le16_def
        split: if_splits)
  moreover have "?pl = take (length ?pl - 64) ?pl @ drop (length ?pl - 64) ?pl" "length (drop (length ?pl - 64) ?pl) = 64"
    using l by simp_all
  moreover obtain pk where "um_find keys a = Some pk"
    "crypto_verify (env_ed env) pk (drop (length ?pl - 64) ?pl) (take (length ?pl - 64) ?pl)"
    using auth by (auto simp: authentic_def split: option.splits)
  ultimately show ?thesis
    using t by (intro exI [of _ pk] exI [of _ "take (length ?pl - 64) ?pl"] exI [of _ "drop (length ?pl - 64) ?pl"]) simp
qed

lemma poll_keeps:
  "pr_peer_keys (fst (peer_poll env clk rx p)) = pr_peer_keys p"
  "pr_access_control (fst (peer_poll env clk rx p)) = pr_access_control p"
  by (simp_all add: peer_poll_def poll_packet_def split_beta Let_def split: option.split)

text \<open>A packet that carries data leaves every connection as connected as it was.\<close>

lemma has_connections_set:
  assumes "(key, mc) \<in> set (cm_conns m)" "um_ok (cm_conns m)" "cn_state (mc_conn mc') = cn_state (mc_conn mc)"
  shows "has_connections (cm_set key mc' m) = has_connections m"
proof -
  have "list_ex (\<lambda>e. cn_state (mc_conn (snd e)) = CS_CONNECTED) (um_put key mc' xs) =
      list_ex (\<lambda>e. cn_state (mc_conn (snd e)) = CS_CONNECTED) xs"
    if "(key, mc) \<in> set xs" "um_ok xs" for xs
    using that
  proof (induction xs)
    case (Cons x xs)
    then show ?case using assms(3) by (cases x) force
  qed simp
  then show ?thesis using assms(1,2) by (simp add: has_connections_def cm_set_def)
qed

lemma poll_data_conns:
  assumes ok: "conns_ok (pr_conn_mgr p)" and conn: "has_connections (pr_conn_mgr p)"
    and dec: "packet_decoder_parse data packet_decoder_new = (dec, True)" "ph_packet_type (pd_header dec) = PT_DATA"
  shows "conns_ok (pr_conn_mgr (fst (peer_poll env clk (Some (data, ep)) p)))"
    "has_connections (pr_conn_mgr (fst (peer_poll env clk (Some (data, ep)) p)))"
proof -
  let ?n = "ph_packet_number (pd_header dec)"
  let ?mc = "\<lambda>mc. mc\<lparr>mc_conn := update_recv_packet_number ?n (mc_conn mc), mc_recv_tracker := on_packet_received ?n (mc_recv_tracker mc)\<rparr>"
  have keep: "conns_ok (cm_set (fst e) (?mc (snd e)) (pr_conn_mgr p)) \<and> has_connections (cm_set (fst e) (?mc (snd e)) (pr_conn_mgr p))"
    if "e \<in> set (cm_conns (pr_conn_mgr p))" for e
  proof -
    have "cn_state (mc_conn (?mc (snd e))) = cn_state (mc_conn (snd e))" by (simp add: update_recv_packet_number_def)
    moreover have "um_ok (cm_conns (pr_conn_mgr p))" "mc_remote_node_id (snd e) = fst e"
      using ok that by (auto simp: conns_ok_def)
    ultimately show ?thesis
      using that ok conn has_connections_set [of "fst e" "snd e" "pr_conn_mgr p" "?mc (snd e)"]
        conns_ok_set [OF ok, of "?mc (snd e)" "fst e"] by simp
  qed
  obtain e where e: "e \<in> set (cm_conns (pr_conn_mgr p))"
    and poll: "pr_conn_mgr (fst (peer_poll env clk (Some (data, ep)) p)) = cm_set (fst e) (?mc (snd e)) (pr_conn_mgr p) \<or>
      pr_conn_mgr (fst (peer_poll env clk (Some (data, ep)) p)) = pr_conn_mgr p"
  proof -
    obtain e0 where e0: "cm_primary (pr_conn_mgr p) = Some e0" using has_connections_primary [OF conn] by auto
    show ?thesis
    proof (cases "match_endpoint ep (pr_conn_mgr p)")
      case None
      then show ?thesis using e0 conn dec cm_primary_member [OF e0]
        by (intro that [of e0]) (auto simp: peer_poll_def poll_packet_def Let_def split_beta)
    next
      case (Some e)
      then show ?thesis using conn dec match_endpoint_member [OF Some]
        by (intro that [of e]) (auto simp: peer_poll_def poll_packet_def Let_def split_beta)
    qed
  qed
  show "conns_ok (pr_conn_mgr (fst (peer_poll env clk (Some (data, ep)) p)))"
    "has_connections (pr_conn_mgr (fst (peer_poll env clk (Some (data, ep)) p)))"
    using poll keep [OF e] ok conn by auto
qed

section \<open>Sending\<close>

definition delta_content :: "peer \<Rightarrow> pending_delta \<Rightarrow> bytes" where
  "delta_content p d =
    state_delta_wire \<lparr>sdf_path_hash = pdl_path_hash d, sdf_crdt_type = pdl_crdt_type d, sdf_reliability = pdl_reliability d,
      sdf_author_node_id = pr_node_id p\<rparr> @ pdl_data d"

definition fits_frame :: "pending_delta \<Rightarrow> bool" where
  "fits_frame d \<longleftrightarrow> length (pdl_data d) \<le> MAX_PACKET_SIZE - PACKET_HEADER_SIZE - FRAME_HEADER_SIZE - 8 - 64"

definition delta_frames :: "peer_env \<Rightarrow> peer \<Rightarrow> pending_delta list \<Rightarrow> (frame_type \<times> bytes) list" where
  "delta_frames env p ds = map (\<lambda>d. (FT_STATE_DELTA, build_signed_delta env p d)) ds"

lemma length_delta_content: "length (delta_content p d) = 8 + length (pdl_data d)"
  by (simp add: delta_content_def state_delta_wire_def)

lemma build_signed_delta_bytes:
  assumes "ed25519_laws (env_ed env)"
  shows "build_signed_delta env p d = delta_content p d @ ed_sign (env_ed env) (kp_secret_key (pr_keys p)) (delta_content p d)"
proof -
  let ?sdf = "\<lparr>sdf_path_hash = pdl_path_hash d, sdf_crdt_type = pdl_crdt_type d, sdf_reliability = pdl_reliability d,
      sdf_author_node_id = pr_node_id p\<rparr>"
  let ?n = "length (pdl_data d)"
  have sig: "length (ed_sign (env_ed env) sk m) = 64" for sk m using assms by (simp add: ed25519_laws_def)
  have zeros: "replicate (8 + ?n + 64) (0::u8) = replicate 4 0 @ replicate 1 0 @ replicate 1 0 @ replicate 2 0 @ replicate (?n + 64) 0"
    by (simp only: replicate_add [symmetric]) simp
  have enc: "state_delta_encode ?sdf (replicate (8 + ?n + 64) 0) = Some (state_delta_wire ?sdf @ replicate (?n + 64) 0)"
    unfolding zeros
    by (simp add: state_delta_encode_def STATE_DELTA_BASE_WIRE_SIZE_def Let_def buf_simps state_delta_wire_def list_update_append)
  have len: "length (state_delta_wire ?sdf) = 8" by (simp add: state_delta_wire_def)
  have body: "(if pdl_data d \<noteq> [] then put_bytes (state_delta_wire ?sdf @ replicate (?n + 64) 0) 8 (pdl_data d)
      else state_delta_wire ?sdf @ replicate (?n + 64) 0) = delta_content p d @ replicate 64 0"
    using len by (cases "pdl_data d = []") (simp_all add: delta_content_def put_bytes_def)
  show ?thesis
    unfolding build_signed_delta_def Let_def STATE_DELTA_BASE_WIRE_SIZE_def SIGNATURE_SIZE_def enc option.case body
    by (simp add: sig crypto_sign_def length_delta_content put_bytes_def)
qed

lemma length_signed_delta:
  "ed25519_laws (env_ed env) \<Longrightarrow> length (build_signed_delta env p d) = 72 + length (pdl_data d)"
  by (simp add: build_signed_delta_bytes length_delta_content ed25519_laws_def)

lemma delta_frames_sendable:
  "ed25519_laws (env_ed env) \<Longrightarrow> list_all fits_frame ds \<Longrightarrow> list_all sendable (delta_frames env p ds)"
  by (auto simp: list_all_iff delta_frames_def sendable_def fits_frame_def length_signed_delta size_defs)

text \<open>A receiver that knows the sender's key takes a signed delta for what it is.\<close>

lemma frame_update_signed:
  assumes laws: "ed25519_laws (env_ed env)" and keys: "pr_keys p = keypair_from_seed (env_ed env) seed"
    and known: "um_find ks (pr_node_id p) = Some (kp_public_key (pr_keys p))"
  shows "frame_update env ks (mk_frame (FT_STATE_DELTA, build_signed_delta env p d)) =
    Some (pr_node_id p, pdl_path_hash d, pdl_data d)"
proof -
  let ?c = "delta_content p d" and ?s = "ed_sign (env_ed env) (kp_secret_key (pr_keys p)) (delta_content p d)"
  have s: "length ?s = 64" using laws by (simp add: ed25519_laws_def)
  have fields: "read_u16 (drop 6 (?c @ ?s)) = pr_node_id p" "read_u32 (?c @ ?s) = pdl_path_hash d" "drop 8 ?c = pdl_data d"
    by (simp_all add: delta_content_def state_delta_wire_def read_be16 read_be32)
  have "ed_check (env_ed env) ?s (kp_public_key (pr_keys p)) ?c = 0"
    using laws keys unfolding ed25519_laws_def keypair_from_seed_def
    by (cases "ed_key_pair (env_ed env) seed") auto
  then have "authentic env ks (pr_node_id p) (?c @ ?s)"
    using known s by (simp add: authentic_def crypto_verify_def)
  then show ?thesis
    using s fields by (simp add: frame_update_def mk_frame_def build_signed_delta_bytes [OF laws] length_delta_content)
qed

lemma frame_updates_delta_frames:
  assumes "ed25519_laws (env_ed env)" "pr_keys p = keypair_from_seed (env_ed env) seed"
    "um_find ks (pr_node_id p) = Some (kp_public_key (pr_keys p))"
  shows "frame_updates env ks (map mk_frame (delta_frames env p ds)) = delta_updates (pr_node_id p) ds"
  by (induction ds) (simp_all add: delta_frames_def delta_updates_def frame_update_signed [OF assms])

text \<open>Filling packets: an encoder that holds the frames of the deltas \<open>hs\<close>.\<close>

definition filled :: "peer_env \<Rightarrow> peer \<Rightarrow> packet_encoder \<Rightarrow> pending_delta list \<Rightarrow> bool" where
  "filled env p enc hs \<longleftrightarrow> enc_holds enc (concat (map frame_bytes (delta_frames env p hs))) \<and> list_all fits_frame hs \<and>
     pe_packet_type enc = PT_DATA \<and> pe_flags enc = FLAG_CHECKSUM"

lemma filled_new: "filled env p (data_encoder mc packet_encoder_new) []"
  by (simp add: filled_def data_encoder_def delta_frames_def enc_holds_new)
    (simp add: set_connection_id_def set_packet_type_def packet_encoder_new_def)

lemma filled_add:
  assumes laws: "ed25519_laws (env_ed env)" and f: "filled env p enc hs" and d: "fits_frame d"
    and room: "pe_cursor enc + 3 + length (build_signed_delta env p d) \<le> MAX_PACKET_SIZE"
  shows "\<exists>enc'. add_delta (build_signed_delta env p d) enc = (enc', True) \<and> filled env p enc' (hs @ [d])"
proof -
  have "length (build_signed_delta env p d) < 2 ^ 16" using room by (simp add: size_defs)
  with f obtain enc' where e: "add_delta (build_signed_delta env p d) enc = (enc', True)"
    "enc_holds enc' (concat (map frame_bytes (delta_frames env p hs)) @ frame_bytes (FT_STATE_DELTA, build_signed_delta env p d))"
    "enc'\<lparr>pe_buf := [], pe_cursor := 0\<rparr> = enc\<lparr>pe_buf := [], pe_cursor := 0\<rparr>"
    using enc_holds_add_frame [OF _ room, of _ FT_STATE_DELTA] by (auto simp: filled_def add_delta_def)
  have "pe_packet_type enc' = pe_packet_type enc" "pe_flags enc' = pe_flags enc"
    using e(3) by (metis packet_encoder.select_convs packet_encoder.surjective packet_encoder.update_convs)+
  with e f d show ?thesis by (auto simp: filled_def delta_frames_def)
qed

lemma data_frames_finalize:
  assumes laws: "ed25519_laws (env_ed env)" and f: "filled env p enc hs"
  shows "data_frames xxh (snd (finalize xxh enc)) = map mk_frame (delta_frames env p hs)"
    "\<exists>dec. packet_decoder_parse (snd (finalize xxh enc)) packet_decoder_new = (dec, True) \<and> ph_packet_type (pd_header dec) = PT_DATA"
proof -
  obtain dec where "packet_decoder_parse (snd (finalize xxh enc)) packet_decoder_new = (dec, True)" "verify_checksum xxh dec"
    "all_frames dec = map mk_frame (delta_frames env p hs)" "ph_packet_type (pd_header dec) = PT_DATA"
    using finalize_decodes [of enc "delta_frames env p hs" xxh packet_decoder_new] f delta_frames_sendable [OF laws, of hs p]
    by (auto simp: filled_def FLAG_CHECKSUM_def)
  then show "data_frames xxh (snd (finalize xxh enc)) = map mk_frame (delta_frames env p hs)"
    "\<exists>dec. packet_decoder_parse (snd (finalize xxh enc)) packet_decoder_new = (dec, True) \<and> ph_packet_type (pd_header dec) = PT_DATA"
    by (auto simp: data_frames_def)
qed

lemma data_frames_packet:
  assumes "list_all sendable fs" "length (concat (map frame_bytes fs)) \<le> 1436"
  shows "data_frames xxh (snd (finalize xxh (fst (add_frames fs packet_encoder_new)))) = map mk_frame fs"
proof -
  obtain e where e: "add_frames fs packet_encoder_new = (e, True)" "enc_holds e (concat (map frame_bytes fs))"
    "e\<lparr>pe_buf := [], pe_cursor := 0\<rparr> = packet_encoder_new\<lparr>pe_buf := [], pe_cursor := 0\<rparr>"
    using enc_holds_add_frames [OF enc_holds_new assms(1)] assms(2) by (auto simp: packet_encoder_new_def size_defs)
  have "pe_packet_type e = PT_DATA" "pe_flags e = FLAG_CHECKSUM"
    using arg_cong [OF e(3), of pe_packet_type] arg_cong [OF e(3), of pe_flags] by (simp_all add: packet_encoder_new_def)
  then show ?thesis
    using finalize_decodes [OF e(2) assms(1), of xxh packet_decoder_new] e(1) by (auto simp: data_frames_def FLAG_CHECKSUM_def)
qed

definition carries :: "peer_env \<Rightarrow> peer \<Rightarrow> bytes \<Rightarrow> pending_delta list \<Rightarrow> bool" where
  "carries env p pkt ds \<longleftrightarrow> data_frames (env_xxh env) pkt = map mk_frame (delta_frames env p ds) \<and>
     (\<exists>dec. packet_decoder_parse pkt packet_decoder_new = (dec, True) \<and> ph_packet_type (pd_header dec) = PT_DATA)"

lemma filled_set [simp]:
  "filled env p (set_packet_number n enc) hs = filled env p enc hs"
  "filled env p (set_timestamp ts enc) hs = filled env p enc hs"
  by (simp_all add: filled_def) (simp_all add: set_packet_number_def set_timestamp_def)

lemma finish_packet_carries:
  assumes "ed25519_laws (env_ed env)" "filled env p enc hs"
  shows "carries env p (fst (snd (snd (finish_packet env clk k mc enc)))) hs"
    "filled env p (data_encoder mc' (fst (snd (finish_packet env clk k mc enc)))) []"
proof -
  let ?c = "fst (next_send_packet_number (mc_conn mc))" and ?n = "snd (next_send_packet_number (mc_conn mc))"
  let ?e = "set_timestamp (elapsed_us (clk k) ?c) (set_packet_number ?n enc)"
  have f: "filled env p ?e hs" using assms(2) by simp
  show "carries env p (fst (snd (snd (finish_packet env clk k mc enc)))) hs"
    using data_frames_finalize [OF assms(1) f] by (simp add: carries_def finish_packet_def split_beta Let_def)
  have "fst (snd (finish_packet env clk k mc enc)) = ?e\<lparr>pe_cursor := PACKET_HEADER_SIZE, pe_buf := replicate MAX_PACKET_SIZE 0\<rparr>"
    by (simp add: finish_packet_def split_beta Let_def finalize_def)
  moreover have "pe_flags ?e = FLAG_CHECKSUM" using f by (simp add: filled_def)
  ultimately show "filled env p (data_encoder mc' (fst (snd (finish_packet env clk k mc enc)))) []"
    by (simp add: filled_def data_encoder_def delta_frames_def enc_holds_def size_defs)
      (simp add: set_connection_id_def set_packet_type_def enc_holds_def size_defs)
qed

lemma filled_room:
  assumes "ed25519_laws (env_ed env)" "filled env p enc []" "fits_frame d"
  shows "pe_cursor enc + 3 + length (build_signed_delta env p d) \<le> MAX_PACKET_SIZE"
  using assms by (simp add: filled_def delta_frames_def enc_holds_def fits_frame_def length_signed_delta size_defs)

lemma filled_add_fails:
  assumes "ed25519_laws (env_ed env)" "fits_frame d"
    and "\<not> pe_cursor enc + 3 + length (build_signed_delta env p d) \<le> MAX_PACKET_SIZE"
  shows "add_delta (build_signed_delta env p d) enc = (enc, False)"
proof -
  have "length (build_signed_delta env p d) < 2 ^ 16"
    using assms(1,2) by (simp add: fits_frame_def length_signed_delta size_defs)
  then have "unat (of_nat (length (build_signed_delta env p d)) :: u16) = length (build_signed_delta env p d)"
    by (simp add: unat_of_nat take_bit_nat_eq_self)
  then show ?thesis using assms(3) by (simp add: add_delta_def add_frame_full)
qed

text \<open>The loop cuts the deltas into consecutive groups, one per packet, and keeps the rest in the encoder.\<close>

lemma send_loop_groups:
  assumes laws: "ed25519_laws (env_ed env)" and "filled env p enc hs" "list_all fits_frame ds"
    and "send_loop env p clk k mc enc ds = (mc', enc', k', out)"
  shows "\<exists>groups rest. hs @ ds = concat groups @ rest \<and> list_all2 (carries env p) (map fst out) groups \<and> filled env p enc' rest"
  using assms(2-)
proof (induction ds arbitrary: hs enc mc k mc' enc' k' out)
  case Nil
  then show ?case by (intro exI [of _ "[]"] exI [of _ hs]) auto
next
  case (Cons d ds)
  show ?case
  proof (cases "pe_cursor enc + 3 + length (build_signed_delta env p d) \<le> MAX_PACKET_SIZE")
    case True
    obtain e1 where e1: "add_delta (build_signed_delta env p d) enc = (e1, True)" "filled env p e1 (hs @ [d])"
      using filled_add [OF laws Cons.prems(1) _ True] Cons.prems(2) by auto
    then show ?thesis using Cons.IH [OF e1(2)] Cons.prems by simp
  next
    case False
    have full: "add_delta (build_signed_delta env p d) enc = (enc, False)"
      using filled_add_fails [OF laws _ False] Cons.prems(2) by simp
    obtain mc2 e2 pkt where fin: "finish_packet env clk k mc enc = (mc2, e2, pkt)" by (metis prod_cases3)
    note cut = finish_packet_carries [OF laws Cons.prems(1), where clk = clk and k = k and mc = mc, unfolded fin fst_conv snd_conv]
    obtain e3 where e3: "add_delta (build_signed_delta env p d) (data_encoder mc2 e2) = (e3, True)" "filled env p e3 [d]"
      using filled_add [OF laws cut(2) [of mc2] _ filled_room [OF laws cut(2)]] Cons.prems(2) by auto
    obtain mc4 e4 k4 o4 where rest: "send_loop env p clk (k + 2) mc2 e3 ds = (mc4, e4, k4, o4)" by (metis prod_cases4)
    have out: "enc' = e4" "out = pkt # o4" using Cons.prems(3) by (auto simp: full fin e3 rest simp del: add_2_eq_Suc')
    obtain groups r where g: "[d] @ ds = concat groups @ r" "list_all2 (carries env p) (map fst o4) groups" "filled env p e4 r"
      using Cons.IH [OF e3(2) _ rest] Cons.prems(2) by auto
    show ?thesis
      using g cut(1) by (intro exI [of _ "hs # groups"] exI [of _ r]) (auto simp: out)
  qed
qed

lemma send_deltas_groups:
  assumes laws: "ed25519_laws (env_ed env)" and "list_all fits_frame ds"
    and "send_deltas_to env p clk k mc ds = (mc', k', out, n)"
  shows "\<exists>groups. concat groups = ds \<and> list_all2 (carries env p) (map fst out) groups"
proof -
  obtain mc1 e1 k1 o1 where l: "send_loop env p clk k mc (data_encoder mc packet_encoder_new) ds = (mc1, e1, k1, o1)"
    by (metis prod_cases4)
  obtain groups rest where g: "ds = concat groups @ rest" "list_all2 (carries env p) (map fst o1) groups" "filled env p e1 rest"
    using send_loop_groups [OF laws filled_new assms(2) l] by auto
  have "payload_size e1 = length (concat (map frame_bytes (delta_frames env p rest)))"
    using g(3) by (simp add: payload_size_def filled_def enc_holds_def)
  then have empty: "payload_size e1 = 0 \<longleftrightarrow> rest = []" by (cases rest) (auto simp: delta_frames_def)
  obtain mc2 e2 pkt where fin: "finish_packet env clk k1 mc1 e1 = (mc2, e2, pkt)" by (metis prod_cases3)
  have "carries env p (fst pkt) rest" using finish_packet_carries(1) [OF laws g(3), of clk k1 mc1] by (simp add: fin)
  then show ?thesis
    using assms(3) g empty l fin
    by (intro exI [of _ "if rest = [] then groups else groups @ [rest]"]) (auto simp: send_deltas_to_def list_all2_appendI)
qed

text \<open>Polling packets that carry groups of deltas, in any sequence.\<close>

lemma polls_state:
  assumes laws: "ed25519_laws (env_ed env)" and keys: "pr_keys p = keypair_from_seed (env_ed env) seed"
    and known: "um_find (pr_peer_keys q) (pr_node_id p) = Some (kp_public_key (pr_keys p))"
    and q: "conns_ok (pr_conn_mgr q)" "has_connections (pr_conn_mgr q)" "\<not> pr_access_control q"
    and rxs: "list_all2 (\<lambda>(clk, data, ep). carries env p data) rxs gs"
  shows "pr_state (polls env rxs q) = apply_updates (delta_updates (pr_node_id p) (concat gs)) (pr_state q)"
  using rxs known q
proof (induction rxs gs arbitrary: q rule: list_all2_induct)
  case (Cons r rxs g gs)
  obtain clk data ep where r: "r = (clk, data, ep)" by (metis prod_cases3)
  let ?q = "fst (peer_poll env clk (Some (data, ep)) q)"
  have c: "carries env p data g" using Cons.hyps(1) by (simp add: r)
  then obtain dec where dec: "packet_decoder_parse data packet_decoder_new = (dec, True)" "ph_packet_type (pd_header dec) = PT_DATA"
    by (auto simp: carries_def)
  have step: "pr_state ?q = apply_updates (delta_updates (pr_node_id p) g) (pr_state q)"
    using peer_poll_state [OF Cons.prems(3), of env data clk ep] Cons.prems(1,4) c
      frame_updates_delta_frames [OF laws keys, of "pr_peer_keys q" g] by (auto simp: carries_def)
  have "pr_state (polls env rxs ?q) = apply_updates (delta_updates (pr_node_id p) (concat gs)) (pr_state ?q)"
    using Cons.prems poll_data_conns [OF Cons.prems(2,3) dec, of env clk ep] by (intro Cons.IH) (simp_all add: poll_keeps)
  then show ?case
    using step by (simp add: r polls_def delta_updates_def flip: apply_updates_append)
qed (simp add: polls_def delta_updates_def)

text \<open>A small environment and two connected peers with one shared counter, for evaluating examples.\<close>

definition example_env :: peer_env where
  "example_env = \<lparr>env_xxh = (\<lambda>b. 5), env_ed = example_ed, env_rnd = (\<lambda>x. x)\<rparr>"

definition example_mc :: "u16 \<Rightarrow> managed_connection" where
  "example_mc n = \<lparr>mc_remote_node_id = n, mc_conn = (connection_new 0)\<lparr>cn_state := CS_CONNECTED\<rparr>, mc_send_tracker = [],
     mc_recv_tracker = recv_tracker_new\<rparr>"

definition example_region :: "g_counter \<Rightarrow> state_region" where
  "example_region c = \<lparr>sr_path = state_path_new (\<lambda>b. 5) [47, 97], sr_crdt_type = CRDT_G_COUNTER, sr_reliability = REL_RELIABLE,
     sr_crdt = Crdt_GCounter c, sr_version = []\<rparr>"

definition example_peer :: "u16 \<Rightarrow> u16 \<Rightarrow> g_counter \<Rightarrow> peer" where
  "example_peer n remote c = (peer_register_key 1 [7] (peer_new example_env n (keypair_from_seed example_ed [7])))
     \<lparr>pr_conn_mgr := \<lparr>cm_conns = [(remote, example_mc remote)], cm_id_alloc = 2\<rparr>,
      pr_state := \<lparr>reg_node_id = n, reg_regions = [(5, example_region c)], reg_on_update = False\<rparr>\<rparr>"

lemmas example_defs = example_env_def example_mc_def example_region_def example_peer_def peer_new_def peer_register_key_def
  connection_new_def

lemma example_peer_conns:
  "cm_conns (pr_conn_mgr (example_peer n r c)) = [(r, example_mc r)]" "cn_state (mc_conn (example_mc r)) = CS_CONNECTED"
  "mc_remote_node_id (example_mc r) = r" "pr_delta_filters (example_peer n r c) = []" "pr_node_id (example_peer n r c) = n"
  "pr_keys (example_peer n r c) = keypair_from_seed (env_ed example_env) [7]" "\<not> pr_access_control (example_peer n r c)"
  "um_find (pr_peer_keys (example_peer n r c)) 1 = Some [7]" "kp_public_key (keypair_from_seed (env_ed example_env) [7]) = [7]"
  "pr_on_sig_failure (example_peer n r c) = False"
  by (simp_all add: example_defs keypair_from_seed_def example_ed_def)

lemma example_peer_connected:
  "conns_ok (pr_conn_mgr (example_peer n r c))" "has_connections (pr_conn_mgr (example_peer n r c))"
  by (simp_all add: conns_ok_def has_connections_def example_peer_conns)

lemma example_env_laws: "ed25519_laws (env_ed example_env)"
  by (simp add: example_env_def example_ed_laws)

section \<open>Properties\<close>

text \<open>
  C2. Two peers replicate. Let a peer with a generated key pair flush to its only connection, unfiltered, with every collected
  delta within the size of a frame, and let the receiver know the sender's public key, have a connection and no access control.
  Then the packets cut the collected deltas into consecutive groups, and for every sequence of deliveries - in any order, with
  losses and repetitions, at any time, from any endpoint - the receiver's state becomes exactly the result of
  applying the deltas of the delivered packets one after another.
\<close>

theorem flush_poll_replicates:
  assumes "ed25519_laws (env_ed env)" "pr_keys p = keypair_from_seed (env_ed env) seed"
    and "cm_conns (pr_conn_mgr p) = [(key, mc)]" "cn_state (mc_conn mc) = CS_CONNECTED"
    and "um_find (pr_delta_filters p) (mc_remote_node_id mc) = None"
    and "list_all fits_frame (snd (collect_deltas (pr_state p)))"
    and "um_find (pr_peer_keys q) (pr_node_id p) = Some (kp_public_key (pr_keys p))"
    and "conns_ok (pr_conn_mgr q)" "has_connections (pr_conn_mgr q)" "\<not> pr_access_control q"
    and "peer_flush env clk p = (p', out, n)"
  shows "\<exists>groups. concat groups = snd (collect_deltas (pr_state p)) \<and> length groups = length out \<and>
    (\<forall>ds. (\<forall>(i, clk, ep) \<in> set ds. i < length out) \<longrightarrow>
       pr_state (polls env (map (\<lambda>(i, clk, ep). (clk, fst (out ! i), ep)) ds) q) =
       apply_updates (delta_updates (pr_node_id p) (concat (map (\<lambda>(i, clk, ep). groups ! i) ds))) (pr_state q))"
proof -
  obtain g deltas where g: "collect_deltas (pr_state p) = (g, deltas)" by fastforce
  let ?p = "p\<lparr>pr_state := g\<rparr>"
  have "has_connections (pr_conn_mgr p)" using assms(3,4) by (simp add: has_connections_def)
  moreover obtain mc' k' o' m where s: "send_deltas_to env ?p clk 0 mc deltas = (mc', k', o', m)" by (metis prod_cases4)
  ultimately have flush: "deltas = [] \<and> out = [] \<or> out = o'"
    using assms(3-5,11) by (auto simp: peer_flush_def g flush_connection_def Let_def split: if_splits)
  obtain groups' where groups': "concat groups' = deltas" "list_all2 (carries env ?p) (map fst o') groups'"
    using send_deltas_groups [OF assms(1) _ s] assms(6) by (auto simp: g)
  obtain groups where groups: "concat groups = deltas" "list_all2 (carries env ?p) (map fst out) groups"
  proof (cases "out = o'")
    case True
    then show ?thesis using groups' by (intro that [of groups']) simp_all
  next
    case False
    then show ?thesis using flush by (intro that [of "[]"]) simp_all
  qed
  have "pr_state (polls env (map (\<lambda>(i, clk, ep). (clk, fst (out ! i), ep)) ds) q) =
       apply_updates (delta_updates (pr_node_id ?p) (concat (map (\<lambda>(i, clk, ep). groups ! i) ds))) (pr_state q)"
    if "\<forall>(i, clk, ep) \<in> set ds. i < length out" for ds
  proof (rule polls_state)
    show "list_all2 (\<lambda>(clk, data, ep). carries env ?p data) (map (\<lambda>(i, clk, ep). (clk, fst (out ! i), ep)) ds)
        (map (\<lambda>(i, clk, ep). groups ! i) ds)"
      using that list_all2_nthD [OF groups(2)]
      by (auto simp: list_all2_map1 list_all2_map2 list_all2_same split_beta)
  qed (use assms in simp_all)
  with groups show ?thesis by (intro exI [of _ groups]) (auto simp: g dest: list_all2_lengthD)
qed

theorem flush_poll_replicates_witness:
  "\<exists>p' out n. let p = example_peer 1 2 (gc_increment 3 (gc_new 1)); q = example_peer 2 1 (gc_new 2);
       ep = \<lparr>ep_address = [65], ep_port = 9\<rparr>
     in peer_flush example_env (\<lambda>_. 0) p = (p', out, n) \<and>
        pr_state (polls example_env (map (\<lambda>i. (\<lambda>_. 0, fst (out ! i), ep)) [0..<length out]) q) =
        apply_updates (delta_updates 1 (snd (collect_deltas (pr_state p)))) (pr_state q)"
proof -
  let ?p = "example_peer 1 2 (gc_increment 3 (gc_new 1))" and ?q = "example_peer 2 1 (gc_new 2)"
  let ?ep = "\<lparr>ep_address = [65], ep_port = 9\<rparr>"
  obtain p' out n where flush: "peer_flush example_env (\<lambda>_. 0) ?p = (p', out, n)" by (metis prod_cases3)
  have fit: "list_all fits_frame (snd (collect_deltas (pr_state ?p)))"
    by (simp add: example_defs collect_deltas_def gc_increment_def gc_new_def gc_has_pending_delta_def
        gc_delta_wire gc_counts_def gc_entry_wire_def fits_frame_def size_defs split_beta Let_def)
  obtain groups where groups: "concat groups = snd (collect_deltas (pr_state ?p))" "length groups = length out"
    "\<And>ds. \<forall>(i, clk, ep) \<in> set ds. i < length out \<Longrightarrow>
       pr_state (polls example_env (map (\<lambda>(i, clk, ep). (clk, fst (out ! i), ep)) ds) ?q) =
       apply_updates (delta_updates (pr_node_id ?p) (concat (map (\<lambda>(i, clk, ep). groups ! i) ds))) (pr_state ?q)"
    using flush_poll_replicates [OF example_env_laws example_peer_conns(6,1,2) _ fit _ example_peer_connected
        example_peer_conns(7) flush, of 2 1 "gc_new 2"] by (auto simp: example_peer_conns)
  have "map (\<lambda>i. groups ! i) [0..<length out] = groups" using groups(2) map_nth [of groups] by simp
  then show ?thesis
    using flush groups(1) groups(3) [of "map (\<lambda>i. (i, \<lambda>_. 0, ?ep)) [0..<length out]"]
    by (intro exI [of _ p'] exI [of _ out] exI [of _ n]) (simp add: o_def example_peer_conns Let_def)
qed

text \<open>
  C3. Only authentic updates change the state. If \<^verbatim>\<open>poll\<close> changes a region, or anything else of the registry, then the received bytes are a
  DATA packet with a right checksum, and the new state is the result of applying, in the order of the packet, a part of
  its frames, each a STATE_DELTA or STATE_SNAPSHOT whose last 64 bytes are a signature of the rest that verifies under the
  key registered for the author these bytes name, which also give the path and the data applied. Without access control all of these are applied.
\<close>

theorem poll_authentic:
  assumes "peer_poll env clk rx p = (p', out, evs, n)" "pr_state p' \<noteq> pr_state p"
  shows "\<exists>data ep us. rx = Some (data, ep) \<and> pr_state p' = apply_updates us (pr_state p) \<and> us \<noteq> [] \<and>
    (\<not> pr_access_control p \<longrightarrow> us = frame_updates env (pr_peer_keys p) (data_frames (env_xxh env) data)) \<and>
    (\<forall>(author, h, d) \<in> set us. \<exists>f \<in> set (data_frames (env_xxh env) data). \<exists>pk content sig.
       fh_type (fr_header f) \<in> {FT_STATE_DELTA, FT_STATE_SNAPSHOT} \<and> fr_payload f = content @ sig \<and> length sig = 64 \<and>
       signed_update (fh_type (fr_header f)) content = (author, h, d) \<and> um_find (pr_peer_keys p) author = Some pk \<and> crypto_verify (env_ed env) pk sig content)"
proof -
  have conn: "has_connections (pr_conn_mgr p)" using assms by (auto simp: peer_poll_def split: if_splits)
  obtain data ep where rx: "rx = Some (data, ep)"
    using assms by (cases rx) (auto simp: peer_poll_def split: if_splits)
  obtain us where us: "subseq us (frame_updates env (pr_peer_keys p) (data_frames (env_xxh env) data))"
    "pr_state p' = apply_updates us (pr_state p)"
    "\<not> pr_access_control p \<longrightarrow> us = frame_updates env (pr_peer_keys p) (data_frames (env_xxh env) data)"
    using peer_poll_state [OF conn, of env data clk ep] assms(1) by (auto simp: rx)
  have "us \<noteq> []" using us(2) assms(2) by auto
  moreover have "case u of (author, h, d) \<Rightarrow> \<exists>f \<in> set (data_frames (env_xxh env) data). \<exists>pk content sig.
       fh_type (fr_header f) \<in> {FT_STATE_DELTA, FT_STATE_SNAPSHOT} \<and> fr_payload f = content @ sig \<and> length sig = 64 \<and>
       signed_update (fh_type (fr_header f)) content = (author, h, d) \<and> um_find (pr_peer_keys p) author = Some pk \<and> crypto_verify (env_ed env) pk sig content"
    if mem: "u \<in> set us" for u
  proof -
    have "u \<in> set (frame_updates env (pr_peer_keys p) (data_frames (env_xxh env) data))"
      by (rule list_emb_set [OF us(1) mem]) simp
    moreover obtain a h d where u: "u = (a, h, d)" by (metis prod_cases3)
    ultimately obtain f where f: "f \<in> set (data_frames (env_xxh env) data)" "frame_update env (pr_peer_keys p) f = Some (a, h, d)"
      by (auto simp: frame_updates_def List.map_filter_def)
    show ?thesis unfolding u prod.case by (rule bexI [OF _ f(1)]) (rule frame_update_authentic [OF f(2)])
  qed
  ultimately show ?thesis
    using rx us(2,3) by (intro exI [of _ data] exI [of _ ep] exI [of _ us] conjI ballI) assumption+
qed

theorem poll_authentic_witness:
  "let p = example_peer 2 1 (gc_new 2); c = [0, 0, 0, 5, 2, 0, 0, 1, 1, 0, 9, 0, 0, 0, 0, 0, 0, 0, 4];
       f = (FT_STATE_DELTA, c @ ed_sign example_ed [7] c);
       pkt = snd (finalize (env_xxh example_env) (fst (add_frames [f] packet_encoder_new)));
       (p', out, evs, n) = peer_poll example_env (\<lambda>_. 0) (Some (pkt, \<lparr>ep_address = [], ep_port = 0\<rparr>)) p
   in pr_state p' \<noteq> pr_state p \<and> (\<exists>us. pr_state p' = apply_updates us (pr_state p) \<and> us \<noteq> [])"
proof -
  let ?p = "example_peer 2 1 (gc_new 2)" and ?c = "[0, 0, 0, 5, 2, 0, 0, 1, 1, 0, 9, 0, 0, 0, 0, 0, 0, 0, 4] :: bytes"
  let ?f = "(FT_STATE_DELTA, ?c @ ed_sign example_ed [7] ?c)"
  let ?pkt = "snd (finalize (env_xxh example_env) (fst (add_frames [?f] packet_encoder_new)))"
  let ?rx = "Some (?pkt, \<lparr>ep_address = [], ep_port = 0\<rparr>)"
  obtain p' out evs n where poll: "peer_poll example_env (\<lambda>_. 0) ?rx ?p = (p', out, evs, n)" by (metis prod_cases4)
  have len: "length (ed_sign example_ed [7] ?c) = 64" using example_ed_laws by (simp add: ed25519_laws_def)
  have frames: "data_frames (env_xxh example_env) ?pkt = [mk_frame ?f]"
    using data_frames_packet [of "[?f]"] len by (simp add: sendable_def)
  have "authentic example_env (pr_peer_keys ?p) 1 (?c @ ed_sign example_ed [7] ?c)"
    using len by (simp add: authentic_def example_peer_conns crypto_verify_def example_env_def) (simp add: example_ed_def)
  moreover have "read_u16 [0, 1] = 1" "read_u32 [0, 0, 0, 5] = 5" by code_simp+
  ultimately have "frame_updates example_env (pr_peer_keys ?p) [mk_frame ?f] = [(1, 5, [1, 0, 9, 0, 0, 0, 0, 0, 0, 0, 4])]"
    using len by (simp add: frame_update_def mk_frame_def read_u16_Cons read_u32_Cons)
  then have "pr_state p' = apply_updates [(1, 5, [1, 0, 9, 0, 0, 0, 0, 0, 0, 0, 4])] (pr_state ?p)"
    using peer_poll_state [OF example_peer_connected(2), of example_env 2 1 "gc_new 2" ?pkt "\<lambda>_. 0" "\<lparr>ep_address = [], ep_port = 0\<rparr>"] poll frames
    by (simp add: example_peer_conns)
  then have changed: "pr_state p' \<noteq> pr_state ?p"
    by (simp add: example_defs) code_simp
  show ?thesis using poll_authentic [OF poll changed] changed poll by (auto simp: Let_def)
qed

text \<open>
  A STATE_DELTA frame without a valid signature of the author it names, and the calls of the failure callback for it: one with the claimed
  author (0 if the frame is too short to carry a signature), if a callback is set and the frame has at least four bytes.
\<close>

definition forged :: "peer_env \<Rightarrow> (u16, bytes) umap \<Rightarrow> frame \<Rightarrow> bool" where
  "forged env keys f \<longleftrightarrow> fh_type (fr_header f) = FT_STATE_DELTA \<and> frame_update env keys f = None"

definition failure_events :: "peer \<Rightarrow> frame \<Rightarrow> peer_event list" where
  "failure_events p f =
    (let pl = fr_payload f
     in if pr_on_sig_failure p \<and> 4 \<le> length pl
        then [Sig_failure (if length pl < 72 then 0 else read_u16 (drop 6 pl)) (read_u32 pl)] else [])"

fun is_sig_failure :: "peer_event \<Rightarrow> bool" where
  "is_sig_failure (Sig_failure author path_hash) = True"
| "is_sig_failure (State_update path snap) = False"

lemma delta_frame_failure:
  assumes "fh_type (fr_header f) = FT_STATE_DELTA" "frame_update env (pr_peer_keys p) f = None"
  shows "data_frame env now mc f p = (p, failure_events p f, False)"
  using assms verify_frame_signature_iff [of 8 "fr_payload f" env p]
  by (auto simp: data_frame_def delta_frame_def frame_update_def failure_events_def sig_failure_events_def Let_def
      STATE_DELTA_MIN_WIRE_SIZE_def STATE_DELTA_BASE_WIRE_SIZE_def SIGNATURE_SIZE_def state_delta_decode_def split: if_splits)

lemma failure_events_only [simp]: "filter is_sig_failure (failure_events p f) = failure_events p f"
  by (simp add: failure_events_def Let_def)

lemma update_events_only [simp]: "filter is_sig_failure (delta_update_events cb) = []"
  by (simp add: delta_update_events_def split: option.split)

lemma authentic_delta_frame:
  assumes "fh_type (fr_header f) = FT_STATE_DELTA" "frame_update env (pr_peer_keys p) f \<noteq> None"
  shows "filter is_sig_failure (fst (snd (data_frame env now mc f p))) = []"
  using assms verify_frame_signature_iff [of 8 "fr_payload f" env p]
  by (auto simp: data_frame_def delta_frame_def frame_update_def Let_def split_beta
      STATE_DELTA_MIN_WIRE_SIZE_def STATE_DELTA_BASE_WIRE_SIZE_def SIGNATURE_SIZE_def state_delta_decode_def split: if_splits)

lemma data_frame_reports:
  "filter is_sig_failure (fst (snd (data_frame env now mc f p))) =
   (if forged env (pr_peer_keys p) f then failure_events p f else [])"
proof (cases "fh_type (fr_header f) = FT_STATE_DELTA")
  case True
  then show ?thesis
    using delta_frame_failure [of f env p now mc] authentic_delta_frame [of f env p now mc] by (auto simp: forged_def)
next
  case False
  then show ?thesis by (auto simp: forged_def data_frame_def snapshot_frame_def Let_def split_beta split: frame_type.split option.split)
qed

lemma data_frame_changed:
  assumes "snd (snd (data_frame env now mc f p))"
  shows "frame_update env (pr_peer_keys p) f \<noteq> None"
  using assms verify_frame_signature_iff [of 8 "fr_payload f" env p] verify_frame_signature_iff [of 7 "fr_payload f" env p]
  by (auto simp: data_frame_def delta_frame_def snapshot_frame_def frame_update_def Let_def split_beta
      STATE_DELTA_MIN_WIRE_SIZE_def STATE_DELTA_BASE_WIRE_SIZE_def STATE_SNAPSHOT_MIN_WIRE_SIZE_def STATE_SNAPSHOT_BASE_WIRE_SIZE_def
      SIGNATURE_SIZE_def state_delta_decode_def state_snapshot_decode_def split: if_splits frame_type.splits option.splits)

lemma process_data_frames_reports:
  "process_data_frames env clk k mc fs p = (p2, evs, n) \<Longrightarrow>
   filter is_sig_failure evs = concat (map (failure_events p) (filter (forged env (pr_peer_keys p)) fs)) \<and>
   0 \<le> n \<and> n \<le> int (length (frame_updates env (pr_peer_keys p) fs))"
proof (induction fs arbitrary: k p p2 evs n)
  case (Cons f fs)
  obtain p1 ev ch where f: "data_frame env (clk k) mc f p = (p1, ev, ch)" by (metis prod_cases3)
  obtain p3 evs' n' where r: "process_data_frames env clk (Suc k) mc fs p1 = (p3, evs', n')" by (metis prod_cases3)
  have same: "pr_peer_keys p1 = pr_peer_keys p" "pr_on_sig_failure p1 = pr_on_sig_failure p"
    using data_frame_keeps [of env "clk k" mc f p] by (simp_all add: f)
  then have "failure_events p1 = failure_events p" by (simp add: failure_events_def fun_eq_iff)
  then have IH: "filter is_sig_failure evs' = concat (map (failure_events p) (filter (forged env (pr_peer_keys p)) fs))"
    "0 \<le> n'" "n' \<le> int (length (frame_updates env (pr_peer_keys p) fs))"
    using Cons.IH [OF r] same by simp_all
  have "evs = ev @ evs'" "n = (if ch then n' + 1 else n')" using Cons.prems by (auto simp: f r)
  then show ?case
    using IH data_frame_reports [of env "clk k" mc f p] data_frame_changed [of env "clk k" mc f p]
    by (auto simp: f split: option.split)
qed simp

text \<open>
  C17. Forged frames. When a connected peer polls a datagram, whatever it contains, the failure callback, if one is set, is called in the order of the
  frames exactly once for each STATE_DELTA frame of at least four bytes that carries no valid signature of the author it names, and for no other frame; the call
  names the claimed author (0 if the frame is too short to carry a signature) and path hash. These frames have no other effect: without access
  control the state becomes what the authentic updates of the packet alone make of it, and at most as many changes are counted as there are authentic updates.
\<close>

theorem forged_frames_rejected:
  assumes "has_connections (pr_conn_mgr p)" "peer_poll env clk (Some (data, ep)) p = (p', out, evs, n)"
  defines "fs \<equiv> data_frames (env_xxh env) data" and "keys \<equiv> pr_peer_keys p"
  shows "filter is_sig_failure evs = concat (map (failure_events p) (filter (forged env keys) fs)) \<and>
    (\<not> pr_access_control p \<longrightarrow> pr_state p' = apply_updates (frame_updates env keys fs) (pr_state p)) \<and>
    0 \<le> n \<and> n \<le> int (length (frame_updates env keys fs))"
proof -
  obtain mc m p2 where r: "process_data_frames env clk 0 mc fs (p\<lparr>pr_conn_mgr := m\<rparr>) = (p2, evs, n)"
    using peer_poll_frames [OF assms(1,2)] unfolding fs_def by blast
  have "failure_events (p\<lparr>pr_conn_mgr := m\<rparr>) = failure_events p" by (simp add: failure_events_def fun_eq_iff)
  then show ?thesis
    using process_data_frames_reports [OF r] peer_poll_state [OF assms(1), of env data clk ep] assms(2)
    by (auto simp: fs_def keys_def)
qed

theorem forged_frames_rejected_witness:
  "let p = (example_peer 2 1 (gc_new 2))\<lparr>pr_on_sig_failure := True\<rparr>;
       pkt = snd (finalize (env_xxh example_env) (fst (add_frames [(FT_STATE_DELTA, [0, 0, 0, 5]), (FT_STATE_DELTA, [1])] packet_encoder_new)));
       (p', out, evs, n) = peer_poll example_env (\<lambda>_. 0) (Some (pkt, \<lparr>ep_address = [], ep_port = 0\<rparr>)) p
   in filter is_sig_failure evs = [Sig_failure 0 5] \<and> pr_state p' = pr_state p \<and> n = 0"
proof -
  let ?p = "(example_peer 2 1 (gc_new 2))\<lparr>pr_on_sig_failure := True\<rparr>"
  let ?fs = "[(FT_STATE_DELTA, [0, 0, 0, 5]), (FT_STATE_DELTA, [1])] :: (frame_type \<times> bytes) list"
  let ?pkt = "snd (finalize (env_xxh example_env) (fst (add_frames ?fs packet_encoder_new)))"
  obtain p' out evs n where poll: "peer_poll example_env (\<lambda>_. 0) (Some (?pkt, \<lparr>ep_address = [], ep_port = 0\<rparr>)) ?p = (p', out, evs, n)"
    by (metis prod_cases4)
  have frames: "data_frames (env_xxh example_env) ?pkt = map mk_frame ?fs"
    using data_frames_packet [of ?fs] by (simp add: sendable_def)
  have c: "has_connections (pr_conn_mgr ?p)" "\<not> pr_access_control ?p" "pr_on_sig_failure ?p"
    using example_peer_connected(2) [of 2 1 "gc_new 2"] by (simp_all add: example_peer_conns)
  have r: "read_u32 [0, 0, 0, 5] = 5" by code_simp
  have "filter is_sig_failure evs = [Sig_failure 0 5] \<and> pr_state p' = pr_state ?p \<and> n = 0"
    using forged_frames_rejected [OF c(1) poll] c(2,3) r unfolding frames
    by (simp add: forged_def frame_update_def mk_frame_def failure_events_def)
  then show ?thesis using poll by (simp add: Let_def)
qed

text \<open>Without a connection, without a datagram, and for bytes that are no packet or fail their checksum, \<^verbatim>\<open>poll\<close> changes nothing.\<close>

lemma poll_nothing:
  "\<not> has_connections (pr_conn_mgr p) \<Longrightarrow> peer_poll env clk rx p = (p, [], [], -1)"
  "has_connections (pr_conn_mgr p) \<Longrightarrow> peer_poll env clk None p = (p, [], [], 0)"
  "has_connections (pr_conn_mgr p) \<Longrightarrow>
     \<not> snd (packet_decoder_parse data packet_decoder_new) \<or>
     \<not> verify_checksum (env_xxh env) (fst (packet_decoder_parse data packet_decoder_new)) \<Longrightarrow>
   peer_poll env clk (Some (data, ep)) p = (p, [], [], 0)"
  by (auto simp: peer_poll_def split_beta Let_def)

text \<open>What a sequence of updates does to one region: the data for its path, merged in order.\<close>

definition data_for :: "u32 \<Rightarrow> (u16 \<times> u32 \<times> bytes) list \<Rightarrow> bytes list" where
  "data_for h us = map (\<lambda>(a, k, d). d) (filter (\<lambda>(a, k, d). k = h) us)"

definition merge_data :: "bytes list \<Rightarrow> state_region \<Rightarrow> state_region" where
  "merge_data ds r = fold (\<lambda>d r. r\<lparr>sr_crdt := fst (crdt_merge d (sr_crdt r))\<rparr>) ds r"

lemma apply_delta_get:
  "registry_get h (fst (apply_delta k d g)) =
   map_option (\<lambda>r. if k = h then r\<lparr>sr_crdt := fst (crdt_merge d (sr_crdt r))\<rparr> else r) (registry_get h g)"
  by (cases "registry_get h g"; cases "registry_get k g")
    (auto simp: apply_delta_def registry_get_def split_beta Let_def update_conv')

lemma delta_frame_store [simp]:
  "fh_type (fr_header f) = FT_STATE_DELTA \<Longrightarrow> pr_cap_store (fst (data_frame env now mc f p)) = pr_cap_store p"
  by (simp add: data_frame_def delta_frame_def split_beta Let_def split: option.split)

text \<open>A token gives a permission on a path at every time.\<close>

definition always_grants :: "(bytes \<Rightarrow> u32) \<Rightarrow> state_path \<Rightarrow> u8 \<Rightarrow> capability_token \<Rightarrow> bool" where
  "always_grants xxh path perm t \<longleftrightarrow> expiry_us t = 0 \<and> has_permission t perm \<and> covers xxh t path"

lemma always_grants_grants: "always_grants xxh path perm t \<Longrightarrow> grants xxh path perm now_us t"
  by (simp add: always_grants_def grants_def is_expired_def)

lemma process_deltas_access:
  fixes env :: peer_env and clk :: "nat \<Rightarrow> nat" and k :: nat and mc :: managed_connection
  assumes "pr_access_control p" "registry_get h (pr_state p) = Some r" "\<forall>f \<in> set fs. fh_type (fr_header f) = FT_STATE_DELTA"
  defines "tokens \<equiv> snd ` set (cst_tokens (pr_cap_store p))"
    and "region \<equiv> registry_get h (pr_state (fst (process_data_frames env clk k mc fs p)))"
  shows "((\<forall>t \<in> tokens. \<forall>now_us. \<not> grants (env_xxh env) (sr_path r) CAP_WRITE now_us t) \<longrightarrow> region = Some r) \<and>
    ((\<exists>t \<in> tokens. always_grants (env_xxh env) (sr_path r) CAP_WRITE t) \<longrightarrow>
       region = Some (merge_data (data_for h (frame_updates env (pr_peer_keys p) fs)) r))"
  using assms(1-3) unfolding tokens_def region_def
proof (induction fs arbitrary: k p r)
  case Nil
  then show ?case by (simp add: merge_data_def data_for_def)
next
  case (Cons f fs)
  let ?p = "fst (data_frame env (clk k) mc f p)" and ?now = "elapsed_us (clk k) (mc_conn mc)"
  have t: "fh_type (fr_header f) = FT_STATE_DELTA" "\<forall>f \<in> set fs. fh_type (fr_header f) = FT_STATE_DELTA"
    using Cons.prems(3) by simp_all
  have allowed: "write_allowed env p ?now h \<longleftrightarrow> (\<exists>t \<in> snd ` set (cst_tokens (pr_cap_store p)). grants (env_xxh env) (sr_path r) CAP_WRITE ?now t)"
    using Cons.prems(1,2) find_token_None [of "env_xxh env" "sr_path r" CAP_WRITE ?now "cst_tokens (pr_cap_store p)"]
    by (auto simp: write_allowed_def find_capability_def)
  define r1 where "r1 = (case frame_update env (pr_peer_keys p) f of Some (a, k', d) \<Rightarrow>
      if k' = h \<and> write_allowed env p ?now h then r\<lparr>sr_crdt := fst (crdt_merge d (sr_crdt r))\<rparr> else r | None \<Rightarrow> r)"
  have r1: "registry_get h (pr_state ?p) = Some r1" "sr_path r1 = sr_path r"
    using Cons.prems(2) t(1) by (auto simp: data_frame_state r1_def apply_delta_get split: option.split)
  have rest: "process_data_frames env clk k mc (f # fs) p = (let (p2, ev, n) = process_data_frames env clk (k + 1) mc fs ?p
      in (p2, fst (snd (data_frame env (clk k) mc f p)) @ ev, if snd (snd (data_frame env (clk k) mc f p)) then n + 1 else n))"
    by (simp add: split_beta)
  note IH = Cons.IH [of ?p r1 "k + 1", OF _ r1(1) t(2), unfolded r1(2) delta_frame_store [OF t(1)] data_frame_keeps]
  show ?case
    using IH Cons.prems(1) allowed always_grants_grants
    unfolding rest by (auto simp: r1_def split_beta Let_def merge_data_def data_for_def split: option.splits if_splits)
qed

text \<open>
  C18. Access control of writes. With access control on, a connected peer polls a packet of STATE_DELTA frames. If no stored token grants
  WRITE on the path of a declared region at any time, the region is unchanged, whatever the frames say and whoever signed them. If a stored token
  without expiry does grant it, the region has merged exactly the data of the authentic frames for its path, in order.
\<close>

theorem access_control_writes:
  assumes "has_connections (pr_conn_mgr p)" "pr_access_control p" "registry_get h (pr_state p) = Some r"
    and "\<forall>f \<in> set (data_frames (env_xxh env) data). fh_type (fr_header f) = FT_STATE_DELTA"
    and "peer_poll env clk (Some (data, ep)) p = (p', out, evs, n)"
  defines "tokens \<equiv> snd ` set (cst_tokens (pr_cap_store p))"
  shows "((\<forall>t \<in> tokens. \<forall>now_us. \<not> grants (env_xxh env) (sr_path r) CAP_WRITE now_us t) \<longrightarrow> registry_get h (pr_state p') = Some r) \<and>
    ((\<exists>t \<in> tokens. always_grants (env_xxh env) (sr_path r) CAP_WRITE t) \<longrightarrow>
       registry_get h (pr_state p') =
       Some (merge_data (data_for h (frame_updates env (pr_peer_keys p) (data_frames (env_xxh env) data))) r))"
proof -
  obtain mc m p2 where r: "process_data_frames env clk 0 mc (data_frames (env_xxh env) data) (p\<lparr>pr_conn_mgr := m\<rparr>) = (p2, evs, n)"
    "pr_state p' = pr_state p2"
    using peer_poll_frames [OF assms(1,5)] by blast
  show ?thesis
    using process_deltas_access [of "p\<lparr>pr_conn_mgr := m\<rparr>" h r "data_frames (env_xxh env) data" env clk 0 mc] assms(2-4) r
    by (simp add: tokens_def)
qed

text \<open>A packet with one delta, signed by node 1, for the counter of the example.\<close>

definition example_delta :: "frame_type \<times> bytes" where
  "example_delta = (let c = [0, 0, 0, 5, 2, 0, 0, 1, 1, 0, 9, 0, 0, 0, 0, 0, 0, 0, 4] in (FT_STATE_DELTA, c @ ed_sign example_ed [7] c))"

definition example_packet :: bytes where
  "example_packet = snd (finalize (env_xxh example_env) (fst (add_frames [example_delta] packet_encoder_new)))"

lemma example_packet_frames:
  "data_frames (env_xxh example_env) example_packet = [mk_frame example_delta]" "fst example_delta = FT_STATE_DELTA"
  "um_find keys 1 = Some [7] \<Longrightarrow> frame_updates example_env keys [mk_frame example_delta] = [(1, 5, [1, 0, 9, 0, 0, 0, 0, 0, 0, 0, 4])]"
proof -
  let ?c = "[0, 0, 0, 5, 2, 0, 0, 1, 1, 0, 9, 0, 0, 0, 0, 0, 0, 0, 4] :: bytes"
  have d: "example_delta = (FT_STATE_DELTA, ?c @ ed_sign example_ed [7] ?c)" by (simp add: example_delta_def Let_def)
  have len: "length (ed_sign example_ed [7] ?c) = 64" using example_ed_laws by (simp add: ed25519_laws_def)
  show "data_frames (env_xxh example_env) example_packet = [mk_frame example_delta]"
    using data_frames_packet [of "[example_delta]"] len by (simp add: sendable_def example_packet_def d)
  show "fst example_delta = FT_STATE_DELTA" by (simp add: d)
  assume "um_find keys 1 = Some [7]"
  then have "authentic example_env keys 1 (?c @ ed_sign example_ed [7] ?c)"
    using len by (simp add: authentic_def crypto_verify_def example_env_def) (simp add: example_ed_def)
  moreover have "read_u16 [0, 1] = 1" "read_u32 [0, 0, 0, 5] = 5" by code_simp+
  ultimately show "frame_updates example_env keys [mk_frame example_delta] = [(1, 5, [1, 0, 9, 0, 0, 0, 0, 0, 0, 0, 4])]"
    using len by (simp add: d frame_update_def mk_frame_def read_u16_Cons read_u32_Cons)
qed

theorem access_control_writes_witness:
  "let p = (example_peer 2 1 (gc_new 2))\<lparr>pr_access_control := True\<rparr>;
       t = invalid_token\<lparr>token_id := 3, permissions := CAP_WRITE, path_pattern := [47, 97]\<rparr>;
       q = p\<lparr>pr_cap_store := (pr_cap_store p)\<lparr>cst_tokens := [(3, t)]\<rparr>\<rparr>;
       rx = Some (example_packet, \<lparr>ep_address = [], ep_port = 0\<rparr>)
   in registry_get 5 (pr_state (fst (peer_poll example_env (\<lambda>_. 0) rx p))) = Some (example_region (gc_new 2)) \<and>
      registry_get 5 (pr_state (fst (peer_poll example_env (\<lambda>_. 0) rx q))) =
        Some (merge_data [[1, 0, 9, 0, 0, 0, 0, 0, 0, 0, 4]] (example_region (gc_new 2)))"
proof -
  let ?p = "(example_peer 2 1 (gc_new 2))\<lparr>pr_access_control := True\<rparr>"
  let ?t = "invalid_token\<lparr>token_id := 3, permissions := CAP_WRITE, path_pattern := [47, 97]\<rparr>"
  let ?q = "?p\<lparr>pr_cap_store := (pr_cap_store ?p)\<lparr>cst_tokens := [(3, ?t)]\<rparr>\<rparr>"
  let ?ep = "\<lparr>ep_address = [], ep_port = 0\<rparr>"
  have poll: "peer_poll example_env (\<lambda>_. 0) (Some (example_packet, ?ep)) x =
      (fst (peer_poll example_env (\<lambda>_. 0) (Some (example_packet, ?ep)) x), fst (snd (peer_poll example_env (\<lambda>_. 0) (Some (example_packet, ?ep)) x)),
       fst (snd (snd (peer_poll example_env (\<lambda>_. 0) (Some (example_packet, ?ep)) x))), snd (snd (snd (peer_poll example_env (\<lambda>_. 0) (Some (example_packet, ?ep)) x))))" for x
    by simp
  have c: "has_connections (pr_conn_mgr ?p)" "pr_access_control ?p" "registry_get 5 (pr_state ?p) = Some (example_region (gc_new 2))"
    "has_connections (pr_conn_mgr ?q)" "pr_access_control ?q" "registry_get 5 (pr_state ?q) = Some (example_region (gc_new 2))"
    using example_peer_connected(2) [of 2 1 "gc_new 2"] by (simp_all add: registry_get_def) (simp_all add: example_peer_def)
  have fs: "\<forall>f \<in> set (data_frames (env_xxh example_env) example_packet). fh_type (fr_header f) = FT_STATE_DELTA"
    by (simp add: example_packet_frames)
  have tokens: "cst_tokens (pr_cap_store ?p) = []" "cst_tokens (pr_cap_store ?q) = [(3, ?t)]"
    by (simp_all add: example_peer_def peer_register_key_def register_peer_key_def peer_new_def capability_store_new_def)
  have g: "always_grants (env_xxh example_env) (sr_path (example_region (gc_new 2))) CAP_WRITE ?t"
    by (simp add: always_grants_def example_env_def example_region_def invalid_token_def has_permission_def covers_def CAP_WRITE_def)
      (simp add: path_matches_def state_path_new_def xxhash32_def, code_simp)
  have "pr_peer_keys ?q = pr_peer_keys (example_peer 2 1 (gc_new 2))" "um_find (pr_peer_keys (example_peer 2 1 (gc_new 2))) 1 = Some [7]"
    by (simp_all add: example_peer_conns)
  then show ?thesis
    using access_control_writes [OF c(1-3) fs poll] access_control_writes [OF c(4-6) fs poll] g tokens
    by (simp add: example_packet_frames data_for_def Let_def del: frame_updates_simps(2))
qed

text \<open>
  What access control does not look at. With access control on, an authentic STATE_DELTA for a declared region is applied exactly when some stored token, of whatever
  holder, grants WRITE on the region's path at the time of the frame: the author of the delta plays no part. An authentic
  STATE_SNAPSHOT is applied without any such check.
\<close>

theorem access_control_scope:
  assumes "pr_access_control p" "registry_get h (pr_state p) = Some r"
    and "frame_update env (pr_peer_keys p) f = Some (author, h, d)"
  shows "pr_state (fst (data_frame env now mc f p)) =
    (if fh_type (fr_header f) = FT_STATE_SNAPSHOT \<or>
        (\<exists>t \<in> snd ` set (cst_tokens (pr_cap_store p)).
           grants (env_xxh env) (sr_path r) CAP_WRITE (elapsed_us now (mc_conn mc)) t)
     then fst (apply_delta h d (pr_state p)) else pr_state p)"
proof -
  have "fh_type (fr_header f) = FT_STATE_DELTA \<or> fh_type (fr_header f) = FT_STATE_SNAPSHOT"
    using assms(3) by (auto simp: frame_update_def Let_def split: if_splits)
  then show ?thesis
    using assms find_token_None [of "env_xxh env" "sr_path r" CAP_WRITE "elapsed_us now (mc_conn mc)" "cst_tokens (pr_cap_store p)"]
    by (auto simp: data_frame_state write_allowed_def find_capability_def)
qed

theorem access_control_scope_witness:
  "let p = (example_peer 2 1 (gc_new 2))\<lparr>pr_access_control := True\<rparr>; c = [0, 0, 0, 5, 2, 0, 1, 1, 0, 9, 0, 0, 0, 0, 0, 0, 0, 4];
       f = mk_frame (FT_STATE_SNAPSHOT, c @ ed_sign example_ed [7] c)
   in cst_tokens (pr_cap_store p) = [] \<and>
      pr_state (fst (data_frame example_env 0 (example_mc 1) f p)) =
      fst (apply_delta 5 [1, 0, 9, 0, 0, 0, 0, 0, 0, 0, 4] (pr_state p))"
proof -
  let ?p = "(example_peer 2 1 (gc_new 2))\<lparr>pr_access_control := True\<rparr>"
  let ?c = "[0, 0, 0, 5, 2, 0, 1, 1, 0, 9, 0, 0, 0, 0, 0, 0, 0, 4] :: bytes"
  let ?f = "mk_frame (FT_STATE_SNAPSHOT, ?c @ ed_sign example_ed [7] ?c)"
  have len: "length (ed_sign example_ed [7] ?c) = 64" using example_ed_laws by (simp add: ed25519_laws_def)
  have "authentic example_env (pr_peer_keys ?p) 1 (?c @ ed_sign example_ed [7] ?c)"
    using len by (simp add: authentic_def example_peer_conns crypto_verify_def example_env_def) (simp add: example_ed_def)
  moreover have "read_u16 [0, 1] = 1" "read_u32 [0, 0, 0, 5] = 5" by code_simp+
  ultimately have u: "frame_update example_env (pr_peer_keys ?p) ?f = Some (1, 5, [1, 0, 9, 0, 0, 0, 0, 0, 0, 0, 4])"
    using len by (simp add: frame_update_def mk_frame_def read_u16_Cons read_u32_Cons)
  have g: "registry_get 5 (pr_state ?p) = Some (example_region (gc_new 2))" "cst_tokens (pr_cap_store ?p) = []"
    by (simp_all add: registry_get_def example_peer_def peer_register_key_def register_peer_key_def peer_new_def capability_store_new_def)
  show ?thesis using access_control_scope [OF _ g(1) u, of 0 "example_mc 1"] g(2) by (simp add: Let_def mk_frame_def)
qed

text \<open>
  A delta that does not fit is lost. A delta of more than 1361 bytes (and at most what 16 bits of length allow) is dropped by \<^verbatim>\<open>send_deltas_to\<close>: the
  one packet it sends carries no frame, and the call reports one frame sent.
\<close>

theorem oversized_delta_lost:
  assumes "ed25519_laws (env_ed env)" "1361 < length (pdl_data d)" "length (pdl_data d) < 65464"
  shows "\<exists>mc' pkt. send_deltas_to env p clk k mc [d] = (mc', k + 2, [pkt], 1) \<and> data_frames (env_xxh env) (fst pkt) = []"
proof -
  let ?e = "data_encoder mc packet_encoder_new"
  obtain mc2 e2 pkt where fin: "finish_packet env clk k mc ?e = (mc2, e2, pkt)" by (metis prod_cases3)
  have pkt: "data_frames (env_xxh env) (fst pkt) = []" and e2: "filled env p (data_encoder mc2 e2) []"
    using finish_packet_carries [OF assms(1) filled_new, where clk = clk and k = k and mc = mc] fin
    by (auto simp: carries_def delta_frames_def) (metis fst_conv snd_conv)+
  have "length (build_signed_delta env p d) < 65536" using assms by (simp add: length_signed_delta)
  from unat_of_nat_u16 [OF this] have full: "add_delta (build_signed_delta env p d) enc = (enc, False)" if "filled env p enc []" for enc
    using that assms by (simp add: add_delta_def add_frame_full length_signed_delta filled_def enc_holds_def size_defs)
  have "payload_size (data_encoder mc2 e2) = 0"
    using e2 by (simp add: filled_def enc_holds_def delta_frames_def payload_size_def)
  then show ?thesis
    using full [OF filled_new] full [OF e2] fin pkt by (simp add: send_deltas_to_def)
qed

theorem oversized_delta_lost_witness:
  "\<exists>mc' pkt. send_deltas_to example_env (example_peer 1 2 (gc_new 1)) (\<lambda>_. 0) 0 (example_mc 2)
       [\<lparr>pdl_path_hash = 5, pdl_crdt_type = CRDT_LWW_REGISTER, pdl_reliability = REL_RELIABLE, pdl_data = replicate 2000 1\<rparr>] =
     (mc', 2, [pkt], 1) \<and> data_frames (env_xxh example_env) (fst pkt) = []"
  using oversized_delta_lost [OF example_env_laws, of "\<lparr>pdl_path_hash = 5, pdl_crdt_type = CRDT_LWW_REGISTER,
      pdl_reliability = REL_RELIABLE, pdl_data = replicate 2000 1\<rparr>" "example_peer 1 2 (gc_new 1)" "\<lambda>_. 0" 0 "example_mc 2"]
  by (simp add: numeral_2_eq_2)

text \<open>A CAPABILITY_REVOKE frame removes the token it names, whoever sent it and whoever issued the token.\<close>

lemma revoke_unauthenticated:
  "pr_cap_store (fst (data_frame env now mc (mk_frame (FT_CAPABILITY_REVOKE, be32 tid @ be16 n)) p)) =
    (pr_cap_store p)\<lparr>cst_tokens := um_erase tid (cst_tokens (pr_cap_store p))\<rparr>"
  using read_be32 [of tid "be16 n"]
  by (simp add: data_frame_def revoke_frame_def mk_frame_def capability_revoke_decode_def CAPABILITY_REVOKE_WIRE_SIZE_def
      cap_revoke_def be32_def be16_def)

text \<open>A ROUTE_ANNOUNCE frame as it is encoded announces another node to the receiver: the bytes of the id are swapped.\<close>

lemma announce_swaps_bytes:
  "pr_router (fst (data_frame env now mc (mk_frame (FT_ROUTE_ANNOUNCE, route_announce_wire \<lparr>raf_path_hash = h, raf_announcing_node_id = n\<rparr>)) p)) =
    learn_route (env_rnd env) h (bswap16 n) (pr_router p)"
  using read_be32 [of h "be16 n"]
  by (simp add: data_frame_def announce_frame_def mk_frame_def route_announce_wire_def nth_append be32_def be16_def
      bswap16_def load_le16_def store_le16_def)

text \<open>
  A peer never reconnects over its single slot. Once the slot 0 of the single-connection calls holds a connection that is not IDLE - after a failed
  attempt, after \<^verbatim>\<open>disconnect\<close>, after a CLOSE - \<^verbatim>\<open>connect\<close> and \<^verbatim>\<open>connect_start\<close> fail without sending anything and
  leave every connection as it is; and a CLOSE sent by \<^verbatim>\<open>disconnect\<close> leaves the slot in CLOSING.
\<close>

theorem reconnect_refused:
  assumes "cm_get 0 (pr_conn_mgr p) = Some mc" "cn_state (mc_conn mc) \<noteq> CS_IDLE"
  shows "(let (p', out, ok) = peer_connect env clk remote sent_ok rx p
          in \<not> ok \<and> out = [] \<and> cm_conns (pr_conn_mgr p') = cm_conns (pr_conn_mgr p)) \<and>
    (let (p', out, ok) = connect_start env clk remote sent_ok p
     in \<not> ok \<and> out = [] \<and> cm_conns (pr_conn_mgr p') = cm_conns (pr_conn_mgr p) \<and> pr_hs_state p' = pr_hs_state p) \<and>
    (cn_state (mc_conn mc) = CS_CONNECTED \<and> cm_conns (pr_conn_mgr p) = [(0, mc)] \<longrightarrow>
     (\<exists>mc'. cm_get 0 (pr_conn_mgr (fst (peer_disconnect env clk reason p))) = Some mc' \<and> cn_state (mc_conn mc') = CS_CLOSING))"
proof -
  have slot: "slot0 (clk 0) (pr_conn_mgr p) = (pr_conn_mgr p, Some mc)"
    using assms(1) by (simp add: slot0_def cm_add_def cm_get_def)
  have init: "initiate_on env clk 0 mc remote (pr_conn_mgr p) = (fst (next_conn_id (pr_conn_mgr p)), [], False)"
    using assms(2) by (simp add: initiate_on_def conn_initiate_def split_beta Let_def)
  have ids: "cm_conns (fst (next_conn_id m)) = cm_conns m" for m by (simp add: next_conn_id_def split_beta)
  show ?thesis
    by (auto simp: peer_connect_def connect_start_def slot init ids peer_disconnect_def cm_primary_def close_on_def cm_get_def
        cm_set_def conn_close_def build_close_packet_def next_send_packet_number_def Let_def)
qed

theorem reconnect_refused_witness:
  "let p = fst (peer_disconnect example_env (\<lambda>_. 0) CR_NORMAL (example_peer 2 0 (gc_new 2)));
       (p', out, ok) = peer_connect example_env (\<lambda>_. 0) \<lparr>ep_address = [], ep_port = 4\<rparr> True None p
   in \<not> ok \<and> out = []"
proof -
  let ?p = "example_peer 2 0 (gc_new 2)" and ?ep = "\<lparr>ep_address = [], ep_port = 4\<rparr>"
  have g: "cm_get 0 (pr_conn_mgr ?p) = Some (example_mc 0)" by (simp add: cm_get_def example_peer_conns)
  obtain mc' where mc': "cm_get 0 (pr_conn_mgr (fst (peer_disconnect example_env (\<lambda>_. 0) CR_NORMAL ?p))) = Some mc'"
    "cn_state (mc_conn mc') = CS_CLOSING"
    using reconnect_refused [OF g, of example_env "\<lambda>_. 0" ?ep True None CR_NORMAL] by (auto simp: example_peer_conns)
  then show ?thesis
    using reconnect_refused [OF mc'(1), of example_env "\<lambda>_. 0" ?ep True None CR_NORMAL] by (simp add: Let_def split_beta)
qed

text \<open>
  C16. The non-blocking handshake of two peers completes. Two peers whose slot 0 is free call \<^verbatim>\<open>connect_start\<close> and \<^verbatim>\<open>accept_start\<close>; when the one
  packet the client sent reaches \<^verbatim>\<open>accept_poll\<close> and the one packet the server sends back reaches \<^verbatim>\<open>connect_poll\<close>, both
  calls return true, both peers are connected, their handshake states are cleared, and the client addresses the server by
  the id the server gave the connection.
\<close>

theorem peers_connect:
  assumes "cm_get 0 (pr_conn_mgr p) = None" "cm_get 0 (pr_conn_mgr q) = None"
  shows "let (p1, out1, started) = connect_start env clk1 server_ep True p;
             (q1, waiting) = accept_start clk2 q;
             (q2, out2, accepted) = accept_poll env clk3 (Some (fst (hd out1), client_ep)) q1;
             (p2, connected) = connect_poll env (Some (fst (hd out2), server_ep)) p1
         in started \<and> waiting \<and> accepted \<and> connected \<and> map snd out1 = [server_ep] \<and> map snd out2 = [client_ep] \<and>
            is_connected_to 0 p2 \<and> is_connected_to 0 q2 \<and> pr_hs_state p2 = HS_NONE \<and> pr_hs_state q2 = HS_NONE \<and>
            map_option (\<lambda>mc. cn_remote_conn_id (mc_conn mc)) (cm_get 0 (pr_conn_mgr p2)) =
            map_option (\<lambda>mc. cn_local_conn_id (mc_conn mc)) (cm_get 0 (pr_conn_mgr q2))"
proof -
  have none: "um_find (cm_conns (pr_conn_mgr p)) 0 = None" "um_find (cm_conns (pr_conn_mgr q)) 0 = None"
    using assms by (simp_all add: cm_get_def)
  have fresh: "cn_state (connection_new t) = CS_IDLE" for t by (simp add: connection_new_def)
  have built: "fst (build_connect_packet xxh t c) = c\<lparr>cn_send_pkt_num := cn_send_pkt_num c + 1\<rparr>"
    "fst (build_accept_packet xxh t t' c) = c\<lparr>cn_send_pkt_num := cn_send_pkt_num c + 1\<rparr>" for xxh t t' c
    by (simp_all add: build_defs Let_def)
  note sel = cm_get_def cm_set_def update_conv' next_conn_id_def split_beta Let_def
  show ?thesis
    by (simp add: connect_start_def accept_start_def accept_poll_def connect_poll_def slot0_def cm_add_def none initiate_on_def
        conn_initiate_def fresh process_on_def accept_on_def process_connect process_accept result_is_def is_connected_to_def
        conn_on_connect_def conn_on_accept_def conn_accept_def update_recv_packet_number_def handshake_event_new_def
        built sel)
qed

theorem peers_connect_witness:
  "let p = peer_new example_env 1 (keypair_from_seed example_ed [7]); q = peer_new example_env 2 (keypair_from_seed example_ed [8]);
       server_ep = \<lparr>ep_address = [66], ep_port = 2\<rparr>; client_ep = \<lparr>ep_address = [65], ep_port = 1\<rparr>;
       (p1, out1, started) = connect_start example_env (\<lambda>i. i) server_ep True p;
       (q1, waiting) = accept_start (\<lambda>i. i) q;
       (q2, out2, accepted) = accept_poll example_env (\<lambda>i. i) (Some (fst (hd out1), client_ep)) q1;
       (p2, connected) = connect_poll example_env (Some (fst (hd out2), server_ep)) p1
   in is_connected_to 0 p2 \<and> is_connected_to 0 q2"
proof -
  have "cm_get 0 (pr_conn_mgr (peer_new example_env n ks)) = None" for n ks
    by (simp add: peer_new_def cm_get_def connection_manager_new_def)
  from peers_connect [OF this this, of example_env "\<lambda>i. i" "\<lparr>ep_address = [66], ep_port = 2\<rparr>" 1 "keypair_from_seed example_ed [7]"
      "\<lambda>i. i" 2 "keypair_from_seed example_ed [8]" "\<lambda>i. i" "\<lparr>ep_address = [65], ep_port = 1\<rparr>"]
  show ?thesis by (simp add: Let_def split_beta)
qed

end
