(* ===== verification/Dtls.thy ===== *)
theory Dtls
  imports Connection
begin

text \<open>
  The DTLS transport (\<^verbatim>\<open>transport/dtls_transport.h\<close>, \<^verbatim>\<open>dtls_transport.cpp\<close>), a wrapper that encrypts what passes through
  another transport.

  mbedTLS is outside: a record \<open>mbedtls\<close> holds the results of its fallible configuration calls and its error codes, the
  results of \<^verbatim>\<open>mbedtls_ssl_handshake\<close> are a sequence, those of writing and reading are arguments. \<open>dtls_context\<close> is what the
  code configures. The loop of \<^verbatim>\<open>handshake\<close> ends only if the library or the clock makes it end, so it is a partial function:
  \<open>None\<close> is a call that does not return. Clock readings are in nanoseconds.
\<close>

record dtls_config =
  dc_is_server :: bool
  dc_cert_pem :: bytes
  dc_key_pem :: bytes
  dc_ca_pem :: bytes
  dc_verify_peer :: bool
  dc_handshake_timeout_ms :: u32
  dc_min_retransmit_ms :: u32
  dc_max_retransmit_ms :: u32

definition dtls_config_default :: dtls_config where
  "dtls_config_default =
    \<lparr>dc_is_server = False, dc_cert_pem = [], dc_key_pem = [], dc_ca_pem = [], dc_verify_peer = False,
     dc_handshake_timeout_ms = 5000, dc_min_retransmit_ms = 1000, dc_max_retransmit_ms = 60000\<rparr>"

datatype dtls_state = DS_IDLE | DS_HANDSHAKING | DS_CONNECTED | DS_CLOSED | DS_ERROR

record dtls_context =
  cx_cert :: "bytes option"
  cx_pk :: "bytes option"
  cx_own_cert :: "(bytes \<times> bytes) option"
  cx_ca_chain :: "bytes option"
  cx_verify_required :: bool
  cx_cookies :: bool
  cx_bio :: bool

record mbedtls =
  mb_ctr_drbg_seed :: int
  mb_config_defaults :: "bool \<Rightarrow> int"
  mb_crt_parse :: "bytes \<Rightarrow> int"
  mb_pk_parse_key :: "bytes \<Rightarrow> int"
  mb_conf_own_cert :: "bytes \<Rightarrow> bytes \<Rightarrow> int"
  mb_cookie_setup :: int
  mb_ssl_setup :: int
  mb_WANT_READ :: int
  mb_WANT_WRITE :: int
  mb_TIMEOUT :: int

record dtls_transport =
  dt_config :: dtls_config
  dt_state :: dtls_state
  dt_remote_ep :: endpoint
  dt_bytes_encrypted :: u64
  dt_bytes_decrypted :: u64
  dt_ctx :: "dtls_context option"

text \<open>The calls a method makes on the wrapped transport and to close a session.\<close>

datatype dtls_call = Inner_bind endpoint | Inner_close | Close_notify

definition dtls_new :: "dtls_config \<Rightarrow> dtls_transport" where
  "dtls_new config =
    \<lparr>dt_config = config, dt_state = DS_IDLE, dt_remote_ep = \<lparr>ep_address = [], ep_port = 0\<rparr>,
     dt_bytes_encrypted = 0, dt_bytes_decrypted = 0, dt_ctx = None\<rparr>"

definition context_new :: dtls_context where
  "context_new =
    \<lparr>cx_cert = None, cx_pk = None, cx_own_cert = None, cx_ca_chain = None, cx_verify_required = False, cx_cookies = False,
     cx_bio = False\<rparr>"

definition setup_context :: "mbedtls \<Rightarrow> dtls_config \<Rightarrow> dtls_context \<times> bool" where
  "setup_context mb cfg =
    (let cert = dc_cert_pem cfg; key = dc_key_pem cfg; ca = dc_ca_pem cfg; c0 = context_new
     in if mb_ctr_drbg_seed mb \<noteq> 0 then (c0, False)
        else if mb_config_defaults mb (dc_is_server cfg) \<noteq> 0 then (c0, False)
        else if cert \<noteq> [] \<and> mb_crt_parse mb cert \<noteq> 0 then (c0, False)
        else
          let c1 = c0\<lparr>cx_cert := (if cert \<noteq> [] then Some cert else None)\<rparr>
          in if key \<noteq> [] \<and> mb_pk_parse_key mb key \<noteq> 0 then (c1, False)
             else
               let c2 = c1\<lparr>cx_pk := (if key \<noteq> [] then Some key else None)\<rparr>
               in if cert \<noteq> [] \<and> key \<noteq> [] \<and> mb_conf_own_cert mb cert key \<noteq> 0 then (c2, False)
                  else
                    let c3 = c2\<lparr>cx_own_cert := (if cert \<noteq> [] \<and> key \<noteq> [] then Some (cert, key) else None)\<rparr>
                    in if ca \<noteq> [] \<and> mb_crt_parse mb ca \<noteq> 0 then (c3, False)
                       else
                         let c4 = c3\<lparr>cx_ca_chain := (if ca \<noteq> [] then Some ca else None),
                                     cx_verify_required := dc_verify_peer cfg\<rparr>
                         in if dc_is_server cfg \<and> mb_cookie_setup mb \<noteq> 0 then (c4, False)
                            else
                              let c5 = c4\<lparr>cx_cookies := dc_is_server cfg\<rparr>
                              in if mb_ssl_setup mb \<noteq> 0 then (c5, False) else (c5\<lparr>cx_bio := True\<rparr>, True))"

definition teardown_context :: "dtls_transport \<Rightarrow> dtls_transport \<times> dtls_call list" where
  "teardown_context t = (case dt_ctx t of None \<Rightarrow> (t, []) | Some c \<Rightarrow> (t\<lparr>dt_ctx := None\<rparr>, [Close_notify]))"

definition dtls_bind :: "endpoint \<Rightarrow> bool \<Rightarrow> dtls_transport \<Rightarrow> bool \<times> dtls_call list" where
  "dtls_bind local_ep inner_ret t = (inner_ret, [Inner_bind local_ep])"

definition dtls_close :: "dtls_transport \<Rightarrow> dtls_transport \<times> dtls_call list" where
  "dtls_close t =
    (let (t1, calls) = (if dt_state t = DS_CONNECTED \<or> dt_state t = DS_HANDSHAKING then teardown_context t else (t, []))
     in (t1\<lparr>dt_state := DS_CLOSED\<rparr>, calls @ [Inner_close]))"

text \<open>The \<open>do\<close> loop of \<^verbatim>\<open>handshake\<close>: the result and the number of attempts before the last.\<close>

partial_function (option) handshake_loop ::
    "mbedtls \<Rightarrow> (nat \<Rightarrow> int) \<Rightarrow> (nat \<Rightarrow> nat) \<Rightarrow> nat \<Rightarrow> int \<Rightarrow> nat \<Rightarrow> (bool \<times> nat) option" where
  "handshake_loop mb hs clk start timeout_ms i =
    (if hs i = 0 then Some (True, i)
     else if hs i \<noteq> mb_WANT_READ mb \<and> hs i \<noteq> mb_WANT_WRITE mb then Some (False, i)
     else if int ((clk i - start) div 1000000) \<ge> timeout_ms then Some (False, i)
     else handshake_loop mb hs clk start timeout_ms (Suc i))"

definition dtls_handshake ::
    "mbedtls \<Rightarrow> (nat \<Rightarrow> int) \<Rightarrow> (nat \<Rightarrow> nat) \<Rightarrow> nat \<Rightarrow> endpoint \<Rightarrow> int \<Rightarrow> dtls_transport \<Rightarrow>
     (dtls_transport \<times> bool \<times> dtls_call list) option" where
  "dtls_handshake mb hs clk start remote timeout_ms t =
    (let (ctx, ready) = setup_context mb (dt_config t);
         t1 = t\<lparr>dt_remote_ep := remote, dt_ctx := Some ctx\<rparr>
     in if \<not> ready then Some (t1\<lparr>dt_state := DS_ERROR\<rparr>, False, [])
        else
          let t2 = t1\<lparr>dt_state := DS_HANDSHAKING\<rparr>
          in case handshake_loop mb hs clk start timeout_ms 0 of
               None \<Rightarrow> None
             | Some (ok, i) \<Rightarrow>
                 if ok then Some (t2\<lparr>dt_state := DS_CONNECTED\<rparr>, True, [])
                 else let (t3, calls) = teardown_context (t2\<lparr>dt_state := DS_ERROR\<rparr>) in Some (t3, False, calls))"

text \<open>\<open>ret\<close> is the result of \<^verbatim>\<open>mbedtls_ssl_write\<close>; the destination is not used.\<close>

definition dtls_send_to :: "bytes \<Rightarrow> endpoint \<Rightarrow> int \<Rightarrow> dtls_transport \<Rightarrow> dtls_transport \<times> int" where
  "dtls_send_to data remote ret t =
    (if dt_state t \<noteq> DS_CONNECTED \<or> dt_ctx t = None then (t, - 1)
     else (if ret > 0 then t\<lparr>dt_bytes_encrypted := dt_bytes_encrypted t + of_int ret\<rparr> else t, ret))"

text \<open>\<open>ret\<close> is the result of \<^verbatim>\<open>mbedtls_ssl_read\<close>; the timeout is not used.\<close>

definition dtls_recv_from :: "int \<Rightarrow> int \<Rightarrow> dtls_transport \<Rightarrow> dtls_transport \<times> int \<times> endpoint option" where
  "dtls_recv_from timeout_ms ret t =
    (if dt_state t \<noteq> DS_CONNECTED \<or> dt_ctx t = None then (t, - 1, None)
     else if ret > 0 then (t\<lparr>dt_bytes_decrypted := dt_bytes_decrypted t + of_int ret\<rparr>, ret, Some (dt_remote_ep t))
     else (t, ret, None))"

definition negotiated_version :: "bytes \<Rightarrow> dtls_transport \<Rightarrow> bytes" where
  "negotiated_version version t = (if dt_ctx t = None \<or> dt_state t \<noteq> DS_CONNECTED then [] else version)"

definition cipher_suite :: "bytes \<Rightarrow> dtls_transport \<Rightarrow> bytes" where
  "cipher_suite suite t = (if dt_ctx t = None \<or> dt_state t \<noteq> DS_CONNECTED then [] else suite)"

text \<open>The callbacks of mbedTLS: what it is told, and what is sent through the wrapped transport.\<close>

definition bio_send :: "mbedtls \<Rightarrow> bytes \<Rightarrow> int \<Rightarrow> dtls_transport \<Rightarrow> int \<times> (bytes \<times> endpoint)" where
  "bio_send mb buf inner_ret t = (if inner_ret < 0 then mb_WANT_WRITE mb else inner_ret, (buf, dt_remote_ep t))"

definition bio_recv :: "mbedtls \<Rightarrow> int \<Rightarrow> int" where
  "bio_recv mb inner_ret = (if inner_ret < 0 then mb_WANT_READ mb else if inner_ret = 0 then mb_WANT_READ mb else inner_ret)"

definition bio_recv_timeout :: "mbedtls \<Rightarrow> int \<Rightarrow> int" where
  "bio_recv_timeout mb inner_ret = (if inner_ret < 0 then mb_TIMEOUT mb else if inner_ret = 0 then mb_TIMEOUT mb else inner_ret)"

text \<open>The variant that is compiled without mbedTLS.\<close>

definition stub_close :: "dtls_transport \<Rightarrow> dtls_transport \<times> dtls_call list" where
  "stub_close t = (t\<lparr>dt_state := DS_CLOSED\<rparr>, [Inner_close])"

definition stub_handshake :: "endpoint \<Rightarrow> int \<Rightarrow> dtls_transport \<Rightarrow> dtls_transport \<times> bool" where
  "stub_handshake remote timeout_ms t = (t\<lparr>dt_state := DS_ERROR\<rparr>, False)"

definition stub_send_to :: "bytes \<Rightarrow> endpoint \<Rightarrow> dtls_transport \<Rightarrow> int" where
  "stub_send_to data remote t = - 1"

definition stub_recv_from :: "nat \<Rightarrow> int \<Rightarrow> dtls_transport \<Rightarrow> int" where
  "stub_recv_from buf_len timeout_ms t = - 1"

section \<open>The handshake returns\<close>

text \<open>Attempt \<open>i\<close> neither ends the handshake nor comes after the time limit.\<close>

definition continues :: "mbedtls \<Rightarrow> (nat \<Rightarrow> int) \<Rightarrow> (nat \<Rightarrow> nat) \<Rightarrow> nat \<Rightarrow> int \<Rightarrow> nat \<Rightarrow> bool" where
  "continues mb hs clk start timeout_ms i \<longleftrightarrow>
     hs i \<noteq> 0 \<and> (hs i = mb_WANT_READ mb \<or> hs i = mb_WANT_WRITE mb) \<and> int ((clk i - start) div 1000000) < timeout_ms"

lemma handshake_loop_from:
  assumes "\<forall>j \<in> {i..<n}. continues mb hs clk start timeout_ms j" "\<not> continues mb hs clk start timeout_ms n" "i \<le> n"
  shows "handshake_loop mb hs clk start timeout_ms i = Some (hs n = 0, n)"
  using assms
proof (induction "n - i" arbitrary: i)
  case 0
  then show ?case by (auto simp: handshake_loop.simps [of _ _ _ _ _ i] continues_def)
next
  case (Suc m)
  then have "continues mb hs clk start timeout_ms i" by simp
  moreover have "handshake_loop mb hs clk start timeout_ms (Suc i) = Some (hs n = 0, n)"
    using Suc.prems Suc.hyps(2) by (intro Suc.hyps(1)) auto
  ultimately show ?case by (auto simp: handshake_loop.simps [of _ _ _ _ _ i] continues_def)
qed

text \<open>
  C29. \<^verbatim>\<open>handshake\<close> returns once the clock passes the time limit, whatever mbedTLS does. It reports success exactly when the
  context could be configured and an attempt succeeds while every earlier one only asked to continue within the
  limit; the transport is then connected to the endpoint given, and otherwise in the error state, with its session torn down
  if the context had been configured.
\<close>

theorem dtls_handshake_returns:
  assumes "timeout_ms \<le> int ((clk j - start) div 1000000)"
  shows "\<exists>t' ok calls. dtls_handshake mb hs clk start remote timeout_ms t = Some (t', ok, calls) \<and>
    (ok \<longleftrightarrow> snd (setup_context mb (dt_config t)) \<and> (\<exists>n. hs n = 0 \<and> (\<forall>i < n. continues mb hs clk start timeout_ms i))) \<and>
    dt_state t' = (if ok then DS_CONNECTED else DS_ERROR) \<and> dt_remote_ep t' = remote \<and>
    (ok \<longrightarrow> dt_ctx t' = Some (fst (setup_context mb (dt_config t)))) \<and>
    (\<not> ok \<and> snd (setup_context mb (dt_config t)) \<longrightarrow> dt_ctx t' = None \<and> calls = [Close_notify])"
proof -
  obtain ctx ready where s: "setup_context mb (dt_config t) = (ctx, ready)" by fastforce
  have "\<exists>n. \<not> continues mb hs clk start timeout_ms n" using assms by (auto simp: continues_def intro: exI [of _ j])
  then obtain n where n: "\<not> continues mb hs clk start timeout_ms n" "\<forall>i < n. continues mb hs clk start timeout_ms i"
    using exists_least_iff [of "\<lambda>n. \<not> continues mb hs clk start timeout_ms n"] by blast
  have loop: "handshake_loop mb hs clk start timeout_ms 0 = Some (hs n = 0, n)" using n by (intro handshake_loop_from) auto
  have "(\<exists>m. hs m = 0 \<and> (\<forall>i < m. continues mb hs clk start timeout_ms i)) \<longleftrightarrow> hs n = 0"
  proof
    assume "\<exists>m. hs m = 0 \<and> (\<forall>i < m. continues mb hs clk start timeout_ms i)"
    then obtain m where m: "hs m = 0" "\<forall>i < m. continues mb hs clk start timeout_ms i" by blast
    have "m = n" using m n by (metis continues_def linorder_neqE_nat)
    then show "hs n = 0" using m(1) by simp
  qed (use n(2) in blast)
  then show ?thesis by (auto simp: dtls_handshake_def s loop teardown_context_def Let_def)
qed

text \<open>A library that configures everything and then asks for more input for ever, for evaluating examples.\<close>

definition example_mbedtls :: mbedtls where
  "example_mbedtls =
    \<lparr>mb_ctr_drbg_seed = 0, mb_config_defaults = (\<lambda>s. 0), mb_crt_parse = (\<lambda>p. 0), mb_pk_parse_key = (\<lambda>p. 0),
     mb_conf_own_cert = (\<lambda>c k. 0), mb_cookie_setup = 0, mb_ssl_setup = 0, mb_WANT_READ = - 26880, mb_WANT_WRITE = - 26752,
     mb_TIMEOUT = - 26624\<rparr>"

lemma example_setup: "snd (setup_context example_mbedtls dtls_config_default)"
  by (simp add: setup_context_def dtls_config_default_def example_mbedtls_def)

theorem dtls_handshake_returns_witness:
  "\<exists>t'. dtls_handshake example_mbedtls (\<lambda>i. - 26880) (\<lambda>i. i * 400000000) 0 \<lparr>ep_address = [1], ep_port = 2\<rparr> 1000
       (dtls_new dtls_config_default) = Some (t', False, [Close_notify]) \<and> dt_state t' = DS_ERROR"
  using dtls_handshake_returns [where timeout_ms = 1000 and clk = "\<lambda>i. i * 400000000" and j = 3 and start = 0
      and mb = example_mbedtls and hs = "\<lambda>i. - 26880" and remote = "\<lparr>ep_address = [1], ep_port = 2\<rparr>"
      and t = "dtls_new dtls_config_default"] example_setup
  by (auto simp: dtls_new_def)

section \<open>Data needs a session\<close>

datatype dtls_op =
    Dtls_Handshake mbedtls "nat \<Rightarrow> int" "nat \<Rightarrow> nat" nat endpoint int
  | Dtls_Close
  | Dtls_Send bytes endpoint int
  | Dtls_Recv int int

text \<open>The state after a call, and for a handshake or a close the endpoint of the session it leaves.\<close>

fun dtls_step :: "dtls_op \<Rightarrow> dtls_transport \<times> endpoint option \<Rightarrow> (dtls_transport \<times> endpoint option) option" where
  "dtls_step (Dtls_Handshake mb hs clk start remote timeout) (t, session) =
    map_option (\<lambda>(t', ok, calls). (t', if ok then Some remote else None)) (dtls_handshake mb hs clk start remote timeout t)"
| "dtls_step Dtls_Close (t, session) = Some (fst (dtls_close t), None)"
| "dtls_step (Dtls_Send d ep r) (t, session) = Some (fst (dtls_send_to d ep r t), session)"
| "dtls_step (Dtls_Recv to r) (t, session) = Some (fst (dtls_recv_from to r t), session)"

fun dtls_run :: "dtls_op list \<Rightarrow> dtls_transport \<times> endpoint option \<Rightarrow> (dtls_transport \<times> endpoint option) option" where
  "dtls_run [] s = Some s"
| "dtls_run (op # ops) s = Option.bind (dtls_step op s) (dtls_run ops)"

definition session_ok :: "dtls_transport \<times> endpoint option \<Rightarrow> bool" where
  "session_ok s \<longleftrightarrow>
     (case snd s of
        None \<Rightarrow> dt_state (fst s) \<noteq> DS_CONNECTED
      | Some ep \<Rightarrow> dt_state (fst s) = DS_CONNECTED \<and> dt_ctx (fst s) \<noteq> None \<and> dt_remote_ep (fst s) = ep)"

lemma dtls_step_ok:
  assumes "session_ok s" "dtls_step op s = Some s'"
  shows "session_ok s'"
proof -
  obtain t session where s: "s = (t, session)" by fastforce
  show ?thesis
    using assms by (cases op) (auto simp: s session_ok_def dtls_handshake_def dtls_close_def teardown_context_def dtls_send_to_def
        dtls_recv_from_def Let_def split: option.splits if_splits prod.splits)
qed

lemma dtls_run_ok: "session_ok s \<Longrightarrow> dtls_run ops s = Some s' \<Longrightarrow> session_ok s'"
  by (induction ops arbitrary: s) (auto split: bind_splits intro: dtls_step_ok)

text \<open>
  Nothing passes without a session. After any calls that return, data is accepted and delivered only if the last handshake succeeded and
  the transport was not closed since; then what is received is said to come from the endpoint of that handshake, and what is sent goes through the session with it,
  whatever destination the caller names.
\<close>

theorem dtls_session:
  assumes "dtls_run ops (dtls_new cfg, None) = Some (t, session)"
  shows "(session = None \<longrightarrow> dtls_send_to d ep r t = (t, - 1) \<and> dtls_recv_from to r t = (t, - 1, None)) \<and>
    (\<forall>peer_ep. session = Some peer_ep \<longrightarrow>
       snd (dtls_send_to d ep r t) = r \<and> dtls_send_to d ep r t = dtls_send_to d peer_ep r t \<and>
       snd (bio_send mb d r t) = (d, peer_ep) \<and> snd (snd (dtls_recv_from to r t)) = (if r > 0 then Some peer_ep else None))"
proof -
  have "session_ok (t, session)"
    using dtls_run_ok [OF _ assms] by (simp add: session_ok_def dtls_new_def)
  then show ?thesis
    by (cases session) (auto simp: session_ok_def dtls_send_to_def dtls_recv_from_def bio_send_def)
qed

theorem dtls_session_witness:
  "let a = \<lparr>ep_address = [1], ep_port = 2\<rparr>; b = \<lparr>ep_address = [3], ep_port = 4\<rparr>
   in \<exists>t. dtls_run [Dtls_Handshake example_mbedtls (\<lambda>i. 0) (\<lambda>i. 0) 0 a 1000] (dtls_new dtls_config_default, None) = Some (t, Some a) \<and>
        snd (dtls_send_to [5] b 1 t) = 1 \<and> snd (bio_send example_mbedtls [5] 1 t) = ([5], a)"
proof -
  let ?a = "\<lparr>ep_address = [1], ep_port = 2\<rparr>" and ?b = "\<lparr>ep_address = [3], ep_port = 4\<rparr>"
  have "handshake_loop example_mbedtls (\<lambda>i. 0) (\<lambda>i. 0) 0 1000 0 = Some (True, 0)" by (simp add: handshake_loop.simps)
  then obtain t where run: "dtls_run [Dtls_Handshake example_mbedtls (\<lambda>i. 0) (\<lambda>i. 0) 0 ?a 1000]
      (dtls_new dtls_config_default, None) = Some (t, Some ?a)"
    using example_setup by (simp add: dtls_handshake_def dtls_new_def split_beta Let_def)
  show ?thesis using dtls_session [OF run, of "[5]" ?b 1 0 example_mbedtls] run by (auto simp: Let_def)
qed

text \<open>What a configured context holds: the configuration, nothing else; peers are verified only on request.\<close>

lemma setup_context_config:
  assumes "setup_context mb cfg = (ctx, True)"
  shows "cx_verify_required ctx = dc_verify_peer cfg \<and> cx_cookies ctx = dc_is_server cfg \<and> cx_bio ctx \<and>
    cx_ca_chain ctx = (if dc_ca_pem cfg = [] then None else Some (dc_ca_pem cfg)) \<and>
    cx_own_cert ctx = (if dc_cert_pem cfg = [] \<or> dc_key_pem cfg = [] then None else Some (dc_cert_pem cfg, dc_key_pem cfg))"
  using assms by (auto simp: setup_context_def context_new_def Let_def split: if_splits)

end
