(* ===== verification/C_Api.thy ===== *)
theory C_Api
  imports Peer_Sync Dtls Sockets
begin

text \<open>
  The C interface for language bindings (\<^verbatim>\<open>protocoll.h\<close>, \<^verbatim>\<open>protocoll_c_api.cpp\<close>). A handle or a pointer argument is an option,
  \<open>None\<close> the null pointer; a call returns its handle updated, the packets it sends and its return code. A buffer the caller
  owns is a byte list that is returned with what the call wrote. Null-terminated strings are the bytes in front of the terminator.

  The lemmas show that values written through the interface are read back, what too small a buffer gets, and which
  code a failing call reports.
\<close>

datatype pcol_error =
    PCOL_OK | PCOL_ERR_INVALID | PCOL_ERR_NOT_FOUND | PCOL_ERR_NO_CONNECT | PCOL_ERR_TIMEOUT | PCOL_ERR_CRYPTO | PCOL_ERR_INTERNAL

fun pcol_error_code :: "pcol_error \<Rightarrow> int" where
  "pcol_error_code PCOL_OK = 0"
| "pcol_error_code PCOL_ERR_INVALID = - 1"
| "pcol_error_code PCOL_ERR_NOT_FOUND = - 2"
| "pcol_error_code PCOL_ERR_NO_CONNECT = - 3"
| "pcol_error_code PCOL_ERR_TIMEOUT = - 4"
| "pcol_error_code PCOL_ERR_CRYPTO = - 5"
| "pcol_error_code PCOL_ERR_INTERNAL = - 99"

text \<open>A C enumeration argument may hold any integer.\<close>

datatype pcol_crdt_type = PCOL_LWW_REGISTER | PCOL_G_COUNTER | PCOL_PN_COUNTER | PCOL_OR_SET | PCOL_CRDT_other int

datatype pcol_reliability = PCOL_RELIABLE | PCOL_BEST_EFFORT | PCOL_REL_other int

datatype pcol_resolution_tier =
    PCOL_RESOLUTION_FULL | PCOL_RESOLUTION_NORMAL | PCOL_RESOLUTION_COARSE | PCOL_RESOLUTION_METADATA | PCOL_RESOLUTION_other int

record pcol_endpoint =
  pep_address :: "bytes option"
  pep_port :: u16

type_synonym pcol_peer = "peer option"

definition to_ep :: "pcol_endpoint \<Rightarrow> endpoint" where
  "to_ep ep = \<lparr>ep_address = (case pep_address ep of None \<Rightarrow> [] | Some a \<Rightarrow> a), ep_port = pep_port ep\<rparr>"

definition to_crdt :: "pcol_crdt_type \<Rightarrow> crdt_type" where
  "to_crdt t =
    (case t of PCOL_LWW_REGISTER \<Rightarrow> CRDT_LWW_REGISTER | PCOL_G_COUNTER \<Rightarrow> CRDT_G_COUNTER | PCOL_PN_COUNTER \<Rightarrow> CRDT_PN_COUNTER
     | PCOL_OR_SET \<Rightarrow> CRDT_OR_SET | PCOL_CRDT_other _ \<Rightarrow> CRDT_LWW_REGISTER)"

definition to_rel :: "pcol_reliability \<Rightarrow> reliability" where
  "to_rel r = (if r = PCOL_BEST_EFFORT then REL_BEST_EFFORT else REL_RELIABLE)"

definition to_resolution :: "pcol_resolution_tier \<Rightarrow> resolution_tier" where
  "to_resolution t =
    (case t of PCOL_RESOLUTION_FULL \<Rightarrow> TIER_FULL | PCOL_RESOLUTION_NORMAL \<Rightarrow> TIER_NORMAL | PCOL_RESOLUTION_COARSE \<Rightarrow> TIER_COARSE
     | PCOL_RESOLUTION_METADATA \<Rightarrow> TIER_METADATA | PCOL_RESOLUTION_other _ \<Rightarrow> TIER_FULL)"

definition to_kp :: "keypair \<Rightarrow> keypair" where
  "to_kp k = \<lparr>kp_public_key = take 32 (kp_public_key k), kp_secret_key = take 64 (kp_secret_key k)\<rparr>"

definition code_if :: "bool \<Rightarrow> pcol_error \<Rightarrow> pcol_error" where
  "code_if ok e = (if ok then PCOL_OK else e)"

section \<open>Keys and transports\<close>

text \<open>
  The registry of loopback buses maps an id to a bus that may be gone: \<open>alive\<close> says which buses some transport still holds, \<open>fresh\<close>
  names a new one.
\<close>

datatype pcol_transport =
    T_loopback loopback_transport nat
  | T_external external_transport
  | T_udp udp_transport
  | T_dtls dtls_transport

definition pcol_transport_loopback_create ::
    "(nat \<Rightarrow> bool) \<Rightarrow> nat \<Rightarrow> u32 \<Rightarrow> (u32, nat) umap \<Rightarrow> (u32, nat) umap \<times> pcol_transport option" where
  "pcol_transport_loopback_create alive fresh bus_id buses =
    (let (buses', bus) =
       (case um_find buses bus_id of
          Some b \<Rightarrow> if alive b then (buses, b) else (um_put bus_id fresh buses, fresh)
        | None \<Rightarrow> (um_put bus_id fresh buses, fresh))
     in (buses', Some (T_loopback loopback_new bus)))"

text \<open>\<open>wasm\<close> is whether the library is compiled for WebAssembly, without UDP and DTLS.\<close>

definition pcol_transport_udp_create :: "bool \<Rightarrow> pcol_transport option" where
  "pcol_transport_udp_create wasm = (if wasm then None else Some (T_udp udp_new))"

definition pcol_transport_external_create :: "pcol_transport option" where
  "pcol_transport_external_create = Some (T_external external_new)"

text \<open>The answers of the kernel, and of the transport a DTLS transport wraps, are arguments.\<close>

definition pcol_transport_bind ::
    "pcol_endpoint \<Rightarrow> int \<Rightarrow> int \<Rightarrow> bool \<Rightarrow> pcol_transport option \<Rightarrow> pcol_transport option \<times> pcol_error" where
  "pcol_transport_bind ep socket_ret bind_ret inner_ret h =
    (case h of
       None \<Rightarrow> (h, PCOL_ERR_INVALID)
     | Some (T_loopback t b) \<Rightarrow> let (t', ok) = lb_bind (to_ep ep) t in (Some (T_loopback t' b), code_if ok PCOL_ERR_INVALID)
     | Some (T_external t) \<Rightarrow> let (t', ok) = ext_bind (to_ep ep) t in (Some (T_external t'), code_if ok PCOL_ERR_INVALID)
     | Some (T_udp t) \<Rightarrow>
         let (t', ok, calls) = udp_bind (to_ep ep) socket_ret bind_ret t in (Some (T_udp t'), code_if ok PCOL_ERR_INVALID)
     | Some (T_dtls t) \<Rightarrow> (h, code_if (fst (dtls_bind (to_ep ep) inner_ret t)) PCOL_ERR_INVALID))"

record pcol_dtls_config =
  pdc_is_server :: int
  pdc_cert_pem :: "bytes option"
  pdc_key_pem :: "bytes option"
  pdc_ca_pem :: "bytes option"
  pdc_verify_peer :: int
  pdc_handshake_timeout_ms :: u32

definition pcol_transport_dtls_create ::
    "bool \<Rightarrow> pcol_transport option \<Rightarrow> pcol_dtls_config option \<Rightarrow> pcol_transport option" where
  "pcol_transport_dtls_create wasm inner config =
    (if wasm then None
     else case (inner, config) of
       (Some i, Some c) \<Rightarrow>
         let or_empty = (\<lambda>s. case s of None \<Rightarrow> [] | Some x \<Rightarrow> x);
             cfg = dtls_config_default
               \<lparr>dc_is_server := (pdc_is_server c \<noteq> 0), dc_cert_pem := or_empty (pdc_cert_pem c), dc_key_pem := or_empty (pdc_key_pem c),
                dc_ca_pem := or_empty (pdc_ca_pem c), dc_verify_peer := (pdc_verify_peer c \<noteq> 0),
                dc_handshake_timeout_ms := (if pdc_handshake_timeout_ms c > 0 then pdc_handshake_timeout_ms c else 5000)\<rparr>
         in Some (T_dtls (dtls_new cfg))
     | _ \<Rightarrow> None)"

definition pcol_transport_dtls_handshake ::
    "bool \<Rightarrow> mbedtls \<Rightarrow> (nat \<Rightarrow> int) \<Rightarrow> (nat \<Rightarrow> nat) \<Rightarrow> nat \<Rightarrow> pcol_endpoint \<Rightarrow> int \<Rightarrow> pcol_transport option \<Rightarrow>
     (pcol_transport option \<times> pcol_error) option" where
  "pcol_transport_dtls_handshake wasm mb hs clk start remote timeout_ms h =
    (if wasm then Some (h, PCOL_ERR_INVALID)
     else case h of
       Some (T_dtls t) \<Rightarrow>
         map_option (\<lambda>(t', ok, calls). (Some (T_dtls t'), code_if ok PCOL_ERR_TIMEOUT))
           (dtls_handshake mb hs clk start (to_ep remote) timeout_ms t)
     | _ \<Rightarrow> Some (h, PCOL_ERR_INVALID))"

text \<open>\<open>None\<close> is the exception of a failing random source; the key pair is what is written to \<open>out\<close>, if it is not null.\<close>

definition pcol_generate_keypair :: "ed25519 \<Rightarrow> (nat \<Rightarrow> bytes option) \<Rightarrow> keypair option \<Rightarrow> keypair option option" where
  "pcol_generate_keypair ed random out =
    (case out of
       None \<Rightarrow> Some None
     | Some _ \<Rightarrow>
         map_option (\<lambda>kp. Some \<lparr>kp_public_key = take 32 (kp_public_key kp), kp_secret_key = take 64 (kp_secret_key kp)\<rparr>)
           (keypair_generate ed random))"

definition pcol_transport_external_push_recv ::
    "pcol_transport option \<Rightarrow> bytes option \<Rightarrow> bytes option \<Rightarrow> u16 \<Rightarrow> pcol_transport option \<times> pcol_error" where
  "pcol_transport_external_push_recv t data from_addr from_port =
    (case (t, data) of
       (Some (T_external x), Some d) \<Rightarrow>
         if d = [] then (t, PCOL_ERR_INVALID)
         else (Some (T_external (push_recv d \<lparr>ep_address = (case from_addr of None \<Rightarrow> [] | Some a \<Rightarrow> a), ep_port = from_port\<rparr> x)), PCOL_OK)
     | _ \<Rightarrow> (t, PCOL_ERR_INVALID))"

text \<open>Writing a string into a buffer of a given size, with its terminator; \<open>put_bytes\<close> overwrites from the front.\<close>

definition copy_address :: "bytes \<Rightarrow> bytes \<Rightarrow> bytes" where
  "copy_address addr buf =
    (let n = (if length addr < length buf - 1 then length addr else length buf - 1) in put_bytes buf 0 (take n addr @ [0]))"

definition pcol_transport_external_pop_send ::
    "pcol_transport option \<Rightarrow> bytes option \<Rightarrow> bool \<Rightarrow> bytes option \<Rightarrow>
     pcol_transport option \<times> pcol_error \<times> (bytes \<times> nat \<times> bytes option \<times> u16) option" where
  "pcol_transport_external_pop_send t buf has_out_len addr_buf =
    (case (t, buf) of
       (Some (T_external x), Some b) \<Rightarrow>
         if \<not> has_out_len then (t, PCOL_ERR_INVALID, None)
         else (case pop_send x of
           (x', None) \<Rightarrow> (Some (T_external x'), PCOL_ERR_NOT_FOUND, None)
         | (x', Some pkt) \<Rightarrow>
             let copy_len = (if length (xp_data pkt) < length b then length (xp_data pkt) else length b)
             in (Some (T_external x'), PCOL_OK,
                 Some (put_bytes b 0 (take copy_len (xp_data pkt)), length (xp_data pkt),
                       map_option (\<lambda>a. if a \<noteq> [] then copy_address (ep_address (xp_endpoint pkt)) a else a) addr_buf,
                       ep_port (xp_endpoint pkt))))
     | _ \<Rightarrow> (t, PCOL_ERR_INVALID, None))"

definition pcol_transport_external_send_queue_size :: "pcol_transport option \<Rightarrow> nat" where
  "pcol_transport_external_send_queue_size t = (case t of Some (T_external x) \<Rightarrow> send_queue_size x | _ \<Rightarrow> 0)"

section \<open>Peers\<close>

definition pcol_peer_create :: "peer_env \<Rightarrow> u16 \<Rightarrow> bool \<Rightarrow> keypair option \<Rightarrow> pcol_peer" where
  "pcol_peer_create env node_id has_transport keys =
    (if \<not> has_transport then None else map_option (\<lambda>k. peer_new env node_id (to_kp k)) keys)"

definition pcol_peer_destroy :: "peer_env \<Rightarrow> (nat \<Rightarrow> nat) \<Rightarrow> pcol_peer \<Rightarrow> sends" where
  "pcol_peer_destroy env clk h =
    (case h of None \<Rightarrow> [] | Some p \<Rightarrow> if peer_is_connected p then snd (peer_disconnect env clk CR_NORMAL p) else [])"

definition pcol_peer_node_id :: "pcol_peer \<Rightarrow> u16" where
  "pcol_peer_node_id h = (case h of None \<Rightarrow> 0 | Some p \<Rightarrow> pr_node_id p)"

definition pcol_peer_public_key :: "pcol_peer \<Rightarrow> bytes option \<Rightarrow> bytes option" where
  "pcol_peer_public_key h out =
    (case (h, out) of (Some p, Some b) \<Rightarrow> Some (put_bytes b 0 (take 32 (kp_public_key (pr_keys p)))) | _ \<Rightarrow> out)"

definition pcol_peer_register_key :: "u16 \<Rightarrow> bytes option \<Rightarrow> pcol_peer \<Rightarrow> pcol_peer" where
  "pcol_peer_register_key remote_node_id pk h =
    (case (h, pk) of (Some p, Some k) \<Rightarrow> Some (peer_register_key remote_node_id (take 32 k) p) | _ \<Rightarrow> h)"

definition pcol_peer_connect ::
    "peer_env \<Rightarrow> (nat \<Rightarrow> nat) \<Rightarrow> pcol_endpoint \<Rightarrow> bool \<Rightarrow> (bytes \<times> endpoint) option \<Rightarrow> pcol_peer \<Rightarrow> pcol_peer \<times> sends \<times> pcol_error" where
  "pcol_peer_connect env clk remote sent_ok rx h =
    (case h of
       None \<Rightarrow> (h, [], PCOL_ERR_INVALID)
     | Some p \<Rightarrow> let (p', out, ok) = peer_connect env clk (to_ep remote) sent_ok rx p in (Some p', out, code_if ok PCOL_ERR_TIMEOUT))"

definition pcol_peer_accept ::
    "peer_env \<Rightarrow> (nat \<Rightarrow> nat) \<Rightarrow> (bytes \<times> endpoint) option \<Rightarrow> pcol_peer \<Rightarrow> pcol_peer \<times> sends \<times> pcol_error" where
  "pcol_peer_accept env clk rx h =
    (case h of
       None \<Rightarrow> (h, [], PCOL_ERR_INVALID)
     | Some p \<Rightarrow> let (p', out, ok) = accept_from env clk rx p in (Some p', out, code_if ok PCOL_ERR_TIMEOUT))"

definition pcol_peer_is_connected :: "pcol_peer \<Rightarrow> int" where
  "pcol_peer_is_connected h = (case h of None \<Rightarrow> 0 | Some p \<Rightarrow> if peer_is_connected p then 1 else 0)"

definition pcol_peer_disconnect :: "peer_env \<Rightarrow> (nat \<Rightarrow> nat) \<Rightarrow> pcol_peer \<Rightarrow> pcol_peer \<times> sends" where
  "pcol_peer_disconnect env clk h =
    (case h of None \<Rightarrow> (h, []) | Some p \<Rightarrow> let (p', out) = peer_disconnect env clk CR_NORMAL p in (Some p', out))"

definition pcol_peer_set_local_endpoint :: "pcol_endpoint \<Rightarrow> pcol_peer \<Rightarrow> pcol_peer" where
  "pcol_peer_set_local_endpoint ep h = map_option (set_local_endpoint (to_ep ep)) h"

definition pcol_peer_connect_start ::
    "peer_env \<Rightarrow> (nat \<Rightarrow> nat) \<Rightarrow> pcol_endpoint \<Rightarrow> bool \<Rightarrow> pcol_peer \<Rightarrow> pcol_peer \<times> sends \<times> pcol_error" where
  "pcol_peer_connect_start env clk remote sent_ok h =
    (case h of
       None \<Rightarrow> (h, [], PCOL_ERR_INVALID)
     | Some p \<Rightarrow> let (p', out, ok) = connect_start env clk (to_ep remote) sent_ok p in (Some p', out, code_if ok PCOL_ERR_INVALID))"

definition pcol_peer_connect_poll :: "peer_env \<Rightarrow> (bytes \<times> endpoint) option \<Rightarrow> pcol_peer \<Rightarrow> pcol_peer \<times> pcol_error" where
  "pcol_peer_connect_poll env rx h =
    (case h of
       None \<Rightarrow> (h, PCOL_ERR_INVALID)
     | Some p \<Rightarrow> let (p', ok) = connect_poll env rx p in (Some p', code_if ok PCOL_ERR_TIMEOUT))"

definition pcol_peer_accept_start :: "(nat \<Rightarrow> nat) \<Rightarrow> pcol_peer \<Rightarrow> pcol_peer \<times> pcol_error" where
  "pcol_peer_accept_start clk h =
    (case h of
       None \<Rightarrow> (h, PCOL_ERR_INVALID)
     | Some p \<Rightarrow> let (p', ok) = accept_start clk p in (Some p', code_if ok PCOL_ERR_INVALID))"

definition pcol_peer_accept_poll ::
    "peer_env \<Rightarrow> (nat \<Rightarrow> nat) \<Rightarrow> (bytes \<times> endpoint) option \<Rightarrow> pcol_peer \<Rightarrow> pcol_peer \<times> sends \<times> pcol_error" where
  "pcol_peer_accept_poll env clk rx h =
    (case h of
       None \<Rightarrow> (h, [], PCOL_ERR_INVALID)
     | Some p \<Rightarrow> let (p', out, ok) = accept_poll env clk rx p in (Some p', out, code_if ok PCOL_ERR_TIMEOUT))"

section \<open>State\<close>

definition pcol_declare :: "peer_env \<Rightarrow> bytes option \<Rightarrow> pcol_crdt_type \<Rightarrow> pcol_reliability \<Rightarrow> pcol_peer \<Rightarrow> pcol_peer \<times> pcol_error" where
  "pcol_declare env path t rel h =
    (case (h, path) of
       (Some p, Some s) \<Rightarrow>
         let (p', ok) = peer_declare (state_path_new (env_xxh env) s) (to_crdt t) (to_rel rel) p
         in (Some p', code_if ok PCOL_ERR_INVALID)
     | _ \<Rightarrow> (h, PCOL_ERR_INVALID))"

definition pcol_set_lww :: "peer_env \<Rightarrow> (nat \<Rightarrow> nat) \<Rightarrow> bytes option \<Rightarrow> bytes \<Rightarrow> pcol_peer \<Rightarrow> pcol_peer \<times> pcol_error" where
  "pcol_set_lww env clk path data h =
    (case (h, path) of
       (Some p, Some s) \<Rightarrow>
         let (p', ok) = peer_set_lww clk (state_path_new (env_xxh env) s) data p in (Some p', code_if ok PCOL_ERR_NOT_FOUND)
     | _ \<Rightarrow> (h, PCOL_ERR_INVALID))"

definition pcol_increment_counter :: "peer_env \<Rightarrow> bytes option \<Rightarrow> u64 \<Rightarrow> pcol_peer \<Rightarrow> pcol_peer \<times> pcol_error" where
  "pcol_increment_counter env path amount h =
    (case (h, path) of
       (Some p, Some s) \<Rightarrow>
         let (p', ok) = peer_increment_counter (state_path_new (env_xxh env) s) amount p in (Some p', code_if ok PCOL_ERR_NOT_FOUND)
     | _ \<Rightarrow> (h, PCOL_ERR_INVALID))"

text \<open>Reading: the length that is reported and the buffer with what was copied.\<close>

definition pcol_get_lww :: "peer_env \<Rightarrow> bytes option \<Rightarrow> bytes option \<Rightarrow> pcol_peer \<Rightarrow> pcol_error \<times> nat option \<times> bytes option" where
  "pcol_get_lww env path buf h =
    (case (h, path) of
       (Some p, Some s) \<Rightarrow>
         (case registry_get (sp_hash (state_path_new (env_xxh env) s)) (pr_state p) of
            None \<Rightarrow> (PCOL_ERR_NOT_FOUND, None, buf)
          | Some region \<Rightarrow>
              if sr_crdt_type region \<noteq> CRDT_LWW_REGISTER then (PCOL_ERR_NOT_FOUND, None, buf)
              else case sr_crdt region of
                Crdt_Lww r \<Rightarrow>
                  let val = lww_value r
                  in (PCOL_OK, Some (length val),
                      map_option (\<lambda>b. if b \<noteq> []
                        then put_bytes b 0 (take (if length val < length b then length val else length b) val) else b) buf)
              | _ \<Rightarrow> (PCOL_OK, None, buf))
     | _ \<Rightarrow> (PCOL_ERR_INVALID, None, buf))"

definition pcol_get_counter :: "peer_env \<Rightarrow> bytes option \<Rightarrow> bool \<Rightarrow> pcol_peer \<Rightarrow> pcol_error \<times> u64 option" where
  "pcol_get_counter env path has_out h =
    (case (h, path) of
       (Some p, Some s) \<Rightarrow>
         if \<not> has_out then (PCOL_ERR_INVALID, None)
         else (case registry_get (sp_hash (state_path_new (env_xxh env) s)) (pr_state p) of
            None \<Rightarrow> (PCOL_ERR_NOT_FOUND, None)
          | Some region \<Rightarrow>
              if sr_crdt_type region \<noteq> CRDT_G_COUNTER then (PCOL_ERR_NOT_FOUND, None)
              else case sr_crdt region of Crdt_GCounter c \<Rightarrow> (PCOL_OK, Some (gc_value c)) | _ \<Rightarrow> (PCOL_OK, None))
     | _ \<Rightarrow> (PCOL_ERR_INVALID, None))"

definition pcol_flush :: "peer_env \<Rightarrow> (nat \<Rightarrow> nat) \<Rightarrow> pcol_peer \<Rightarrow> pcol_peer \<times> sends \<times> int" where
  "pcol_flush env clk h =
    (case h of
       None \<Rightarrow> (h, [], pcol_error_code PCOL_ERR_INVALID)
     | Some p \<Rightarrow> let (p', out, n) = peer_flush env clk p in (Some p', out, n))"

definition pcol_poll ::
    "peer_env \<Rightarrow> (nat \<Rightarrow> nat) \<Rightarrow> (bytes \<times> endpoint) option \<Rightarrow> pcol_peer \<Rightarrow> pcol_peer \<times> sends \<times> peer_event list \<times> int" where
  "pcol_poll env clk rx h =
    (case h of
       None \<Rightarrow> (h, [], [], pcol_error_code PCOL_ERR_INVALID)
     | Some p \<Rightarrow> let (p', out, evs, n) = peer_poll env clk rx p in (Some p', out, evs, n))"

text \<open>A callback is installed or, with a null pointer, removed; the user data is handed through unchanged.\<close>

definition pcol_on_update :: "bool \<Rightarrow> pcol_peer \<Rightarrow> pcol_peer" where
  "pcol_on_update cb h = map_option (\<lambda>p. p\<lparr>pr_state := (pr_state p)\<lparr>reg_on_update := cb\<rparr>\<rparr>) h"

definition pcol_on_signature_failure :: "bool \<Rightarrow> pcol_peer \<Rightarrow> pcol_peer" where
  "pcol_on_signature_failure cb h = map_option (\<lambda>p. p\<lparr>pr_on_sig_failure := cb\<rparr>) h"

definition pcol_set_access_control :: "int \<Rightarrow> pcol_peer \<Rightarrow> pcol_peer" where
  "pcol_set_access_control enabled h = map_option (set_access_control (enabled \<noteq> 0)) h"

section \<open>Mesh, resolution, routing, subscriptions\<close>

definition pcol_peer_connect_to ::
    "peer_env \<Rightarrow> (nat \<Rightarrow> nat) \<Rightarrow> u16 \<Rightarrow> pcol_endpoint \<Rightarrow> bool \<Rightarrow> (bytes \<times> endpoint) option \<Rightarrow> pcol_peer \<Rightarrow>
     pcol_peer \<times> sends \<times> pcol_error" where
  "pcol_peer_connect_to env clk remote_node_id remote sent_ok rx h =
    (case h of
       None \<Rightarrow> (h, [], PCOL_ERR_INVALID)
     | Some p \<Rightarrow>
         let (p', out, ok) = connect_to env clk remote_node_id (to_ep remote) sent_ok rx p in (Some p', out, code_if ok PCOL_ERR_TIMEOUT))"

definition pcol_peer_accept_node ::
    "peer_env \<Rightarrow> (nat \<Rightarrow> nat) \<Rightarrow> u16 \<Rightarrow> (bytes \<times> endpoint) option \<Rightarrow> pcol_peer \<Rightarrow> pcol_peer \<times> sends \<times> pcol_error" where
  "pcol_peer_accept_node env clk remote_node_id rx h =
    (case h of
       None \<Rightarrow> (h, [], PCOL_ERR_INVALID)
     | Some p \<Rightarrow> let (p', out, ok) = accept_node env clk remote_node_id rx p in (Some p', out, code_if ok PCOL_ERR_TIMEOUT))"

definition pcol_peer_disconnect_node :: "peer_env \<Rightarrow> (nat \<Rightarrow> nat) \<Rightarrow> u16 \<Rightarrow> pcol_peer \<Rightarrow> pcol_peer \<times> sends" where
  "pcol_peer_disconnect_node env clk remote_node_id h =
    (case h of None \<Rightarrow> (h, []) | Some p \<Rightarrow> let (p', out) = disconnect_node env clk remote_node_id CR_NORMAL p in (Some p', out))"

definition pcol_peer_is_connected_to :: "u16 \<Rightarrow> pcol_peer \<Rightarrow> int" where
  "pcol_peer_is_connected_to remote_node_id h =
    (case h of None \<Rightarrow> 0 | Some p \<Rightarrow> if is_connected_to remote_node_id p then 1 else 0)"

definition pcol_peer_set_resolution :: "u16 \<Rightarrow> pcol_resolution_tier \<Rightarrow> pcol_peer \<Rightarrow> pcol_peer" where
  "pcol_peer_set_resolution remote_node_id tier h =
    map_option (set_connection_resolution remote_node_id (to_resolution tier) resolution_config_default) h"

definition pcol_peer_announce_route :: "peer_env \<Rightarrow> bytes option \<Rightarrow> pcol_peer \<Rightarrow> pcol_peer" where
  "pcol_peer_announce_route env path h =
    (case (h, path) of
       (Some p, Some s) \<Rightarrow> Some (p\<lparr>pr_router := snd (announce_path (sp_hash (state_path_new (env_xxh env) s)) (pr_router p))\<rparr>)
     | _ \<Rightarrow> h)"

definition pcol_peer_learn_route :: "peer_env \<Rightarrow> u32 \<Rightarrow> u16 \<Rightarrow> pcol_peer \<Rightarrow> pcol_peer" where
  "pcol_peer_learn_route env path_hash via_node h =
    map_option (\<lambda>p. p\<lparr>pr_router := learn_route (env_rnd env) path_hash via_node (pr_router p)\<rparr>) h"

definition pcol_peer_has_route :: "u32 \<Rightarrow> pcol_peer \<Rightarrow> int" where
  "pcol_peer_has_route path_hash h = (case h of None \<Rightarrow> 0 | Some p \<Rightarrow> if has_route path_hash (pr_router p) then 1 else 0)"

definition pcol_subscribe_with_resolution ::
    "peer_env \<Rightarrow> bytes option \<Rightarrow> pcol_resolution_tier \<Rightarrow> int \<Rightarrow> u32 \<Rightarrow> pcol_peer \<Rightarrow> pcol_peer \<times> int" where
  "pcol_subscribe_with_resolution env pattern tier initial_credits freshness_us h =
    (case (h, pattern) of
       (Some p, Some s) \<Rightarrow>
         let (p', sub_id) = peer_subscribe (state_path_new (env_xxh env) s) (to_resolution tier) initial_credits freshness_us p
         in (Some p', sint sub_id)
     | _ \<Rightarrow> (h, pcol_error_code PCOL_ERR_INVALID))"

definition pcol_api_version :: u32 where "pcol_api_version = 0x000100"

section \<open>Properties\<close>

lemma copy_prefix:
  "map_option (\<lambda>b. if b \<noteq> [] then put_bytes b 0 (take (if length val < length b then length val else length b) val) else b) buf =
   map_option (\<lambda>b. take (length b) val @ drop (length val) b) buf"
  by (cases buf) (auto simp: put_bytes_def min_def)

text \<open>A successful write went to a region of its type.\<close>

lemma set_lww_region:
  assumes "pcol_set_lww env clk (Some s) data (Some p) = (h, PCOL_OK)" "peer_ok env p"
  shows "\<exists>q r t. h = Some q \<and> registry_get (sp_hash (state_path_new (env_xxh env) s)) (pr_state q) = Some r \<and>
    sr_crdt_type r = CRDT_LWW_REGISTER \<and> sr_crdt r = Crdt_Lww t \<and> lww_value t = data"
proof -
  let ?k = "sp_hash (state_path_new (env_xxh env) s)"
  obtain r where r: "registry_get ?k (pr_state p) = Some r" "sr_crdt_type r = CRDT_LWW_REGISTER"
    using assms(1) by (auto simp: pcol_set_lww_def peer_set_lww_def code_if_def split_beta split: option.splits if_splits)
  then obtain t where "sr_crdt r = Crdt_Lww t"
    using registry_crdt(1) [OF peer_ok_D(2) [OF assms(2)] r(1)] by (cases "sr_crdt r") simp_all
  with r show ?thesis
    using assms(1)
    by (auto simp: pcol_set_lww_def peer_set_lww_def code_if_def Let_def registry_get_def update_conv' lww_set_def)
qed

lemma increment_region:
  assumes "pcol_increment_counter env (Some s) a (Some p) = (h, PCOL_OK)" "peer_ok env p"
  shows "\<exists>q r r' c. h = Some q \<and> registry_get (sp_hash (state_path_new (env_xxh env) s)) (pr_state p) = Some r \<and>
    registry_get (sp_hash (state_path_new (env_xxh env) s)) (pr_state q) = Some r' \<and>
    sr_crdt_type r = CRDT_G_COUNTER \<and> sr_crdt_type r' = CRDT_G_COUNTER \<and>
    sr_crdt r = Crdt_GCounter c \<and> sr_crdt r' = Crdt_GCounter (gc_increment a c) \<and> gc_inv c"
proof -
  let ?k = "sp_hash (state_path_new (env_xxh env) s)"
  obtain r where r: "registry_get ?k (pr_state p) = Some r" "sr_crdt_type r = CRDT_G_COUNTER"
    using assms(1) by (auto simp: pcol_increment_counter_def peer_increment_counter_def code_if_def split_beta split: option.splits if_splits)
  then obtain c where "sr_crdt r = Crdt_GCounter c" "gc_inv c"
    using registry_crdt [OF peer_ok_D(2) [OF assms(2)] r(1)] by (cases "sr_crdt r") simp_all
  with r show ?thesis
    using assms(1)
    by (auto simp: pcol_increment_counter_def peer_increment_counter_def code_if_def Let_def registry_get_def update_conv')
qed

text \<open>
  C36. What is written through the C interface is read back. After a write of a register that reports OK, on a peer that satisfies its invariant, reading
  the path reports OK and the full length, and fills the caller's buffer with the first bytes of the value, as many as fit, leaving the rest
  of the buffer alone. After an increment that reports OK, the counter reads its value before plus the amount, modulo \<open>2^64\<close>.
\<close>

theorem api_read_after_write:
  assumes "peer_ok env p"
  shows "(pcol_set_lww env clk (Some s) data (Some p) = (h, PCOL_OK) \<longrightarrow>
      pcol_get_lww env (Some s) buf h =
        (PCOL_OK, Some (length data), map_option (\<lambda>b. take (length b) data @ drop (length data) b) buf)) \<and>
    (pcol_increment_counter env (Some s) a (Some p) = (h, PCOL_OK) \<longrightarrow>
      (\<exists>v. pcol_get_counter env (Some s) True (Some p) = (PCOL_OK, Some v) \<and>
           pcol_get_counter env (Some s) True h = (PCOL_OK, Some (v + a))))"
  using set_lww_region [of env clk s data p h] increment_region [of env s a p h] assms
  by (auto simp: pcol_get_lww_def pcol_get_counter_def Let_def copy_prefix gc_inv_def gc_increment_value)

theorem api_read_after_write_witness:
  "let env = example_env; p = example_peer 1 2 (gc_new 1)
   in \<exists>h v. pcol_increment_counter env (Some [47, 97]) 3 (Some p) = (h, PCOL_OK) \<and>
        pcol_get_counter env (Some [47, 97]) True (Some p) = (PCOL_OK, Some v) \<and>
        pcol_get_counter env (Some [47, 97]) True h = (PCOL_OK, Some (v + 3))"
proof -
  let ?p = "example_peer 1 2 (gc_new 1)"
  have env: "rounding (env_rnd example_env)" "config_ok (env_rnd example_env) (default_router_config (env_rnd example_env))"
    "env_xxh example_env = (\<lambda>b. 5)"
    using exact_rounding default_config_ok by (simp_all add: example_env_def)
  have base: "peer_ok example_env (peer_register_key 1 [7] (peer_new example_env 1 (keypair_from_seed example_ed [7])))"
    using peer_step_ok [OF env(1) peer_new_ok [OF env(2)], of "PO_Register_key 1 [7]"] by simp
  have hash: "sp_hash (state_path_new (\<lambda>b. 5) [47, 97]) = 5" by (simp add: state_path_new_def xxhash32_def)
  have "pr_node_id (peer_register_key 1 [7] (peer_new example_env 1 (keypair_from_seed example_ed [7]))) = 1"
    by (simp add: peer_register_key_def peer_new_def)
  then have ok: "peer_ok example_env ?p"
    using base example_peer_connected(1) [of 1 2 "gc_new 1"] hash
    by (simp add: peer_ok_def example_peer_def registry_ok_def region_ok_def example_region_def gc_inv_new)
  have "snd (pcol_increment_counter example_env (Some [47, 97]) 3 (Some ?p)) = PCOL_OK"
    using hash by (simp add: env(3) pcol_increment_counter_def peer_increment_counter_def registry_get_def example_peer_def
        example_region_def code_if_def Let_def)
  then obtain h where h: "pcol_increment_counter example_env (Some [47, 97]) 3 (Some ?p) = (h, PCOL_OK)"
    by (metis prod.collapse)
  show ?thesis
    using api_read_after_write [OF ok, of "\<lambda>_. 0" "[47, 97]" "[]" h None 3] h by (simp only: Let_def) blast
qed

text \<open>An unconnected peer reports the code of an invalid argument, not the one for a missing connection.\<close>

lemma flush_unconnected_code:
  "\<not> peer_is_connected p \<Longrightarrow> snd (snd (pcol_flush env clk (Some p))) = pcol_error_code PCOL_ERR_INVALID"
  by (simp add: pcol_flush_def peer_flush_def peer_is_connected_def)

text \<open>A waiting, failed or never started attempt all report a timeout.\<close>

lemma connect_poll_codes: "snd (pcol_peer_connect_poll env rx (Some p)) \<in> {PCOL_OK, PCOL_ERR_TIMEOUT}"
  by (simp add: pcol_peer_connect_poll_def code_if_def split_beta)

text \<open>A packet larger than the caller's buffer is cut, and gone from the queue.\<close>

lemma pop_send_truncates:
  assumes "xt_send_queue x = pkt # rest" "length b < length (xp_data pkt)"
  shows "\<exists>addr. pcol_transport_external_pop_send (Some (T_external x)) (Some b) True addr_buf =
    (Some (T_external (x\<lparr>xt_send_queue := rest\<rparr>)), PCOL_OK,
     Some (take (length b) (xp_data pkt), length (xp_data pkt), addr, ep_port (xp_endpoint pkt)))"
  using assms by (simp add: pcol_transport_external_pop_send_def pop_send_def put_bytes_def Let_def)

end
