(* ===== verification/Bindings.thy ===== *)
theory Bindings
  imports C_Api
begin

text \<open>
  The language bindings for Python (\<^verbatim>\<open>bindings/python/protocoll\<close>), Rust (\<^verbatim>\<open>bindings/rust/protocoll\<close>) and .NET
  (\<^verbatim>\<open>bindings/dotnet/src/RMNunes.Rom\<close>): the calls of their \<^verbatim>\<open>Peer\<close> class around the C interface. A call returns the handle
  with the value, or with the exception or error it raises.

  A string given to C ends at its first zero byte; Rust refuses a string that has one. Reading memory past a buffer gives
  the bytes that lie behind it, the argument \<open>behind\<close>.

  The locale \<open>register_binding\<close> is what a binding promises of registers: writing and reading go to the C interface and a
  value that fits the buffer comes back whole.
\<close>

definition c_str :: "bytes \<Rightarrow> bytes" where
  "c_str s = takeWhile (\<lambda>c. c \<noteq> 0) s"

definition BINDING_BUF :: nat where "BINDING_BUF = 4096"

text \<open>The value of a register, if the path is one.\<close>

definition register_value :: "peer_env \<Rightarrow> bytes \<Rightarrow> pcol_peer \<Rightarrow> bytes option" where
  "register_value env s h =
    (case h of
       None \<Rightarrow> None
     | Some p \<Rightarrow>
         (case registry_get (sp_hash (state_path_new (env_xxh env) s)) (pr_state p) of
            None \<Rightarrow> None
          | Some r \<Rightarrow> if sr_crdt_type r \<noteq> CRDT_LWW_REGISTER then None
                      else case sr_crdt r of Crdt_Lww l \<Rightarrow> Some (lww_value l) | _ \<Rightarrow> None))"

lemma get_lww_value:
  assumes "register_value env s h = Some v"
  shows "pcol_get_lww env (Some s) (Some b) h = (PCOL_OK, Some (length v), Some (take (length b) v @ drop (length v) b))"
  using assms copy_prefix [of v "Some b"]
  by (auto simp: register_value_def pcol_get_lww_def Let_def split: option.splits if_splits crdt.splits)

lemma set_lww_value:
  assumes "pcol_set_lww env clk (Some s) data (Some p) = (h, PCOL_OK)" "peer_ok env p"
  shows "register_value env s h = Some data"
  using set_lww_region [OF assms] by (auto simp: register_value_def)

section \<open>The contract\<close>

locale register_binding =
  fixes env :: peer_env and clk :: "nat \<Rightarrow> nat"
    and put :: "bytes \<Rightarrow> bytes \<Rightarrow> pcol_peer \<Rightarrow> pcol_peer \<times> bool"
    and get :: "bytes \<Rightarrow> bytes \<Rightarrow> bytes \<Rightarrow> pcol_peer \<Rightarrow> bytes option"
    and ok_path :: "bytes \<Rightarrow> bool"
  assumes put_law: "put path data h = (h', True) \<Longrightarrow>
      ok_path path \<and> pcol_set_lww env clk (Some (c_str path)) data h = (h', PCOL_OK)"
    and get_law: "ok_path path \<Longrightarrow> register_value env (c_str path) h = Some v \<Longrightarrow> length v \<le> BINDING_BUF \<Longrightarrow>
      length junk = BINDING_BUF \<Longrightarrow> get junk behind path h = Some v"
begin

lemma read_after_write:
  assumes "put path data (Some p) = (h, True)" "peer_ok env p" "length data \<le> BINDING_BUF" "length junk = BINDING_BUF"
  shows "get junk behind path h = Some data"
  using get_law [OF _ set_lww_value [OF _ assms(2)] assms(3,4)] put_law [OF assms(1)] by blast

end

section \<open>Python\<close>

datatype py_error = InvalidError | NotFoundError | NoConnectionError | Py_TimeoutError | CryptoError | ProtocollError int

definition py_check_error :: "int \<Rightarrow> py_error option" where
  "py_check_error code =
    (if code = 0 then None
     else if code = - 1 then Some InvalidError
     else if code = - 2 then Some NotFoundError
     else if code = - 3 then Some NoConnectionError
     else if code = - 4 then Some Py_TimeoutError
     else if code = - 5 then Some CryptoError
     else Some (ProtocollError code))"

definition py_raise :: "pcol_error \<Rightarrow> py_error option" where
  "py_raise e = py_check_error (pcol_error_code e)"

definition py_endpoint :: "bytes \<Rightarrow> u16 \<Rightarrow> pcol_endpoint" where
  "py_endpoint address port = \<lparr>pep_address = Some (c_str address), pep_port = port\<rparr>"

definition py_connect ::
    "peer_env \<Rightarrow> (nat \<Rightarrow> nat) \<Rightarrow> bytes \<Rightarrow> u16 \<Rightarrow> bool \<Rightarrow> (bytes \<times> endpoint) option \<Rightarrow> pcol_peer \<Rightarrow>
     pcol_peer \<times> sends \<times> py_error option" where
  "py_connect env clk address port sent_ok rx h =
    (let (h', out, e) = pcol_peer_connect env clk (py_endpoint address port) sent_ok rx h in (h', out, py_raise e))"

definition py_accept ::
    "peer_env \<Rightarrow> (nat \<Rightarrow> nat) \<Rightarrow> (bytes \<times> endpoint) option \<Rightarrow> pcol_peer \<Rightarrow> pcol_peer \<times> sends \<times> py_error option" where
  "py_accept env clk rx h = (let (h', out, e) = pcol_peer_accept env clk rx h in (h', out, py_raise e))"

definition py_is_connected :: "pcol_peer \<Rightarrow> bool" where
  "py_is_connected h \<longleftrightarrow> pcol_peer_is_connected h \<noteq> 0"

definition py_declare ::
    "peer_env \<Rightarrow> bytes \<Rightarrow> pcol_crdt_type \<Rightarrow> pcol_reliability \<Rightarrow> pcol_peer \<Rightarrow> pcol_peer \<times> py_error option" where
  "py_declare env path t rel h = (let (h', e) = pcol_declare env (Some (c_str path)) t rel h in (h', py_raise e))"

definition py_set_lww :: "peer_env \<Rightarrow> (nat \<Rightarrow> nat) \<Rightarrow> bytes \<Rightarrow> bytes \<Rightarrow> pcol_peer \<Rightarrow> pcol_peer \<times> py_error option" where
  "py_set_lww env clk path data h = (let (h', e) = pcol_set_lww env clk (Some (c_str path)) data h in (h', py_raise e))"

text \<open>\<^verbatim>\<open>ffi.new\<close> clears the buffer; \<^verbatim>\<open>ffi.buffer\<close> takes the length it is given.\<close>

definition py_get_lww :: "peer_env \<Rightarrow> bytes \<Rightarrow> bytes \<Rightarrow> pcol_peer \<Rightarrow> py_error + bytes" where
  "py_get_lww env behind path h =
    (case pcol_get_lww env (Some (c_str path)) (Some (replicate BINDING_BUF 0)) h of
       (e, n, buf) \<Rightarrow>
         (case py_raise e of
            Some err \<Rightarrow> Inl err
          | None \<Rightarrow> Inr (take (case n of None \<Rightarrow> 0 | Some l \<Rightarrow> l) (the buf @ behind))))"

definition py_increment_counter :: "peer_env \<Rightarrow> bytes \<Rightarrow> u64 \<Rightarrow> pcol_peer \<Rightarrow> pcol_peer \<times> py_error option" where
  "py_increment_counter env path amount h =
    (let (h', e) = pcol_increment_counter env (Some (c_str path)) amount h in (h', py_raise e))"

definition py_get_counter :: "peer_env \<Rightarrow> bytes \<Rightarrow> pcol_peer \<Rightarrow> py_error + u64" where
  "py_get_counter env path h =
    (case pcol_get_counter env (Some (c_str path)) True h of
       (e, v) \<Rightarrow> (case py_raise e of Some err \<Rightarrow> Inl err | None \<Rightarrow> Inr (case v of None \<Rightarrow> 0 | Some x \<Rightarrow> x)))"

definition py_result :: "int \<Rightarrow> py_error + int" where
  "py_result result = (if result < 0 then (case py_check_error result of Some e \<Rightarrow> Inl e | None \<Rightarrow> Inr result) else Inr result)"

definition py_flush :: "peer_env \<Rightarrow> (nat \<Rightarrow> nat) \<Rightarrow> pcol_peer \<Rightarrow> pcol_peer \<times> sends \<times> (py_error + int)" where
  "py_flush env clk h = (let (h', out, n) = pcol_flush env clk h in (h', out, py_result n))"

definition py_poll ::
    "peer_env \<Rightarrow> (nat \<Rightarrow> nat) \<Rightarrow> (bytes \<times> endpoint) option \<Rightarrow> pcol_peer \<Rightarrow> pcol_peer \<times> sends \<times> peer_event list \<times> (py_error + int)" where
  "py_poll env clk rx h = (let (h', out, evs, n) = pcol_poll env clk rx h in (h', out, evs, py_result n))"

definition py_connect_to ::
    "peer_env \<Rightarrow> (nat \<Rightarrow> nat) \<Rightarrow> u16 \<Rightarrow> bytes \<Rightarrow> u16 \<Rightarrow> bool \<Rightarrow> (bytes \<times> endpoint) option \<Rightarrow> pcol_peer \<Rightarrow>
     pcol_peer \<times> sends \<times> py_error option" where
  "py_connect_to env clk node address port sent_ok rx h =
    (let (h', out, e) = pcol_peer_connect_to env clk node (py_endpoint address port) sent_ok rx h in (h', out, py_raise e))"

definition py_subscribe_with_resolution ::
    "peer_env \<Rightarrow> bytes \<Rightarrow> pcol_resolution_tier \<Rightarrow> int \<Rightarrow> u32 \<Rightarrow> pcol_peer \<Rightarrow> pcol_peer \<times> (py_error + int)" where
  "py_subscribe_with_resolution env pattern tier credits freshness h =
    (let (h', n) = pcol_subscribe_with_resolution env (Some (c_str pattern)) tier credits freshness h in (h', py_result n))"

section \<open>Rust\<close>

datatype rs_error = Rs_Invalid | Rs_NotFound | Rs_NoConnection | Rs_Timeout | Rs_Crypto | Rs_Internal | Rs_Unknown int

definition rs_check :: "int \<Rightarrow> rs_error option" where
  "rs_check code =
    (if code = 0 then None
     else if code = - 1 then Some Rs_Invalid
     else if code = - 2 then Some Rs_NotFound
     else if code = - 3 then Some Rs_NoConnection
     else if code = - 4 then Some Rs_Timeout
     else if code = - 5 then Some Rs_Crypto
     else if code = - 99 then Some Rs_Internal
     else Some (Rs_Unknown code))"

text \<open>\<^verbatim>\<open>CString::new\<close> fails on a string with a zero byte.\<close>

definition cstring_new :: "bytes \<Rightarrow> bytes option" where
  "cstring_new s = (if 0 \<in> set s then None else Some s)"

definition rs_connect ::
    "peer_env \<Rightarrow> (nat \<Rightarrow> nat) \<Rightarrow> bytes \<Rightarrow> u16 \<Rightarrow> bool \<Rightarrow> (bytes \<times> endpoint) option \<Rightarrow> pcol_peer \<Rightarrow>
     pcol_peer \<times> sends \<times> rs_error option" where
  "rs_connect env clk address port sent_ok rx h =
    (case cstring_new address of
       None \<Rightarrow> (h, [], Some Rs_Invalid)
     | Some a \<Rightarrow>
         let (h', out, e) = pcol_peer_connect env clk \<lparr>pep_address = Some a, pep_port = port\<rparr> sent_ok rx h
         in (h', out, rs_check (pcol_error_code e)))"

definition rs_declare ::
    "peer_env \<Rightarrow> bytes \<Rightarrow> pcol_crdt_type \<Rightarrow> pcol_reliability \<Rightarrow> pcol_peer \<Rightarrow> pcol_peer \<times> rs_error option" where
  "rs_declare env path t rel h =
    (case cstring_new path of
       None \<Rightarrow> (h, Some Rs_Invalid)
     | Some s \<Rightarrow> let (h', e) = pcol_declare env (Some s) t rel h in (h', rs_check (pcol_error_code e)))"

definition rs_set_lww :: "peer_env \<Rightarrow> (nat \<Rightarrow> nat) \<Rightarrow> bytes \<Rightarrow> bytes \<Rightarrow> pcol_peer \<Rightarrow> pcol_peer \<times> rs_error option" where
  "rs_set_lww env clk path data h =
    (case cstring_new path of
       None \<Rightarrow> (h, Some Rs_Invalid)
     | Some s \<Rightarrow> let (h', e) = pcol_set_lww env clk (Some s) data h in (h', rs_check (pcol_error_code e)))"

definition rs_increment_counter :: "peer_env \<Rightarrow> bytes \<Rightarrow> u64 \<Rightarrow> pcol_peer \<Rightarrow> pcol_peer \<times> rs_error option" where
  "rs_increment_counter env path amount h =
    (case cstring_new path of
       None \<Rightarrow> (h, Some Rs_Invalid)
     | Some s \<Rightarrow> let (h', e) = pcol_increment_counter env (Some s) amount h in (h', rs_check (pcol_error_code e)))"

text \<open>\<^verbatim>\<open>truncate\<close> does nothing when the length is not smaller.\<close>

definition rs_get_lww :: "peer_env \<Rightarrow> bytes \<Rightarrow> pcol_peer \<Rightarrow> rs_error + bytes" where
  "rs_get_lww env path h =
    (case cstring_new path of
       None \<Rightarrow> Inl Rs_Invalid
     | Some s \<Rightarrow>
         (case pcol_get_lww env (Some s) (Some (replicate BINDING_BUF 0)) h of
            (e, n, buf) \<Rightarrow>
              (case rs_check (pcol_error_code e) of
                 Some err \<Rightarrow> Inl err
               | None \<Rightarrow> Inr (take (case n of None \<Rightarrow> 0 | Some l \<Rightarrow> l) (the buf)))))"

definition rs_get_counter :: "peer_env \<Rightarrow> bytes \<Rightarrow> pcol_peer \<Rightarrow> rs_error + u64" where
  "rs_get_counter env path h =
    (case cstring_new path of
       None \<Rightarrow> Inl Rs_Invalid
     | Some s \<Rightarrow>
         (case pcol_get_counter env (Some s) True h of
            (e, v) \<Rightarrow> (case rs_check (pcol_error_code e) of
               Some err \<Rightarrow> Inl err | None \<Rightarrow> Inr (case v of None \<Rightarrow> 0 | Some x \<Rightarrow> x))))"

definition rs_result :: "int \<Rightarrow> rs_error + int" where
  "rs_result result = (if result < 0 then (case rs_check result of Some e \<Rightarrow> Inl e | None \<Rightarrow> Inr result) else Inr result)"

definition rs_flush :: "peer_env \<Rightarrow> (nat \<Rightarrow> nat) \<Rightarrow> pcol_peer \<Rightarrow> pcol_peer \<times> sends \<times> (rs_error + int)" where
  "rs_flush env clk h = (let (h', out, n) = pcol_flush env clk h in (h', out, rs_result n))"

definition rs_poll ::
    "peer_env \<Rightarrow> (nat \<Rightarrow> nat) \<Rightarrow> (bytes \<times> endpoint) option \<Rightarrow> pcol_peer \<Rightarrow> pcol_peer \<times> sends \<times> peer_event list \<times> (rs_error + int)" where
  "rs_poll env clk rx h = (let (h', out, evs, n) = pcol_poll env clk rx h in (h', out, evs, rs_result n))"

definition rs_subscribe_with_resolution ::
    "peer_env \<Rightarrow> bytes \<Rightarrow> pcol_resolution_tier \<Rightarrow> int \<Rightarrow> u32 \<Rightarrow> pcol_peer \<Rightarrow> pcol_peer \<times> (rs_error + u32)" where
  "rs_subscribe_with_resolution env pattern tier credits freshness h =
    (case cstring_new pattern of
       None \<Rightarrow> (h, Inl Rs_Invalid)
     | Some s \<Rightarrow>
         let (h', n) = pcol_subscribe_with_resolution env (Some s) tier credits freshness h in (h', map_sum id of_int (rs_result n)))"

section \<open>.NET\<close>

text \<open>The error code of the exception that is thrown, if any.\<close>

definition cs_throw_if_error :: "int \<Rightarrow> int option" where
  "cs_throw_if_error code = (if code \<noteq> 0 then Some code else None)"

definition cs_raise :: "pcol_error \<Rightarrow> int option" where
  "cs_raise e = cs_throw_if_error (pcol_error_code e)"

definition cs_connect ::
    "peer_env \<Rightarrow> (nat \<Rightarrow> nat) \<Rightarrow> bytes \<Rightarrow> u16 \<Rightarrow> bool \<Rightarrow> (bytes \<times> endpoint) option \<Rightarrow> pcol_peer \<Rightarrow> pcol_peer \<times> sends \<times> int option" where
  "cs_connect env clk address port sent_ok rx h =
    (let (h', out, e) = pcol_peer_connect env clk \<lparr>pep_address = Some (c_str address), pep_port = port\<rparr> sent_ok rx h
     in (h', out, cs_raise e))"

definition cs_declare :: "peer_env \<Rightarrow> bytes \<Rightarrow> pcol_crdt_type \<Rightarrow> pcol_reliability \<Rightarrow> pcol_peer \<Rightarrow> pcol_peer \<times> int option" where
  "cs_declare env path t rel h = (let (h', e) = pcol_declare env (Some (c_str path)) t rel h in (h', cs_raise e))"

definition cs_set_lww :: "peer_env \<Rightarrow> (nat \<Rightarrow> nat) \<Rightarrow> bytes \<Rightarrow> bytes \<Rightarrow> pcol_peer \<Rightarrow> pcol_peer \<times> int option" where
  "cs_set_lww env clk path data h = (let (h', e) = pcol_set_lww env clk (Some (c_str path)) data h in (h', cs_raise e))"

definition cs_increment_counter :: "peer_env \<Rightarrow> bytes \<Rightarrow> u64 \<Rightarrow> pcol_peer \<Rightarrow> pcol_peer \<times> int option" where
  "cs_increment_counter env path amount h =
    (let (h', e) = pcol_increment_counter env (Some (c_str path)) amount h in (h', cs_raise e))"

text \<open>The buffer is on the stack; \<open>junk\<close> is what it holds before the call and \<open>behind\<close> the stack behind it.\<close>

definition cs_get_lww :: "peer_env \<Rightarrow> bytes \<Rightarrow> bytes \<Rightarrow> bytes \<Rightarrow> pcol_peer \<Rightarrow> int + bytes" where
  "cs_get_lww env junk behind path h =
    (case pcol_get_lww env (Some (c_str path)) (Some junk) h of
       (e, n, buf) \<Rightarrow>
         (case cs_raise e of
            Some err \<Rightarrow> Inl err
          | None \<Rightarrow> Inr (take (case n of None \<Rightarrow> 0 | Some l \<Rightarrow> l) (the buf @ behind))))"

definition cs_get_counter :: "peer_env \<Rightarrow> bytes \<Rightarrow> pcol_peer \<Rightarrow> int + u64" where
  "cs_get_counter env path h =
    (case pcol_get_counter env (Some (c_str path)) True h of
       (e, v) \<Rightarrow> (case cs_raise e of Some err \<Rightarrow> Inl err | None \<Rightarrow> Inr (case v of None \<Rightarrow> 0 | Some x \<Rightarrow> x)))"

definition cs_result :: "int \<Rightarrow> int + int" where
  "cs_result result = (if result < 0 then (case cs_throw_if_error result of Some e \<Rightarrow> Inl e | None \<Rightarrow> Inr result) else Inr result)"

definition cs_flush :: "peer_env \<Rightarrow> (nat \<Rightarrow> nat) \<Rightarrow> pcol_peer \<Rightarrow> pcol_peer \<times> sends \<times> (int + int)" where
  "cs_flush env clk h = (let (h', out, n) = pcol_flush env clk h in (h', out, cs_result n))"

definition cs_poll ::
    "peer_env \<Rightarrow> (nat \<Rightarrow> nat) \<Rightarrow> (bytes \<times> endpoint) option \<Rightarrow> pcol_peer \<Rightarrow> pcol_peer \<times> sends \<times> peer_event list \<times> (int + int)" where
  "cs_poll env clk rx h = (let (h', out, evs, n) = pcol_poll env clk rx h in (h', out, evs, cs_result n))"

definition cs_register_peer_key :: "u16 \<Rightarrow> bytes option \<Rightarrow> pcol_peer \<Rightarrow> pcol_peer option" where
  "cs_register_peer_key node key h =
    (case key of
       None \<Rightarrow> None
     | Some k \<Rightarrow> if length k \<noteq> 32 then None else Some (pcol_peer_register_key node (Some k) h))"

definition cs_subscribe_with_resolution ::
    "peer_env \<Rightarrow> bytes \<Rightarrow> pcol_resolution_tier \<Rightarrow> int \<Rightarrow> u32 \<Rightarrow> pcol_peer \<Rightarrow> pcol_peer \<times> (int + int)" where
  "cs_subscribe_with_resolution env pattern tier credits freshness h =
    (let (h', n) = pcol_subscribe_with_resolution env (Some (c_str pattern)) tier credits freshness h in (h', cs_result n))"

section \<open>All of them keep the contract\<close>

lemma no_error:
  "py_raise e = None \<longleftrightarrow> e = PCOL_OK" "rs_check (pcol_error_code e) = None \<longleftrightarrow> e = PCOL_OK" "cs_raise e = None \<longleftrightarrow> e = PCOL_OK"
  by (cases e; simp add: py_raise_def py_check_error_def rs_check_def cs_raise_def cs_throw_if_error_def)+

lemma c_str_new: "cstring_new s = Some t \<longleftrightarrow> t = s \<and> 0 \<notin> set s" and c_str_id: "0 \<notin> set s \<Longrightarrow> c_str s = s"
  by (auto simp: cstring_new_def c_str_def takeWhile_eq_all_conv)

definition value_of :: "'e + 'a \<Rightarrow> 'a option" where
  "value_of r = (case r of Inl e \<Rightarrow> None | Inr v \<Rightarrow> Some v)"

definition succeeds :: "'h \<times> 'e option \<Rightarrow> 'h \<times> bool" where
  "succeeds r = (fst r, snd r = None)"

interpretation python: register_binding env clk "\<lambda>path data h. succeeds (py_set_lww env clk path data h)"
    "\<lambda>junk behind path h. value_of (py_get_lww env behind path h)" "\<lambda>path. True" for env clk
proof
  fix path data h h'
  assume "succeeds (py_set_lww env clk path data h) = (h', True)"
  then show "True \<and> pcol_set_lww env clk (Some (c_str path)) data h = (h', PCOL_OK)"
    by (auto simp: succeeds_def py_set_lww_def split_beta Let_def no_error prod_eq_iff)
next
  fix path h v and junk behind :: bytes
  assume "register_value env (c_str path) h = Some v" "length v \<le> BINDING_BUF"
  then show "value_of (py_get_lww env behind path h) = Some v"
    by (simp add: value_of_def py_get_lww_def get_lww_value py_raise_def py_check_error_def)
qed

interpretation rust: register_binding env clk "\<lambda>path data h. succeeds (rs_set_lww env clk path data h)"
    "\<lambda>junk behind path h. value_of (rs_get_lww env path h)" "\<lambda>path. 0 \<notin> set path" for env clk
proof
  fix path data h h'
  assume "succeeds (rs_set_lww env clk path data h) = (h', True)"
  then show "0 \<notin> set path \<and> pcol_set_lww env clk (Some (c_str path)) data h = (h', PCOL_OK)"
    by (auto simp: succeeds_def rs_set_lww_def split_beta Let_def no_error prod_eq_iff c_str_new c_str_id split: option.splits)
next
  fix path h v and junk behind :: bytes
  assume "0 \<notin> set path" "register_value env (c_str path) h = Some v" "length v \<le> BINDING_BUF"
  then show "value_of (rs_get_lww env path h) = Some v"
    by (simp add: value_of_def rs_get_lww_def get_lww_value rs_check_def cstring_new_def c_str_id)
qed

interpretation dotnet: register_binding env clk "\<lambda>path data h. succeeds (cs_set_lww env clk path data h)"
    "\<lambda>junk behind path h. value_of (cs_get_lww env junk behind path h)" "\<lambda>path. True" for env clk
proof
  fix path data h h'
  assume "succeeds (cs_set_lww env clk path data h) = (h', True)"
  then show "True \<and> pcol_set_lww env clk (Some (c_str path)) data h = (h', PCOL_OK)"
    by (auto simp: succeeds_def cs_set_lww_def split_beta Let_def no_error prod_eq_iff)
next
  fix path h v and junk behind :: bytes
  assume "register_value env (c_str path) h = Some v" "length v \<le> BINDING_BUF" "length junk = BINDING_BUF"
  then show "value_of (cs_get_lww env junk behind path h) = Some v"
    by (simp add: value_of_def cs_get_lww_def get_lww_value cs_raise_def cs_throw_if_error_def)
qed

text \<open>A longer value: Rust cuts it without an error; Python and .NET return what lies in memory behind the buffer.\<close>

lemma long_value_read:
  assumes "register_value env (c_str path) h = Some v" "BINDING_BUF < length v" "length junk = BINDING_BUF"
  shows "py_get_lww env behind path h = Inr (take BINDING_BUF v @ take (length v - BINDING_BUF) behind)"
    and "cs_get_lww env junk behind path h = Inr (take BINDING_BUF v @ take (length v - BINDING_BUF) behind)"
    and "0 \<notin> set path \<Longrightarrow> rs_get_lww env path h = Inr (take BINDING_BUF v)"
proof -
  have p: "py_raise PCOL_OK = None" "cs_raise PCOL_OK = None" "rs_check (pcol_error_code PCOL_OK) = None" by (simp_all add: no_error del: pcol_error_code.simps)
  show "py_get_lww env behind path h = Inr (take BINDING_BUF v @ take (length v - BINDING_BUF) behind)"
    using assms by (simp add: py_get_lww_def get_lww_value p)
  show "cs_get_lww env junk behind path h = Inr (take BINDING_BUF v @ take (length v - BINDING_BUF) behind)"
    using assms by (simp add: cs_get_lww_def get_lww_value p)
  show "rs_get_lww env path h = Inr (take BINDING_BUF v)" if "0 \<notin> set path"
    using assms that by (simp add: rs_get_lww_def get_lww_value p cstring_new_def c_str_id del: pcol_error_code.simps)
qed

end
