(* ===== verification/Binding_Web.thy ===== *)
theory Binding_Web
  imports Bindings
begin

text \<open>
  The WebAssembly binding: the flat wrappers (\<^verbatim>\<open>bindings/wasm/src/protocoll_wasm.cpp\<close>), the TypeScript classes
  (\<^verbatim>\<open>bindings/wasm/src/index.ts\<close>) and the browser transports (\<^verbatim>\<open>bindings/wasm/src/transports\<close>).

  The value of a C function without a result is \<open>None\<close>, JavaScript's \<open>undefined\<close>. A pointer to the WebAssembly memory is a
  number; where a function passes one on, the pointer that the allocator returned is an argument. The memory from a
  buffer on is a byte list. A loop that waits on a timer is a partial function: \<open>None\<close> is a promise that is never settled.
\<close>

section \<open>Flat wrappers\<close>

definition flat_ep :: "bytes option \<Rightarrow> u16 \<Rightarrow> pcol_endpoint" where
  "flat_ep addr port = \<lparr>pep_address = addr, pep_port = port\<rparr>"

definition pcol_transport_bind_flat ::
    "bytes option \<Rightarrow> u16 \<Rightarrow> pcol_transport option \<Rightarrow> pcol_transport option \<times> pcol_error" where
  "pcol_transport_bind_flat addr port t = pcol_transport_bind (flat_ep addr port) (- 1) (- 1) False t"

definition pcol_peer_connect_flat ::
    "peer_env \<Rightarrow> (nat \<Rightarrow> nat) \<Rightarrow> bytes option \<Rightarrow> u16 \<Rightarrow> bool \<Rightarrow> (bytes \<times> endpoint) option \<Rightarrow> pcol_peer \<Rightarrow>
     pcol_peer \<times> sends \<times> pcol_error" where
  "pcol_peer_connect_flat env clk addr port sent_ok rx h = pcol_peer_connect env clk (flat_ep addr port) sent_ok rx h"

definition pcol_peer_set_local_endpoint_flat :: "bytes option \<Rightarrow> u16 \<Rightarrow> pcol_peer \<Rightarrow> pcol_peer" where
  "pcol_peer_set_local_endpoint_flat addr port h = pcol_peer_set_local_endpoint (flat_ep addr port) h"

definition pcol_peer_connect_start_flat ::
    "peer_env \<Rightarrow> (nat \<Rightarrow> nat) \<Rightarrow> bytes option \<Rightarrow> u16 \<Rightarrow> bool \<Rightarrow> pcol_peer \<Rightarrow> pcol_peer \<times> sends \<times> pcol_error" where
  "pcol_peer_connect_start_flat env clk addr port sent_ok h = pcol_peer_connect_start env clk (flat_ep addr port) sent_ok h"

definition pcol_peer_accept_flat ::
    "peer_env \<Rightarrow> (nat \<Rightarrow> nat) \<Rightarrow> (bytes \<times> endpoint) option \<Rightarrow> pcol_peer \<Rightarrow> pcol_peer \<times> sends \<times> pcol_error" where
  "pcol_peer_accept_flat env clk rx h = pcol_peer_accept env clk rx h"

text \<open>The node id is passed to a parameter of 16 bits.\<close>

definition pcol_peer_connect_to_flat ::
    "peer_env \<Rightarrow> (nat \<Rightarrow> nat) \<Rightarrow> u32 \<Rightarrow> bytes option \<Rightarrow> u16 \<Rightarrow> bool \<Rightarrow> (bytes \<times> endpoint) option \<Rightarrow> pcol_peer \<Rightarrow>
     pcol_peer \<times> sends \<times> pcol_error" where
  "pcol_peer_connect_to_flat env clk node_id addr port sent_ok rx h =
    pcol_peer_connect_to env clk (ucast node_id) (flat_ep addr port) sent_ok rx h"

definition pcol_peer_accept_node_flat ::
    "peer_env \<Rightarrow> (nat \<Rightarrow> nat) \<Rightarrow> u16 \<Rightarrow> (bytes \<times> endpoint) option \<Rightarrow> pcol_peer \<Rightarrow> pcol_peer \<times> sends \<times> pcol_error" where
  "pcol_peer_accept_node_flat env clk node_id rx h = pcol_peer_accept_node env clk node_id rx h"

section \<open>The TypeScript peer\<close>

datatype ts_error = Ts_ProtocollError "int option" | Ts_RangeError | Ts_TypeError

definition ts_check_error :: "int option \<Rightarrow> ts_error option" where
  "ts_check_error code = (if code \<noteq> Some 0 then Some (Ts_ProtocollError code) else None)"

definition ts_raise :: "pcol_error \<Rightarrow> ts_error option" where
  "ts_raise e = ts_check_error (Some (pcol_error_code e))"

definition ts_register_peer_key :: "bytes \<Rightarrow> u16 \<Rightarrow> bytes \<Rightarrow> pcol_peer \<Rightarrow> pcol_peer" where
  "ts_register_peer_key junk node key h = pcol_peer_register_key node (Some (put_bytes junk 0 (take 32 key))) h"

definition ts_connect ::
    "peer_env \<Rightarrow> (nat \<Rightarrow> nat) \<Rightarrow> bytes \<Rightarrow> u16 \<Rightarrow> bool \<Rightarrow> (bytes \<times> endpoint) option \<Rightarrow> pcol_peer \<Rightarrow>
     pcol_peer \<times> sends \<times> ts_error option" where
  "ts_connect env clk address port sent_ok rx h =
    (let (h', out, e) = pcol_peer_connect_flat env clk (Some (c_str address)) port sent_ok rx h in (h', out, ts_raise e))"

definition ts_connect_start ::
    "peer_env \<Rightarrow> (nat \<Rightarrow> nat) \<Rightarrow> bytes \<Rightarrow> u16 \<Rightarrow> bool \<Rightarrow> pcol_peer \<Rightarrow> pcol_peer \<times> sends \<times> ts_error option" where
  "ts_connect_start env clk address port sent_ok h =
    (let (h', out, e) = pcol_peer_connect_start_flat env clk (Some (c_str address)) port sent_ok h in (h', out, ts_raise e))"

definition ts_connect_poll :: "peer_env \<Rightarrow> (bytes \<times> endpoint) option \<Rightarrow> pcol_peer \<Rightarrow> pcol_peer \<times> bool" where
  "ts_connect_poll env rx h = (let (h', e) = pcol_peer_connect_poll env rx h in (h', pcol_error_code e = 0))"

text \<open>
  The timer of \<^verbatim>\<open>connectAsync\<close> and \<^verbatim>\<open>acceptAsync\<close>: at check \<open>i\<close> draining the send queue throws \<open>drains i\<close>, if anything, the
  transport has \<open>rxs i\<close> and the clock shows \<open>date i\<close> milliseconds. The result is the handle and the error the promise is
  rejected with, if it is. The first check runs inside the promise, which an exception rejects; a later one runs from the
  timer, where an exception is not caught, so that the promise stays open.
\<close>

partial_function (option) ts_connect_check ::
    "peer_env \<Rightarrow> (nat \<Rightarrow> ts_error option) \<Rightarrow> (nat \<Rightarrow> (bytes \<times> endpoint) option) \<Rightarrow> (nat \<Rightarrow> nat) \<Rightarrow> nat \<Rightarrow> nat \<Rightarrow> nat \<Rightarrow> pcol_peer \<Rightarrow>
     (pcol_peer \<times> ts_error option) option" where
  "ts_connect_check env drains rxs date start timeout_ms i h =
    (case drains i of
       Some e \<Rightarrow> if i = 0 then Some (h, Some e) else None
     | None \<Rightarrow>
         (case ts_connect_poll env (rxs i) h of
            (h', ok) \<Rightarrow>
              if ok then Some (h', None)
              else if date i > start + timeout_ms then Some (h', Some (Ts_ProtocollError (Some (- 4))))
              else ts_connect_check env drains rxs date start timeout_ms (Suc i) h'))"

definition ts_connect_async ::
    "peer_env \<Rightarrow> (nat \<Rightarrow> nat) \<Rightarrow> bytes \<Rightarrow> u16 \<Rightarrow> bool \<Rightarrow> ts_error option \<Rightarrow> (nat \<Rightarrow> ts_error option) \<Rightarrow>
     (nat \<Rightarrow> (bytes \<times> endpoint) option) \<Rightarrow> (nat \<Rightarrow> nat) \<Rightarrow> nat \<Rightarrow> nat \<Rightarrow> pcol_peer \<Rightarrow> (pcol_peer \<times> sends \<times> ts_error option) option" where
  "ts_connect_async env clk address port sent_ok drain drains rxs date start timeout_ms h =
    (case ts_connect_start env clk address port sent_ok h of
       (h1, out, Some e) \<Rightarrow> Some (h1, out, Some e)
     | (h1, out, None) \<Rightarrow>
         (case drain of
            Some e \<Rightarrow> Some (h1, out, Some e)
          | None \<Rightarrow> map_option (\<lambda>(h2, e). (h2, out, e)) (ts_connect_check env drains rxs date start timeout_ms 0 h1)))"

definition ts_accept_start :: "(nat \<Rightarrow> nat) \<Rightarrow> pcol_peer \<Rightarrow> pcol_peer \<times> ts_error option" where
  "ts_accept_start clk h = (let (h', e) = pcol_peer_accept_start clk h in (h', ts_raise e))"

definition ts_accept_poll ::
    "peer_env \<Rightarrow> (nat \<Rightarrow> nat) \<Rightarrow> (bytes \<times> endpoint) option \<Rightarrow> pcol_peer \<Rightarrow> pcol_peer \<times> sends \<times> bool" where
  "ts_accept_poll env clk rx h = (let (h', out, e) = pcol_peer_accept_poll env clk rx h in (h', out, pcol_error_code e = 0))"

partial_function (option) ts_accept_check ::
    "peer_env \<Rightarrow> (nat \<Rightarrow> nat) \<Rightarrow> (nat \<Rightarrow> ts_error option) \<Rightarrow> (nat \<Rightarrow> (bytes \<times> endpoint) option) \<Rightarrow> (nat \<Rightarrow> nat) \<Rightarrow> nat \<Rightarrow> nat \<Rightarrow>
     nat \<Rightarrow> sends \<Rightarrow> pcol_peer \<Rightarrow> (pcol_peer \<times> sends \<times> ts_error option) option" where
  "ts_accept_check env clk drains rxs date start timeout_ms i out h =
    (case drains i of
       Some e \<Rightarrow> if i = 0 then Some (h, out, Some e) else None
     | None \<Rightarrow>
         (case ts_accept_poll env clk (rxs i) h of
            (h', sent, ok) \<Rightarrow>
              if ok then Some (h', out @ sent, None)
              else if date i > start + timeout_ms then Some (h', out @ sent, Some (Ts_ProtocollError (Some (- 4))))
              else ts_accept_check env clk drains rxs date start timeout_ms (Suc i) (out @ sent) h'))"

definition ts_accept_async ::
    "peer_env \<Rightarrow> (nat \<Rightarrow> nat) \<Rightarrow> (nat \<Rightarrow> nat) \<Rightarrow> (nat \<Rightarrow> ts_error option) \<Rightarrow> (nat \<Rightarrow> (bytes \<times> endpoint) option) \<Rightarrow> (nat \<Rightarrow> nat) \<Rightarrow>
     nat \<Rightarrow> nat \<Rightarrow> pcol_peer \<Rightarrow> (pcol_peer \<times> sends \<times> ts_error option) option" where
  "ts_accept_async env clk clk' drains rxs date start timeout_ms h =
    (case ts_accept_start clk h of
       (h1, Some e) \<Rightarrow> Some (h1, [], Some e)
     | (h1, None) \<Rightarrow> ts_accept_check env clk' drains rxs date start timeout_ms 0 [] h1)"

definition ts_declare ::
    "peer_env \<Rightarrow> bytes \<Rightarrow> pcol_crdt_type \<Rightarrow> pcol_reliability \<Rightarrow> pcol_peer \<Rightarrow> pcol_peer \<times> ts_error option" where
  "ts_declare env path t rel h = (let (h', e) = pcol_declare env (Some (c_str path)) t rel h in (h', ts_raise e))"

definition ts_set_lww :: "peer_env \<Rightarrow> (nat \<Rightarrow> nat) \<Rightarrow> bytes \<Rightarrow> bytes \<Rightarrow> pcol_peer \<Rightarrow> pcol_peer \<times> ts_error option" where
  "ts_set_lww env clk path data h = (let (h', e) = pcol_set_lww env clk (Some (c_str path)) data h in (h', ts_raise e))"

text \<open>
  \<open>junk\<close> is the allocated buffer, \<open>behind\<close> the memory behind it up to its end, \<open>old_len\<close> what the length field holds before
  the call. A view longer than the memory is a range error.
\<close>

definition ts_get_lww :: "peer_env \<Rightarrow> bytes \<Rightarrow> bytes \<Rightarrow> nat \<Rightarrow> bytes \<Rightarrow> pcol_peer \<Rightarrow> ts_error + bytes" where
  "ts_get_lww env junk behind old_len path h =
    (case pcol_get_lww env (Some (c_str path)) (Some junk) h of
       (e, n, buf) \<Rightarrow>
         let out_len = (case n of None \<Rightarrow> old_len | Some l \<Rightarrow> l); memory = the buf @ behind
         in if length memory < out_len then Inl Ts_RangeError
            else (case ts_raise e of Some err \<Rightarrow> Inl err | None \<Rightarrow> Inr (take out_len memory)))"

text \<open>The amount is the low half of the 64-bit argument, taken modulo \<open>2^32\<close>; the high half is 0.\<close>

definition ts_increment_counter :: "peer_env \<Rightarrow> bytes \<Rightarrow> int \<Rightarrow> pcol_peer \<Rightarrow> pcol_peer \<times> ts_error option" where
  "ts_increment_counter env path amount h =
    (let (h', e) = pcol_increment_counter env (Some (c_str path)) (ucast (of_int amount :: u32)) h in (h', ts_raise e))"

definition ts_get_counter :: "peer_env \<Rightarrow> u32 \<Rightarrow> bytes \<Rightarrow> pcol_peer \<Rightarrow> ts_error + u32" where
  "ts_get_counter env junk path h =
    (case pcol_get_counter env (Some (c_str path)) True h of
       (e, v) \<Rightarrow> (case ts_raise e of Some err \<Rightarrow> Inl err | None \<Rightarrow> Inr (case v of None \<Rightarrow> junk | Some x \<Rightarrow> ucast x)))"

definition ts_result :: "int \<Rightarrow> ts_error + int" where
  "ts_result result = (if result < 0 then (case ts_check_error (Some result) of Some e \<Rightarrow> Inl e | None \<Rightarrow> Inr result) else Inr result)"

definition ts_flush :: "peer_env \<Rightarrow> (nat \<Rightarrow> nat) \<Rightarrow> pcol_peer \<Rightarrow> pcol_peer \<times> sends \<times> (ts_error + int)" where
  "ts_flush env clk h = (let (h', out, n) = pcol_flush env clk h in (h', out, ts_result n))"

definition ts_poll ::
    "peer_env \<Rightarrow> (nat \<Rightarrow> nat) \<Rightarrow> (bytes \<times> endpoint) option \<Rightarrow> pcol_peer \<Rightarrow> pcol_peer \<times> sends \<times> peer_event list \<times> (ts_error + int)" where
  "ts_poll env clk rx h = (let (h', out, evs, n) = pcol_poll env clk rx h in (h', out, evs, ts_result n))"

text \<open>A tick of \<^verbatim>\<open>startPolling\<close>: \<open>drained\<close> is what draining the queue throws. An exception of it or of \<^verbatim>\<open>flush\<close> ends the tick.\<close>

definition ts_tick ::
    "peer_env \<Rightarrow> (nat \<Rightarrow> nat) \<Rightarrow> (nat \<Rightarrow> nat) \<Rightarrow> ts_error option \<Rightarrow> (bytes \<times> endpoint) option \<Rightarrow> pcol_peer \<Rightarrow>
     pcol_peer \<times> sends \<times> peer_event list" where
  "ts_tick env clk clk' drained rx h =
    (case drained of
       Some e \<Rightarrow> (h, [], [])
     | None \<Rightarrow>
         (case ts_flush env clk h of
            (h1, out, Inl e) \<Rightarrow> (h1, out, [])
          | (h1, out, Inr n) \<Rightarrow> (case ts_poll env clk' rx h1 of (h2, out', evs, r) \<Rightarrow> (h2, out @ out', evs))))"

definition ts_set_resolution :: "u16 \<Rightarrow> pcol_resolution_tier \<Rightarrow> pcol_peer \<Rightarrow> pcol_peer \<times> ts_error option" where
  "ts_set_resolution node tier h = (pcol_peer_set_resolution node tier h, ts_check_error None)"

definition ts_announce_route :: "peer_env \<Rightarrow> bytes \<Rightarrow> pcol_peer \<Rightarrow> pcol_peer \<times> ts_error option" where
  "ts_announce_route env path h = (pcol_peer_announce_route env (Some (c_str path)) h, ts_check_error None)"

text \<open>\<open>path_ptr\<close> is where the path was copied to; the C function takes a hash.\<close>

definition ts_learn_route :: "peer_env \<Rightarrow> u32 \<Rightarrow> bytes \<Rightarrow> u16 \<Rightarrow> pcol_peer \<Rightarrow> pcol_peer \<times> ts_error option" where
  "ts_learn_route env path_ptr path via_node h = (pcol_peer_learn_route env path_ptr via_node h, ts_check_error None)"

definition ts_has_route :: "u32 \<Rightarrow> bytes \<Rightarrow> pcol_peer \<Rightarrow> bool" where
  "ts_has_route path_ptr path h \<longleftrightarrow> pcol_peer_has_route path_ptr h \<noteq> 0"

definition ts_subscribe_with_resolution ::
    "peer_env \<Rightarrow> bytes \<Rightarrow> pcol_resolution_tier \<Rightarrow> int \<Rightarrow> u32 \<Rightarrow> pcol_peer \<Rightarrow> pcol_peer \<times> (ts_error + int)" where
  "ts_subscribe_with_resolution env pattern tier credits freshness h =
    (let (h', n) = pcol_subscribe_with_resolution env (Some (c_str pattern)) tier credits freshness h in (h', ts_result n))"

section \<open>Browser transports\<close>

definition push_recv_web :: "bytes \<Rightarrow> bytes \<Rightarrow> u16 \<Rightarrow> pcol_transport option \<Rightarrow> pcol_transport option" where
  "push_recv_web data from_addr from_port t =
    fst (pcol_transport_external_push_recv t (Some data) (Some (c_str from_addr)) from_port)"

lemma pop_send_cases:
  "pcol_transport_external_pop_send t (Some b) True (Some a) = (t', PCOL_OK, r) \<Longrightarrow>
   \<exists>x pkt rest. t = Some (T_external x) \<and> xt_send_queue x = pkt # rest \<and> t' = Some (T_external (x\<lparr>xt_send_queue := rest\<rparr>))"
  by (auto simp: pcol_transport_external_pop_send_def pop_send_def Let_def split: list.splits option.splits pcol_transport.splits)

text \<open>
  \<^verbatim>\<open>drainSendQueue\<close>, with the \<^verbatim>\<open>sendPacket\<close> of the adapter as \<open>send\<close>, which changes the adapter's state and may throw. The
  buffers are allocated once and keep what was written to them.
\<close>

function drain_send_queue ::
    "(bytes \<times> bytes \<times> u16 \<Rightarrow> 's \<Rightarrow> 's \<times> ts_error option) \<Rightarrow> bytes \<Rightarrow> bytes \<Rightarrow> bytes \<Rightarrow> pcol_transport option \<Rightarrow> 's \<Rightarrow>
     pcol_transport option \<times> 's \<times> ts_error option" where
  "drain_send_queue send behind send_buf addr_buf t s =
    (case pcol_transport_external_pop_send t (Some send_buf) True (Some addr_buf) of
       (t', PCOL_OK, Some (buf, len, Some addr, port)) \<Rightarrow>
         if length (buf @ behind) < len then (t', s, Some Ts_RangeError)
         else (case send (take len (buf @ behind), c_str addr, port) s of
           (s', Some e) \<Rightarrow> (t', s', Some e)
         | (s', None) \<Rightarrow> drain_send_queue send behind buf addr t' s')
     | (t', r) \<Rightarrow> (t', s, None))"
  by pat_completeness auto

termination
  by (relation "measure (\<lambda>(send, behind, buf, addr, t, s). pcol_transport_external_send_queue_size t)")
    (auto dest!: pop_send_cases [OF sym] simp: pcol_transport_external_send_queue_size_def send_queue_size_def)

declare drain_send_queue.simps [simp del]

record web_socket_transport =
  ws_remote_addr :: bytes
  ws_remote_port :: u16
  ws_closed :: bool
  ws_open :: bool
  ws_sent :: "bytes list"

text \<open>The port a URL names, if it names one; 0 is as none.\<close>

definition url_port :: "u16 option \<Rightarrow> bool \<Rightarrow> u16" where
  "url_port port secure =
    (let default = (if secure then 443 else 80) in case port of Some p \<Rightarrow> if p \<noteq> 0 then p else default | None \<Rightarrow> default)"

definition ws_new :: "bytes \<Rightarrow> u16 option \<Rightarrow> bool \<Rightarrow> web_socket_transport" where
  "ws_new host port secure =
    \<lparr>ws_remote_addr = host, ws_remote_port = url_port port secure, ws_closed = False, ws_open = False, ws_sent = []\<rparr>"

definition ws_on_message :: "bytes \<Rightarrow> web_socket_transport \<Rightarrow> pcol_transport option \<Rightarrow> pcol_transport option" where
  "ws_on_message data w t = (if ws_closed w then t else push_recv_web data (ws_remote_addr w) (ws_remote_port w) t)"

definition ws_send_packet :: "bytes \<times> bytes \<times> u16 \<Rightarrow> web_socket_transport \<Rightarrow> web_socket_transport \<times> ts_error option" where
  "ws_send_packet pkt w =
    (if ws_closed w \<or> \<not> ws_open w then (w, None) else (w\<lparr>ws_sent := ws_sent w @ [fst pkt]\<rparr>, None))"

definition ws_close :: "web_socket_transport \<Rightarrow> web_socket_transport" where
  "ws_close w = w\<lparr>ws_closed := True, ws_open := False\<rparr>"

text \<open>
  WebTransport. Whether the stream of outgoing datagrams gives a writer, or \<^verbatim>\<open>getWriter\<close> throws, is an answer of the browser, an
  argument of \<^verbatim>\<open>sendPacket\<close> that may depend on the datagrams written before.
\<close>

record web_transport =
  wt_remote_addr :: bytes
  wt_remote_port :: u16
  wt_receiving :: bool
  wt_closed :: bool
  wt_sent :: "bytes list"

definition wt_new :: "bytes \<Rightarrow> u16 option \<Rightarrow> bool \<Rightarrow> web_transport" where
  "wt_new host port secure =
    \<lparr>wt_remote_addr = host, wt_remote_port = url_port port secure, wt_receiving = False, wt_closed = False,
     wt_sent = []\<rparr>"

text \<open>
  The loop over the reader, until \<^verbatim>\<open>read\<close> is done or throws: for each turn, whether the transport is closed when the turn
  begins and what \<^verbatim>\<open>read\<close> gives, \<open>None\<close> for an absent value.
\<close>

fun wt_receive_loop :: "(bool \<times> bytes option) list \<Rightarrow> web_transport \<Rightarrow> pcol_transport option \<Rightarrow> pcol_transport option" where
  "wt_receive_loop [] w t = t"
| "wt_receive_loop ((is_closed, v) # turns) w t =
    (if is_closed then t
     else wt_receive_loop turns w
       (case v of None \<Rightarrow> t | Some d \<Rightarrow> push_recv_web d (wt_remote_addr w) (wt_remote_port w) t))"

definition wt_start_receiving ::
    "(bool \<times> bytes option) list \<Rightarrow> web_transport \<Rightarrow> pcol_transport option \<Rightarrow> web_transport \<times> pcol_transport option" where
  "wt_start_receiving turns w t =
    (if wt_receiving w then (w, t) else (w\<lparr>wt_receiving := True\<rparr>, wt_receive_loop turns w t))"

definition wt_send_packet ::
    "(bytes list \<Rightarrow> bool) \<Rightarrow> bytes \<times> bytes \<times> u16 \<Rightarrow> web_transport \<Rightarrow> web_transport \<times> ts_error option" where
  "wt_send_packet get_writer pkt w =
    (if wt_closed w then (w, None)
     else if \<not> get_writer (wt_sent w) then (w, Some Ts_TypeError)
     else (w\<lparr>wt_sent := wt_sent w @ [fst pkt]\<rparr>, None))"

definition wt_close :: "web_transport \<Rightarrow> web_transport" where
  "wt_close w = w\<lparr>wt_closed := True\<rparr>"

section \<open>Properties\<close>

lemma no_error_ts: "ts_raise e = None \<longleftrightarrow> e = PCOL_OK"
  by (cases e; simp add: ts_raise_def ts_check_error_def)

interpretation typescript: register_binding env clk "\<lambda>path data h. succeeds (ts_set_lww env clk path data h)"
    "\<lambda>junk behind path h. value_of (ts_get_lww env junk behind old_len path h)" "\<lambda>path. True" for env clk old_len
proof
  fix path data h h'
  assume "succeeds (ts_set_lww env clk path data h) = (h', True)"
  then show "True \<and> pcol_set_lww env clk (Some (c_str path)) data h = (h', PCOL_OK)"
    by (auto simp: succeeds_def ts_set_lww_def split_beta Let_def no_error_ts prod_eq_iff)
next
  fix path h v and junk behind :: bytes
  assume "register_value env (c_str path) h = Some v" "length v \<le> BINDING_BUF" "length junk = BINDING_BUF"
  then show "value_of (ts_get_lww env junk behind old_len path h) = Some v"
    by (simp add: value_of_def ts_get_lww_def get_lww_value ts_raise_def ts_check_error_def)
qed

text \<open>
  C37. All four bindings read a register back. On a peer that satisfies its invariant, after a write that raises nothing in Python, Rust,
  .NET or TypeScript, reading the same path in that language gives the value that was written, if it has at most the 4096 bytes of the
  buffer the binding reads into: whatever the buffer, the memory behind it and the length field held before.
\<close>

theorem bindings_read_write:
  assumes "peer_ok env p" "length data \<le> BINDING_BUF" "length junk = BINDING_BUF"
  shows "(py_set_lww env clk path data (Some p) = (h, None) \<longrightarrow> py_get_lww env behind path h = Inr data) \<and>
    (rs_set_lww env clk path data (Some p) = (h, None) \<longrightarrow> rs_get_lww env path h = Inr data) \<and>
    (cs_set_lww env clk path data (Some p) = (h, None) \<longrightarrow> cs_get_lww env junk behind path h = Inr data) \<and>
    (ts_set_lww env clk path data (Some p) = (h, None) \<longrightarrow> ts_get_lww env junk behind old_len path h = Inr data)"
proof -
  have v: "value_of r = Some d \<longleftrightarrow> r = Inr d" for r :: "'e + bytes" and d by (cases r) (simp_all add: value_of_def)
  show ?thesis
    using python.read_after_write [OF _ assms] rust.read_after_write [OF _ assms] dotnet.read_after_write [OF _ assms]
      typescript.read_after_write [OF _ assms]
    by (simp add: succeeds_def v) (metis fst_conv snd_conv)
qed

theorem bindings_read_write_witness:
  "let env = example_env; junk = replicate BINDING_BUF 3;
       p = fst (peer_declare (state_path_new (env_xxh env) [47, 97]) CRDT_LWW_REGISTER REL_RELIABLE
             (peer_new env 1 (keypair_from_seed example_ed [7])))
   in \<exists>h. py_set_lww env (\<lambda>_. 9) [47, 97] [1, 2] (Some p) = (h, None) \<and> py_get_lww env [5] [47, 97] h = Inr [1, 2] \<and>
        ts_get_lww env junk [5] 77 [47, 97] h = Inr [1, 2]"
proof -
  let ?p = "fst (peer_declare (state_path_new (env_xxh example_env) [47, 97]) CRDT_LWW_REGISTER REL_RELIABLE
    (peer_new example_env 1 (keypair_from_seed example_ed [7])))"
  have env: "rounding (env_rnd example_env)" "config_ok (env_rnd example_env) (default_router_config (env_rnd example_env))"
    using exact_rounding default_config_ok by (simp_all add: example_env_def)
  have ok: "peer_ok example_env ?p"
    using peer_step_ok [OF env(1) peer_new_ok [OF env(2)], of "PO_Declare (state_path_new (env_xxh example_env) [47, 97]) CRDT_LWW_REGISTER REL_RELIABLE"]
    by simp
  have len: "length [1, 2 :: 8 word] \<le> BINDING_BUF" "length (replicate BINDING_BUF (3 :: 8 word)) = BINDING_BUF"
    by (simp_all add: BINDING_BUF_def)
  have reg: "registry_get (sp_hash (state_path_new (env_xxh example_env) [47, 97])) (pr_state ?p) =
    Some \<lparr>sr_path = state_path_new (env_xxh example_env) [47, 97], sr_crdt_type = CRDT_LWW_REGISTER, sr_reliability = REL_RELIABLE,
      sr_crdt = Crdt_Lww (lww_new 1), sr_version = []\<rparr>"
    by (simp add: peer_declare_def peer_new_def registry_new_def registry_declare_def registry_get_def create_crdt_def)
  have "snd (pcol_set_lww example_env (\<lambda>_. 9) (Some [47, 97]) [1, 2] (Some ?p)) = PCOL_OK"
    using reg by (simp add: pcol_set_lww_def peer_set_lww_def code_if_def Let_def)
  then obtain h where "pcol_set_lww example_env (\<lambda>_. 9) (Some [47, 97]) [1, 2] (Some ?p) = (h, PCOL_OK)" by (metis prod.collapse)
  then have h: "py_set_lww example_env (\<lambda>_. 9) [47, 97] [1, 2] (Some ?p) = (h, None)"
    "ts_set_lww example_env (\<lambda>_. 9) [47, 97] [1, 2] (Some ?p) = (h, None)"
    by (simp_all add: py_set_lww_def ts_set_lww_def c_str_def no_error no_error_ts)
  show ?thesis
    using bindings_read_write [OF ok len, of "\<lambda>_. 9" "[47, 97]" h "[5]" 77] h by (simp only: Let_def) blast
qed

section \<open>Draining the send queue\<close>

text \<open>What \<^verbatim>\<open>sendPacket\<close> is given for a packet, with an address buffer of \<open>n\<close> bytes.\<close>

definition drained :: "nat \<Rightarrow> ext_packet \<Rightarrow> bytes \<times> bytes \<times> u16" where
  "drained n pkt = (xp_data pkt, c_str (take (n - 1) (ep_address (xp_endpoint pkt))), ep_port (xp_endpoint pkt))"

lemma copied_address:
  assumes "a \<noteq> []"
  shows "length (copy_address addr a) = length a" "c_str (copy_address addr a) = c_str (take (length a - 1) addr)"
proof -
  define n where "n = min (length addr) (length a - 1)"
  have c: "copy_address addr a = take n addr @ 0 # drop (Suc n) a"
    using assms by (cases "length addr < length a - 1") (auto simp: n_def copy_address_def put_bytes_def Let_def min_def)
  have n: "take n addr = take (length a - 1) addr" "n \<le> length addr" "Suc n \<le> length a"
    using assms by (cases a; simp add: n_def min_def)+
  have "takeWhile (\<lambda>c. c \<noteq> 0) (xs @ 0 # ys) = takeWhile (\<lambda>c. c \<noteq> 0) xs" for xs ys :: bytes by (induction xs) simp_all
  then show "c_str (copy_address addr a) = c_str (take (length a - 1) addr)" by (simp add: c c_str_def n(1))
  show "length (copy_address addr a) = length a" using n(2,3) by (simp add: c)
qed

lemma drain_empty:
  "xt_send_queue x = [] \<Longrightarrow> drain_send_queue send behind b a (Some (T_external x)) s = (Some (T_external x), s, None)"
  by (subst drain_send_queue.simps) (simp add: pcol_transport_external_pop_send_def pop_send_def)

lemma drain_head:
  assumes "xt_send_queue x = pkt # rest" "length (xp_data pkt) \<le> length b" "a \<noteq> []"
  shows "\<exists>buf addr. length buf = length b \<and> length addr = length a \<and>
    drain_send_queue send behind b a (Some (T_external x)) s =
      (case send (drained (length a) pkt) s of
         (s', Some e) \<Rightarrow> (Some (T_external (x\<lparr>xt_send_queue := rest\<rparr>)), s', Some e)
       | (s', None) \<Rightarrow> drain_send_queue send behind buf addr (Some (T_external (x\<lparr>xt_send_queue := rest\<rparr>))) s')"
proof -
  let ?buf = "put_bytes b 0 (xp_data pkt)" and ?addr = "copy_address (ep_address (xp_endpoint pkt)) a"
  have p: "pcol_transport_external_pop_send (Some (T_external x)) (Some b) True (Some a) =
      (Some (T_external (x\<lparr>xt_send_queue := rest\<rparr>)), PCOL_OK, Some (?buf, length (xp_data pkt), Some ?addr, ep_port (xp_endpoint pkt)))"
    using assms by (cases "length (xp_data pkt) < length b") (auto simp: pcol_transport_external_pop_send_def pop_send_def Let_def)
  have "length ?buf = length b" "take (length (xp_data pkt)) ?buf = xp_data pkt" using assms(2) by (simp_all add: put_bytes_def)
  then show ?thesis
    by (intro exI [of _ ?buf] exI [of _ ?addr], subst drain_send_queue.simps)
      (use p assms(2) copied_address [OF assms(3)] in \<open>simp add: drained_def\<close>)
qed

lemma drain_all:
  assumes quiet: "\<And>pkt s. snd (send pkt s) = None"
    and "\<forall>pkt \<in> set (xt_send_queue x). length (xp_data pkt) \<le> length b" "a \<noteq> []"
  shows "drain_send_queue send behind b a (Some (T_external x)) s =
    (Some (T_external (x\<lparr>xt_send_queue := []\<rparr>)), fold (\<lambda>pkt s. fst (send (drained (length a) pkt) s)) (xt_send_queue x) s, None)"
  using assms(2,3)
proof (induction "xt_send_queue x" arbitrary: x b a s)
  case Nil
  have e: "xt_send_queue x = []" using Nil(1) by (rule sym)
  then have "x\<lparr>xt_send_queue := []\<rparr> = x" by (cases x) simp
  then show ?case by (simp add: drain_empty [OF e] e)
next
  case (Cons pkt rest)
  have q: "xt_send_queue x = pkt # rest" using Cons(2) by (rule sym)
  have le: "length (xp_data pkt) \<le> length b" using Cons(3) q by simp
  obtain s' where s': "send (drained (length a) pkt) s = (s', None)" using quiet by (metis prod.collapse)
  obtain buf addr where d: "length buf = length b" "length addr = length a"
    "drain_send_queue send behind b a (Some (T_external x)) s =
      (case send (drained (length a) pkt) s of
         (s', Some e) \<Rightarrow> (Some (T_external (x\<lparr>xt_send_queue := rest\<rparr>)), s', Some e)
       | (s', None) \<Rightarrow> drain_send_queue send behind buf addr (Some (T_external (x\<lparr>xt_send_queue := rest\<rparr>))) s')"
    using drain_head [OF q le Cons(4), of send behind s] by (elim exE conjE) (rule that)
  have "\<forall>p \<in> set rest. length (xp_data p) \<le> length buf" "addr \<noteq> []" using Cons(3,4) q d(1,2) by auto
  then show ?case
    using Cons(1) [of "x\<lparr>xt_send_queue := rest\<rparr>" buf addr s'] d(2) by (simp add: d(3) q s')
qed

lemma ws_send_all:
  "\<not> ws_closed w \<Longrightarrow> ws_open w \<Longrightarrow>
   fold (\<lambda>pkt w. fst (ws_send_packet (drained n pkt) w)) pkts w = w\<lparr>ws_sent := ws_sent w @ map xp_data pkts\<rparr>"
  by (induction pkts arbitrary: w) (simp_all add: ws_send_packet_def drained_def)

text \<open>
  C38. Draining the send queue of a browser transport. If every packet fits the buffer (65536 bytes in the code) and \<^verbatim>\<open>sendPacket\<close> does not
  throw, the queue is empty afterwards, and \<^verbatim>\<open>sendPacket\<close> was called once for each packet, in the order of the queue, with the whole
  data, the port, and the address up to the size of its buffer. In particular an open WebSocket is given all packets, whole and in order.
\<close>

theorem web_drain:
  assumes "\<And>pkt s. snd (send pkt s) = None"
    and "\<forall>pkt \<in> set (xt_send_queue x). length (xp_data pkt) \<le> length b" "a \<noteq> []" "\<not> ws_closed w" "ws_open w"
  shows "drain_send_queue send behind b a (Some (T_external x)) s =
      (Some (T_external (x\<lparr>xt_send_queue := []\<rparr>)), fold (\<lambda>pkt s. fst (send (drained (length a) pkt) s)) (xt_send_queue x) s, None) \<and>
    drain_send_queue ws_send_packet behind b a (Some (T_external x)) w =
      (Some (T_external (x\<lparr>xt_send_queue := []\<rparr>)), w\<lparr>ws_sent := ws_sent w @ map xp_data (xt_send_queue x)\<rparr>, None)"
proof -
  have "snd (ws_send_packet pkt w) = None" for pkt w by (simp add: ws_send_packet_def)
  then show ?thesis
    using drain_all [of send, OF assms(1-3)] drain_all [of ws_send_packet, OF _ assms(2,3)] ws_send_all [OF assms(4,5)] by simp
qed

theorem web_drain_witness:
  "let pkt = (\<lambda>d. \<lparr>xp_data = [d], xp_endpoint = \<lparr>ep_address = [97], ep_port = 80\<rparr>\<rparr>);
       x = external_new\<lparr>xt_send_queue := [pkt 1, pkt 2, pkt 3]\<rparr>; w = (ws_new [97] None True)\<lparr>ws_open := True\<rparr>
   in fst (snd (drain_send_queue (\<lambda>p ps. (ps @ [p], None)) [] [0, 0] [0, 0] (Some (T_external x)) [])) =
        [([1], [97], 80), ([2], [97], 80), ([3], [97], 80)] \<and>
      ws_sent (fst (snd (drain_send_queue ws_send_packet [] [0, 0] [0, 0] (Some (T_external x)) w))) = [[1], [2], [3]]"
  using web_drain [of "\<lambda>p ps. (ps @ [p], None)"
      "external_new\<lparr>xt_send_queue := map (\<lambda>d. \<lparr>xp_data = [d], xp_endpoint = \<lparr>ep_address = [97], ep_port = 80\<rparr>\<rparr>) [1, 2, 3]\<rparr>"
      "[0, 0]" "[0, 0]" "(ws_new [97] None True)\<lparr>ws_open := True\<rparr>" "[]" "[]"]
  by (simp add: Let_def ws_new_def drained_def c_str_def)

text \<open>
  A socket that is not open loses the packets without an error. And if the browser refuses a second writer while the first still holds the
  stream, draining two packets in one call ends with an exception at the second, which is lost.
\<close>

lemma drain_not_open:
  assumes "\<forall>pkt \<in> set (xt_send_queue x). length (xp_data pkt) \<le> length b" "a \<noteq> []" "\<not> ws_open w"
  shows "drain_send_queue ws_send_packet behind b a (Some (T_external x)) w = (Some (T_external (x\<lparr>xt_send_queue := []\<rparr>)), w, None)"
proof -
  have "fold (\<lambda>pkt w. fst (ws_send_packet (drained n pkt) w)) pkts w = w" for n pkts
    using assms(3) by (induction pkts) (simp_all add: ws_send_packet_def)
  then show ?thesis using drain_all [of ws_send_packet, OF _ assms(1,2)] by (simp add: ws_send_packet_def)
qed

lemma drain_refused:
  assumes "xt_send_queue x = p # q # rest" "length (xp_data p) \<le> length b" "length (xp_data q) \<le> length b" "a \<noteq> []" "\<not> wt_closed w"
    and "get_writer (wt_sent w)" "\<not> get_writer (wt_sent w @ [xp_data p])"
  shows "drain_send_queue (wt_send_packet get_writer) behind b a (Some (T_external x)) w =
    (Some (T_external (x\<lparr>xt_send_queue := rest\<rparr>)), w\<lparr>wt_sent := wt_sent w @ [xp_data p]\<rparr>, Some Ts_TypeError)"
proof -
  let ?x = "x\<lparr>xt_send_queue := q # rest\<rparr>" and ?w = "w\<lparr>wt_sent := wt_sent w @ [xp_data p]\<rparr>" and ?f = "wt_send_packet get_writer"
  have s: "?f (drained n p) w = (?w, None)" "?f (drained n q) ?w = (?w, Some Ts_TypeError)" for n
    using assms(5-7) by (simp_all add: wt_send_packet_def drained_def)
  obtain buf addr where d: "length buf = length b" "length addr = length a"
    "drain_send_queue ?f behind b a (Some (T_external x)) w = drain_send_queue ?f behind buf addr (Some (T_external ?x)) ?w"
    using drain_head [OF assms(1,2,4), of ?f behind w] by (elim exE conjE) (rule that, simp_all add: s)
  have e: "xt_send_queue ?x = q # rest" "length (xp_data q) \<le> length buf" "addr \<noteq> []" using assms(3,4) d(1,2) by auto
  show ?thesis using drain_head [OF e, of ?f behind ?w] by (elim exE conjE) (simp add: d(3) s)
qed

section \<open>Promises\<close>

text \<open>The promise of a connection is settled once the clock has passed its timeout, if draining throws nothing.\<close>

lemma connect_check_settles:
  assumes "\<forall>j. drains j = None" "date n > start + timeout_ms" "i \<le> n"
  shows "\<exists>r. ts_connect_check env drains rxs date start timeout_ms i h = Some r"
  using assms(3)
proof (induction "n - i" arbitrary: i h)
  case 0
  with assms show ?case by (subst ts_connect_check.simps) (simp split: prod.split)
next
  case (Suc k)
  then have "\<exists>r. ts_connect_check env drains rxs date start timeout_ms (Suc i) h' = Some r" for h' by simp
  then show ?case using assms(1) by (subst ts_connect_check.simps) (auto split: prod.split)
qed

text \<open>An exception at a later check leaves it open.\<close>

lemma connect_check_open:
  "drains i = Some e \<Longrightarrow> i \<noteq> 0 \<Longrightarrow> ts_connect_check env drains rxs date start timeout_ms i h = None"
  by (subst ts_connect_check.simps) simp

text \<open>Setting a resolution and announcing or learning a route always throw, after they took effect.\<close>

lemma void_calls_throw:
  "snd (ts_set_resolution node tier h) = Some (Ts_ProtocollError None)"
  "snd (ts_announce_route env path h) = Some (Ts_ProtocollError None)"
  "snd (ts_learn_route env ptr path via h) = Some (Ts_ProtocollError None)"
  by (simp_all add: ts_set_resolution_def ts_announce_route_def ts_learn_route_def ts_check_error_def)

text \<open>A counter is read modulo \<open>2^32\<close>.\<close>

lemma counter_truncated:
  "pcol_get_counter env (Some (c_str path)) True h = (PCOL_OK, Some v) \<Longrightarrow> ts_get_counter env junk path h = Inr (ucast v)"
  using no_error_ts [of PCOL_OK] by (simp add: ts_get_counter_def)

end
