(* ===== verification/Streaming.thy ===== *)
theory Streaming
  imports Peer_Sync Transports
begin

text \<open>
  The loop that the library is written for, as \<^verbatim>\<open>examples/state_streaming_demo.cpp\<close> has it: a client writes a register and a
  counter and flushes, the packet crosses a loopback bus, and a server polls. Below the properties of the parts (registry, CRDTs,
  signatures, packets, connections, bus) are put together to what the server sees.
\<close>

section \<open>What a list of deltas does to a region\<close>

definition delta_for :: "u32 \<Rightarrow> pending_delta list \<Rightarrow> pending_delta option" where
  "delta_for h ds = find (\<lambda>d. pdl_path_hash d = h) ds"

lemma apply_deltas_region:
  assumes "distinct (map pdl_path_hash ds)"
  shows "registry_get h (apply_updates (delta_updates n ds) g) =
    map_option (\<lambda>r. case delta_for h ds of None \<Rightarrow> r | Some d \<Rightarrow> r\<lparr>sr_crdt := fst (crdt_merge (pdl_data d) (sr_crdt r))\<rparr>)
      (registry_get h g)"
  using assms
proof (induction ds arbitrary: g)
  case Nil
  then show ?case by (simp add: delta_updates_def delta_for_def option.map_ident)
next
  case (Cons d ds)
  let ?k = "pdl_path_hash d" and ?g = "fst (apply_delta (pdl_path_hash d) (pdl_data d) g)"
  have step: "registry_get h ?g = map_option (\<lambda>r. if ?k = h then r\<lparr>sr_crdt := fst (crdt_merge (pdl_data d) (sr_crdt r))\<rparr> else r) (registry_get h g)"
    by (rule apply_delta_get)
  have none: "delta_for ?k ds = None" using Cons.prems by (auto simp: delta_for_def find_None_iff image_iff)
  have "registry_get h (apply_updates (delta_updates n (d # ds)) g) = registry_get h (apply_updates (delta_updates n ds) ?g)"
    by (simp add: delta_updates_def apply_updates_def)
  also have "\<dots> = map_option (\<lambda>r. case delta_for h ds of None \<Rightarrow> r | Some d \<Rightarrow> r\<lparr>sr_crdt := fst (crdt_merge (pdl_data d) (sr_crdt r))\<rparr>)
      (registry_get h ?g)"
    using Cons by simp
  also have "\<dots> = map_option (\<lambda>r. case delta_for h (d # ds) of None \<Rightarrow> r | Some d \<Rightarrow> r\<lparr>sr_crdt := fst (crdt_merge (pdl_data d) (sr_crdt r))\<rparr>)
      (registry_get h g)"
    using none by (cases "registry_get h g") (auto simp: step delta_for_def)
  finally show ?case .
qed

lemma collected_hashes:
  "um_ok rs \<Longrightarrow> distinct (map pdl_path_hash (concat (map region_deltas rs)))"
  "set (map pdl_path_hash (concat (map region_deltas rs))) \<subseteq> fst ` set rs"
  by (induction rs) (auto simp: region_deltas_def)

lemma collected_delta_for:
  "um_ok rs \<Longrightarrow> delta_for h (concat (map region_deltas rs)) =
    (case um_find rs h of None \<Rightarrow> None | Some r \<Rightarrow> (case region_deltas (h, r) of [] \<Rightarrow> None | d # _ \<Rightarrow> Some d))"
proof (induction rs)
  case (Cons e rs)
  obtain k r where e: "e = (k, r)" by fastforce
  have "delta_for h (region_deltas e @ ds) = (if k = h \<and> region_deltas e \<noteq> [] then Some (hd (region_deltas e)) else delta_for h ds)" for ds
    by (simp add: e delta_for_def region_deltas_def)
  moreover have "um_find rs k = None" using Cons.prems by (auto simp: e map_of_eq_None_iff)
  ultimately show ?case using Cons by (auto simp: e region_deltas_def)
qed (simp add: delta_for_def)

section \<open>One packet\<close>

definition signed_size :: "pending_delta list \<Rightarrow> nat" where
  "signed_size ds = (\<Sum>d\<leftarrow>ds. 75 + length (pdl_data d))"

lemma filled_cursor:
  assumes "ed25519_laws (env_ed env)" "filled env p enc hs"
  shows "pe_cursor enc = 16 + signed_size hs"
proof -
  have "length (concat (map frame_bytes (delta_frames env p hs))) = signed_size hs"
    by (induction hs) (simp_all add: delta_frames_def signed_size_def length_frame_bytes length_signed_delta [OF assms(1)])
  then show ?thesis using assms(2) by (simp add: filled_def enc_holds_def size_defs)
qed

lemma send_loop_single:
  assumes laws: "ed25519_laws (env_ed env)" and "filled env p enc hs" "16 + signed_size (hs @ ds) \<le> MAX_PACKET_SIZE"
  shows "\<exists>enc'. send_loop env p clk k mc enc ds = (mc, enc', k, []) \<and> filled env p enc' (hs @ ds)"
  using assms(2,3)
proof (induction ds arbitrary: enc hs)
  case (Cons d ds)
  have room: "pe_cursor enc + 3 + length (build_signed_delta env p d) \<le> MAX_PACKET_SIZE" and "fits_frame d"
    using Cons.prems by (simp_all add: filled_cursor [OF laws] length_signed_delta [OF laws] signed_size_def fits_frame_def size_defs)
  then obtain e where "add_delta (build_signed_delta env p d) enc = (e, True)" "filled env p e (hs @ [d])"
    using filled_add [OF laws Cons.prems(1)] by blast
  then show ?case using Cons.IH [of e "hs @ [d]"] Cons.prems(2) by simp
qed simp

lemma length_finalize: "enc_holds e q \<Longrightarrow> length (snd (finalize xxh e)) \<le> MAX_PACKET_SIZE"
  using packet_header_codec.wire_len by (simp add: finalize_bytes Let_def) (simp add: enc_holds_def size_defs)

text \<open>A flush to one unfiltered connection, of deltas that fit one packet.\<close>

lemma flush_single:
  assumes laws: "ed25519_laws (env_ed env)" and conn: "cm_conns (pr_conn_mgr p) = [(key, mc)]" "cn_state (mc_conn mc) = CS_CONNECTED"
    and flt: "um_find (pr_delta_filters p) (mc_remote_node_id mc) = None"
    and col: "collect_deltas (pr_state p) = (g, ds)" "ds \<noteq> []" and size: "16 + signed_size ds \<le> MAX_PACKET_SIZE"
  obtains p' mc' pkt where "peer_flush env clk p = (p', [(pkt, cn_remote (mc_conn mc))], int (length ds))"
    "carries env (p\<lparr>pr_state := g\<rparr>) pkt ds" "length pkt \<le> MAX_PACKET_SIZE"
    "cm_conns (pr_conn_mgr p') = [(key, mc')]" "mc_remote_node_id mc' = mc_remote_node_id mc"
    "mc_conn mc' = (mc_conn mc)\<lparr>cn_send_pkt_num := cn_send_pkt_num (mc_conn mc) + 1\<rparr>"
    "pr_state p' = g" "pr_keys p' = pr_keys p" "pr_node_id p' = pr_node_id p" "pr_delta_filters p' = pr_delta_filters p"
proof -
  let ?p = "p\<lparr>pr_state := g\<rparr>"
  have has: "has_connections (pr_conn_mgr p)" using conn by (simp add: has_connections_def)
  obtain e where e: "send_loop env ?p clk 0 mc (data_encoder mc packet_encoder_new) ds = (mc, e, 0, [])" "filled env ?p e ds"
    using send_loop_single [OF laws filled_new, of ds] size by fastforce
  have "payload_size e > 0"
    using filled_cursor [OF laws e(2)] \<open>ds \<noteq> []\<close> by (cases ds) (simp_all add: payload_size_def signed_size_def size_defs)
  obtain mc' e' pkt to where f: "finish_packet env clk 0 mc e = (mc', e', pkt, to)" by (metis prod_cases4)
  have c: "carries env ?p pkt ds" using finish_packet_carries(1) [OF laws e(2), of clk 0 mc] by (simp add: f)
  have to: "to = cn_remote (mc_conn mc)" "length pkt \<le> MAX_PACKET_SIZE"
    using f e(2) length_finalize [of _ _ "env_xxh env"]
    by (auto simp: finish_packet_def next_send_packet_number_def split_beta Let_def filled_def)
  show ?thesis
    using finish_packet_mc [of env clk 0 mc e] \<open>payload_size e > 0\<close> has conn flt col
    by (intro that [of "?p\<lparr>pr_conn_mgr := (pr_conn_mgr p)\<lparr>cm_conns := [(key, mc')]\<rparr>\<rparr>" pkt mc']) (simp_all add: c to peer_flush_def flush_connection_def send_deltas_to_def e f Let_def)
qed

section \<open>The loop\<close>

text \<open>
  A frame of the stream: the clocks of the three calls, the value written and the amount added. The client's transport is \<open>ct\<close>,
  the server's \<open>st\<close>; the sends of a flush go to the bus one after another, and a poll takes at most one packet from it.
\<close>

type_synonym stream_input = "(nat \<Rightarrow> nat) \<times> (nat \<Rightarrow> nat) \<times> (nat \<Rightarrow> nat) \<times> bytes \<times> u64"

definition send_all :: "loopback_transport \<Rightarrow> sends \<Rightarrow> loopback_bus \<Rightarrow> loopback_bus" where
  "send_all t out bus = fold (\<lambda>(data, to) bus. fst (lb_send_to data to t bus)) out bus"

definition stream_frame ::
    "peer_env \<Rightarrow> loopback_transport \<Rightarrow> loopback_transport \<Rightarrow> state_path \<Rightarrow> state_path \<Rightarrow> stream_input \<Rightarrow>
     peer \<times> peer \<times> loopback_bus \<Rightarrow> peer \<times> peer \<times> loopback_bus" where
  "stream_frame env ct st player_pos score inp w =
    (case (inp, w) of ((clk, clk', clk'', pos, points), (client, server, bus)) \<Rightarrow>
       let client1 = fst (peer_set_lww clk player_pos pos client);
           client2 = fst (peer_increment_counter score points client1);
           (client3, out, n) = peer_flush env clk' client2;
           (bus', r, rx) = lb_recv_from MAX_PACKET_SIZE st (send_all ct out bus)
       in (client3, fst (peer_poll env clk'' rx server), bus'))"

definition stream_frames ::
    "peer_env \<Rightarrow> loopback_transport \<Rightarrow> loopback_transport \<Rightarrow> state_path \<Rightarrow> state_path \<Rightarrow> stream_input list \<Rightarrow>
     peer \<times> peer \<times> loopback_bus \<Rightarrow> peer \<times> peer \<times> loopback_bus" where
  "stream_frames env ct st player_pos score inps w = fold (stream_frame env ct st player_pos score) inps w"

text \<open>A client with its one connection, since the given reading of its clock, to the endpoint of a server that knows its key.\<close>

definition linked :: "peer_env \<Rightarrow> bytes \<Rightarrow> endpoint \<Rightarrow> nat \<Rightarrow> peer \<Rightarrow> peer \<Rightarrow> bool" where
  "linked env seed ep epoch client server \<longleftrightarrow>
     pr_keys client = keypair_from_seed (env_ed env) seed \<and>
     (\<exists>key mc. cm_conns (pr_conn_mgr client) = [(key, mc)] \<and> cn_state (mc_conn mc) = CS_CONNECTED \<and>
        cn_remote (mc_conn mc) = ep \<and> cn_epoch (mc_conn mc) = epoch \<and>
        um_find (pr_delta_filters client) (mc_remote_node_id mc) = None) \<and>
     um_find (pr_peer_keys server) (pr_node_id client) = Some (kp_public_key (pr_keys client)) \<and>
     conns_ok (pr_conn_mgr server) \<and> has_connections (pr_conn_mgr server) \<and> \<not> pr_access_control server"

text \<open>A peer whose path hashes \<open>h\<close> and \<open>k\<close> are those of a register and of a counter.\<close>

definition shows_state :: "u32 \<Rightarrow> u32 \<Rightarrow> peer \<Rightarrow> lww_register \<Rightarrow> g_counter \<Rightarrow> bool" where
  "shows_state h k p l c \<longleftrightarrow>
     um_ok (reg_regions (pr_state p)) \<and> gc_ok c \<and>
     (\<exists>r. registry_get h (pr_state p) = Some r \<and> sr_crdt_type r = CRDT_LWW_REGISTER \<and> sr_crdt r = Crdt_Lww l) \<and>
     (\<exists>r. registry_get k (pr_state p) = Some r \<and> sr_crdt_type r = CRDT_G_COUNTER \<and> sr_crdt r = Crdt_GCounter c)"

definition nothing_pending :: "peer \<Rightarrow> bool" where
  "nothing_pending p \<longleftrightarrow> (\<forall>e \<in> set (reg_regions (pr_state p)). \<not> crdt_has_pending_delta (sr_crdt (snd e)))"

definition stamp_of :: "nat \<Rightarrow> (nat \<Rightarrow> nat) \<Rightarrow> u32" where
  "stamp_of epoch clk = of_nat ((clk 0 - epoch) div 1000)"

lemma elapsed_stamp: "cn_epoch c = epoch \<Longrightarrow> elapsed_us (clk 0) c = stamp_of epoch clk"
proof -
  have "(0xFFFFFFFF :: u32) = - 1" by simp
  then have "x AND 0xFFFFFFFF = x" for x :: u32 by (simp only: and.right_neutral)
  then show "cn_epoch c = epoch \<Longrightarrow> elapsed_us (clk 0) c = stamp_of epoch clk" by (simp add: elapsed_us_def stamp_of_def)
qed

text \<open>Collecting the deltas of a registry in which only the regions of two hashes are pending.\<close>

lemma map_of_collect: "um_find (map (\<lambda>e. (fst e, collect_region (snd e))) rs) x = map_option collect_region (um_find rs x)"
  by (induction rs) auto

lemma collect_two:
  assumes ok: "um_ok rs" and find: "um_find rs h = Some r" "um_find rs k = Some s"
    and rest: "\<And>e. e \<in> set rs \<Longrightarrow> fst e \<notin> {h, k} \<Longrightarrow> \<not> crdt_has_pending_delta (sr_crdt (snd e))"
    and pend: "region_deltas (h, r) = [d]" "region_deltas (k, s) = [d']"
  shows "delta_for h (concat (map region_deltas rs)) = Some d" "delta_for k (concat (map region_deltas rs)) = Some d'"
    "set (concat (map region_deltas rs)) \<subseteq> {d, d'}"
proof -
  show "delta_for h (concat (map region_deltas rs)) = Some d" "delta_for k (concat (map region_deltas rs)) = Some d'"
    using collected_delta_for [OF ok] find pend by simp_all
  have "set (region_deltas e) \<subseteq> {d, d'}" if "e \<in> set rs" for e
  proof (cases "fst e \<in> {h, k}")
    case True
    moreover have "um_find rs (fst e) = Some (snd e)" using that ok by simp
    ultimately have "e = (h, r) \<or> e = (k, s)" using find by (cases e) auto
    then show ?thesis using pend by auto
  next
    case False
    then show ?thesis using rest [OF that] by (simp add: region_deltas_def)
  qed
  then show "set (concat (map region_deltas rs)) \<subseteq> {d, d'}" by auto
qed

lemma register_delta:
  assumes "sr_crdt r = Crdt_Lww (lww_set v ts l)"
  shows "\<exists>d. region_deltas (h, r) = [d] \<and> pdl_data d = lww_encode_state (lww_set v ts l)"
    "sr_crdt (collect_region r) = Crdt_Lww ((lww_set v ts l)\<lparr>lww_dirty := False\<rparr>)"
  using assms
  by (simp_all add: region_deltas_def collect_region_def lww_has_pending_delta_def lww_delta_def lww_set_def lww_encode_wire be32_def)

lemma counter_delta:
  assumes "sr_crdt s = Crdt_GCounter (gc_increment a c)"
  shows "\<exists>d. region_deltas (k, s) = [d] \<and> pdl_data d = snd (gc_delta (gc_increment a c))"
    "sr_crdt (collect_region s) = Crdt_GCounter ((gc_increment a c)\<lparr>gc_dirty := False\<rparr>)"
  using assms
  by (simp_all add: region_deltas_def collect_region_def gc_has_pending_delta_def gc_delta_wire gc_increment_put gc_counts_def update_conv')

text \<open>The client's two writes: the registry and the deltas it then has.\<close>

lemma client_writes:
  fixes clk :: "nat \<Rightarrow> nat" and v :: bytes and a :: u64
  assumes c: "shows_state h k p l c" "nothing_pending p" and hk: "sp_hash pos = h" "sp_hash score = k" "h \<noteq> k"
    and conn: "cm_conns (pr_conn_mgr p) = [(key, mc)]" "cn_epoch (mc_conn mc) = epoch"
  defines "l1 \<equiv> lww_set v (stamp_of epoch clk) l" and "c1 \<equiv> gc_increment a c"
  obtains g2 g ds d d' where "fst (peer_increment_counter score a (fst (peer_set_lww clk pos v p))) = p\<lparr>pr_state := g2\<rparr>"
    "collect_deltas g2 = (g, ds)" "distinct (map pdl_path_hash ds)" "set ds \<subseteq> {d, d'}"
    "delta_for h ds = Some d" "pdl_data d = lww_encode_state l1"
    "delta_for k ds = Some d'" "pdl_data d' = snd (gc_delta c1)"
    "shows_state h k (p\<lparr>pr_state := g\<rparr>) (l1\<lparr>lww_dirty := False\<rparr>) (c1\<lparr>gc_dirty := False\<rparr>)"
    "nothing_pending (p\<lparr>pr_state := g\<rparr>)"
proof -
  obtain r s where r: "registry_get h (pr_state p) = Some r" "sr_crdt_type r = CRDT_LWW_REGISTER" "sr_crdt r = Crdt_Lww l"
    and s: "registry_get k (pr_state p) = Some s" "sr_crdt_type s = CRDT_G_COUNTER" "sr_crdt s = Crdt_GCounter c"
    and um: "um_ok (reg_regions (pr_state p))" and gc: "gc_ok c" using c(1) by (auto simp: shows_state_def)
  define r1 where "r1 = r\<lparr>sr_crdt := Crdt_Lww l1, sr_version := fst (vv_increment (pr_node_id p) (sr_version r))\<rparr>"
  define s1 where "s1 = s\<lparr>sr_crdt := Crdt_GCounter c1, sr_version := fst (vv_increment (pr_node_id p) (sr_version s))\<rparr>"
  define rs where "rs = um_put k s1 (um_put h r1 (reg_regions (pr_state p)))"
  define g2 where "g2 = (pr_state p)\<lparr>reg_regions := rs\<rparr>"
  have "fst (peer_set_lww clk pos v p) = p\<lparr>pr_state := (pr_state p)\<lparr>reg_regions := um_put h r1 (reg_regions (pr_state p))\<rparr>\<rparr>"
    using r conn(1) elapsed_stamp [OF conn(2), of clk] by (simp add: peer_set_lww_def hk cm_primary_def l1_def r1_def)
  moreover have "registry_get k ((pr_state p)\<lparr>reg_regions := um_put h r1 (reg_regions (pr_state p))\<rparr>) = Some s"
    using s(1) not_sym [OF hk(3)] by (simp add: registry_get_def update_conv')
  ultimately have two: "fst (peer_increment_counter score a (fst (peer_set_lww clk pos v p))) = p\<lparr>pr_state := g2\<rparr>"
    using s(2,3) by (simp add: peer_increment_counter_def hk(2) c1_def s1_def g2_def rs_def Let_def)
  have ok: "um_ok rs" using um by (simp add: rs_def distinct_update)
  have find: "um_find rs h = Some r1" "um_find rs k = Some s1" using hk(3) by (auto simp: rs_def update_conv')
  have rest: "\<not> crdt_has_pending_delta (sr_crdt (snd e))" if "e \<in> set rs" "fst e \<notin> {h, k}" for e
  proof -
    have "set rs \<subseteq> insert (k, s1) (insert (h, r1) (set (reg_regions (pr_state p))))"
      using set_um_put [of k s1 "um_put h r1 (reg_regions (pr_state p))"] set_um_put [of h r1 "reg_regions (pr_state p)"]
      unfolding rs_def by blast
    then show ?thesis using that c(2) by (auto simp: nothing_pending_def)
  qed
  have crdts: "sr_crdt r1 = Crdt_Lww (lww_set v (stamp_of epoch clk) l)" "sr_crdt s1 = Crdt_GCounter (gc_increment a c)"
    "sr_crdt_type (collect_region r1) = CRDT_LWW_REGISTER" "sr_crdt_type (collect_region s1) = CRDT_G_COUNTER"
    using r s by (simp_all add: r1_def s1_def l1_def c1_def collect_region_def)
  obtain d d' where d: "region_deltas (h, r1) = [d]" "pdl_data d = lww_encode_state l1"
    "region_deltas (k, s1) = [d']" "pdl_data d' = snd (gc_delta c1)"
    using register_delta(1) [OF crdts(1), of h] counter_delta(1) [OF crdts(2), of k] unfolding l1_def c1_def by blast
  define g where "g = g2\<lparr>reg_regions := map (\<lambda>e. (fst e, collect_region (snd e))) rs\<rparr>"
  have col: "collect_deltas g2 = (g, concat (map region_deltas rs))" by (simp add: collect_deltas_def collect_loop_eq g2_def g_def)
  have "shows_state h k (p\<lparr>pr_state := g\<rparr>) (l1\<lparr>lww_dirty := False\<rparr>) (c1\<lparr>gc_dirty := False\<rparr>)"
    using register_delta(2) [OF crdts(1)] counter_delta(2) [OF crdts(2)] crdts(3,4) ok gc find
    by (simp add: shows_state_def g_def registry_get_def map_of_collect o_def l1_def c1_def) (simp add: gc_ok_def gc_increment_put distinct_update)
  moreover have "nothing_pending (p\<lparr>pr_state := g\<rparr>)"
    by (auto simp: nothing_pending_def g_def collect_region_def crdt_delta_clears)
  ultimately show ?thesis
    using that [OF two col collected_hashes(1) [OF ok] collect_two(3,1) [OF ok find rest d(1,3)] d(2)
        collect_two(2) [OF ok find rest d(1,3)] d(4)] by blast
qed

lemma two_deltas_size:
  assumes "distinct ds" "set ds \<subseteq> {d, d'}"
  shows "signed_size ds \<le> 150 + length (pdl_data d) + length (pdl_data d')"
proof -
  let ?f = "\<lambda>d. 75 + length (pdl_data d)"
  have "signed_size ds = sum ?f (set ds)" unfolding signed_size_def by (rule sum_list_distinct_conv_sum_set [OF assms(1)])
  also have "\<dots> \<le> sum ?f {d, d'}" by (rule sum_mono2) (use assms(2) in auto)
  also have "\<dots> \<le> ?f d + ?f d'" by (cases "d = d'") simp_all
  finally show ?thesis by simp
qed

lemma apply_updates_ok: "um_ok (reg_regions g) \<Longrightarrow> um_ok (reg_regions (apply_updates us g))"
proof (induction us arbitrary: g)
  case (Cons u us)
  obtain n h d where u: "u = (n, h, d)" by (metis prod_cases3)
  have "um_ok (reg_regions (fst (apply_delta h d g)))"
    using Cons.prems by (simp add: apply_delta_def split_beta Let_def distinct_update split: option.split)
  then show ?case using Cons.IH by (simp add: u apply_updates_def)
qed (simp add: apply_updates_def)

lemma recv_one:
  assumes "bus_queue ep bus = []" "lt_bound ct" "lt_bound st" "lt_local st = ep" "length pkt \<le> n"
  obtains bus' r where "lb_recv_from n st (send_all ct [(pkt, ep)] bus) = (bus', r, Some (pkt, lt_local ct))" "bus_queue ep bus' = []"
proof -
  let ?b = "bus_deliver \<lparr>lp_data = pkt, lp_from = lt_local ct, lp_to = ep\<rparr> bus"
  have q: "bus_queue ep ?b = [\<lparr>lp_data = pkt, lp_from = lt_local ct, lp_to = ep\<rparr>]" using assms(1) by (simp add: bus_queue_deliver)
  obtain bus' x where x: "bus_receive ep ?b = (bus', x)" by fastforce
  have "x = Some \<lparr>lp_data = pkt, lp_from = lt_local ct, lp_to = ep\<rparr>"
    using q x by (auto simp: bus_queue_def bus_receive_def Let_def split: option.splits list.splits)
  moreover from this have "bus_queue ep bus' = []" using bus_queue_receive [OF x, of ep] q by simp
  ultimately show ?thesis
    using that [of bus'] assms(2-5) x by (simp add: lb_recv_from_def send_all_def lb_send_to_def)
qed

text \<open>One turn of the loop.\<close>

lemma stream_step:
  fixes clk clk' clk'' :: "nat \<Rightarrow> nat" and v :: bytes and a :: u64
  assumes laws: "ed25519_laws (env_ed env)" and link: "linked env seed ep epoch p q"
    and P: "shows_state h k p l c" "nothing_pending p" and Q: "shows_state h k q l' c'"
    and hk: "sp_hash pos = h" "sp_hash score = k" "h \<noteq> k" and v: "length v \<le> 1269"
    and bus: "bus_queue ep bus = []" "lt_bound ct" "lt_bound st" "lt_local st = ep"
  defines "l1 \<equiv> lww_set v (stamp_of epoch clk) l" and "c1 \<equiv> gc_increment a c"
  obtains p' q' bus' where "stream_frame env ct st pos score (clk, clk', clk'', v, a) (p, q, bus) = (p', q', bus')"
    "linked env seed ep epoch p' q'" "shows_state h k p' (l1\<lparr>lww_dirty := False\<rparr>) (c1\<lparr>gc_dirty := False\<rparr>)" "nothing_pending p'"
    "shows_state h k q' (fst (lww_merge (lww_encode_state l1) l')) (fst (gc_merge (snd (gc_delta c1)) c'))" "bus_queue ep bus' = []"
proof -
  obtain key mc where mc: "cm_conns (pr_conn_mgr p) = [(key, mc)]" "cn_state (mc_conn mc) = CS_CONNECTED" "cn_remote (mc_conn mc) = ep"
    "cn_epoch (mc_conn mc) = epoch" "um_find (pr_delta_filters p) (mc_remote_node_id mc) = None"
    and keys: "pr_keys p = keypair_from_seed (env_ed env) seed"
    and q: "um_find (pr_peer_keys q) (pr_node_id p) = Some (kp_public_key (pr_keys p))"
      "conns_ok (pr_conn_mgr q)" "has_connections (pr_conn_mgr q)" "\<not> pr_access_control q"
    using link by (auto simp: linked_def)
  obtain g2 g ds d d' where w: "fst (peer_increment_counter score a (fst (peer_set_lww clk pos v p))) = p\<lparr>pr_state := g2\<rparr>"
    "collect_deltas g2 = (g, ds)" "distinct (map pdl_path_hash ds)" "set ds \<subseteq> {d, d'}"
    "delta_for h ds = Some d" "pdl_data d = lww_encode_state l1" "delta_for k ds = Some d'" "pdl_data d' = snd (gc_delta c1)"
    "shows_state h k (p\<lparr>pr_state := g\<rparr>) (l1\<lparr>lww_dirty := False\<rparr>) (c1\<lparr>gc_dirty := False\<rparr>)" "nothing_pending (p\<lparr>pr_state := g\<rparr>)"
    using client_writes [OF P hk mc(1,4), where clk = clk and v = v and a = a] unfolding l1_def c1_def by metis
  have "length (pdl_data d) = 6 + length v" "length (pdl_data d') \<le> 11"
    unfolding w(6,8) by (simp_all add: l1_def lww_set_def lww_encode_wire gc_delta_wire gc_entry_wire_def split: option.split)
  then have size: "16 + signed_size ds \<le> MAX_PACKET_SIZE"
    using two_deltas_size [OF _ w(4)] w(3) v by (simp add: distinct_map size_defs)
  have "ds \<noteq> []" using w(5) by (auto simp: delta_for_def)
  obtain p' mc' pkt where f: "peer_flush env clk' (p\<lparr>pr_state := g2\<rparr>) = (p', [(pkt, ep)], int (length ds))"
    "carries env (p\<lparr>pr_state := g\<rparr>) pkt ds" "length pkt \<le> MAX_PACKET_SIZE"
    "cm_conns (pr_conn_mgr p') = [(key, mc')]" "mc_remote_node_id mc' = mc_remote_node_id mc"
    "mc_conn mc' = (mc_conn mc)\<lparr>cn_send_pkt_num := cn_send_pkt_num (mc_conn mc) + 1\<rparr>"
    "pr_state p' = g" "pr_keys p' = pr_keys p" "pr_node_id p' = pr_node_id p" "pr_delta_filters p' = pr_delta_filters p"
    using flush_single [OF laws, of "p\<lparr>pr_state := g2\<rparr>" key mc g ds clk'] mc(1,2,5) w(2) \<open>ds \<noteq> []\<close> size
    unfolding mc(3) [symmetric] by simp blast
  obtain bus' r where b: "lb_recv_from MAX_PACKET_SIZE st (send_all ct [(pkt, ep)] bus) = (bus', r, Some (pkt, lt_local ct))" "bus_queue ep bus' = []"
    using recv_one [OF bus f(3)] by metis
  let ?q = "fst (peer_poll env clk'' (Some (pkt, lt_local ct)) q)"
  have st: "pr_state ?q = apply_updates (delta_updates (pr_node_id p) ds) (pr_state q)"
    using polls_state [OF laws, of "p\<lparr>pr_state := g\<rparr>" seed q "[(clk'', pkt, lt_local ct)]" "[ds]"] keys q f(2) by (simp add: polls_def)
  obtain dec where dec: "packet_decoder_parse pkt packet_decoder_new = (dec, True)" "ph_packet_type (pd_header dec) = PT_DATA"
    using f(2) by (auto simp: carries_def)
  have "stream_frame env ct st pos score (clk, clk', clk'', v, a) (p, q, bus) = (p', ?q, bus')"
    by (simp add: stream_frame_def w(1) f(1) b(1))
  moreover have "linked env seed ep epoch p' ?q"
    using mc q keys f(4-10) poll_data_conns [OF q(2,3) dec, of env clk'' "lt_local ct"] by (simp add: linked_def poll_keeps)
  moreover have "shows_state h k p' (l1\<lparr>lww_dirty := False\<rparr>) (c1\<lparr>gc_dirty := False\<rparr>)" "nothing_pending p'"
    using w(9,10) f(7) by (simp_all add: shows_state_def nothing_pending_def)
  moreover have "shows_state h k ?q (fst (lww_merge (lww_encode_state l1) l')) (fst (gc_merge (snd (gc_delta c1)) c'))"
    using Q apply_deltas_region [OF w(3), of _ "pr_node_id p" "pr_state q"] apply_updates_ok [of "pr_state q"]
    by (auto simp: shows_state_def st w(5-8) gc_merge_counts(2) split_beta)
  ultimately show ?thesis using that b(2) by blast
qed

section \<open>What the server sees\<close>

lemma merge_newer:
  "lww_timestamp l' < ts \<Longrightarrow>
   fst (lww_merge (lww_encode_state (lww_set v ts l)) l') = l'\<lparr>lww_timestamp := ts, lww_node_id := lww_node_id l, lww_value := v\<rparr>"
  by (simp add: lww_merge_def lww_encode_wire lww_set_def lww_incoming_wins_def LWW_HEADER_SIZE_def wire_simps Let_def)

lemma merge_not_newer:
  "(ts, lww_node_id l) \<le> lww_stamp l' \<Longrightarrow> fst (lww_merge (lww_encode_state (lww_set v ts l)) l') = l'"
  by (simp add: lww_merge_def lww_encode_wire lww_set_def lww_wins_iff LWW_HEADER_SIZE_def wire_simps Let_def not_less)

text \<open>The count that a counter holds for a node.\<close>

definition count_of :: "u16 \<Rightarrow> g_counter \<Rightarrow> u64" where
  "count_of n c = (case gc_counts c n of None \<Rightarrow> 0 | Some x \<Rightarrow> x)"

lemma counter_step:
  assumes "gc_ok c'" "count_of (gc_node_id c) c' = gc_local_count c" "unat (gc_local_count c) + unat a < 2 ^ 64"
  defines "c1 \<equiv> gc_increment a c"
  defines "c1' \<equiv> fst (gc_merge (snd (gc_delta c1)) c')"
  shows "gc_value c1' = gc_value c' + a" "count_of (gc_node_id c) c1' = gc_local_count c1"
    "gc_local_count c1 = gc_local_count c + a" "gc_node_id c1 = gc_node_id c"
proof -
  let ?n = "gc_node_id c" and ?w = "gc_local_count c + a"
  have c1: "gc_node_id c1 = ?n" "gc_counts c1 ?n = Some ?w" "gc_dirty c1"
    by (simp_all add: c1_def gc_increment_put gc_counts_def update_conv')
  have "gc_local_count c \<le> ?w" using assms(3) by (simp add: word_le_nat_alt unat_word_ariths)
  then have counts: "gc_counts c1' = (gc_counts c')(?n \<mapsto> ?w)"
    using assms(2) gc_merge_counts(1) [of "snd (gc_delta c1)" c'] c1
    by (auto simp: c1'_def gc_delta_counts join_max_def count_of_def fun_eq_iff max_def split: option.splits)
  show "gc_local_count c1 = ?w" "gc_node_id c1 = ?n" using c1 by (simp_all add: gc_local_count_map)
  then show "count_of ?n c1' = gc_local_count c1" by (simp add: count_of_def counts)
  let ?d = "c'\<lparr>gc_entries := um_put ?n ?w (gc_entries c')\<rparr>"
  have ok: "gc_ok c1'" "gc_ok ?d" using assms(1) by (simp_all add: c1'_def gc_merge_counts(2)) (simp add: gc_ok_def distinct_update)
  have "gc_value c1' = gc_value ?d" using counts by (intro gc_value_cong [OF ok]) (simp add: gc_counts_def update_conv')
  also have "\<dots> = gc_value c' + a"
    using assms(1,2) sum_put [of "gc_entries c'" ?n ?w] by (simp add: gc_value_sum gc_ok_def count_of_def gc_counts_def)
  finally show "gc_value c1' = gc_value c' + a" .
qed

text \<open>Two connected peers with a register and a counter, for evaluating an example.\<close>

definition streaming_peer :: "u16 \<Rightarrow> u16 \<Rightarrow> peer" where
  "streaming_peer n remote = (example_peer n remote (gc_new n))\<lparr>pr_state := \<lparr>reg_node_id = n,
     reg_regions = [(5, example_region (gc_new n)),
       (6, \<lparr>sr_path = state_path_new (\<lambda>b. 6) [47, 98], sr_crdt_type = CRDT_LWW_REGISTER, sr_reliability = REL_RELIABLE,
            sr_crdt = Crdt_Lww (lww_new n), sr_version = []\<rparr>)],
     reg_on_update = False\<rparr>\<rparr>"

lemma streaming_start:
  "linked example_env [7] \<lparr>ep_address = [], ep_port = 0\<rparr> 0 (streaming_peer 1 2) (streaming_peer 2 1)"
  "shows_state 6 5 (streaming_peer n r) (lww_new n) (gc_new n)" "nothing_pending (streaming_peer n r)"
proof -
  show "linked example_env [7] \<lparr>ep_address = [], ep_port = 0\<rparr> 0 (streaming_peer 1 2) (streaming_peer 2 1)"
    using example_peer_connected [of 2 1 "gc_new 2"]
    by (simp add: linked_def streaming_peer_def example_peer_conns) (simp add: example_mc_def connection_new_def)
  show "shows_state 6 5 (streaming_peer n r) (lww_new n) (gc_new n)"
    by (simp add: shows_state_def streaming_peer_def registry_get_def example_region_def)
  show "nothing_pending (streaming_peer n r)"
    by (simp add: nothing_pending_def streaming_peer_def example_region_def lww_new_def lww_default_def gc_new_def
        gc_has_pending_delta_def lww_has_pending_delta_def)
qed

text \<open>
  C4. State streaming works end to end. Let a client be connected to a server that knows its key, with nothing pending and a register and a counter
  both sides have declared, and let the server count for the client what the client counts for itself. Then after any number of turns of the
  loop - write the register, add to the counter, flush, one packet over the bus, one poll - with values of at most 1269 bytes, time stamps that
  grow from turn to turn and a total that does not wrap, the server's register holds the last value written, its counter has grown by exactly the amounts added, and nothing is left on the bus or pending.
\<close>

theorem streaming_replicates:
  assumes "ed25519_laws (env_ed env)" "linked env seed ep epoch p q"
    and "shows_state (sp_hash pos) (sp_hash score) p l c" "nothing_pending p" "shows_state (sp_hash pos) (sp_hash score) q l' c'"
    and "sp_hash pos \<noteq> sp_hash score" "bus_queue ep bus = []" "lt_bound ct" "lt_bound st" "lt_local st = ep"
    and "\<forall>(clk, clk', clk'', v, a) \<in> set inps. length v \<le> 1269"
    and "sorted_wrt (<) (lww_timestamp l' # map (\<lambda>(clk, clk', clk'', v, a). stamp_of epoch clk) inps)"
    and "count_of (gc_node_id c) c' = gc_local_count c"
    and "unat (gc_local_count c) + (\<Sum>(clk, clk', clk'', v, a)\<leftarrow>inps. unat a) < 2 ^ 64"
  shows "\<exists>p' q' bus' l1 c1 l1' c1'. stream_frames env ct st pos score inps (p, q, bus) = (p', q', bus') \<and>
    shows_state (sp_hash pos) (sp_hash score) p' l1 c1 \<and> shows_state (sp_hash pos) (sp_hash score) q' l1' c1' \<and>
    lww_value l1' = last (lww_value l' # map (\<lambda>(clk, clk', clk'', v, a). v) inps) \<and>
    gc_value c1' = gc_value c' + (\<Sum>(clk, clk', clk'', v, a)\<leftarrow>inps. a) \<and>
    bus_queue ep bus' = [] \<and> nothing_pending p' \<and> linked env seed ep epoch p' q'"
  using assms(2-5,7,11-14)
proof (induction inps arbitrary: p q bus l c l' c')
  case Nil
  then show ?case by (auto simp: stream_frames_def)
next
  case (Cons inp inps)
  obtain clk clk' clk'' v a where inp: "inp = (clk, clk', clk'', v, a)" by (metis prod_cases5)
  define l1 where "l1 = lww_set v (stamp_of epoch clk) l"
  define c1 where "c1 = gc_increment a c"
  have v: "length v \<le> 1269" and ts: "lww_timestamp l' < stamp_of epoch clk" and a: "unat (gc_local_count c) + unat a < 2 ^ 64"
    using Cons.prems by (simp_all add: inp)
  obtain p1 q1 bus1 where f: "stream_frame env ct st pos score inp (p, q, bus) = (p1, q1, bus1)"
    "linked env seed ep epoch p1 q1" "shows_state (sp_hash pos) (sp_hash score) p1 (l1\<lparr>lww_dirty := False\<rparr>) (c1\<lparr>gc_dirty := False\<rparr>)" "nothing_pending p1"
    "shows_state (sp_hash pos) (sp_hash score) q1 (fst (lww_merge (lww_encode_state l1) l')) (fst (gc_merge (snd (gc_delta c1)) c'))" "bus_queue ep bus1 = []"
    using stream_step [OF assms(1) Cons.prems(1-4) refl refl assms(6) v Cons.prems(5) assms(8-10), where clk = clk and clk' = clk' and clk'' = clk'' and a = a]
    unfolding l1_def c1_def inp by metis
  have "gc_ok c'" using Cons.prems(4) by (simp add: shows_state_def)
  note k = counter_step [OF this Cons.prems(8) a, folded c1_def]
  have dirty: "gc_local_count (c1\<lparr>gc_dirty := False\<rparr>) = gc_local_count c1" by (simp add: gc_local_count_map gc_counts_def)
  have sum: "unat (gc_local_count c1) = unat (gc_local_count c) + unat a"
    using a by (simp add: k(3) unat_add_lem [THEN iffD1])
  obtain p' q' bus' l2 c2 l2' c2' where r: "stream_frames env ct st pos score inps (p1, q1, bus1) = (p', q', bus')"
    "shows_state (sp_hash pos) (sp_hash score) p' l2 c2" "shows_state (sp_hash pos) (sp_hash score) q' l2' c2'"
    "lww_value l2' = last (lww_value (fst (lww_merge (lww_encode_state l1) l')) # map (\<lambda>(clk, clk', clk'', v, a). v) inps)"
    "gc_value c2' = gc_value (fst (gc_merge (snd (gc_delta c1)) c')) + (\<Sum>(clk, clk', clk'', v, a)\<leftarrow>inps. a)"
    "bus_queue ep bus' = []" "nothing_pending p'" "linked env seed ep epoch p' q'"
    using Cons.IH [OF f(2-6)] Cons.prems(6,7,9) k(2,4) sum by (auto simp: dirty inp merge_newer [OF ts, folded l1_def] l1_def)
  then show ?case
    using f(1) k(1) by (intro exI) (auto simp: stream_frames_def inp merge_newer [OF ts, of v l] l1_def add.assoc)
qed

theorem streaming_replicates_witness:
  "let pos = state_path_new (\<lambda>b. 6) [47, 98]; score = state_path_new (\<lambda>b. 5) [47, 97];
       ep = \<lparr>ep_address = [], ep_port = 0\<rparr>; t = \<lparr>lt_local = ep, lt_bound = True\<rparr>;
       inps = [(\<lambda>_. 1000, \<lambda>_. 1000, \<lambda>_. 1500, [7], 100), (\<lambda>_. 2000, \<lambda>_. 2000, \<lambda>_. 2500, [8, 9], 100)]
   in \<exists>p q bus l c. stream_frames example_env t t pos score inps (streaming_peer 1 2, streaming_peer 2 1, []) = (p, q, bus) \<and>
        shows_state 6 5 q l c \<and> lww_value l = [8, 9] \<and> gc_value c = 200 \<and> bus_queue ep bus = []"
proof -
  let ?pos = "state_path_new (\<lambda>b. 6) [47, 98]" and ?score = "state_path_new (\<lambda>b. 5) [47, 97]"
  let ?ep = "\<lparr>ep_address = [], ep_port = 0\<rparr>"
  let ?t = "\<lparr>lt_local = ?ep, lt_bound = True\<rparr>"
  let ?inps = "[(\<lambda>_. 1000, \<lambda>_. 1000, \<lambda>_. 1500, [7], 100), (\<lambda>_. 2000, \<lambda>_. 2000, \<lambda>_. 2500, [8, 9], 100)] :: stream_input list"
  have h: "sp_hash ?pos = 6" "sp_hash ?score = 5" by (simp_all add: state_path_new_def xxhash32_def Let_def)
  have v: "lww_timestamp (lww_new 2) = 0" "lww_value (lww_new 2) = []" "gc_value (gc_new 2) = 0"
    "count_of (gc_node_id (gc_new 1)) (gc_new 2) = gc_local_count (gc_new 1)" "gc_local_count (gc_new 1) = 0"
    by (simp_all add: lww_new_def lww_default_def gc_value_sum gc_new_def count_of_def gc_counts_def gc_local_count_map)
  have "\<exists>p' q' bus' l1 c1 l1' c1'. stream_frames example_env ?t ?t ?pos ?score ?inps (streaming_peer 1 2, streaming_peer 2 1, []) = (p', q', bus') \<and>
    shows_state (sp_hash ?pos) (sp_hash ?score) p' l1 c1 \<and> shows_state (sp_hash ?pos) (sp_hash ?score) q' l1' c1' \<and>
    lww_value l1' = last (lww_value (lww_new 2) # map (\<lambda>(clk, clk', clk'', v, a). v) ?inps) \<and>
    gc_value c1' = gc_value (gc_new 2) + (\<Sum>(clk, clk', clk'', v, a)\<leftarrow>?inps. a) \<and>
    bus_queue ?ep bus' = [] \<and> nothing_pending p' \<and> linked example_env [7] ?ep 0 p' q'"
    using streaming_start v
    by (intro streaming_replicates [OF example_env_laws, where l = "lww_new 1" and c = "gc_new 1"])
      (simp_all add: h stamp_of_def bus_queue_def)
  then show ?thesis by (simp add: v(2,3) h Let_def) blast
qed

text \<open>
  Where the time stamps do not grow. A turn whose stamp, with the client's node id, is not above that of the server's register leaves the register as it is:
  the value is lost on this server until a later write. Stamps are microseconds since the connection was made, modulo \<open>2\<^sup>3\<^sup>2\<close>, so this is
  what happens to a second write in the same microsecond, and to every write for up to another 71 minutes once a connection is 71 minutes old.
\<close>

lemma stale_write_unseen:
  assumes "ed25519_laws (env_ed env)" "linked env seed ep epoch p q"
    and "shows_state (sp_hash pos) (sp_hash score) p l c" "nothing_pending p" "shows_state (sp_hash pos) (sp_hash score) q l' c'"
    and "sp_hash pos \<noteq> sp_hash score" "length v \<le> 1269" "bus_queue ep bus = []" "lt_bound ct" "lt_bound st" "lt_local st = ep"
    and "(stamp_of epoch clk, lww_node_id l) \<le> lww_stamp l'"
  shows "\<exists>p' q' bus' c1'. stream_frame env ct st pos score (clk, clk', clk'', v, a) (p, q, bus) = (p', q', bus') \<and>
    shows_state (sp_hash pos) (sp_hash score) q' l' c1'"
  using stream_step [OF assms(1-5) refl refl assms(6-11), where clk = clk and clk' = clk' and clk'' = clk'' and a = a]
    merge_not_newer [OF assms(12), of v] by metis

lemma stamp_wraps:
  assumes "epoch \<le> clk 0"
  shows "stamp_of epoch (\<lambda>i. clk i + 1000 * 2 ^ 32) = stamp_of epoch clk"
proof -
  have "clk 0 + 1000 * 2 ^ 32 - epoch = (clk 0 - epoch) + 1000 * 2 ^ 32" using assms by (rule Nat.add_diff_assoc2 [symmetric])
  then have "(clk 0 + 1000 * 2 ^ 32 - epoch) div 1000 = 2 ^ 32 + (clk 0 - epoch) div 1000"
    by (simp only: div_mult_self2 [of "1000 :: nat", simplified])
  then have "stamp_of epoch (\<lambda>i. clk i + 1000 * 2 ^ 32) = 2 ^ LENGTH(32) + stamp_of epoch clk"
    by (simp only: stamp_of_def of_nat_add of_nat_power of_nat_numeral len_num1 len_bit0) simp
  then show ?thesis by (simp only: word_exp_length_eq_0 add_0)
qed

end
