(* ===== verification/Dump.thy ===== *)
theory Dump
  imports Packet
begin

text \<open>
  The packet dumper (\<^verbatim>\<open>tools/protocoll_dump.cpp\<close>). Its output is a list of lines, each to the standard output or the error
  stream, in the order they are printed; a file system is a map from names to contents, standard input a byte list. Reading
  a stream consumes a prefix of the bytes left. A string printed with \<^verbatim>\<open>%s\<close> from a \<^verbatim>\<open>c_str\<close> ends at its first zero byte.

  The lemmas show that a dumped payload can be parsed back from its hex form, and that a length-prefixed capture is
  decoded packet by packet.
\<close>

datatype line = Out string | Err string

section \<open>Formatting\<close>

definition hex_char :: "nat \<Rightarrow> char" where
  "hex_char n = ''0123456789abcdef'' ! n"

definition HEX_char :: "nat \<Rightarrow> char" where
  "HEX_char n = ''0123456789ABCDEF'' ! n"

fun dec_str :: "nat \<Rightarrow> string" where
  "dec_str n = (if n < 10 then [hex_char n] else dec_str (n div 10) @ [hex_char (n mod 10)])"

declare dec_str.simps [simp del]

text \<open>\<^verbatim>\<open>%u\<close>, \<^verbatim>\<open>%08X\<close> and \<^verbatim>\<open>%02X\<close>.\<close>

definition fmt_u :: "'a::len word \<Rightarrow> string" where
  "fmt_u w = dec_str (unat w)"

fun HEX_str :: "nat \<Rightarrow> nat \<Rightarrow> string" where
  "HEX_str 0 n = []"
| "HEX_str (Suc width) n = HEX_str width (n div 16) @ [HEX_char (n mod 16)]"

definition fmt_08X :: "u32 \<Rightarrow> string" where
  "fmt_08X w = HEX_str 8 (unat w)"

definition fmt_02X :: "u8 \<Rightarrow> string" where
  "fmt_02X w = HEX_str 2 (unat w)"

definition c_str :: "bytes \<Rightarrow> string" where
  "c_str bs = map (\<lambda>b. char_of (unat b)) (takeWhile (\<lambda>b. b \<noteq> 0) bs)"

definition packet_type_str :: "packet_type \<Rightarrow> string" where
  "packet_type_str t =
    (case t of PT_DATA \<Rightarrow> ''DATA'' | PT_CONTROL \<Rightarrow> ''CONTROL'' | PT_HANDSHAKE \<Rightarrow> ''HANDSHAKE'' | _ \<Rightarrow> ''UNKNOWN'')"

definition frame_type_str :: "frame_type \<Rightarrow> string" where
  "frame_type_str t =
    (case t of
       FT_STATE_DECLARE \<Rightarrow> ''STATE_DECLARE'' | FT_STATE_SNAPSHOT \<Rightarrow> ''STATE_SNAPSHOT'' | FT_STATE_DELTA \<Rightarrow> ''STATE_DELTA''
     | FT_STATE_SUBSCRIBE \<Rightarrow> ''STATE_SUBSCRIBE'' | FT_STATE_UNSUBSCRIBE \<Rightarrow> ''STATE_UNSUBSCRIBE'' | FT_CREDIT \<Rightarrow> ''CREDIT''
     | FT_ACK \<Rightarrow> ''ACK'' | FT_NACK \<Rightarrow> ''NACK'' | FT_CAPABILITY_GRANT \<Rightarrow> ''CAPABILITY_GRANT''
     | FT_CAPABILITY_REVOKE \<Rightarrow> ''CAPABILITY_REVOKE'' | FT_CLOCK_SYNC \<Rightarrow> ''CLOCK_SYNC'' | FT_PING \<Rightarrow> ''PING'' | FT_PONG \<Rightarrow> ''PONG''
     | FT_CONNECT \<Rightarrow> ''CONNECT'' | FT_ACCEPT \<Rightarrow> ''ACCEPT'' | FT_CLOSE \<Rightarrow> ''CLOSE'' | _ \<Rightarrow> ''UNKNOWN'')"

definition crdt_type_str :: "crdt_type \<Rightarrow> string" where
  "crdt_type_str t =
    (case t of
       CRDT_NONE \<Rightarrow> ''NONE'' | CRDT_LWW_REGISTER \<Rightarrow> ''LWW_REGISTER'' | CRDT_G_COUNTER \<Rightarrow> ''G_COUNTER'' | CRDT_PN_COUNTER \<Rightarrow> ''PN_COUNTER''
     | CRDT_OR_SET \<Rightarrow> ''OR_SET'' | CRDT_MV_REGISTER \<Rightarrow> ''MV_REGISTER'' | CRDT_RGA \<Rightarrow> ''RGA'' | _ \<Rightarrow> ''UNKNOWN'')"

definition reliability_str :: "reliability \<Rightarrow> string" where
  "reliability_str r =
    (case r of REL_UNRELIABLE \<Rightarrow> ''UNRELIABLE'' | REL_BEST_EFFORT \<Rightarrow> ''BEST_EFFORT'' | REL_RELIABLE \<Rightarrow> ''RELIABLE'' | _ \<Rightarrow> ''UNKNOWN'')"

definition close_reason_str :: "close_reason \<Rightarrow> string" where
  "close_reason_str r =
    (case r of
       CR_NORMAL \<Rightarrow> ''NORMAL'' | CR_TIMEOUT \<Rightarrow> ''TIMEOUT'' | CR_PROTOCOL_ERROR \<Rightarrow> ''PROTOCOL_ERROR'' | CR_AUTH_FAILURE \<Rightarrow> ''AUTH_FAILURE''
     | CR_GOING_AWAY \<Rightarrow> ''GOING_AWAY'' | _ \<Rightarrow> ''UNKNOWN'')"

text \<open>The flag bits are CHECKSUM 8, COMPRESSED 4, ENCRYPTED 2 and RESERVED 1.\<close>

definition flags_str :: "u8 \<Rightarrow> string" where
  "flags_str flags =
    (let s = (if flags AND FLAG_CHECKSUM \<noteq> 0 then ''CHECKSUM '' else []) @ (if flags AND 0x04 \<noteq> 0 then ''COMPRESSED '' else []) @
             (if flags AND 0x02 \<noteq> 0 then ''ENCRYPTED '' else []) @ (if flags AND 0x01 \<noteq> 0 then ''RESERVED '' else [])
     in if s = [] then ''NONE'' else butlast s)"

definition hex_byte :: "u8 \<Rightarrow> string" where
  "hex_byte b = [hex_char (unat b div 16), hex_char (unat b mod 16)]"

fun hex_loop :: "bytes \<Rightarrow> string" where
  "hex_loop [] = []"
| "hex_loop [b] = hex_byte b"
| "hex_loop (b # bs) = hex_byte b @ '' '' @ hex_loop bs"

definition hex_bytes :: "bytes \<Rightarrow> nat \<Rightarrow> string" where
  "hex_bytes data max_show =
    (let shown = (if length data > max_show then max_show else length data)
     in hex_loop (take shown data) @
        (if length data > max_show then '' ... ('' @ dec_str (length data) @ '' bytes total)'' else []))"

section \<open>Packets\<close>

text \<open>What a frame prints, by its type; a frame that does not decode prints nothing.\<close>

definition delta_detail :: "bytes \<Rightarrow> line list" where
  "delta_detail p =
    (if STATE_DELTA_BASE_WIRE_SIZE \<le> length p
     then case state_delta_decode p of
       None \<Rightarrow> []
     | Some sdf \<Rightarrow>
         let has_sig = STATE_DELTA_MIN_WIRE_SIZE \<le> length p;
             delta_len = (if has_sig then length p - STATE_DELTA_BASE_WIRE_SIZE - SIGNATURE_SIZE
                          else length p - STATE_DELTA_BASE_WIRE_SIZE)
         in [Out (''      path_hash=0x'' @ fmt_08X (sdf_path_hash sdf) @ '' crdt='' @ crdt_type_str (sdf_crdt_type sdf) @
                  '' reliability='' @ reliability_str (sdf_reliability sdf) @ '' author='' @ fmt_u (sdf_author_node_id sdf)),
             Out (''      delta_len='' @ dec_str delta_len @ '' signed='' @ (if has_sig then ''yes'' else ''no''))] @
            (if delta_len > 0 then [Out (''      delta: '' @ hex_bytes (take delta_len (drop STATE_DELTA_BASE_WIRE_SIZE p)) 32)] else [])
     else [])"

definition snapshot_detail :: "bytes \<Rightarrow> line list" where
  "snapshot_detail p =
    (if STATE_SNAPSHOT_BASE_WIRE_SIZE \<le> length p
     then case state_snapshot_decode p of
       None \<Rightarrow> []
     | Some ssf \<Rightarrow>
         let has_sig = STATE_SNAPSHOT_MIN_WIRE_SIZE \<le> length p;
             snap_len = (if has_sig then length p - STATE_SNAPSHOT_BASE_WIRE_SIZE - SIGNATURE_SIZE
                         else length p - STATE_SNAPSHOT_BASE_WIRE_SIZE)
         in [Out (''      path_hash=0x'' @ fmt_08X (ssf_path_hash ssf) @ '' crdt='' @ crdt_type_str (ssf_crdt_type ssf) @
                  '' author='' @ fmt_u (ssf_author_node_id ssf)),
             Out (''      snapshot_len='' @ dec_str snap_len @ '' signed='' @ (if has_sig then ''yes'' else ''no''))]
     else [])"

definition declare_detail :: "bytes \<Rightarrow> line list" where
  "declare_detail p =
    (case state_declare_decode p of
       None \<Rightarrow> []
     | Some sd \<Rightarrow>
         [Out (''      path_hash=0x'' @ fmt_08X (sdecl_path_hash sd) @ '' crdt='' @ crdt_type_str (sdecl_crdt_type sd) @
               '' reliability='' @ reliability_str (sdecl_reliability sd))] @
         (if length p > STATE_DECLARE_BASE_WIRE_SIZE
          then [Out (''      path='' @ [char_of (34::nat)] @ c_str (drop STATE_DECLARE_BASE_WIRE_SIZE p) @ [char_of (34::nat)])] else []))"

definition print_frame_detail :: "frame \<Rightarrow> line list" where
  "print_frame_detail f =
    (let p = fr_payload f in
     case fh_type (fr_header f) of
       FT_CONNECT \<Rightarrow>
         (case connect_decode p of
            None \<Rightarrow> []
          | Some cf \<Rightarrow> [Out (''      magic=0x'' @ fmt_08X (cf_magic cf) @ '' version='' @ fmt_u (cf_version cf) @
                             '' max_frame_size='' @ fmt_u (cf_max_frame_size cf))])
     | FT_ACCEPT \<Rightarrow>
         (case accept_decode p of
            None \<Rightarrow> []
          | Some af \<Rightarrow> [Out (''      assigned_conn_id='' @ fmt_u (af_assigned_conn_id af) @ '' server_timestamp='' @
                             fmt_u (af_server_timestamp_us af) @ '' us'')])
     | FT_CLOSE \<Rightarrow>
         (case close_decode p of None \<Rightarrow> [] | Some clf \<Rightarrow> [Out (''      reason='' @ close_reason_str (clf_reason clf))])
     | FT_PING \<Rightarrow>
         (case ping_decode p of
            None \<Rightarrow> []
          | Some pf \<Rightarrow> [Out (''      ping_id='' @ fmt_u (pf_ping_id pf) @ '' timestamp='' @ fmt_u (pf_timestamp_us pf) @ '' us'')])
     | FT_PONG \<Rightarrow>
         (case ping_decode p of
            None \<Rightarrow> []
          | Some pf \<Rightarrow> [Out (''      ping_id='' @ fmt_u (pf_ping_id pf) @ '' timestamp='' @ fmt_u (pf_timestamp_us pf) @ '' us'')])
     | FT_ACK \<Rightarrow>
         (case ack_decode p of
            None \<Rightarrow> []
          | Some ack \<Rightarrow> [Out (''      largest_acked='' @ fmt_u (ackf_largest_acked ack) @ '' ack_delay='' @
                              fmt_u (ackf_ack_delay_us ack) @ '' us sack_ranges='' @ fmt_u (ackf_sack_range_count ack))])
     | FT_STATE_DECLARE \<Rightarrow> declare_detail p
     | FT_STATE_DELTA \<Rightarrow> delta_detail p
     | FT_STATE_SNAPSHOT \<Rightarrow> snapshot_detail p
     | FT_CAPABILITY_REVOKE \<Rightarrow>
         (case capability_revoke_decode p of
            None \<Rightarrow> []
          | Some cr \<Rightarrow> [Out (''      token_id='' @ fmt_u (crf_token_id cr) @ '' issuer='' @ fmt_u (crf_issuer_node_id cr))])
     | _ \<Rightarrow> if length p > 0 then [Out (''      payload: '' @ hex_bytes p 32)] else [])"

fun print_frames :: "nat \<Rightarrow> nat \<Rightarrow> frame list \<Rightarrow> line list" where
  "print_frames pkt_index frame_idx [] = []"
| "print_frames pkt_index frame_idx (f # fs) =
    Out (''  ['' @ dec_str pkt_index @ ''.'' @ dec_str frame_idx @ ''] '' @ frame_type_str (fh_type (fr_header f)) @ '' (0x'' @
         fmt_02X (frame_type_code (fh_type (fr_header f))) @ '') len='' @ fmt_u (fh_length (fr_header f))) #
    print_frame_detail f @ print_frames pkt_index (frame_idx + 1) fs"

definition decode_and_print :: "(bytes \<Rightarrow> u32) \<Rightarrow> bytes \<Rightarrow> nat \<Rightarrow> line list \<times> nat" where
  "decode_and_print xxh data pkt_index =
    (let (dec, parsed) = packet_decoder_parse data packet_decoder_new in
     if \<not> parsed
     then ([Err (''  ['' @ dec_str pkt_index @ ''] PARSE ERROR: cannot decode packet header ('' @ dec_str (length data) @ '' bytes)''),
            Out (''  raw: '' @ hex_bytes data 64)], 1)
     else
       let hdr = pd_header dec; fs = all_frames dec
       in (Out (''['' @ dec_str pkt_index @ ''] '' @ packet_type_str (ph_packet_type hdr) @ '' v'' @ fmt_u (ph_version hdr) @ '' conn='' @
                fmt_u (ph_connection_id hdr) @ '' pkt#'' @ fmt_u (ph_packet_number hdr) @ '' ts='' @ fmt_u (ph_timestamp_us hdr) @
                '' us payload='' @ fmt_u (ph_payload_length hdr) @ '' bytes flags=['' @ flags_str (ph_flags hdr) @ ''] checksum='' @
                (if verify_checksum xxh dec then ''OK'' else ''FAIL'')) #
           print_frames pkt_index 0 fs @
           (if fs = [] \<and> ph_payload_length hdr > 0
            then [Out (''  (no decodable frames in '' @ fmt_u (ph_payload_length hdr) @ '' payload bytes)'')] else []), 0))"

section \<open>Input\<close>

definition isxdigit :: "char \<Rightarrow> bool" where
  "isxdigit c = (c \<in> set ''0123456789abcdefABCDEF'')"

definition xdigit_val :: "char \<Rightarrow> nat" where
  "xdigit_val c =
    (let n = of_char c
     in if n < 58 then n - 48 else if n < 71 then n - 55 else n - 87)"

fun hex_pairs :: "string \<Rightarrow> bytes" where
  "hex_pairs (a # b # cs) = of_nat (xdigit_val a * 16 + xdigit_val b) # hex_pairs cs"
| "hex_pairs _ = []"

definition parse_hex_string :: "string \<Rightarrow> line list \<times> bytes" where
  "parse_hex_string hex =
    (let clean = filter isxdigit hex
     in if length clean mod 2 \<noteq> 0 then ([Err ''Error: hex string has odd length''], []) else ([], hex_pairs clean))"

function read_loop :: "(bytes \<Rightarrow> u32) \<Rightarrow> bytes \<Rightarrow> nat \<Rightarrow> nat \<Rightarrow> line list \<times> nat \<times> nat" where
  "read_loop xxh input pkt_index errors =
    (if length input < 2 then ([], pkt_index, errors)
     else
       let pkt_len = unat (input ! 0) * 256 + unat (input ! 1); rest = drop 2 input in
       if pkt_len = 0 \<or> pkt_len > MAX_PACKET_SIZE
       then ([Err (''  ['' @ dec_str pkt_index @ ''] Invalid packet length: '' @ dec_str pkt_len)], pkt_index, errors + 1)
       else if length rest < pkt_len
       then ([Err (''  ['' @ dec_str pkt_index @ ''] Truncated packet: expected '' @ dec_str pkt_len @ '' bytes, got '' @
                   dec_str (length rest))], pkt_index, errors + 1)
       else
         let (ls, err) = decode_and_print xxh (take pkt_len rest) pkt_index;
             (ls', n, e) = read_loop xxh (drop pkt_len rest) (pkt_index + 1) (errors + err)
         in (ls @ ls', n, e))"
  by pat_completeness auto
termination
  by (relation "measure (\<lambda>(xxh, input, i, e). length input)") auto

declare read_loop.simps [simp del]

definition read_length_prefixed :: "(bytes \<Rightarrow> u32) \<Rightarrow> bytes \<Rightarrow> line list \<times> nat" where
  "read_length_prefixed xxh input =
    (let (ls, n, errors) = read_loop xxh input 0 0
     in (ls @ [Out [], Out (''--- '' @ dec_str n @ '' packet(s) decoded, '' @ dec_str errors @ '' error(s) ---'')],
         if errors > 0 then 1 else 0))"

definition read_raw :: "(bytes \<Rightarrow> u32) \<Rightarrow> bytes \<Rightarrow> line list \<times> nat" where
  "read_raw xxh buf =
    (if buf = [] then ([Err ''Error: empty input''], 1)
     else if length buf \<ge> PACKET_HEADER_SIZE then decode_and_print xxh buf 0
     else ([Err (''Error: input too short for a packet ('' @ dec_str (length buf) @ '' bytes, need >= '' @
                 dec_str PACKET_HEADER_SIZE @ '')'')], 1))"

section \<open>Command line\<close>

definition print_usage :: "string \<Rightarrow> line list" where
  "print_usage prog =
    map Out [''Usage:'', ''  '' @ prog @ '' [options] [file]'', [], ''Options:'',
      ''  --hex <hexstring>   Decode a hex-encoded packet'',
      ''  --lp                Input is length-prefixed (2-byte BE length + packet)'',
      ''  --raw               Input is a single raw packet (default)'',
      ''  -h, --help          Show this help'', [], ''If no file is given, reads from stdin.'']"

record dump_args =
  da_use_hex :: bool
  da_length_prefixed :: bool
  da_hex_data :: string
  da_filename :: string

text \<open>The argument loop: \<open>Inl\<close> is an early return of \<^verbatim>\<open>main\<close> with its output.\<close>

fun parse_args :: "string \<Rightarrow> string list \<Rightarrow> dump_args \<Rightarrow> (line list \<times> nat) + dump_args" where
  "parse_args prog [] a = Inr a"
| "parse_args prog (arg # args) a =
    (if arg = ''--hex'' \<and> args \<noteq> [] then parse_args prog (tl args) (a\<lparr>da_use_hex := True, da_hex_data := hd args\<rparr>)
     else if arg = ''--lp'' then parse_args prog args (a\<lparr>da_length_prefixed := True\<rparr>)
     else if arg = ''--raw'' then parse_args prog args (a\<lparr>da_length_prefixed := False\<rparr>)
     else if arg = ''-h'' \<or> arg = ''--help'' then Inl (print_usage prog, 0)
     else if arg = [] \<or> hd arg \<noteq> CHR ''-'' then parse_args prog args (a\<lparr>da_filename := arg\<rparr>)
     else Inl (Err (''Unknown option: '' @ arg) # print_usage prog, 1))"

definition dump_main ::
    "(bytes \<Rightarrow> u32) \<Rightarrow> (string \<rightharpoonup> bytes) \<Rightarrow> bytes \<Rightarrow> string \<Rightarrow> string list \<Rightarrow> line list \<times> nat" where
  "dump_main xxh files stdin prog args =
    (case parse_args prog args \<lparr>da_use_hex = False, da_length_prefixed = False, da_hex_data = [], da_filename = []\<rparr> of
       Inl r \<Rightarrow> r
     | Inr a \<Rightarrow>
         if da_use_hex a
         then let (ls, bs) = parse_hex_string (da_hex_data a)
              in if bs = [] then (ls, 1) else let (ls', r) = decode_and_print xxh bs 0 in (ls @ ls', r)
         else if da_filename a \<noteq> []
         then case files (da_filename a) of
                None \<Rightarrow> ([Err (''Error: cannot open '' @ [CHR 0x27] @ da_filename a @ [CHR 0x27])], 1)
              | Some content \<Rightarrow> if da_length_prefixed a then read_length_prefixed xxh content else read_raw xxh content
         else if da_length_prefixed a then read_length_prefixed xxh stdin else read_raw xxh stdin)"

section \<open>Hex form\<close>

lemma hex_char_cases: "n < 16 \<Longrightarrow> isxdigit (hex_char n) \<and> xdigit_val (hex_char n) = n"
proof -
  have "\<forall>n \<in> {0..<16}. isxdigit (hex_char n) \<and> xdigit_val (hex_char n) = n" by code_simp
  then show "n < 16 \<Longrightarrow> isxdigit (hex_char n) \<and> xdigit_val (hex_char n) = n" by simp
qed

lemma nibble_lt: "unat (b :: u8) div 16 < 16"
proof -
  have "unat b < 2 ^ LENGTH(8)" by (rule unsigned_less)
  then show ?thesis by (simp add: less_mult_imp_div_less)
qed

lemma hex_byte_digits: "filter isxdigit (hex_byte b) = hex_byte b"
proof -
  have "unat b div 16 < 16" by (rule nibble_lt)
  then show ?thesis by (simp add: hex_byte_def hex_char_cases)
qed

lemma hex_pairs_byte: "hex_pairs (hex_byte b @ cs) = b # hex_pairs cs"
proof -
  have "unat b div 16 < 16" by (rule nibble_lt)
  then have "xdigit_val (hex_char (unat b div 16)) * 16 + xdigit_val (hex_char (unat b mod 16)) = unat b"
    by (simp add: hex_char_cases)
  then show ?thesis by (simp add: hex_byte_def)
qed

lemma not_xdigit_space: "\<not> isxdigit CHR '' ''"
  by code_simp

lemma hex_loop_pairs:
  "hex_pairs (filter isxdigit (hex_loop bs)) = bs \<and> length (filter isxdigit (hex_loop bs)) = 2 * length bs"
proof (induction bs rule: hex_loop.induct)
  case (2 b)
  then show ?case using hex_pairs_byte [of b "[]"] by (simp add: hex_byte_digits) (simp add: hex_byte_def)
next
  case (3 b c bs)
  have "filter isxdigit (hex_loop (b # c # bs)) = hex_byte b @ filter isxdigit (hex_loop (c # bs))"
    by (simp add: hex_byte_digits not_xdigit_space)
  with 3 show ?case by (simp add: hex_pairs_byte) (simp add: hex_byte_def)
qed simp

text \<open>
  The dumper reads its own hex. What \<^verbatim>\<open>hex_bytes\<close> prints of a byte sequence no longer than the limit, the option \<^verbatim>\<open>--hex\<close> parses back to
  exactly these bytes, and decodes them as a packet exactly as if the bytes themselves were given as raw input.
\<close>

theorem hex_roundtrip:
  assumes "length data \<le> limit" "PACKET_HEADER_SIZE \<le> length data"
  shows "parse_hex_string (hex_bytes data limit) = ([], data) \<and>
    dump_main xxh files stdin prog [''--hex'', hex_bytes data limit] = dump_main xxh files data prog [''--raw'']"
proof -
  have p: "parse_hex_string (hex_bytes data limit) = ([], data)"
    using assms(1) hex_loop_pairs [of data] by (simp add: parse_hex_string_def hex_bytes_def Let_def)
  moreover have "data \<noteq> []" using assms(2) by (auto simp: size_defs)
  ultimately show ?thesis using assms(2) by (simp add: dump_main_def read_raw_def)
qed

theorem hex_roundtrip_witness:
  "parse_hex_string (hex_bytes (replicate 16 0x5A) 32) = ([], replicate 16 0x5A)"
  using hex_roundtrip [of "replicate 16 0x5A" 32] by (simp add: size_defs)

section \<open>Length-prefixed captures\<close>

definition lp_stream :: "bytes list \<Rightarrow> bytes" where
  "lp_stream pkts = concat (map (\<lambda>p. be16 (of_nat (length p)) @ p) pkts)"

fun dumped :: "(bytes \<Rightarrow> u32) \<Rightarrow> nat \<Rightarrow> bytes list \<Rightarrow> (line list \<times> nat) list" where
  "dumped xxh i [] = []"
| "dumped xxh i (p # pkts) = decode_and_print xxh p i # dumped xxh (i + 1) pkts"

definition packet_sized :: "bytes \<Rightarrow> bool" where
  "packet_sized p \<longleftrightarrow> 0 < length p \<and> length p \<le> MAX_PACKET_SIZE"

lemma be16_nth: "n < 65536 \<Longrightarrow> unat (be16 (of_nat n) ! 0) * 256 + unat (be16 (of_nat n) ! Suc 0) = n"
proof -
  assume "n < 65536"
  then have "unat (of_nat n :: u16) = n" by (simp add: unat_of_nat take_bit_nat_eq_self)
  then show "unat (be16 (of_nat n) ! 0) * 256 + unat (be16 (of_nat n) ! Suc 0) = n"
    using \<open>n < 65536\<close>
    by (simp add: be16_def unsigned_drop_bit_eq unsigned_ucast_eq drop_bit_eq_div take_bit_eq_mod unat_div_distrib)
qed

lemma read_loop_packet:
  assumes "packet_sized p"
  shows "read_loop xxh (be16 (of_nat (length p)) @ p @ rest) i e =
    (let (ls, err) = decode_and_print xxh p i; (ls', n, er) = read_loop xxh rest (i + 1) (e + err) in (ls @ ls', n, er))"
proof -
  have len: "unat (be16 (of_nat (length p)) ! 0) * 256 + unat (be16 (of_nat (length p)) ! Suc 0) = length p"
    using assms by (intro be16_nth) (simp add: packet_sized_def size_defs)
  have "drop 2 (be16 (of_nat (length p)) @ p @ rest) = p @ rest" by (simp add: be16_def)
  with len assms show ?thesis
    by (subst read_loop.simps) (simp add: packet_sized_def nth_append split_beta Let_def)
qed

lemma read_loop_stream:
  assumes "list_all packet_sized pkts"
  shows "read_loop xxh (lp_stream pkts @ rest) i e =
    (let (ls, n, er) = read_loop xxh rest (i + length pkts) (e + sum_list (map snd (dumped xxh i pkts)))
     in (concat (map fst (dumped xxh i pkts)) @ ls, n, er))"
  using assms
proof (induction pkts arbitrary: i e)
  case (Cons p pkts)
  have "lp_stream (p # pkts) @ rest = be16 (of_nat (length p)) @ p @ lp_stream pkts @ rest" by (simp add: lp_stream_def)
  then show ?case
    using Cons.prems read_loop_packet [of p xxh "lp_stream pkts @ rest" i e] Cons.IH
    by (simp add: split_beta Let_def ac_simps)
qed (simp add: lp_stream_def split_beta Let_def)

text \<open>
  C39. A capture is decoded packet by packet. A file of length-prefixed packets of legal sizes yields the output of every packet, numbered in order, then the
  summary with their number and the number of packets that did not parse, and exit code 0 exactly when all parse. If the capture is cut
  inside the next packet, that is reported as one more error and the exit code is 1.
\<close>

theorem capture_decoded:
  assumes "list_all packet_sized pkts" "packet_sized q" "k < length q"
  shows "read_length_prefixed xxh (lp_stream pkts) =
      (concat (map fst (dumped xxh 0 pkts)) @
       [Out [], Out (''--- '' @ dec_str (length pkts) @ '' packet(s) decoded, '' @
                     dec_str (sum_list (map snd (dumped xxh 0 pkts))) @ '' error(s) ---'')],
       if \<forall>r \<in> set (dumped xxh 0 pkts). snd r = 0 then 0 else 1) \<and>
    read_length_prefixed xxh (lp_stream pkts @ be16 (of_nat (length q)) @ take k q) =
      (concat (map fst (dumped xxh 0 pkts)) @
       [Err (''  ['' @ dec_str (length pkts) @ ''] Truncated packet: expected '' @ dec_str (length q) @ '' bytes, got '' @ dec_str k),
        Out [], Out (''--- '' @ dec_str (length pkts) @ '' packet(s) decoded, '' @
                     dec_str (sum_list (map snd (dumped xxh 0 pkts)) + 1) @ '' error(s) ---'')], 1)"
proof -
  have len: "unat (be16 (of_nat (length q)) ! 0) * 256 + unat (be16 (of_nat (length q)) ! Suc 0) = length q"
    using assms(2) by (intro be16_nth) (simp add: packet_sized_def size_defs)
  have nil: "read_loop xxh [] i e = ([], i, e)" for i e by (simp add: read_loop.simps)
  have cut: "read_loop xxh (be16 (of_nat (length q)) @ take k q) i e =
      ([Err (''  ['' @ dec_str i @ ''] Truncated packet: expected '' @ dec_str (length q) @ '' bytes, got '' @ dec_str k)], i, e + 1)" for i e
    using len assms(2,3) by (subst read_loop.simps) (simp add: packet_sized_def nth_append Let_def)
  have pos: "0 < sum_list (map snd rs) \<longleftrightarrow> (\<exists>r \<in> set rs. 0 < snd r)" for rs :: "(line list \<times> nat) list"
    by (induction rs) auto
  show ?thesis
    using read_loop_stream [OF assms(1), of xxh "[]" 0 0]
      read_loop_stream [OF assms(1), of xxh "be16 (of_nat (length q)) @ take k q" 0 0]
    by (simp add: read_length_prefixed_def nil cut pos)
qed

theorem capture_decoded_witness:
  "snd (read_length_prefixed (\<lambda>_. 0) (lp_stream [[1, 2, 3], [4]])) = 1 \<and>
   snd (read_length_prefixed (\<lambda>_. 0) (lp_stream [] @ be16 (of_nat (length [4 :: u8, 5])) @ take 1 [4, 5])) = 1"
  using capture_decoded [of "[[1, 2, 3], [4]]" "[4, 5]" 1 "\<lambda>_. 0"] capture_decoded [of "[]" "[4, 5]" 1 "\<lambda>_. 0"]
  by (simp add: packet_sized_def size_defs decode_and_print_def packet_decoder_parse_def)

end
