(* ===== verification/Inspect.thy ===== *)
theory Inspect
  imports Dump
begin

text \<open>
  The state inspector (\<^verbatim>\<open>tools/protocoll_inspect.cpp\<close>): its global tables are the record \<open>inspector\<close>, its output a list of
  lines as in the dumper, whose formatting helpers are the same functions, duplicated in the source. The datagrams that arrive
  before the interrupt are a list. The lemmas show what the counters count.
\<close>

record tracked_state =
  ts_path :: bytes
  ts_path_hash :: u32
  ts_crdt_type :: crdt_type
  ts_reliability :: reliability
  ts_delta_count :: u32
  ts_snapshot_count :: u32
  ts_total_bytes :: u64
  ts_last_update :: nat

record inspector =
  ins_states :: "(u32, tracked_state) umap"
  ins_total_packets :: u32
  ins_total_frames :: u32

definition inspector_new :: inspector where
  "inspector_new = \<lparr>ins_states = [], ins_total_packets = 0, ins_total_frames = 0\<rparr>"

text \<open>The three kinds of frames that are inspected; \<open>now\<close> is the clock reading of the frame.\<close>

definition inspect_declare :: "nat \<Rightarrow> bytes \<Rightarrow> inspector \<Rightarrow> inspector \<times> line list" where
  "inspect_declare now payload s =
    (case state_declare_decode payload of
       None \<Rightarrow> (s, [])
     | Some sd \<Rightarrow>
         let path = (if length payload > STATE_DECLARE_BASE_WIRE_SIZE then drop STATE_DECLARE_BASE_WIRE_SIZE payload else []);
             ts = \<lparr>ts_path = path, ts_path_hash = sdecl_path_hash sd, ts_crdt_type = sdecl_crdt_type sd,
                   ts_reliability = sdecl_reliability sd, ts_delta_count = 0, ts_snapshot_count = 0, ts_total_bytes = 0,
                   ts_last_update = now\<rparr>
         in (s\<lparr>ins_states := um_put (sdecl_path_hash sd) ts (ins_states s)\<rparr>,
             [Out (''[DECLARE] '' @ c_str path @ '' (0x'' @ fmt_08X (sdecl_path_hash sd) @ '') crdt='' @
                   crdt_type_str (sdecl_crdt_type sd) @ '' reliability='' @ reliability_str (sdecl_reliability sd))]))"

definition inspect_delta :: "nat \<Rightarrow> frame \<Rightarrow> inspector \<Rightarrow> inspector \<times> line list" where
  "inspect_delta now f s =
    (if STATE_DELTA_BASE_WIRE_SIZE \<le> length (fr_payload f)
     then case state_delta_decode (fr_payload f) of
       None \<Rightarrow> (s, [])
     | Some sdf \<Rightarrow>
         (case um_find (ins_states s) (sdf_path_hash sdf) of
            None \<Rightarrow> s
          | Some ts \<Rightarrow>
              s\<lparr>ins_states := um_put (sdf_path_hash sdf)
                  (ts\<lparr>ts_delta_count := ts_delta_count ts + 1, ts_total_bytes := ts_total_bytes ts + ucast (fh_length (fr_header f)),
                      ts_last_update := now\<rparr>) (ins_states s)\<rparr>,
          [Out (''[DELTA] 0x'' @ fmt_08X (sdf_path_hash sdf) @ '' author='' @ fmt_u (sdf_author_node_id sdf) @ '' '' @
                fmt_u (fh_length (fr_header f)) @ '' bytes'')])
     else (s, []))"

definition inspect_snapshot :: "nat \<Rightarrow> frame \<Rightarrow> inspector \<Rightarrow> inspector \<times> line list" where
  "inspect_snapshot now f s =
    (if STATE_SNAPSHOT_BASE_WIRE_SIZE \<le> length (fr_payload f)
     then case state_snapshot_decode (fr_payload f) of
       None \<Rightarrow> (s, [])
     | Some ssf \<Rightarrow>
         (case um_find (ins_states s) (ssf_path_hash ssf) of
            None \<Rightarrow> s
          | Some ts \<Rightarrow>
              s\<lparr>ins_states := um_put (ssf_path_hash ssf)
                  (ts\<lparr>ts_snapshot_count := ts_snapshot_count ts + 1, ts_total_bytes := ts_total_bytes ts + ucast (fh_length (fr_header f)),
                      ts_last_update := now\<rparr>) (ins_states s)\<rparr>,
          [Out (''[SNAPSHOT] 0x'' @ fmt_08X (ssf_path_hash ssf) @ '' author='' @ fmt_u (ssf_author_node_id ssf) @ '' '' @
                fmt_u (fh_length (fr_header f)) @ '' bytes'')])
     else (s, []))"

definition inspect_frame :: "nat \<Rightarrow> frame \<Rightarrow> inspector \<Rightarrow> inspector \<times> line list" where
  "inspect_frame now f s =
    (let s1 = s\<lparr>ins_total_frames := ins_total_frames s + 1\<rparr>
     in case fh_type (fr_header f) of
          FT_STATE_DECLARE \<Rightarrow> inspect_declare now (fr_payload f) s1
        | FT_STATE_DELTA \<Rightarrow> inspect_delta now f s1
        | FT_STATE_SNAPSHOT \<Rightarrow> inspect_snapshot now f s1
        | _ \<Rightarrow> (s1, []))"

fun inspect_frames :: "nat \<Rightarrow> frame list \<Rightarrow> inspector \<Rightarrow> inspector \<times> line list" where
  "inspect_frames now [] s = (s, [])"
| "inspect_frames now (f # fs) s =
    (let (s1, ls) = inspect_frame now f s; (s2, ls') = inspect_frames now fs s1 in (s2, ls @ ls'))"

text \<open>The frames of one packet are taken to have the same clock reading, which is stored and never read.\<close>

definition inspect_packet :: "nat \<Rightarrow> bytes \<Rightarrow> inspector \<Rightarrow> inspector \<times> line list" where
  "inspect_packet now data s =
    (let (dec, parsed) = packet_decoder_parse data packet_decoder_new
     in if \<not> parsed then (s, [])
        else inspect_frames now (all_frames dec) (s\<lparr>ins_total_packets := ins_total_packets s + 1\<rparr>))"

section \<open>Report\<close>

text \<open>\<^verbatim>\<open>%-ns\<close> and \<^verbatim>\<open>%ns\<close>: padding to a width, on the right or on the left.\<close>

definition pad_right :: "nat \<Rightarrow> string \<Rightarrow> string" where
  "pad_right n s = s @ replicate (n - length s) CHR '' ''"

definition pad_left :: "nat \<Rightarrow> string \<Rightarrow> string" where
  "pad_left n s = replicate (n - length s) CHR '' '' @ s"

definition tree_row :: "string \<Rightarrow> string \<Rightarrow> string \<Rightarrow> string \<Rightarrow> string \<Rightarrow> string \<Rightarrow> line" where
  "tree_row path crdt rel deltas snaps bytes =
    Out (pad_right 40 path @ '' '' @ pad_right 14 crdt @ '' '' @ pad_right 12 rel @ '' '' @ pad_left 8 deltas @ '' '' @
         pad_left 8 snaps @ '' '' @ pad_left 10 bytes)"

definition print_state_tree :: "inspector \<Rightarrow> line list" where
  "print_state_tree s =
    [Out [], Out (''=== State Tree ('' @ dec_str (length (ins_states s)) @ '' regions) ===''),
     tree_row ''Path'' ''CRDT'' ''Reliability'' ''Deltas'' ''Snaps'' ''Bytes'',
     tree_row ''----'' ''----'' ''-----------'' ''------'' ''-----'' ''-----''] @
    map (\<lambda>(hash, state).
      tree_row (if ts_path state = [] then ''0x'' @ fmt_08X hash else c_str (ts_path state)) (crdt_type_str (ts_crdt_type state))
        (reliability_str (ts_reliability state)) (fmt_u (ts_delta_count state)) (fmt_u (ts_snapshot_count state))
        (fmt_u (ts_total_bytes state))) (ins_states s) @
    [Out [], Out (''Total: '' @ fmt_u (ins_total_packets s) @ '' packets, '' @ fmt_u (ins_total_frames s) @ '' frames'')]"

section \<open>Modes\<close>

text \<open>The datagrams received until the interrupt, each with the clock reading at its arrival. \<open>bound\<close> is the result of \<^verbatim>\<open>bind\<close>.\<close>

fun inspect_packets :: "(nat \<times> bytes) list \<Rightarrow> inspector \<Rightarrow> inspector \<times> line list" where
  "inspect_packets [] s = (s, [])"
| "inspect_packets ((now, data) # rest) s =
    (let (s1, ls) = inspect_packet now data s; (s2, ls') = inspect_packets rest s1 in (s2, ls @ ls'))"

definition listen_mode :: "bool \<Rightarrow> (nat \<times> bytes) list \<Rightarrow> string \<Rightarrow> u16 \<Rightarrow> line list \<times> nat" where
  "listen_mode bound datagrams host port =
    (if \<not> bound then ([Err (''Error: cannot bind to '' @ host @ '':'' @ fmt_u port)], 1)
     else
       let (s, ls) = inspect_packets datagrams inspector_new
       in ([Out (''Listening on '' @ host @ '':'' @ fmt_u port @ '' ...''), Out ''Press Ctrl+C to stop.'', Out []] @ ls @
           print_state_tree s, 0))"

function passive_loop :: "nat \<Rightarrow> bytes \<Rightarrow> inspector \<Rightarrow> inspector \<times> line list" where
  "passive_loop now input s =
    (if length input < 2 then (s, [])
     else
       let pkt_len = unat (input ! 0) * 256 + unat (input ! 1); rest = drop 2 input
       in if pkt_len = 0 \<or> pkt_len > MAX_PACKET_SIZE then (s, [])
          else if length rest < pkt_len then (s, [])
          else
            let (s1, ls) = inspect_packet now (take pkt_len rest) s; (s2, ls') = passive_loop now (drop pkt_len rest) s1
            in (s2, ls @ ls'))"
  by pat_completeness auto
termination
  by (relation "measure (\<lambda>(now, input, s). length input)") auto

declare passive_loop.simps [simp del]

definition passive_mode :: "nat \<Rightarrow> bytes \<Rightarrow> line list \<times> nat" where
  "passive_mode now stdin =
    (let (s, ls) = passive_loop now stdin inspector_new
     in ([Out ''Reading packets from stdin (length-prefixed format)...'', Out []] @ ls @ print_state_tree s, 0))"

section \<open>Command line\<close>

definition inspect_usage :: "string \<Rightarrow> line list" where
  "inspect_usage prog =
    map Out [''Usage:'', ''  '' @ prog @ '' <host> <port> [--watch]  Listen on UDP and inspect packets'',
      ''  '' @ prog @ '' --stdin [--watch]         Read length-prefixed packets from stdin'',
      ''  '' @ prog @ '' -h | --help              Show this help'', [], ''Options:'',
      ''  --watch    Show real-time updates (default: exit after Ctrl+C)'']"

text \<open>\<^verbatim>\<open>atoi\<close>: blanks, a sign, digits up to the first other character.\<close>

definition is_dec :: "char \<Rightarrow> bool" where
  "is_dec c = (c \<in> set ''0123456789'')"

definition atoi :: "string \<Rightarrow> int" where
  "atoi s =
    (let s1 = dropWhile (\<lambda>c. c = CHR '' '' \<or> (9::nat) \<le> of_char c \<and> of_char c \<le> (13::nat)) s;
         digits = (\<lambda>ds. foldl (\<lambda>n c. n * 10 + int (xdigit_val c)) 0 (takeWhile is_dec ds))
     in case s1 of
          [] \<Rightarrow> 0
        | c # cs \<Rightarrow> if c = CHR ''-'' then - digits cs else if c = CHR ''+'' then digits cs else digits s1)"

record inspect_args =
  ia_watch :: bool
  ia_use_stdin :: bool
  ia_host :: string
  ia_port :: u16

fun parse_inspect_args :: "string \<Rightarrow> string list \<Rightarrow> inspect_args \<Rightarrow> (line list \<times> nat) + inspect_args" where
  "parse_inspect_args prog [] a = Inr a"
| "parse_inspect_args prog (arg # args) a =
    (if arg = ''--watch'' then parse_inspect_args prog args (a\<lparr>ia_watch := True\<rparr>)
     else if arg = ''--stdin'' then parse_inspect_args prog args (a\<lparr>ia_use_stdin := True\<rparr>)
     else if arg = ''-h'' \<or> arg = ''--help'' then Inl (inspect_usage prog, 0)
     else if ia_host a = [] \<and> (arg = [] \<or> hd arg \<noteq> CHR ''-'') then parse_inspect_args prog args (a\<lparr>ia_host := arg\<rparr>)
     else if ia_port a = 0 \<and> ia_host a \<noteq> [] then parse_inspect_args prog args (a\<lparr>ia_port := of_int (atoi arg)\<rparr>)
     else Inl (Err (''Unknown argument: '' @ arg) # inspect_usage prog, 1))"

definition inspect_main ::
    "nat \<Rightarrow> bytes \<Rightarrow> (string \<Rightarrow> u16 \<Rightarrow> bool) \<Rightarrow> (nat \<times> bytes) list \<Rightarrow> string \<Rightarrow> string list \<Rightarrow> line list \<times> nat" where
  "inspect_main now stdin bind datagrams prog args =
    (case parse_inspect_args prog args \<lparr>ia_watch = False, ia_use_stdin = False, ia_host = [], ia_port = 0\<rparr> of
       Inl r \<Rightarrow> r
     | Inr a \<Rightarrow>
         if ia_use_stdin a then passive_mode now stdin
         else if ia_host a \<noteq> [] \<and> ia_port a > 0 then listen_mode (bind (ia_host a) (ia_port a)) datagrams (ia_host a) (ia_port a)
         else if ia_host a = [] \<and> ia_port a = 0 then passive_mode now stdin
         else (inspect_usage prog, 1))"

section \<open>What the counters count\<close>

text \<open>A frame that names a path: its type, at least its fixed part, and the path hash in front.\<close>

definition names_path :: "frame_type \<Rightarrow> nat \<Rightarrow> u32 \<Rightarrow> frame \<Rightarrow> bool" where
  "names_path t base h f \<longleftrightarrow> fh_type (fr_header f) = t \<and> base \<le> length (fr_payload f) \<and> read_u32 (fr_payload f) = h"

definition data_bytes :: "u32 \<Rightarrow> frame list \<Rightarrow> u64" where
  "data_bytes h fs = sum_list (map (\<lambda>f. ucast (fh_length (fr_header f)))
     (filter (\<lambda>f. names_path FT_STATE_DELTA 8 h f \<or> names_path FT_STATE_SNAPSHOT 7 h f) fs))"

definition counted :: "u32 \<Rightarrow> frame list \<Rightarrow> tracked_state \<Rightarrow> tracked_state \<Rightarrow> bool" where
  "counted h fs ts ts' \<longleftrightarrow>
     ts_delta_count ts' = ts_delta_count ts + of_nat (length (filter (names_path FT_STATE_DELTA 8 h) fs)) \<and>
     ts_snapshot_count ts' = ts_snapshot_count ts + of_nat (length (filter (names_path FT_STATE_SNAPSHOT 7 h) fs)) \<and>
     ts_total_bytes ts' = ts_total_bytes ts + data_bytes h fs \<and> ts_path ts' = ts_path ts \<and> ts_crdt_type ts' = ts_crdt_type ts"

definition packet_frames :: "bytes \<Rightarrow> frame list" where
  "packet_frames data =
    (let (dec, parsed) = packet_decoder_parse data packet_decoder_new in if parsed then all_frames dec else [])"

fun capture_frames :: "(nat \<times> bytes) list \<Rightarrow> frame list" where
  "capture_frames [] = []"
| "capture_frames (d # ds) = packet_frames (snd d) @ capture_frames ds"

lemmas inspect_defs = inspect_frame_def inspect_declare_def inspect_delta_def inspect_snapshot_def state_declare_decode_def
  state_delta_decode_def state_snapshot_decode_def STATE_DECLARE_BASE_WIRE_SIZE_def STATE_DELTA_BASE_WIRE_SIZE_def
  STATE_SNAPSHOT_BASE_WIRE_SIZE_def names_path_def

lemma inspect_frame_tracked:
  assumes "um_find (ins_states s) h = Some ts" "\<not> names_path FT_STATE_DECLARE 6 h f"
  shows "\<exists>ts'. um_find (ins_states (fst (inspect_frame now f s))) h = Some ts' \<and> counted h [f] ts ts'"
  using assms
  by (cases "fh_type (fr_header f)")
    (auto simp: inspect_defs counted_def data_bytes_def update_conv' Let_def split: option.splits)

lemma inspect_frame_untracked:
  assumes "um_find (ins_states s) h = None" "\<not> names_path FT_STATE_DECLARE 6 h f"
  shows "um_find (ins_states (fst (inspect_frame now f s))) h = None"
  using assms
  by (cases "fh_type (fr_header f)") (auto simp: inspect_defs update_conv' Let_def split: option.splits)

lemma inspect_frame_total:
  "ins_total_frames (fst (inspect_frame now f s)) = ins_total_frames s + 1"
  "ins_total_packets (fst (inspect_frame now f s)) = ins_total_packets s"
  by (auto simp: inspect_defs Let_def split: frame_type.split option.split)

lemma counted_append: "counted h fs ts ts1 \<Longrightarrow> counted h gs ts1 ts2 \<Longrightarrow> counted h (fs @ gs) ts ts2"
  by (auto simp: counted_def data_bytes_def)

lemma inspect_frames_counts:
  assumes "\<forall>f \<in> set fs. \<not> names_path FT_STATE_DECLARE 6 h f"
  shows "(case um_find (ins_states s) h of
       None \<Rightarrow> um_find (ins_states (fst (inspect_frames now fs s))) h = None
     | Some ts \<Rightarrow> \<exists>ts'. um_find (ins_states (fst (inspect_frames now fs s))) h = Some ts' \<and> counted h fs ts ts') \<and>
    ins_total_frames (fst (inspect_frames now fs s)) = ins_total_frames s + of_nat (length fs) \<and>
    ins_total_packets (fst (inspect_frames now fs s)) = ins_total_packets s"
  using assms
proof (induction fs arbitrary: s)
  case (Cons f fs)
  let ?s = "fst (inspect_frame now f s)"
  have IH: "case um_find (ins_states ?s) h of
       None \<Rightarrow> um_find (ins_states (fst (inspect_frames now fs ?s))) h = None
     | Some ts \<Rightarrow> \<exists>ts'. um_find (ins_states (fst (inspect_frames now fs ?s))) h = Some ts' \<and> counted h fs ts ts'"
    "ins_total_frames (fst (inspect_frames now fs ?s)) = ins_total_frames ?s + of_nat (length fs)"
    "ins_total_packets (fst (inspect_frames now fs ?s)) = ins_total_packets ?s"
    using Cons by simp_all
  have f: "\<not> names_path FT_STATE_DECLARE 6 h f" using Cons.prems by simp
  show ?case
  proof (cases "um_find (ins_states s) h")
    case None
    then show ?thesis
      using inspect_frame_untracked [OF None f, of now] IH inspect_frame_total [of now f s] by (simp add: split_beta)
  next
    case (Some ts)
    obtain ts1 where "um_find (ins_states ?s) h = Some ts1" "counted h [f] ts ts1"
      using inspect_frame_tracked [OF Some f, of now] by blast
    then show ?thesis
      using Some IH inspect_frame_total [of now f s] counted_append [of h "[f]" ts ts1 fs] by (auto simp: split_beta)
  qed
qed (auto simp: counted_def data_bytes_def split: option.split)

text \<open>
  C40. The inspector's counters. Over any sequence of received datagrams that declares a path no further, the entry of the path, if it has one, counts exactly
  the delta frames and the snapshot frames that name it and the sum of their payload lengths, and no entry appears if it has none; the
  totals count every packet that parses, whatever its checksum, and every frame of these, modulo \<open>2^32\<close>.
\<close>

theorem inspector_counts:
  assumes "\<forall>f \<in> set (capture_frames ds). \<not> names_path FT_STATE_DECLARE 6 h f"
  shows "(case um_find (ins_states s) h of
       None \<Rightarrow> um_find (ins_states (fst (inspect_packets ds s))) h = None
     | Some ts \<Rightarrow> \<exists>ts'. um_find (ins_states (fst (inspect_packets ds s))) h = Some ts' \<and>
         counted h (capture_frames ds) ts ts') \<and>
    ins_total_frames (fst (inspect_packets ds s)) = ins_total_frames s + of_nat (length (capture_frames ds)) \<and>
    ins_total_packets (fst (inspect_packets ds s)) =
      ins_total_packets s + of_nat (length (filter (\<lambda>d. snd (packet_decoder_parse (snd d) packet_decoder_new)) ds))"
  using assms
proof (induction ds arbitrary: s)
  case Nil
  then show ?case by (auto simp: counted_def data_bytes_def split: option.split)
next
  case (Cons d ds)
  obtain now data where d: "d = (now, data)" by fastforce
  define begun where "begun = (if snd (packet_decoder_parse data packet_decoder_new)
      then s\<lparr>ins_total_packets := ins_total_packets s + 1\<rparr> else s)"
  have same: "ins_states begun = ins_states s" "ins_total_frames begun = ins_total_frames s" by (simp_all add: begun_def)
  let ?s = "fst (inspect_frames now (packet_frames data) begun)"
  have step: "fst (inspect_packet now data s) = ?s"
    by (simp add: inspect_packet_def packet_frames_def begun_def split_beta Let_def)
  have one: "(case um_find (ins_states s) h of
       None \<Rightarrow> um_find (ins_states ?s) h = None
     | Some ts \<Rightarrow> \<exists>ts'. um_find (ins_states ?s) h = Some ts' \<and> counted h (packet_frames data) ts ts')"
    "ins_total_frames ?s = ins_total_frames s + of_nat (length (packet_frames data))"
    "ins_total_packets ?s = ins_total_packets begun"
    using inspect_frames_counts [of "packet_frames data" h now begun] Cons.prems by (simp_all add: d same)
  have rest: "fst (inspect_packets (d # ds) s) = fst (inspect_packets ds ?s)"
    by (simp add: d split_beta Let_def step)
  have IH: "case um_find (ins_states ?s) h of
       None \<Rightarrow> um_find (ins_states (fst (inspect_packets ds ?s))) h = None
     | Some ts \<Rightarrow> \<exists>ts'. um_find (ins_states (fst (inspect_packets ds ?s))) h = Some ts' \<and>
         counted h (capture_frames ds) ts ts'"
    "ins_total_frames (fst (inspect_packets ds ?s)) = ins_total_frames ?s + of_nat (length (capture_frames ds))"
    "ins_total_packets (fst (inspect_packets ds ?s)) =
      ins_total_packets ?s + of_nat (length (filter (\<lambda>d. snd (packet_decoder_parse (snd d) packet_decoder_new)) ds))"
    using Cons.IH [of ?s] Cons.prems by simp_all
  show ?case
    unfolding rest using one IH counted_append [of h "packet_frames data"]
    by (cases "um_find (ins_states s) h") (auto simp: d begun_def split: option.splits if_splits)
qed

theorem inspector_counts_witness:
  "let f = (FT_STATE_DELTA, [0, 0, 0, 5, 2, 0, 0, 1]); pkt = snd (finalize (\<lambda>_. 0) (fst (add_frames [f] packet_encoder_new)));
       ts = \<lparr>ts_path = [47], ts_path_hash = 5, ts_crdt_type = CRDT_G_COUNTER, ts_reliability = REL_RELIABLE, ts_delta_count = 2,
             ts_snapshot_count = 0, ts_total_bytes = 20, ts_last_update = 0\<rparr>;
       s = fst (inspect_packets [(9, pkt), (10, [1, 2])] \<lparr>ins_states = [(5, ts)], ins_total_packets = 4, ins_total_frames = 7\<rparr>)
   in ins_total_packets s = 5 \<and> ins_total_frames s = 8 \<and>
      (\<exists>ts'. um_find (ins_states s) 5 = Some ts' \<and> ts_delta_count ts' = 3 \<and> ts_total_bytes ts' = 28)"
proof -
  let ?f = "(FT_STATE_DELTA, [0, 0, 0, 5, 2, 0, 0, 1] :: bytes)"
  let ?pkt = "snd (finalize (\<lambda>_. 0) (fst (add_frames [?f] packet_encoder_new)))"
  let ?ds = "[(9, ?pkt), (10, [1, 2])]"
  let ?ts = "\<lparr>ts_path = [47], ts_path_hash = 5, ts_crdt_type = CRDT_G_COUNTER, ts_reliability = REL_RELIABLE, ts_delta_count = 2,
             ts_snapshot_count = 0, ts_total_bytes = 20, ts_last_update = 0\<rparr>"
  let ?s = "\<lparr>ins_states = [(5, ?ts)], ins_total_packets = 4, ins_total_frames = 7\<rparr>"
  obtain e where e: "add_frames [?f] packet_encoder_new = (e, True)" "enc_holds e (concat (map frame_bytes [?f]))"
    "e\<lparr>pe_buf := [], pe_cursor := 0\<rparr> = packet_encoder_new\<lparr>pe_buf := [], pe_cursor := 0\<rparr>"
    using enc_holds_add_frames [OF enc_holds_new, of "[?f]"] by (auto simp: packet_encoder_new_def size_defs sendable_def)
  have "pe_packet_type e = PT_DATA" "pe_flags e = FLAG_CHECKSUM"
    using arg_cong [OF e(3), of pe_packet_type] arg_cong [OF e(3), of pe_flags] by (simp_all add: packet_encoder_new_def)
  then have fs: "packet_frames ?pkt = [mk_frame ?f]" "snd (packet_decoder_parse ?pkt packet_decoder_new)"
    using finalize_decodes [OF e(2), of "\<lambda>_. 0" packet_decoder_new] e(1)
    by (auto simp: packet_frames_def sendable_def FLAG_CHECKSUM_def)
  have bad: "packet_frames [1, 2] = []" "\<not> snd (packet_decoder_parse [1, 2] packet_decoder_new)"
    by (simp_all add: packet_frames_def packet_decoder_parse_def size_defs)
  have "read_u32 [0, 0, 0, 5] = 5" by code_simp
  then have names: "names_path t n 5 (mk_frame ?f) \<longleftrightarrow> t = FT_STATE_DELTA \<and> n \<le> 8" for t n
    by (auto simp: names_path_def mk_frame_def read_u32_Cons)
  have all: "capture_frames ?ds = [mk_frame ?f]" using fs bad by simp
  have "\<forall>f \<in> set (capture_frames ?ds). \<not> names_path FT_STATE_DECLARE 6 5 f"
    unfolding all by (simp add: names)
  from inspector_counts [OF this, of ?s] show ?thesis
    unfolding all Let_def using fs(2) bad(2)
    by (auto simp: counted_def data_bytes_def names simp del: inspect_packets.simps) (simp add: mk_frame_def)
qed

end
