(* ===== verification/Spec2Isabelle.thy ===== *)
theory Spec2Isabelle
  imports Packet Crdt_Lww Crdt_Counter Crdt_OrSet Version_Vector State_Path State_Registry Resolution
    Subscription Observer Event_Log Ack_Tracker Fec Freshness Congestion Handshake Recovery Routing Capability
    Relay Async Completion Dpdk Binding_Web Streaming Inspect
begin

text \<open>
  A verification library for ROM (\<^verbatim>\<open>protocoll\<close>), a C++ protocol that replicates state as CRDTs over datagrams. All paths
  below are relative to \<^verbatim>\<open>src/\<close>; headers are under \<^verbatim>\<open>include/protocoll/\<close>, implementations under \<^verbatim>\<open>src/\<close>.

  \<^bold>\<open>The program.\<close> An application declares paths (\<^verbatim>\<open>/game/player/1\<close>) with a CRDT type. A \<^verbatim>\<open>Peer\<close> holds the regions in a registry,
  collects the pending deltas, signs each with Ed25519, packs them as STATE_DELTA frames into packets with a checksum, and
  sends these to every connection at the resolution of that connection. A receiving peer parses the packet, checks the signature against
  the key registered for the author, optionally looks for a capability token, and merges. Around this stand the
  connection handshake, acknowledgements, congestion control, forward error correction, freshness deadlines, a routing
  table that learns from deliveries, relays that merge before they forward, an event log for recovery, transports from an
  in-process bus to kernel bypass, a C interface with bindings for four languages, and two tools.

  \<^bold>\<open>Theories and sources.\<close>
  \<^item> \<^verbatim>\<open>Rom_Prelude\<close>: words, byte buffers and the two map types of the code (\<open>umap\<close> for \<^verbatim>\<open>std::unordered_map\<close>, an association list
    whose order is the iteration order; an ordered map for \<^verbatim>\<open>std::map\<close>), behind the interface \<open>keyed_store\<close>.
  \<^item> \<^verbatim>\<open>Bytes\<close> (\<^verbatim>\<open>util/platform.h\<close>, \<^verbatim>\<open>util/hash.cpp\<close>): byte order and the interface \<open>fixed_codec\<close> of every fixed-size encoding.
  \<^item> \<^verbatim>\<open>Frame_Types\<close>, \<^verbatim>\<open>Frames\<close>, \<^verbatim>\<open>Packet\<close> (\<^verbatim>\<open>wire/\<close>): enumerations, frames, packet header, encoder and decoder.
  \<^item> \<^verbatim>\<open>Crdt_Base\<close>: the interfaces \<open>join_replica\<close> and \<open>join_crdt\<close> of a replica whose merge is a join. \<^verbatim>\<open>Crdt_Lww\<close>, \<^verbatim>\<open>Crdt_Counter\<close>,
    \<^verbatim>\<open>Crdt_OrSet\<close> (\<^verbatim>\<open>state/crdt/\<close>) are its instances; \<^verbatim>\<open>Version_Vector\<close> (\<^verbatim>\<open>state/version_vector\<close>) is another.
  \<^item> \<^verbatim>\<open>State_Path\<close>, \<^verbatim>\<open>State_Registry\<close>, \<^verbatim>\<open>Resolution\<close>, \<^verbatim>\<open>Subscription\<close>, \<^verbatim>\<open>Observer\<close>, \<^verbatim>\<open>Event_Log\<close>: the files of the same name in \<^verbatim>\<open>state/\<close>.
  \<^item> \<^verbatim>\<open>Ack_Tracker\<close>, \<^verbatim>\<open>Fec\<close>, \<^verbatim>\<open>Freshness\<close>, \<^verbatim>\<open>Congestion\<close> (\<^verbatim>\<open>reliability/\<close>); \<^verbatim>\<open>Doubles\<close> holds what is said of floating-point numbers.
  \<^item> \<^verbatim>\<open>Connection\<close>, \<^verbatim>\<open>Handshake\<close>, \<^verbatim>\<open>Recovery\<close> (\<^verbatim>\<open>connection/\<close>), \<^verbatim>\<open>Routing\<close> (\<^verbatim>\<open>routing/\<close>), \<^verbatim>\<open>Capability\<close> (\<^verbatim>\<open>security/\<close>),
    \<^verbatim>\<open>Relay\<close> (\<^verbatim>\<open>relay/\<close>), with the interface \<open>relayed_crdt\<close> of a data type that survives merging on the way.
  \<^item> \<^verbatim>\<open>Transports\<close> (\<^verbatim>\<open>transport/loopback_transport\<close>, \<^verbatim>\<open>external_transport\<close>), behind the interface \<open>datagram_queue\<close>; \<^verbatim>\<open>Async\<close>
    (\<^verbatim>\<open>transport/async_transport\<close>) as a step relation.
  \<^item> \<^verbatim>\<open>Sockets\<close> (\<^verbatim>\<open>transport/udp_transport\<close>): sockets, with numeric addresses read and written; \<^verbatim>\<open>Completion\<close>
    (\<^verbatim>\<open>iouring_transport\<close>, \<^verbatim>\<open>iocp_transport\<close>) as machines of clients, threads and kernel, behind the interface \<open>completion_port\<close>; \<^verbatim>\<open>Dtls\<close>
    (\<^verbatim>\<open>dtls_transport\<close>); \<^verbatim>\<open>Dpdk\<close> (\<^verbatim>\<open>dpdk_transport\<close>), whose frames are built and read byte by byte.
  \<^item> \<^verbatim>\<open>Peer\<close> (\<^verbatim>\<open>peer.h\<close>, \<^verbatim>\<open>peer.cpp\<close>): every call of the class; \<^verbatim>\<open>Peer_Sync\<close>: what two peers do together;
    \<^verbatim>\<open>Streaming\<close> (\<^verbatim>\<open>examples/state_streaming_demo.cpp\<close>): the loop of two peers over a loopback bus.
  \<^item> \<^verbatim>\<open>C_Api\<close> (\<^verbatim>\<open>protocoll.h\<close>, \<^verbatim>\<open>protocoll_c_api.cpp\<close>); \<^verbatim>\<open>Bindings\<close> (\<^verbatim>\<open>bindings/python\<close>, \<^verbatim>\<open>rust\<close>, \<^verbatim>\<open>dotnet\<close>) and \<^verbatim>\<open>Binding_Web\<close>
    (\<^verbatim>\<open>bindings/wasm\<close>, with the browser transports), behind the interface \<open>register_binding\<close>; \<^verbatim>\<open>Dump\<close>, \<^verbatim>\<open>Inspect\<close> (\<^verbatim>\<open>tools/\<close>).

  \<^bold>\<open>How the model corresponds to the code.\<close> A class is a record with its fields in order, a method is a function that
  takes the object last and returns it updated together with its result; a \<^verbatim>\<open>bool\<close> result that reports failure stays a
  \<open>bool\<close>, an output parameter that is only set on success is an option. Integers are words of the width of the code, so
  wrap-around is part of every statement; \<^verbatim>\<open>size_t\<close> lengths of buffers in memory and the monotone clock are natural numbers. A pointer into a
  buffer is the rest of the buffer. A loop over a container is a recursive function over it. What the code does to the outside
  is a value: a packet given to the transport is in the list of packets returned, a callback is an event returned (and only
  if a callback is set), a printed line is an element of the output. What comes from outside is an argument: the datagram received, the
  result of a send, and the clock, as a function from the number of readings made so far in the call.

  \<^bold>\<open>Parameters.\<close> XXH32 is any function on bytes. Ed25519 (Monocypher) is a record of three functions; where a proof needs it, the
  hypothesis \<open>ed25519_laws\<close> says that signatures have 64 bytes and that one made with a generated key verifies;
  \<open>example_ed\<close> is an instance, used by the witnesses. Floating-point arithmetic is over the reals with a rounding function applied after every
  operation, of which \<open>rounding\<close> asks that it is monotone and exact on whole numbers up to \<open>2^53\<close>. The transport wrapped by the
  asynchronous transport is the sequence of its results. The kernel, mbedTLS and DPDK are what they answer: results of calls are arguments of the
  operation that makes them, error codes a record, and the operations the kernel holds a part of the state, which its steps
  complete in any order; that preparing an entry of an io_uring is not interrupted by other threads, which liburing asks of its callers, is assumed. A browser is what its sockets deliver and when its timers fire; the memory behind a buffer is any list of bytes.

  \<^bold>\<open>What is shown.\<close>
  \<^item> Wire: for every frame type decoding inverts encoding; a whole packet of any frames that fit survives the wire, for every hash function; for arbitrary
    bytes the decoder hands out consecutive, complete pieces of the payload and nothing else.
  \<^item> CRDTs: strong eventual consistency of register and counters over arbitrary byte messages; for the observed-remove set, that adds win,
    which messages commute, that snapshots transfer the state and that tags are fresh; where the code falls short of it (identity takeover,
    one-byte counts, forgotten tombstones) the exact behaviour.
  \<^item> State: the registry keeps its invariant and collects every delta once; path matching is segment-wise; rate limits, credits and limited watches
    are respected; compaction and recovery lose nothing.
  \<^item> Reliability: the receive window is a set of packet numbers; what an acknowledgement covers; any single loss of a group is
    rebuilt by the parity packet; rates stay in bounds and all conversions are defined while the stated time limits hold; the outbox keeps the latest.
  \<^item> Connections, routing, security: the handshake completes and packets that are no handshake change nothing; an established connection keeps its identity and moves only
    forward while CONNECT frames reach idle connections only; ids are distinct until they wrap; routes are unique and, with a configuration in range, weighted in [0, 1], hops are the
    best healthy neighbours, and a failing neighbour is dropped; tokens survive their transfer and delegation never
    gains permissions or time, though it may gain paths.
  \<^item> Relay: a relay at full resolution gives the downstream replica the state it would have had without the relay.
  \<^item> Transports: a loopback bus delivers in order per endpoint; in every interleaving of threads each queued send is reported exactly once, and
    stopping ends in a bounded number of steps. Sockets are opened and closed properly whatever the kernel answers; the native asynchronous
    transports report each send at most once and lose none but those in a queue that is closed or replaced; a DTLS handshake ends, and nothing passes without a session; a DPDK frame carries its
    payload and sender.
  \<^item> Peers: whatever is called, the invariants of the parts hold together; what is flushed and delivered, in any order, with
    losses and repetitions, is exactly what is applied; only frames with a valid signature change the state, and forged ones are reported; access control keeps
    STATE_DELTA frames from regions without a WRITE token; the non-blocking handshake connects; and what access control does not look at. Turn by turn over a bus, the server's register holds the last value written and its counter grows by
    what was added, as long as the 32-bit time stamps grow.
  \<^item> C interface and tools: written values are read back, through the C interface and in every language; draining the queue
    of a browser transport hands over every packet in order; hex output is read back; a capture is decoded packet by packet; the counters of the
    inspector are exact.

  \<^bold>\<open>Bounds and fuel.\<close> No function needs fuel. All are total but the loops whose end depends on a clock or a library: the DTLS
  handshake and the two connection promises of the browser are partial functions into \<open>option\<close>, and are shown to return once the clock has passed the
  limit. The other loops of the source end on their data (buffers, containers, windows of fixed size), and blocking calls are modelled by what they receive. The stopping of the asynchronous transport, whose threads are a step relation, is
  shown to end within four times as many steps as it has threads. Hypotheses on sizes (fewer than 256 nodes, 65536 bytes) are those of the
  wire fields; where the code does not check them, a lemma shows what then happens.

  \<^bold>\<open>Not modelled.\<close> The interior of the kernel, mbedTLS, DPDK, Monocypher and xxHash; \<^verbatim>\<open>util/clock.h\<close>, which reads the clock, and \<^verbatim>\<open>random_bytes\<close>, which reads
  the random source. Of the transports the Windows variants of the socket calls, where they differ in types only. Of the bindings the generated and
  declared imports, library loading, handles, pinning and object lifetimes, and the calls that hand one argument to the C interface and return
  nothing. The rest of \<^verbatim>\<open>examples/\<close> prints and waits. Memory management, destructors (beyond the \<^verbatim>\<open>close\<close> they call) and the locking inside
  single-threaded classes have no counterpart. The CRDT types MV_REGISTER and RGA are names without an implementation in the code.
\<close>

end
